(* ===== verification/Kora_Prelude.thy ===== *)
theory Kora_Prelude
  imports Main "HOL-Library.Word" "HOL-Library.AList" "HOL-Library.Product_Lexorder"
    "HOL-Library.Multiset"
begin

text \<open>
  Shared vocabulary of the development: the machine types of the Rust sources, the
  standard-library operations the components use (saturating arithmetic, three-way
  comparison, \<open>Iterator::min_by\<close>, \<open>slice::binary_search_by\<close>, hash maps), and the
  generic lemmas about them that every component proof rests on.
\<close>

section \<open>Machine types\<close>

type_synonym u8 = "8 word"
type_synonym u64 = "64 word"
type_synonym u128 = "128 word"
type_synonym u256 = "256 word"
type_synonym b256 = "256 word"
type_synonym address = "160 word"
type_synonym bytes = "8 word list"

text \<open>
  \<open>usize\<close> values are lengths of in-memory sequences or configured limits on them; they are
  natural numbers here. \<open>Result<T, E>\<close> is the sum \<open>'e + 'a\<close>, the error on the left.
\<close>

named_theorems codec_simps \<open>equations of the byte-level encoders and decoders\<close>
named_theorems pool_defs \<open>definitions of the transaction pool's operations\<close>
named_theorems store_defs \<open>definitions of the storage layer's operations\<close>

section \<open>Saturating arithmetic\<close>

definition saturating_add :: "'a::len word \<Rightarrow> 'a word \<Rightarrow> 'a word" where
  "saturating_add a b = (if unat a + unat b < 2 ^ LENGTH('a) then a + b else - 1)"

definition saturating_sub :: "'a::len word \<Rightarrow> 'a word \<Rightarrow> 'a word" where
  "saturating_sub a b = (if b \<le> a then a - b else 0)"

lemma unat_saturating_add:
  "unat (saturating_add a b) = min (unat a + unat b) (2 ^ LENGTH('a) - 1)"
  for a b :: "'a::len word"
  by (auto simp: saturating_add_def unat_word_ariths unsigned_minus_1_eq_mask mask_eq_exp_minus_1)

lemma unat_saturating_sub: "unat (saturating_sub a b) = unat a - unat b"
  by (auto simp: saturating_sub_def unat_sub word_le_nat_alt not_le)

lemma saturating_add_exact:
  "unat a + unat b < 2 ^ LENGTH('a) \<Longrightarrow> saturating_add a b = a + b" for a b :: "'a::len word"
  by (simp add: saturating_add_def)

lemma word_less_Suc: "a \<noteq> - 1 \<Longrightarrow> a < a + 1" for a :: "'a::len word"
  using inc_less_eq_triv_imp [of a] by (auto simp: not_le [symmetric])

lemma saturating_Suc: "a \<noteq> - 1 \<Longrightarrow> saturating_add a 1 = a + 1" for a :: u64
proof -
  assume "a \<noteq> - 1"
  then have "unat a < unat (a + 1)" by (simp add: word_less_Suc word_less_nat_alt [symmetric])
  then have "unat a + unat (1 :: u64) < 2 ^ LENGTH(64)"
    using unsigned_less [where w = a] by (simp add: unat_word_ariths mod_if split: if_splits)
  then show ?thesis by (rule saturating_add_exact)
qed

lemma less_saturating_Suc: "a \<noteq> - 1 \<Longrightarrow> a < saturating_add a 1" for a :: u64
  by (simp add: saturating_Suc word_less_Suc)

lemma unat_u64_less: "unat (w :: u64) < 2 ^ 64"
  using unsigned_less [where w = w] by simp

section \<open>Three-way comparison\<close>

datatype ordering = Less | Equal | Greater

definition cmp :: "'a::linorder \<Rightarrow> 'a \<Rightarrow> ordering" where
  "cmp a b = (if a < b then Less else if a = b then Equal else Greater)"

definition then_with :: "ordering \<Rightarrow> ordering \<Rightarrow> ordering" where
  "then_with a b = (if a = Equal then b else a)"

lemma cmp_simps [simp]:
  "cmp a b = Less \<longleftrightarrow> a < b" "cmp a b = Equal \<longleftrightarrow> a = b" "cmp a b = Greater \<longleftrightarrow> b < a"
  by (auto simp: cmp_def)

lemma cmp_pair: "cmp (a, b) (c, d) = then_with (cmp a c) (cmp b d)"
  by (auto simp: cmp_def then_with_def)

text \<open>\<open>std::cmp::Reverse\<close>: the same values in the opposite order.\<close>

datatype 'a reverse = Reverse 'a

fun un_reverse :: "'a reverse \<Rightarrow> 'a" where
  "un_reverse (Reverse a) = a"

instantiation reverse :: (linorder) linorder
begin

definition less_eq_reverse :: "'a reverse \<Rightarrow> 'a reverse \<Rightarrow> bool" where
  "less_eq_reverse a b = (un_reverse b \<le> un_reverse a)"

definition less_reverse :: "'a reverse \<Rightarrow> 'a reverse \<Rightarrow> bool" where
  "less_reverse a b = (un_reverse b < un_reverse a)"

instance
proof
  fix x y z :: "'a reverse"
  show "(x < y) = (x \<le> y \<and> \<not> y \<le> x)"
    by (auto simp: less_eq_reverse_def less_reverse_def)
  show "x \<le> x" by (simp add: less_eq_reverse_def)
  show "x \<le> y \<Longrightarrow> y \<le> z \<Longrightarrow> x \<le> z" by (auto simp: less_eq_reverse_def)
  show "x \<le> y \<Longrightarrow> y \<le> x \<Longrightarrow> x = y" by (cases x; cases y) (auto simp: less_eq_reverse_def)
  show "x \<le> y \<or> y \<le> x" by (auto simp: less_eq_reverse_def)
qed

end

lemma reverse_le [simp]: "Reverse a \<le> Reverse b \<longleftrightarrow> b \<le> a"
  by (simp add: less_eq_reverse_def)

lemma reverse_less [simp]: "Reverse a < Reverse b \<longleftrightarrow> b < a"
  by (simp add: less_reverse_def)

lemma cmp_Reverse [simp]: "cmp (Reverse a) (Reverse b) = cmp b a"
  by (auto simp: cmp_def)

section \<open>Minimum of an iterator\<close>

text \<open>\<open>Iterator::min_by\<close> keeps the earlier of two equal elements.\<close>

fun min_by :: "('a \<Rightarrow> 'a \<Rightarrow> ordering) \<Rightarrow> 'a list \<Rightarrow> 'a option" where
  "min_by c [] = None"
| "min_by c (x # xs) = Some (fold (\<lambda>y m. if c m y = Greater then y else m) xs x)"

definition min_by_key :: "('a \<Rightarrow> 'k::linorder) \<Rightarrow> 'a list \<Rightarrow> 'a option" where
  "min_by_key f xs = min_by (\<lambda>a b. cmp (f a) (f b)) xs"

lemma fold_min_by_key:
  fixes f :: "'a \<Rightarrow> 'k::linorder" and xs :: "'a list" and x :: 'a
  defines "r \<equiv> fold (\<lambda>y m. if f y < f m then y else m) xs x"
  shows "r \<in> set (x # xs) \<and> (\<forall>y \<in> set (x # xs). f r \<le> f y)"
  unfolding r_def
proof (induction xs arbitrary: x)
  case (Cons z zs)
  show ?case
  proof (cases "f z < f x")
    case True
    with Cons.IH [of z] show ?thesis by fastforce
  next
    case False
    with Cons.IH [of x] show ?thesis by fastforce
  qed
qed simp

lemma min_by_key_None [simp]: "min_by_key f xs = None \<longleftrightarrow> xs = []"
  by (cases xs) (auto simp: min_by_key_def)

lemma min_by_key_Nil [simp]: "min_by_key f [] = None"
  by (simp add: min_by_key_def)

lemma min_by_key_Some:
  assumes "min_by_key f xs = Some m"
  shows "m \<in> set xs" and "y \<in> set xs \<Longrightarrow> f m \<le> f y"
proof -
  obtain z zs where xs: "xs = z # zs" using assms by (cases xs) auto
  then have m: "m = fold (\<lambda>y m. if f y < f m then y else m) zs z"
    using assms by (simp add: min_by_key_def)
  show "m \<in> set xs" using fold_min_by_key [where f = f and xs = zs and x = z] by (simp add: m xs)
  show "y \<in> set xs \<Longrightarrow> f m \<le> f y"
    using fold_min_by_key [where f = f and xs = zs and x = z] by (auto simp: m xs)
qed

text \<open>With an injective key the minimum does not depend on the iteration order.\<close>

lemma min_by_key_set_cong:
  assumes "set xs = set ys" and inj: "inj_on f (set xs)"
  shows "min_by_key f xs = min_by_key f ys"
proof (cases "min_by_key f xs")
  case None
  then show ?thesis using assms by auto
next
  case (Some m)
  then obtain m' where m': "min_by_key f ys = Some m'"
    using assms(1) by (cases "min_by_key f ys") auto
  have "f m \<le> f m'" "f m' \<le> f m" "m \<in> set xs" "m' \<in> set xs"
    using min_by_key_Some [OF Some] min_by_key_Some [OF m'] assms(1) by auto
  then have "m = m'" using inj by (meson inj_onD antisym)
  with Some m' show ?thesis by simp
qed

section \<open>Sorting by a key\<close>

lemma strict_sort_key:
  assumes "distinct (map f xs)"
  shows "sorted_wrt (\<lambda>a b. f a < f b) (sort_key f xs)"
proof -
  have "mset (map f (sort_key f xs)) = mset (map f xs)" by simp
  then have "distinct (map f (sort_key f xs))"
    using assms mset_eq_imp_distinct_iff by blast
  then have "sorted_wrt (<) (map f (sort_key f xs))" by (simp add: strict_sorted_iff)
  then show ?thesis by (simp add: sorted_wrt_map)
qed

lemma distinct_map_key: "distinct (map f xs) \<Longrightarrow> x \<in> set xs \<Longrightarrow> y \<in> set xs \<Longrightarrow> f x = f y \<Longrightarrow> x = y"
  by (meson distinct_map inj_onD)

lemma set_from_mset_remove:
  assumes "distinct xs" and "mset ys = mset xs - {#x#}"
  shows "set ys = set xs - {x}"
proof -
  have "mset ys = mset (remove1 x xs)" using assms(2) by simp
  then have "set ys = set (remove1 x xs)" by (rule mset_eq_setD)
  then show ?thesis using assms(1) by simp
qed

lemma set_from_mset_add: "mset ys = add_mset x M \<Longrightarrow> set ys = insert x (set_mset M)"
  by (metis set_mset_add_mset_insert set_mset_mset)

section \<open>Binary search\<close>

text \<open>
  \<open>slice::binary_search_by\<close> of the Rust standard library. \<open>Inr pos\<close> is \<open>Ok(pos)\<close> (an element
  that compares equal), \<open>Inl pos\<close> is \<open>Err(pos)\<close> (where such an element would go). The loop
  halves \<open>sz\<close> until one candidate is left.
\<close>

function bsearch_loop :: "('a \<Rightarrow> ordering) \<Rightarrow> 'a list \<Rightarrow> nat \<Rightarrow> nat \<Rightarrow> nat" where
  "bsearch_loop f xs sz base =
     (if sz > 1 then
        (let half = sz div 2; mid = base + half
         in bsearch_loop f xs (sz - half) (if f (xs ! mid) = Greater then base else mid))
      else base)"
  by pat_completeness auto
termination
  by (relation "measure (\<lambda>(f, xs, sz, base). sz)") auto

declare bsearch_loop.simps [simp del]

definition binary_search_by :: "('a \<Rightarrow> ordering) \<Rightarrow> 'a list \<Rightarrow> nat + nat" where
  "binary_search_by f xs =
     (if xs = [] then Inl 0
      else (let base = bsearch_loop f xs (length xs) 0; c = f (xs ! base)
            in if c = Equal then Inr base
               else Inl (base + (if c = Less then 1 else 0))))"

text \<open>
  The invariant of the loop: nothing before \<open>base\<close> and nothing from \<open>base + sz\<close> on can be
  the element looked for.
\<close>

lemma bsearch_loop_inv:
  fixes key :: "'a \<Rightarrow> 'k::linorder"
  assumes sorted: "sorted_wrt (\<lambda>a b. key a < key b) xs"
  shows "base + sz \<le> length xs \<Longrightarrow> 0 < sz \<Longrightarrow> (0 < base \<longrightarrow> key (xs ! base) \<le> k) \<Longrightarrow>
    (base + sz < length xs \<longrightarrow> k < key (xs ! (base + sz))) \<Longrightarrow>
    bsearch_loop (\<lambda>x. cmp (key x) k) xs sz base = r \<Longrightarrow>
    r < length xs \<and> (0 < r \<longrightarrow> key (xs ! r) \<le> k) \<and> (Suc r < length xs \<longrightarrow> k < key (xs ! Suc r))"
proof (induction sz arbitrary: base rule: less_induct)
  case (less sz)
  show ?case
  proof (cases "sz > 1")
    case True
    let ?half = "sz div 2"
    let ?mid = "base + ?half"
    let ?b = "if k < key (xs ! ?mid) then base else ?mid"
    have rec: "bsearch_loop (\<lambda>x. cmp (key x) k) xs (sz - ?half) ?b = r"
      using less.prems(5) True by (subst (asm) bsearch_loop.simps) (simp add: Let_def)
    have above: "?b + (sz - ?half) < length xs \<longrightarrow> k < key (xs ! (?b + (sz - ?half)))"
    proof (cases "k < key (xs ! ?mid)")
      case gt: True
      have "?mid = base + (sz - ?half) \<or> Suc ?mid = base + (sz - ?half)" by presburger
      moreover have "key (xs ! ?mid) < key (xs ! Suc ?mid)" if "Suc ?mid < length xs"
        using sorted that by (auto simp: sorted_wrt_iff_nth_less)
      ultimately show ?thesis using gt by auto
    next
      case False
      then show ?thesis using less.prems(4) True by auto
    qed
    have "sz - ?half < sz" "?b + (sz - ?half) \<le> length xs" "0 < sz - ?half"
      "0 < ?b \<longrightarrow> key (xs ! ?b) \<le> k"
      using less.prems(1,3) True by auto
    from less.IH [OF this above rec] show ?thesis .
  next
    case False
    with less.prems(2) have "sz = 1" by simp
    moreover from False less.prems(5) have "r = base" by (subst (asm) bsearch_loop.simps) simp
    ultimately show ?thesis using less.prems by simp
  qed
qed

text \<open>
  On a strictly sorted sequence the search agrees with the reference: it finds the element
  with the key when there is one, and otherwise the only position that keeps the order.
\<close>

lemma binary_search_by_Inr:
  fixes key :: "'a \<Rightarrow> 'k::linorder"
  assumes "sorted_wrt (\<lambda>a b. key a < key b) xs"
    and "binary_search_by (\<lambda>x. cmp (key x) k) xs = Inr pos"
  shows "pos < length xs" and "key (xs ! pos) = k"
proof -
  obtain r where r: "bsearch_loop (\<lambda>x. cmp (key x) k) xs (length xs) 0 = r" by simp
  from assms(2) have ne: "xs \<noteq> []" by (auto simp: binary_search_by_def)
  have "r < length xs" using bsearch_loop_inv [OF assms(1) _ _ _ _ r] ne by simp
  with assms(2) r ne show "pos < length xs" "key (xs ! pos) = k"
    by (auto simp: binary_search_by_def Let_def split: if_splits)
qed

lemma binary_search_by_Inl:
  fixes key :: "'a \<Rightarrow> 'k::linorder"
  assumes sorted: "sorted_wrt (\<lambda>a b. key a < key b) xs"
    and search: "binary_search_by (\<lambda>x. cmp (key x) k) xs = Inl pos"
  shows "pos \<le> length xs" and "\<forall>x \<in> set (take pos xs). key x < k"
    and "\<forall>x \<in> set (drop pos xs). k < key x"
proof -
  have *: "pos \<le> length xs \<and> (\<forall>i < pos. key (xs ! i) < k) \<and>
    (\<forall>i < length xs. pos \<le> i \<longrightarrow> k < key (xs ! i))"
  proof (cases "xs = []")
    case True
    with search show ?thesis by (simp add: binary_search_by_def)
  next
    case False
    obtain r where r: "bsearch_loop (\<lambda>x. cmp (key x) k) xs (length xs) 0 = r" by simp
    have inv: "r < length xs" "0 < r \<longrightarrow> key (xs ! r) \<le> k"
      "Suc r < length xs \<longrightarrow> k < key (xs ! Suc r)"
      using bsearch_loop_inv [OF sorted _ _ _ _ r] False by simp_all
    have mono: "key (xs ! i) < key (xs ! j)" if "i < j" "j < length xs" for i j
      using sorted that by (simp add: sorted_wrt_iff_nth_less)
    show ?thesis
    proof (cases "key (xs ! r) < k")
      case True
      with search r False have pos: "pos = Suc r"
        by (auto simp: binary_search_by_def Let_def split: if_splits)
      have "key (xs ! i) < k" if "i < pos" for i
        using that True mono [of i r] inv(1) pos by (cases "i = r") auto
      moreover have "k < key (xs ! i)" if "i < length xs" "pos \<le> i" for i
        using that inv(3) mono [of "Suc r" i] pos by (cases "i = Suc r") auto
      ultimately show ?thesis using pos inv(1) by auto
    next
      case ge: False
      with search r False have pos: "pos = r" and gt: "k < key (xs ! r)"
        by (auto simp: binary_search_by_def Let_def split: if_splits)
      with inv(2) have "r = 0" by auto
      moreover have "k < key (xs ! i)" if "i < length xs" for i
        using that gt mono [of r i] \<open>r = 0\<close> by (cases "i = 0") auto
      ultimately show ?thesis using pos by auto
    qed
  qed
  then show "pos \<le> length xs" by simp
  from * show "\<forall>x \<in> set (take pos xs). key x < k"
    by (auto simp: in_set_conv_nth)
  from * show "\<forall>x \<in> set (drop pos xs). k < key x"
    by (auto simp: in_set_conv_nth)
qed

section \<open>Hash maps\<close>

text \<open>
  A \<open>HashMap\<close> is an association list in its (arbitrary) iteration order, with distinct keys.
\<close>

type_synonym ('k, 'v) hash_map = "('k \<times> 'v) list"

abbreviation hm_get :: "('k, 'v) hash_map \<Rightarrow> 'k \<Rightarrow> 'v option" where
  "hm_get m k \<equiv> map_of m k"

abbreviation hm_insert :: "'k \<Rightarrow> 'v \<Rightarrow> ('k, 'v) hash_map \<Rightarrow> ('k, 'v) hash_map" where
  "hm_insert k v m \<equiv> AList.update k v m"

abbreviation hm_remove :: "'k \<Rightarrow> ('k, 'v) hash_map \<Rightarrow> ('k, 'v) hash_map" where
  "hm_remove k m \<equiv> AList.delete k m"

abbreviation hm_wf :: "('k, 'v) hash_map \<Rightarrow> bool" where
  "hm_wf m \<equiv> distinct (map fst m)"

locale map_store =
  fixes get :: "'m \<Rightarrow> 'k \<Rightarrow> 'v option"
    and put :: "'k \<Rightarrow> 'v \<Rightarrow> 'm \<Rightarrow> 'm"
    and remove :: "'k \<Rightarrow> 'm \<Rightarrow> 'm"
    and wf :: "'m \<Rightarrow> bool"
  assumes get_put: "get (put k v m) k' = (if k' = k then Some v else get m k')"
    and get_remove: "get (remove k m) k' = (if k' = k then None else get m k')"
    and wf_put: "wf m \<Longrightarrow> wf (put k v m)"
    and wf_remove: "wf m \<Longrightarrow> wf (remove k m)"
begin

text \<open>Removing a list of keys, as the pruning loops of the pools do.\<close>

lemma get_fold_remove: "get (fold remove ks m) k = (if k \<in> set ks then None else get m k)"
  by (induction ks arbitrary: m) (auto simp: get_remove)

lemma wf_fold_remove: "wf m \<Longrightarrow> wf (fold remove ks m)"
  by (induction ks arbitrary: m) (auto simp: wf_remove)

lemma remove_put: "get (remove k (put k v m)) = (get m)(k := None)"
  by (auto simp: get_put get_remove)

end

interpretation hm: map_store hm_get hm_insert hm_remove hm_wf
  by unfold_locales (auto simp: update_conv' delete_conv' distinct_update distinct_delete)

lemma length_hm_remove_less: "hm_get m k = Some v \<Longrightarrow> length (hm_remove k m) < length m"
proof -
  assume "hm_get m k = Some v"
  then have "(k, v) \<in> set m" by (rule map_of_SomeD)
  then show ?thesis by (auto simp: AList.delete_eq intro: length_filter_less)
qed

text \<open>An update or removal at an existing key, in terms of the list around that key.\<close>

lemma hm_split:
  assumes "hm_wf m" and "hm_get m k = Some v"
  obtains xs ys where "m = xs @ (k, v) # ys" "\<And>w. hm_insert k w m = xs @ (k, w) # ys"
    "hm_remove k m = xs @ ys"
proof -
  from assms(2) have "(k, v) \<in> set m" by (rule map_of_SomeD)
  then obtain xs ys where m: "m = xs @ (k, v) # ys" by (meson split_list)
  with assms(1) have "\<forall>e \<in> set xs. fst e \<noteq> k" "\<forall>e \<in> set ys. fst e \<noteq> k" by (auto intro: rev_image_eqI)
  then have "hm_insert k w m = xs @ (k, w) # ys" "hm_remove k m = xs @ ys" for w
    unfolding m by (induction xs) (auto simp: AList.delete_eq filter_id_conv)
  with m show ?thesis using that by blast
qed

lemma hm_insert_same: "hm_wf m \<Longrightarrow> hm_get m k = Some v \<Longrightarrow> hm_insert k v m = m"
  by (rule hm_split [of m k v]) auto

lemma hm_wf_get: "hm_wf m \<Longrightarrow> (k, v) \<in> set m \<Longrightarrow> hm_get m k = Some v"
  by simp

section \<open>Ordered maps\<close>

text \<open>
  A \<open>BTreeMap\<close> is an association list with strictly increasing keys, the order in which
  the sources iterate over it.
\<close>

type_synonym ('k, 'v) btree_map = "('k \<times> 'v) list"

fun bt_insert :: "'k::linorder \<Rightarrow> 'v \<Rightarrow> ('k, 'v) btree_map \<Rightarrow> ('k, 'v) btree_map" where
  "bt_insert k v [] = [(k, v)]"
| "bt_insert k v (e # m) =
     (case cmp k (fst e) of
        Less \<Rightarrow> (k, v) # e # m
      | Equal \<Rightarrow> (k, v) # m
      | Greater \<Rightarrow> e # bt_insert k v m)"

abbreviation bt_get :: "('k, 'v) btree_map \<Rightarrow> 'k \<Rightarrow> 'v option" where
  "bt_get m k \<equiv> map_of m k"

abbreviation bt_remove :: "'k \<Rightarrow> ('k, 'v) btree_map \<Rightarrow> ('k, 'v) btree_map" where
  "bt_remove k m \<equiv> AList.delete k m"

abbreviation bt_wf :: "('k::linorder, 'v) btree_map \<Rightarrow> bool" where
  "bt_wf m \<equiv> sorted_wrt (<) (map fst m)"

lemma bt_get_insert [simp]: "bt_get (bt_insert k v m) k' = (if k' = k then Some v else bt_get m k')"
  by (induction m) (auto split: ordering.splits simp: cmp_def)

lemma set_fst_bt_insert [simp]: "fst ` set (bt_insert k v m) = insert k (fst ` set m)"
  by (induction m) (auto split: ordering.splits simp: cmp_def)

lemma bt_wf_insert [intro]: "bt_wf m \<Longrightarrow> bt_wf (bt_insert k v m)"
  by (induction m) (fastforce split: ordering.splits simp: cmp_def)+

lemma bt_wf_distinct: "bt_wf m \<Longrightarrow> distinct (map fst m)"
  by (induction m) auto

lemma bt_insert_last:
  "\<forall>k' \<in> fst ` set m. k' < k \<Longrightarrow> bt_insert k v m = m @ [(k, v)]"
  by (induction m) (auto split: ordering.splits simp: cmp_def)

text \<open>Re-inserting the entries of an ordered map in iteration order rebuilds it.\<close>

lemma fold_bt_insert_append:
  "bt_wf (m @ es) \<Longrightarrow> fold (\<lambda>(k, v). bt_insert k v) es m = m @ es"
proof (induction es arbitrary: m)
  case (Cons e es)
  then have "\<forall>k' \<in> fst ` set m. k' < fst e" by (auto simp: sorted_wrt_append)
  then have "bt_insert (fst e) (snd e) m = m @ [e]"
    using bt_insert_last [of m "fst e" "snd e"] by simp
  with Cons show ?case by (simp add: case_prod_unfold)
qed simp

lemma fold_bt_insert_id: "bt_wf es \<Longrightarrow> fold (\<lambda>(k, v). bt_insert k v) es [] = es"
  using fold_bt_insert_append [of "[]" es] by simp

lemma map_of_fold_bt_insert:
  "distinct (map fst es) \<Longrightarrow>
     map_of (fold (\<lambda>(k, v). bt_insert k v) es m) k =
       (case map_of es k of Some v \<Rightarrow> Some v | None \<Rightarrow> map_of m k)"
proof (induction es arbitrary: m)
  case (Cons e es)
  obtain k' v where e: "e = (k', v)" by (cases e)
  have "map_of es k' = None" using Cons.prems e by (auto simp: map_of_eq_None_iff)
  with Cons show ?case by (auto simp: e split: option.split)
qed simp

lemma bt_wf_fold_insert: "bt_wf m \<Longrightarrow> bt_wf (fold (\<lambda>(k, v). bt_insert k v) es m)"
  by (induction es arbitrary: m) (auto simp: case_prod_unfold)

text \<open>Two ordered maps with the same entries are the same.\<close>

lemma bt_wf_ext:
  assumes wf: "bt_wf m" "bt_wf m'" and eq: "map_of m = map_of m'"
  shows "m = m'"
proof -
  have dist: "distinct (map fst m)" "distinct (map fst m')"
    using wf by (simp_all add: bt_wf_distinct)
  then have set_eq: "set m = set m'"
    using eq map_of_inject_set by blast
  have "inj_on fst (set m \<union> set m')"
    using dist(1) by (simp add: set_eq distinct_map)
  moreover have "sorted (map fst m)" "sorted (map fst m')"
    using wf by (simp_all add: strict_sorted_iff)
  ultimately show ?thesis
    using dist set_eq by (intro map_sorted_distinct_set_unique [where f = fst])
qed

lemma bt_wf_remove [intro]: "bt_wf m \<Longrightarrow> bt_wf (bt_remove k m)"
  by (auto simp: AList.delete_eq sorted_wrt_map sorted_wrt_filter)

interpretation bt: map_store bt_get bt_insert bt_remove bt_wf
proof unfold_locales
  show "bt_get (bt_remove k m) k' = (if k' = k then None else bt_get m k')"
    for k k' :: 'a and m :: "('a, 'b) btree_map"
    by (simp add: delete_conv')
qed auto

end
