(* ===== verification/Codec.thy ===== *)
theory Codec
  imports Kora_Prelude
begin

text \<open>
  Byte-level encoders and decoders. A decoder consumes a prefix of the buffer and returns
  the value with the remaining bytes, as \<open>commonware_codec::Read\<close> does on a \<open>Buf\<close>. The
  locale \<open>codec\<close> is the contract between an encoder and its decoder; the identifier codecs
  of \<open>crates/node/domain/src/idents.rs\<close> and \<open>commitment.rs\<close> are instances of it.
\<close>

section \<open>The codec contract\<close>

text \<open>
  \<open>commonware_codec::Error\<close>: the three errors that the sources construct themselves; every other
  error comes out of the library.
\<close>

datatype codec_error = EndOfBuffer | InvalidEnum u8 | InvalidLength nat | LibraryError string

type_synonym 'a reader = "bytes \<Rightarrow> codec_error + ('a \<times> bytes)"

locale codec =
  fixes encode :: "'a \<Rightarrow> bytes" and decode :: "'a reader" and valid :: "'a \<Rightarrow> bool"
  assumes decode_encode: "valid x \<Longrightarrow> decode (encode x @ rest) = Inr (x, rest)"
begin

lemma decode_encode_exact: "valid x \<Longrightarrow> decode (encode x) = Inr (x, [])"
  using decode_encode [of x "[]"] by simp

lemma prefix_free:
  "valid x \<Longrightarrow> valid y \<Longrightarrow> encode x @ r = encode y @ s \<Longrightarrow> x = y \<and> r = s"
  by (metis Inr_inject prod.inject decode_encode)

lemma encode_inj: "valid x \<Longrightarrow> valid y \<Longrightarrow> encode x = encode y \<Longrightarrow> x = y"
  using prefix_free [of x y "[]" "[]"] by simp

end

text \<open>A byte string literal of the sources.\<close>

definition ascii :: "string \<Rightarrow> bytes" where
  "ascii s = map of_char s"

text \<open>Sequencing in the error monad, the \<open>?\<close> operator of the sources.\<close>

definition bind_read :: "'a reader \<Rightarrow> ('a \<Rightarrow> 'b reader) \<Rightarrow> 'b reader" where
  "bind_read r k buf = (case r buf of Inl e \<Rightarrow> Inl e | Inr (x, rest) \<Rightarrow> k x rest)"

definition return_read :: "'a \<Rightarrow> 'a reader" where
  "return_read x buf = Inr (x, buf)"

lemma bind_read_write [codec_simps]:
  "codec w r v \<Longrightarrow> v x \<Longrightarrow> bind_read r k (w x @ rest) = k x rest"
  by (simp add: bind_read_def codec.decode_encode)

lemma return_read_apply [codec_simps]: "return_read x buf = Inr (x, buf)"
  by (simp add: return_read_def)

lemma bind_read_Inl: "r buf = Inl e \<Longrightarrow> bind_read r k buf = Inl e"
  by (simp add: bind_read_def)

text \<open>Reading \<open>n\<close> items in a row, the \<open>for _ in 0..n\<close> loops of the sources.\<close>

fun read_n :: "'a reader \<Rightarrow> nat \<Rightarrow> 'a list reader" where
  "read_n r 0 = return_read []"
| "read_n r (Suc n) = bind_read r (\<lambda>x. bind_read (read_n r n) (\<lambda>xs. return_read (x # xs)))"

lemma read_n_write [codec_simps]:
  assumes "codec w r v" and "\<forall>x \<in> set xs. v x"
  shows "bind_read (read_n r (length xs)) k (concat (map w xs) @ rest) = k xs rest"
  using assms(2)
proof (induction xs arbitrary: k rest)
  case Nil
  then show ?case by (simp add: bind_read_def return_read_def)
next
  case (Cons x xs)
  from Cons.prems have "bind_read (read_n r (length (x # xs))) k (w x @ (concat (map w xs) @ rest))
      = bind_read (read_n r (length xs)) (\<lambda>ys. k (x # ys)) (concat (map w xs) @ rest)"
    using codec.decode_encode [OF assms(1), of x]
    by (auto simp: bind_read_def return_read_def split: sum.splits)
  then show ?case using Cons by simp
qed

section \<open>Fixed-width big-endian integers\<close>

definition to_be_bytes :: "nat \<Rightarrow> 'a::len word \<Rightarrow> bytes" where
  "to_be_bytes n w = map (\<lambda>i. of_nat (unat w div 256 ^ i)) (rev [0..<n])"

definition from_be_bytes :: "bytes \<Rightarrow> 'a::len word" where
  "from_be_bytes bs = of_nat (foldl (\<lambda>acc b. acc * 256 + unat b) 0 bs)"

lemma length_to_be_bytes [simp]: "length (to_be_bytes n w) = n"
  by (simp add: to_be_bytes_def)

lemma foldl_be_nat:
  "foldl (\<lambda>acc b. acc * 256 + unat (b :: u8)) 0
     (map (\<lambda>i. of_nat (x div 256 ^ i)) (rev [0..<n])) = x mod 256 ^ n"
proof -
  have "foldl (\<lambda>acc b. acc * 256 + unat (b :: u8)) a
      (map (\<lambda>i. of_nat (x div 256 ^ i)) (rev [0..<n])) = a * 256 ^ n + x mod 256 ^ n" for a
  proof (induction n arbitrary: a)
    case (Suc n)
    have "x mod 256 ^ Suc n = (x div 256 ^ n mod 256) * 256 ^ n + x mod 256 ^ n"
      by (metis mod_mult2_eq mult.commute power_Suc2 add.commute)
    with Suc show ?case by (simp add: unat_of_nat algebra_simps)
  qed simp
  from this [of 0] show ?thesis by simp
qed

lemma from_to_be_bytes:
  "8 * n = LENGTH('a) \<Longrightarrow> from_be_bytes (to_be_bytes n w) = w" for w :: "'a::len word"
proof -
  assume n: "8 * n = LENGTH('a)"
  have "(256 :: nat) ^ n = (2 ^ 8) ^ n" by simp
  also have "\<dots> = 2 ^ LENGTH('a)" by (simp only: power_mult [symmetric] n)
  finally have "(256 :: nat) ^ n = 2 ^ LENGTH('a)" .
  then show ?thesis
    by (simp add: from_be_bytes_def to_be_bytes_def foldl_be_nat)
qed

lemma foldl_be_bound: "foldl (\<lambda>acc b. acc * 256 + unat (b :: u8)) 0 bs < 256 ^ length bs"
proof (induction bs rule: rev_induct)
  case (snoc b bs)
  have "unat b < 256" using unsigned_less [where w = b] by simp
  with snoc show ?case by simp
qed simp

lemma to_from_be_bytes:
  assumes n: "8 * n = LENGTH('a)" and len: "length bs = n"
  shows "to_be_bytes n (from_be_bytes bs :: 'a::len word) = bs"
proof -
  let ?f = "\<lambda>bs. foldl (\<lambda>acc b. acc * 256 + unat (b :: u8)) 0 bs"
  have digits: "map (\<lambda>i. of_nat (?f bs div 256 ^ i)) (rev [0..<length bs]) = bs" for bs :: bytes
  proof (induction bs rule: rev_induct)
    case (snoc b bs)
    have b: "unat b < 256" using unsigned_less [where w = b] by simp
    have "of_nat (?f (bs @ [b]) div 256 ^ Suc i) = (of_nat (?f bs div 256 ^ i) :: u8)" for i
    proof -
      have "?f (bs @ [b]) div 256 = ?f bs" using b by simp
      then show ?thesis by (simp add: div_mult2_eq)
    qed
    then have "map (\<lambda>i. of_nat (?f (bs @ [b]) div 256 ^ i)) (rev [0..<Suc (length bs)])
        = map (\<lambda>i. of_nat (?f bs div 256 ^ i)) (rev [0..<length bs])
          @ [of_nat (?f (bs @ [b])) :: u8]"
      by (simp add: upt_conv_Cons map_Suc_upt [symmetric] rev_map del: upt_Suc foldl_append)
    moreover have "of_nat (?f (bs @ [b])) = (b :: u8)"
    proof -
      have "of_nat (?f bs * 256) = (0 :: u8)"
        by (simp only: word_of_nat_eq_0_iff) simp
      then show ?thesis by (simp only: foldl_append foldl.simps of_nat_add) simp
    qed
    ultimately show ?case using snoc by simp
  qed simp
  have "(256 :: nat) ^ n = (2 ^ 8) ^ n" by simp
  also have "\<dots> = 2 ^ LENGTH('a)" by (simp only: power_mult [symmetric] n)
  finally have "?f bs < 2 ^ LENGTH('a)" using foldl_be_bound [of bs] len by simp
  then have "unat (from_be_bytes bs :: 'a word) = ?f bs"
    by (simp add: from_be_bytes_def unat_of_nat)
  then show ?thesis using digits [of bs] by (simp add: to_be_bytes_def len)
qed

text \<open>
  The reader shared by every fixed-width identifier: \<open>remaining() < n\<close> is an error, otherwise
  \<open>copy_to_slice\<close> takes \<open>n\<close> bytes.
\<close>

definition read_fixed :: "nat \<Rightarrow> 'a::len word reader" where
  "read_fixed n buf =
     (if length buf < n then Inl EndOfBuffer else Inr (from_be_bytes (take n buf), drop n buf))"

lemma codec_fixed:
  "8 * n = LENGTH('a) \<Longrightarrow> codec (to_be_bytes n :: 'a::len word \<Rightarrow> bytes) (read_fixed n) (\<lambda>_. True)"
  by unfold_locales (simp add: read_fixed_def from_to_be_bytes)

lemma read_fixed_consumes: "read_fixed n buf = Inr (x, rest) \<Longrightarrow> length buf = n + length rest"
  by (auto simp: read_fixed_def split: if_splits)

end
