(* ===== verification/Externs.thy ===== *)
theory Externs
  imports Codec
begin

text \<open>
  What the sources take from other packages: the primitive codecs of \<open>commonware_codec\<close>, the
  hash functions, the transaction envelope of \<open>alloy\<close>. These functions are the record
  \<open>externs\<close>, an argument \<open>X\<close> of every definition that uses one of them; \<open>codec_lib_ok\<close> states
  what the codec library documents. The last section gives one concrete instance that
  satisfies it, on which the witnesses of the development compute.
\<close>

section \<open>Transactions and the libraries they rest on\<close>

type_synonym TxId = b256
type_synonym BlockId = b256
type_synonym StateRoot = b256
type_synonym ConsensusDigest = b256

record Tx =
  tx_bytes :: bytes

record TxCfg =
  max_tx_bytes :: nat

text \<open>
  \<open>alloy_consensus::TxEnvelope\<close>, with the fields the sources read. The common part is what
  the \<open>Transaction\<close> trait's accessors return.
\<close>

record tx_common =
  tc_chain_id :: "u64 option"
  tc_nonce :: u64
  tc_gas_limit :: u64
  tc_to :: "address option"
  tc_value :: u256
  tc_input :: bytes

record tx_signature =
  sig_r :: u256
  sig_s :: u256
  sig_v :: bool

type_synonym access_list = "(address \<times> b256 list) list"

datatype TxEnvelope =
    Legacy tx_common tx_signature (gas_price: u128)
  | Eip2930 tx_common tx_signature (gas_price: u128) access_list
  | Eip1559 tx_common tx_signature (max_fee_per_gas: u128) access_list
  | Eip4844 tx_common tx_signature (max_fee_per_gas: u128) access_list
  | Eip7702 tx_common tx_signature (max_fee_per_gas: u128) access_list

fun env_common :: "TxEnvelope \<Rightarrow> tx_common" where
  "env_common (Legacy c s p) = c"
| "env_common (Eip2930 c s p a) = c"
| "env_common (Eip1559 c s p a) = c"
| "env_common (Eip4844 c s p a) = c"
| "env_common (Eip7702 c s p a) = c"

fun env_signature :: "TxEnvelope \<Rightarrow> tx_signature" where
  "env_signature (Legacy c s p) = s"
| "env_signature (Eip2930 c s p a) = s"
| "env_signature (Eip1559 c s p a) = s"
| "env_signature (Eip4844 c s p a) = s"
| "env_signature (Eip7702 c s p a) = s"

text \<open>
  The functions of other packages. \<open>ex_recover_key h sig id\<close> is the recovery of an uncompressed
  public key point from a prehash, the 64 bytes of a signature and a recovery identifier
  (\<open>Signature::from_slice\<close>, \<open>RecoveryId::try_from\<close>, \<open>recover_from_prehash\<close> and
  \<open>to_encoded_point(false)\<close> of \<open>k256\<close>), \<open>None\<close> when one of these steps fails.
\<close>

record externs =
  ex_keccak256 :: "bytes \<Rightarrow> b256"
  ex_sha256 :: "bytes \<Rightarrow> b256"
  ex_write_u64 :: "u64 \<Rightarrow> bytes"
  ex_read_u64 :: "u64 reader"
  ex_write_bool :: "bool \<Rightarrow> bytes"
  ex_read_bool :: "bool reader"
  ex_write_usize :: "nat \<Rightarrow> bytes"
  ex_read_usize :: "nat \<Rightarrow> nat reader"
  ex_write_slice :: "bytes \<Rightarrow> bytes"
  ex_read_byte_vec :: "nat \<Rightarrow> bytes reader"
  ex_write_vec :: "(Tx \<Rightarrow> bytes) \<Rightarrow> Tx list \<Rightarrow> bytes"
  ex_read_vec :: "nat \<Rightarrow> Tx reader \<Rightarrow> Tx list reader"
  ex_size_u64 :: "u64 \<Rightarrow> nat"
  ex_size_bool :: "bool \<Rightarrow> nat"
  ex_size_usize :: "nat \<Rightarrow> nat"
  ex_size_slice :: "bytes \<Rightarrow> nat"
  ex_size_vec :: "(Tx \<Rightarrow> nat) \<Rightarrow> Tx list \<Rightarrow> nat"
  ex_encode_2718 :: "TxEnvelope \<Rightarrow> bytes"
  ex_decode_2718 :: "bytes \<Rightarrow> string + TxEnvelope"
  ex_rlp_encode :: "TxEnvelope \<Rightarrow> bytes"
  ex_signature_hash :: "TxEnvelope \<Rightarrow> b256"
  ex_recover_key :: "b256 \<Rightarrow> bytes \<Rightarrow> u8 \<Rightarrow> bytes option"
  ex_recover_signer :: "TxEnvelope \<Rightarrow> address option"
  ex_display_address :: "address \<Rightarrow> string"
  ex_display_b256 :: "b256 \<Rightarrow> string"

text \<open>
  The documented behaviour of \<open>commonware_codec\<close>: every primitive decodes what it encoded, a
  length is a 32-bit varint and is accepted when it is in the configured range, a vector of
  items round-trips when its items do, and \<open>encode_size\<close> is the number of bytes written.
\<close>

definition codec_lib_ok :: "externs \<Rightarrow> bool" where
  "codec_lib_ok X \<longleftrightarrow>
     codec (ex_write_u64 X) (ex_read_u64 X) (\<lambda>_. True) \<and>
     codec (ex_write_bool X) (ex_read_bool X) (\<lambda>_. True) \<and>
     (\<forall>m. codec (ex_write_usize X) (ex_read_usize X m) (\<lambda>n. n \<le> m \<and> n < 2 ^ 32)) \<and>
     (\<forall>m. codec (ex_write_slice X) (ex_read_byte_vec X m) (\<lambda>b. length b \<le> m \<and> length b < 2 ^ 32)) \<and>
     (\<forall>w r v m. codec w r v \<longrightarrow>
        codec (ex_write_vec X w) (ex_read_vec X m r)
          (\<lambda>ts. length ts \<le> m \<and> length ts < 2 ^ 32 \<and> (\<forall>t \<in> set ts. v t)))"

definition codec_size_ok :: "externs \<Rightarrow> bool" where
  "codec_size_ok X \<longleftrightarrow>
     (\<forall>v. ex_size_u64 X v = length (ex_write_u64 X v)) \<and>
     (\<forall>v. ex_size_bool X v = length (ex_write_bool X v)) \<and>
     (\<forall>v. ex_size_usize X v = length (ex_write_usize X v)) \<and>
     (\<forall>v. ex_size_slice X v = length (ex_write_slice X v)) \<and>
     (\<forall>w sz. (\<forall>t. sz t = length (w t)) \<longrightarrow>
        (\<forall>ts. ex_size_vec X sz ts = length (ex_write_vec X w ts)))"

section \<open>A concrete instance\<close>

text \<open>
  Big-endian integers, one byte per boolean, base-128 varints, length-prefixed sequences; a
  polynomial hash; and an envelope format of four bytes (nonce, price, key, salt) that covers
  legacy transfers.
\<close>

definition sx_write_bool :: "bool \<Rightarrow> bytes" where
  "sx_write_bool b = [if b then 1 else 0]"

fun sx_read_bool :: "bool reader" where
  "sx_read_bool [] = Inl EndOfBuffer"
| "sx_read_bool (b # rest) =
     (if b = 0 then Inr (False, rest) else if b = 1 then Inr (True, rest)
      else Inl (LibraryError ''bool''))"

function sx_write_usize :: "nat \<Rightarrow> bytes" where
  "sx_write_usize n =
     (if n < 128 then [of_nat n] else of_nat (128 + n mod 128) # sx_write_usize (n div 128))"
  by pat_completeness auto
termination
  by (relation "measure id") auto

declare sx_write_usize.simps [simp del]

fun sx_read_varint :: "nat reader" where
  "sx_read_varint [] = Inl EndOfBuffer"
| "sx_read_varint (b # rest) =
     (if unat b < 128 then Inr (unat b, rest)
      else (case sx_read_varint rest of
              Inl e \<Rightarrow> Inl e
            | Inr (n, rest') \<Rightarrow> Inr (unat b - 128 + 128 * n, rest')))"

definition sx_read_usize :: "nat \<Rightarrow> nat reader" where
  "sx_read_usize m =
     bind_read sx_read_varint (\<lambda>n. if n \<le> m then return_read n else (\<lambda>_. Inl (LibraryError ''range'')))"

definition sx_write_slice :: "bytes \<Rightarrow> bytes" where
  "sx_write_slice b = sx_write_usize (length b) @ b"

definition sx_read_byte_vec :: "nat \<Rightarrow> bytes reader" where
  "sx_read_byte_vec m =
     bind_read (sx_read_usize m) (\<lambda>n buf.
       if length buf < n then Inl EndOfBuffer else Inr (take n buf, drop n buf))"

definition sx_write_vec :: "('a \<Rightarrow> bytes) \<Rightarrow> 'a list \<Rightarrow> bytes" where
  "sx_write_vec w ts = sx_write_usize (length ts) @ concat (map w ts)"

definition sx_read_vec :: "nat \<Rightarrow> 'a reader \<Rightarrow> 'a list reader" where
  "sx_read_vec m r = bind_read (sx_read_usize m) (read_n r)"

definition sx_hash :: "u8 \<Rightarrow> bytes \<Rightarrow> b256" where
  "sx_hash seed bs = foldl (\<lambda>h b. h * 257 + ucast b + 1) (ucast seed) bs"

fun sx_decode_2718 :: "bytes \<Rightarrow> string + TxEnvelope" where
  "sx_decode_2718 [n, p, k, z] =
     Inr (Legacy \<lparr>tc_chain_id = Some 1, tc_nonce = ucast n, tc_gas_limit = 21000,
                  tc_to = Some (ucast z), tc_value = 0, tc_input = []\<rparr>
            \<lparr>sig_r = ucast k, sig_s = 1, sig_v = False\<rparr> (ucast p))"
| "sx_decode_2718 _ = Inl ''malformed''"

definition sx_encode_2718 :: "TxEnvelope \<Rightarrow> bytes" where
  "sx_encode_2718 e =
     [ucast (tc_nonce (env_common e)),
      (case e of Legacy c s p \<Rightarrow> ucast p | _ \<Rightarrow> 0),
      ucast (sig_r (env_signature e)),
      (case tc_to (env_common e) of Some a \<Rightarrow> ucast a | None \<Rightarrow> 0)]"

definition sample_externs :: externs where
  "sample_externs =
     \<lparr>ex_keccak256 = sx_hash 1, ex_sha256 = sx_hash 2,
      ex_write_u64 = to_be_bytes 8, ex_read_u64 = read_fixed 8,
      ex_write_bool = sx_write_bool, ex_read_bool = sx_read_bool,
      ex_write_usize = sx_write_usize, ex_read_usize = sx_read_usize,
      ex_write_slice = sx_write_slice, ex_read_byte_vec = sx_read_byte_vec,
      ex_write_vec = sx_write_vec, ex_read_vec = sx_read_vec,
      ex_size_u64 = (\<lambda>_. 8), ex_size_bool = (\<lambda>_. 1),
      ex_size_usize = (\<lambda>n. length (sx_write_usize n)),
      ex_size_slice = (\<lambda>b. length (sx_write_usize (length b)) + length b),
      ex_size_vec = (\<lambda>sz ts. length (sx_write_usize (length ts)) + sum_list (map sz ts)),
      ex_encode_2718 = sx_encode_2718, ex_decode_2718 = sx_decode_2718,
      ex_rlp_encode = sx_encode_2718,
      ex_signature_hash = (\<lambda>e. sx_hash 3 (sx_encode_2718 e)),
      ex_recover_key = (\<lambda>h sig v. if length sig = 64 then Some (4 # take 32 sig @ replicate 32 0) else None),
      ex_recover_signer = (\<lambda>e. Some (ucast (sig_r (env_signature e)))),
      ex_display_address = (\<lambda>_. ''0x''), ex_display_b256 = (\<lambda>_. ''0x'')\<rparr>"

lemma sx_read_varint_write: "sx_read_varint (sx_write_usize n @ rest) = Inr (n, rest)"
proof (induction n arbitrary: rest rule: sx_write_usize.induct)
  case (1 n)
  show ?case
  proof (cases "n < 128")
    case True
    then show ?thesis by (subst sx_write_usize.simps) (simp add: unat_of_nat)
  next
    case False
    have "unat (of_nat (128 + n mod 128) :: u8) = 128 + n mod 128"
      by (simp only: unat_of_nat) simp
    moreover have "n mod 128 + 128 * (n div 128) = n" by simp
    ultimately show ?thesis
      using "1.IH" [OF False] False
      by (subst sx_write_usize.simps) (simp del: of_nat_add)
  qed
qed

lemma codec_sx_usize: "codec sx_write_usize (sx_read_usize m) (\<lambda>n. n \<le> m \<and> n < 2 ^ 32)"
  by unfold_locales (simp add: sx_read_usize_def bind_read_def return_read_def sx_read_varint_write)

lemma codec_sx_slice:
  "codec sx_write_slice (sx_read_byte_vec m) (\<lambda>b. length b \<le> m \<and> length b < 2 ^ 32)"
  by unfold_locales
    (simp add: sx_write_slice_def sx_read_byte_vec_def bind_read_write [OF codec_sx_usize])

lemma codec_sx_vec:
  assumes "codec w r v"
  shows "codec (sx_write_vec w) (sx_read_vec m r)
    (\<lambda>ts. length ts \<le> m \<and> length ts < 2 ^ 32 \<and> (\<forall>t \<in> set ts. v t))"
proof unfold_locales
  fix ts rest
  assume "length ts \<le> m \<and> length ts < 2 ^ 32 \<and> (\<forall>t \<in> set ts. v t)"
  moreover from this have "bind_read (read_n r (length ts)) return_read (concat (map w ts) @ rest) =
      return_read ts rest"
    by (intro read_n_write [OF assms]) simp
  then have "read_n r (length ts) (concat (map w ts) @ rest) = Inr (ts, rest)"
    by (auto simp: bind_read_def return_read_def split: sum.splits)
  ultimately show "sx_read_vec m r (sx_write_vec w ts @ rest) = Inr (ts, rest)"
    by (simp add: sx_read_vec_def sx_write_vec_def bind_read_write [OF codec_sx_usize])
qed

lemma sample_codec_lib_ok: "codec_lib_ok sample_externs"
proof -
  have "codec sx_write_bool sx_read_bool (\<lambda>_. True)"
    by unfold_locales (simp add: sx_write_bool_def)
  then show ?thesis
    unfolding codec_lib_ok_def sample_externs_def externs.simps
    by (intro conjI allI impI codec_fixed codec_sx_usize codec_sx_slice codec_sx_vec) simp_all
qed

lemma sample_codec_size_ok: "codec_size_ok sample_externs"
  by (auto simp: codec_size_ok_def sample_externs_def sx_write_bool_def sx_write_slice_def
      sx_write_vec_def length_concat comp_def intro!: arg_cong [where f = sum_list])

end
