(* ===== verification/Domain.thy ===== *)
theory Domain
  imports Externs
begin

text \<open>
  The domain types of \<open>crates/node/domain\<close>: identifiers, raw transactions, blocks and the
  canonical state changes, with the binary codecs they have, their encoded sizes, and the
  identifiers and digests derived from them.
\<close>

section \<open>Identifiers\<close>

definition write_b256 :: "b256 \<Rightarrow> bytes" where
  "write_b256 v = to_be_bytes 32 v"

definition read_b256 :: "b256 reader" where
  "read_b256 buf = read_fixed 32 buf"

interpretation b256: codec write_b256 read_b256 "\<lambda>_. True"
  unfolding write_b256_def [abs_def] read_b256_def [abs_def] by (rule codec_fixed) simp

definition write_address :: "address \<Rightarrow> bytes" where
  "write_address v = to_be_bytes 20 v"

definition read_address :: "address reader" where
  "read_address buf = read_fixed 20 buf"

interpretation address: codec write_address read_address "\<lambda>_. True"
  unfolding write_address_def [abs_def] read_address_def [abs_def] by (rule codec_fixed) simp

definition write_u256 :: "u256 \<Rightarrow> bytes" where
  "write_u256 v = to_be_bytes 32 v"

definition read_u256 :: "u256 reader" where
  "read_u256 buf = read_fixed 32 buf"

interpretation u256: codec write_u256 read_u256 "\<lambda>_. True"
  unfolding write_u256_def [abs_def] read_u256_def [abs_def] by (rule codec_fixed) simp

lemma length_write_fixed [simp]:
  "length (write_b256 v) = 32" "length (write_address a) = 20" "length (write_u256 u) = 32"
  by (simp_all add: write_b256_def write_address_def write_u256_def)

lemma read_b256_short: "length buf < 32 \<Longrightarrow> read_b256 buf = Inl EndOfBuffer"
  by (simp add: read_b256_def read_fixed_def)

section \<open>Raw transactions\<close>

definition write_tx :: "externs \<Rightarrow> Tx \<Rightarrow> bytes" where
  "write_tx X t = ex_write_slice X (tx_bytes t)"

definition read_tx :: "externs \<Rightarrow> TxCfg \<Rightarrow> Tx reader" where
  "read_tx X cfg =
     bind_read (ex_read_byte_vec X (max_tx_bytes cfg)) (\<lambda>data. return_read \<lparr>tx_bytes = data\<rparr>)"

definition tx_id :: "externs \<Rightarrow> Tx \<Rightarrow> TxId" where
  "tx_id X t = ex_keccak256 X (write_tx X t)"

definition tx_new :: "bytes \<Rightarrow> Tx" where
  "tx_new b = \<lparr>tx_bytes = b\<rparr>"

definition tx_encode_size :: "externs \<Rightarrow> Tx \<Rightarrow> nat" where
  "tx_encode_size X t = ex_size_slice X (tx_bytes t)"

definition tx_valid :: "TxCfg \<Rightarrow> Tx \<Rightarrow> bool" where
  "tx_valid cfg t \<longleftrightarrow> length (tx_bytes t) \<le> max_tx_bytes cfg \<and> length (tx_bytes t) < 2 ^ 32"

lemma codec_tx:
  assumes "codec_lib_ok X"
  shows "codec (write_tx X) (read_tx X cfg) (tx_valid cfg)"
proof unfold_locales
  fix t :: Tx and rest
  assume "tx_valid cfg t"
  moreover have "codec (ex_write_slice X) (ex_read_byte_vec X (max_tx_bytes cfg))
      (\<lambda>b. length b \<le> max_tx_bytes cfg \<and> length b < 2 ^ 32)"
    using assms by (simp add: codec_lib_ok_def)
  ultimately show "read_tx X cfg (write_tx X t @ rest) = Inr (t, rest)"
    by (simp add: read_tx_def write_tx_def tx_valid_def bind_read_write return_read_def)
qed

section \<open>Blocks\<close>

record BlockCfg =
  bc_max_txs :: nat
  bc_tx :: TxCfg

text \<open>\<open>cached_id\<close> is the \<open>OnceLock\<close> that \<open>id()\<close> fills on first use.\<close>

record Block =
  blk_parent :: BlockId
  blk_height :: u64
  blk_timestamp :: u64
  blk_prevrandao :: b256
  blk_state_root :: StateRoot
  blk_txs :: "Tx list"
  blk_cached_id :: "BlockId option"

definition block_new ::
    "BlockId \<Rightarrow> u64 \<Rightarrow> u64 \<Rightarrow> b256 \<Rightarrow> StateRoot \<Rightarrow> Tx list \<Rightarrow> Block" where
  "block_new parent height timestamp prevrandao state_root txs =
     \<lparr>blk_parent = parent, blk_height = height, blk_timestamp = timestamp,
      blk_prevrandao = prevrandao, blk_state_root = state_root, blk_txs = txs,
      blk_cached_id = None\<rparr>"

definition block_clone :: "Block \<Rightarrow> Block" where
  "block_clone b =
     (block_new (blk_parent b) (blk_height b) (blk_timestamp b) (blk_prevrandao b)
        (blk_state_root b) (blk_txs b))
     \<lparr>blk_cached_id := (case blk_cached_id b of None \<Rightarrow> None | Some i \<Rightarrow> Some i)\<rparr>"

definition block_eq :: "Block \<Rightarrow> Block \<Rightarrow> bool" where
  "block_eq a b \<longleftrightarrow> blk_parent a = blk_parent b \<and> blk_height a = blk_height b \<and>
     blk_timestamp a = blk_timestamp b \<and> blk_prevrandao a = blk_prevrandao b \<and>
     blk_state_root a = blk_state_root b \<and> blk_txs a = blk_txs b"

definition write_block :: "externs \<Rightarrow> Block \<Rightarrow> bytes" where
  "write_block X b =
     write_b256 (blk_parent b) @ ex_write_u64 X (blk_height b) @ ex_write_u64 X (blk_timestamp b) @
     write_b256 (blk_prevrandao b) @ write_b256 (blk_state_root b) @
     ex_write_vec X (write_tx X) (blk_txs b)"

definition read_block :: "externs \<Rightarrow> BlockCfg \<Rightarrow> Block reader" where
  "read_block X cfg =
     bind_read read_b256 (\<lambda>parent.
     bind_read (ex_read_u64 X) (\<lambda>height.
     bind_read (ex_read_u64 X) (\<lambda>timestamp.
     bind_read read_b256 (\<lambda>prevrandao.
     bind_read read_b256 (\<lambda>state_root.
     bind_read (ex_read_vec X (bc_max_txs cfg) (read_tx X (bc_tx cfg))) (\<lambda>txs.
     return_read (block_new parent height timestamp prevrandao state_root txs)))))))"

definition block_encode_size :: "externs \<Rightarrow> Block \<Rightarrow> nat" where
  "block_encode_size X b =
     32 + ex_size_u64 X (blk_height b) + ex_size_u64 X (blk_timestamp b) + 32 + 32 +
     ex_size_vec X (tx_encode_size X) (blk_txs b)"

text \<open>\<open>id()\<close> returns the identifier and fills the cache.\<close>

definition block_id :: "externs \<Rightarrow> Block \<Rightarrow> BlockId \<times> Block" where
  "block_id X b =
     (case blk_cached_id b of
        Some i \<Rightarrow> (i, b)
      | None \<Rightarrow> (let i = ex_keccak256 X (write_block X b) in (i, b\<lparr>blk_cached_id := Some i\<rparr>)))"

definition next_timestamp :: "u64 \<Rightarrow> u64 \<Rightarrow> u64 option" where
  "next_timestamp now_secs parent_timestamp =
     (if now_secs > parent_timestamp then Some now_secs else Some parent_timestamp)"

definition digest_for_block_id :: "externs \<Rightarrow> BlockId \<Rightarrow> ConsensusDigest" where
  "digest_for_block_id X i = ex_sha256 X (to_be_bytes 32 i)"

definition block_commitment :: "externs \<Rightarrow> Block \<Rightarrow> ConsensusDigest" where
  "block_commitment X b = digest_for_block_id X (fst (block_id X b))"

definition block_parent_digest :: "externs \<Rightarrow> Block \<Rightarrow> ConsensusDigest" where
  "block_parent_digest X b = digest_for_block_id X (blk_parent b)"

text \<open>The cache is coherent: when it is filled it holds the hash of the current contents.\<close>

definition cache_ok :: "externs \<Rightarrow> Block \<Rightarrow> bool" where
  "cache_ok X b \<longleftrightarrow> (\<forall>i. blk_cached_id b = Some i \<longrightarrow> i = ex_keccak256 X (write_block X b))"

definition block_valid :: "BlockCfg \<Rightarrow> Block \<Rightarrow> bool" where
  "block_valid cfg b \<longleftrightarrow> blk_cached_id b = None \<and> length (blk_txs b) \<le> bc_max_txs cfg \<and>
     length (blk_txs b) < 2 ^ 32 \<and> (\<forall>t \<in> set (blk_txs b). tx_valid (bc_tx cfg) t)"

lemma codec_block:
  assumes lib: "codec_lib_ok X"
  shows "codec (write_block X) (read_block X cfg) (block_valid cfg)"
proof unfold_locales
  fix b :: Block and rest
  assume valid: "block_valid cfg b"
  have u64: "codec (ex_write_u64 X) (ex_read_u64 X) (\<lambda>_. True)"
    using lib by (simp add: codec_lib_ok_def)
  have vec: "codec (ex_write_vec X (write_tx X)) (ex_read_vec X (bc_max_txs cfg) (read_tx X (bc_tx cfg)))
      (\<lambda>ts. length ts \<le> bc_max_txs cfg \<and> length ts < 2 ^ 32 \<and> (\<forall>t \<in> set ts. tx_valid (bc_tx cfg) t))"
    using lib codec_tx [OF lib, of "bc_tx cfg"] by (simp add: codec_lib_ok_def)
  show "read_block X cfg (write_block X b @ rest) = Inr (b, rest)"
    using valid
    by (simp add: read_block_def write_block_def block_valid_def block_new_def
        bind_read_write [OF b256.codec_axioms] bind_read_write [OF u64] bind_read_write [OF vec]
        return_read_def)
qed

lemma write_block_cache [simp]: "write_block X (b\<lparr>blk_cached_id := c\<rparr>) = write_block X b"
  by (simp add: write_block_def)

lemma block_eq_write: "block_eq a b \<Longrightarrow> write_block X a = write_block X b"
  by (simp add: block_eq_def write_block_def)

lemma fst_block_id: "cache_ok X b \<Longrightarrow> fst (block_id X b) = ex_keccak256 X (write_block X b)"
  by (auto simp: block_id_def cache_ok_def Let_def split: option.splits)

lemma cache_ok_new: "cache_ok X (block_new p h t r s ts)"
  by (simp add: cache_ok_def block_new_def)

lemma cache_ok_id: "cache_ok X b \<Longrightarrow> cache_ok X (snd (block_id X b))"
  by (auto simp: block_id_def cache_ok_def Let_def split: option.splits)

lemma cache_ok_clone: "cache_ok X b \<Longrightarrow> cache_ok X (block_clone b)"
  by (auto simp: block_clone_def cache_ok_def block_new_def write_block_def split: option.splits)

section \<open>Canonical state changes\<close>

record StateChangesCfg =
  max_accounts :: nat
  max_storage_slots :: nat

record AccountChange =
  ac_touched :: bool
  ac_created :: bool
  ac_selfdestructed :: bool
  ac_nonce :: u64
  ac_balance :: u256
  ac_code_hash :: b256
  ac_storage :: "(u256, u256) btree_map"

record StateChanges =
  sc_accounts :: "(address, AccountChange) btree_map"

definition state_changes_is_empty :: "StateChanges \<Rightarrow> bool" where
  "state_changes_is_empty sc \<longleftrightarrow> sc_accounts sc = []"

definition write_slot :: "u256 \<times> u256 \<Rightarrow> bytes" where
  "write_slot e = write_u256 (fst e) @ write_u256 (snd e)"

definition read_slot :: "(u256 \<times> u256) reader" where
  "read_slot = bind_read read_u256 (\<lambda>slot. bind_read read_u256 (\<lambda>v. return_read (slot, v)))"

definition write_account_change :: "externs \<Rightarrow> AccountChange \<Rightarrow> bytes" where
  "write_account_change X a =
     ex_write_bool X (ac_touched a) @ ex_write_bool X (ac_created a) @
     ex_write_bool X (ac_selfdestructed a) @ ex_write_u64 X (ac_nonce a) @
     write_u256 (ac_balance a) @ write_b256 (ac_code_hash a) @
     ex_write_usize X (length (ac_storage a)) @ concat (map write_slot (ac_storage a))"

definition read_account_change :: "externs \<Rightarrow> StateChangesCfg \<Rightarrow> AccountChange reader" where
  "read_account_change X cfg =
     bind_read (ex_read_bool X) (\<lambda>touched.
     bind_read (ex_read_bool X) (\<lambda>created.
     bind_read (ex_read_bool X) (\<lambda>selfdestructed.
     bind_read (ex_read_u64 X) (\<lambda>nonce.
     bind_read read_u256 (\<lambda>balance.
     bind_read read_b256 (\<lambda>code_hash.
     bind_read (ex_read_usize X (max_storage_slots cfg)) (\<lambda>slots.
     bind_read (read_n read_slot slots) (\<lambda>es.
     return_read
       \<lparr>ac_touched = touched, ac_created = created, ac_selfdestructed = selfdestructed,
        ac_nonce = nonce, ac_balance = balance, ac_code_hash = code_hash,
        ac_storage = fold (\<lambda>(k, v). bt_insert k v) es []\<rparr>))))))))"

definition write_account_entry :: "externs \<Rightarrow> address \<times> AccountChange \<Rightarrow> bytes" where
  "write_account_entry X e = write_address (fst e) @ write_account_change X (snd e)"

definition read_account_entry ::
    "externs \<Rightarrow> StateChangesCfg \<Rightarrow> (address \<times> AccountChange) reader" where
  "read_account_entry X cfg =
     bind_read read_address (\<lambda>a. bind_read (read_account_change X cfg) (\<lambda>c. return_read (a, c)))"

definition write_state_changes :: "externs \<Rightarrow> StateChanges \<Rightarrow> bytes" where
  "write_state_changes X sc =
     ex_write_usize X (length (sc_accounts sc)) @
     concat (map (write_account_entry X) (sc_accounts sc))"

definition read_state_changes :: "externs \<Rightarrow> StateChangesCfg \<Rightarrow> StateChanges reader" where
  "read_state_changes X cfg =
     bind_read (ex_read_usize X (max_accounts cfg)) (\<lambda>accounts.
     bind_read (read_n (read_account_entry X cfg) accounts) (\<lambda>es.
     return_read \<lparr>sc_accounts = fold (\<lambda>(k, v). bt_insert k v) es []\<rparr>))"

definition account_change_encode_size :: "externs \<Rightarrow> AccountChange \<Rightarrow> nat" where
  "account_change_encode_size X a =
     ex_size_bool X (ac_touched a) + ex_size_bool X (ac_created a) +
     ex_size_bool X (ac_selfdestructed a) + ex_size_u64 X (ac_nonce a) + 32 + 32 +
     ex_size_usize X (length (ac_storage a)) + length (ac_storage a) * (32 + 32)"

definition state_changes_encode_size :: "externs \<Rightarrow> StateChanges \<Rightarrow> nat" where
  "state_changes_encode_size X sc =
     ex_size_usize X (length (sc_accounts sc)) +
     sum_list (map (\<lambda>change. 20 + account_change_encode_size X change) (map snd (sc_accounts sc)))"

definition account_change_valid :: "StateChangesCfg \<Rightarrow> AccountChange \<Rightarrow> bool" where
  "account_change_valid cfg a \<longleftrightarrow>
     bt_wf (ac_storage a) \<and> length (ac_storage a) \<le> max_storage_slots cfg \<and>
     length (ac_storage a) < 2 ^ 32"

definition state_changes_valid :: "StateChangesCfg \<Rightarrow> StateChanges \<Rightarrow> bool" where
  "state_changes_valid cfg sc \<longleftrightarrow> bt_wf (sc_accounts sc) \<and>
     length (sc_accounts sc) \<le> max_accounts cfg \<and> length (sc_accounts sc) < 2 ^ 32 \<and>
     (\<forall>e \<in> set (sc_accounts sc). account_change_valid cfg (snd e))"

lemmas codec_lib_prims [codec_simps] =
  codec_lib_ok_def [THEN iffD1, THEN conjunct1]
  codec_lib_ok_def [THEN iffD1, THEN conjunct2, THEN conjunct1]
  codec_lib_ok_def [THEN iffD1, THEN conjunct2, THEN conjunct2, THEN conjunct1, THEN spec]

interpretation slot: codec write_slot read_slot "\<lambda>_. True"
  by unfold_locales
    (simp add: write_slot_def read_slot_def return_read_def bind_read_write [OF u256.codec_axioms])

lemma codec_account_change:
  assumes lib: "codec_lib_ok X"
  shows "codec (write_account_change X) (read_account_change X cfg) (account_change_valid cfg)"
proof unfold_locales
  fix a :: AccountChange and rest
  assume "account_change_valid cfg a"
  then show "read_account_change X cfg (write_account_change X a @ rest) = Inr (a, rest)"
    by (simp add: read_account_change_def write_account_change_def account_change_valid_def
        bind_read_write [OF codec_lib_prims(1) [OF lib]]
        bind_read_write [OF codec_lib_prims(2) [OF lib]]
        bind_read_write [OF codec_lib_prims(3) [OF lib]]
        bind_read_write [OF u256.codec_axioms] bind_read_write [OF b256.codec_axioms]
        read_n_write [OF slot.codec_axioms] return_read_def fold_bt_insert_id)
qed

lemma codec_account_entry:
  assumes lib: "codec_lib_ok X"
  shows "codec (write_account_entry X) (read_account_entry X cfg)
    (\<lambda>e. account_change_valid cfg (snd e))"
  by unfold_locales
    (simp add: read_account_entry_def write_account_entry_def return_read_def
      bind_read_write [OF address.codec_axioms] bind_read_write [OF codec_account_change [OF lib]])

lemma codec_state_changes:
  assumes lib: "codec_lib_ok X"
  shows "codec (write_state_changes X) (read_state_changes X cfg) (state_changes_valid cfg)"
  by unfold_locales
    (simp add: read_state_changes_def write_state_changes_def state_changes_valid_def
      bind_read_write [OF codec_lib_prims(3) [OF lib]]
      read_n_write [OF codec_account_entry [OF lib]] return_read_def fold_bt_insert_id)

section \<open>Encoded sizes\<close>

lemma tx_encode_size: "codec_size_ok X \<Longrightarrow> tx_encode_size X t = length (write_tx X t)"
  by (simp add: codec_size_ok_def tx_encode_size_def write_tx_def)

lemma block_encode_size: "codec_size_ok X \<Longrightarrow> block_encode_size X b = length (write_block X b)"
  using tx_encode_size [of X] by (simp add: codec_size_ok_def block_encode_size_def write_block_def)

lemma account_change_encode_size:
  "codec_size_ok X \<Longrightarrow> account_change_encode_size X a = length (write_account_change X a)"
proof -
  have "length (concat (map write_slot es)) = length es * 64" for es
    by (induction es) (simp_all add: write_slot_def)
  moreover assume "codec_size_ok X"
  ultimately show ?thesis
    by (simp add: codec_size_ok_def account_change_encode_size_def write_account_change_def)
qed

lemma state_changes_encode_size:
  assumes "codec_size_ok X"
  shows "state_changes_encode_size X sc = length (write_state_changes X sc)"
proof -
  have "length (write_account_entry X e) = 20 + account_change_encode_size X (snd e)" for e
    using account_change_encode_size [OF assms] by (simp add: write_account_entry_def)
  then show ?thesis
    using assms
    by (simp add: codec_size_ok_def state_changes_encode_size_def write_state_changes_def
        length_concat comp_def)
qed

section \<open>Properties\<close>

text \<open>
  C36: a block survives the wire. Whatever follows it in the buffer, decoding an encoded block
  within the configured limits returns the same block and leaves exactly the bytes after it.
\<close>

theorem block_roundtrip:
  assumes "codec_lib_ok X" and "block_valid cfg b"
  shows "read_block X cfg (write_block X b @ rest) = Inr (b, rest)"
  using codec.decode_encode [OF codec_block] assms .

theorem block_roundtrip_witness:
  "let cfg = \<lparr>bc_max_txs = 4, bc_tx = \<lparr>max_tx_bytes = 16\<rparr>\<rparr>;
       b = block_new 7 3 100 9 11 [tx_new [1, 2, 3], tx_new []]
   in block_valid cfg b \<and>
      read_block sample_externs cfg (write_block sample_externs b @ [255]) = Inr (b, [255])"
proof -
  let ?cfg = "\<lparr>bc_max_txs = 4, bc_tx = \<lparr>max_tx_bytes = 16\<rparr>\<rparr>"
  let ?b = "block_new 7 3 100 9 11 [tx_new [1, 2, 3], tx_new []]"
  have "block_valid ?cfg ?b" by (simp add: block_valid_def block_new_def tx_valid_def tx_new_def)
  with block_roundtrip [OF sample_codec_lib_ok this, of "[255]"] show ?thesis by simp
qed

text \<open>
  C37: blocks with the same identifier are the same block, unless the hash function collides:
  two blocks within the limits whose (possibly cached) identifiers agree either have equal
  contents or their encodings are a keccak-256 collision.
\<close>

theorem block_id_injective:
  assumes "codec_lib_ok X" and "block_valid cfg (a\<lparr>blk_cached_id := None\<rparr>)"
    and "block_valid cfg (b\<lparr>blk_cached_id := None\<rparr>)" and "cache_ok X a" and "cache_ok X b"
    and "fst (block_id X a) = fst (block_id X b)"
  shows "block_eq a b \<or>
    (write_block X a \<noteq> write_block X b \<and>
     ex_keccak256 X (write_block X a) = ex_keccak256 X (write_block X b))"
proof (cases "write_block X a = write_block X b")
  case True
  then have "write_block X (a\<lparr>blk_cached_id := None\<rparr>) = write_block X (b\<lparr>blk_cached_id := None\<rparr>)"
    by simp
  then have "a\<lparr>blk_cached_id := None\<rparr> = b\<lparr>blk_cached_id := None\<rparr>"
    using codec.encode_inj [OF codec_block [OF assms(1)]] assms(2,3) by blast
  then show ?thesis by (cases a; cases b) (simp add: block_eq_def)
next
  case False
  with assms(4-6) show ?thesis by (simp add: fst_block_id)
qed

theorem block_id_injective_witness:
  "let X = sample_externs; cfg = \<lparr>bc_max_txs = 4, bc_tx = \<lparr>max_tx_bytes = 16\<rparr>\<rparr>;
       a = block_new 7 3 100 9 11 []; b = snd (block_id X a)
   in blk_cached_id b \<noteq> blk_cached_id a \<and> fst (block_id X a) = fst (block_id X b) \<and>
      (block_eq a b \<or>
       (write_block X a \<noteq> write_block X b \<and>
        ex_keccak256 X (write_block X a) = ex_keccak256 X (write_block X b)))"
proof -
  let ?X = sample_externs
  let ?cfg = "\<lparr>bc_max_txs = 4, bc_tx = \<lparr>max_tx_bytes = 16\<rparr>\<rparr>"
  let ?a = "block_new 7 3 100 9 11 []"
  let ?b = "snd (block_id ?X ?a)"
  have valid: "block_valid ?cfg (?a\<lparr>blk_cached_id := None\<rparr>)"
    "block_valid ?cfg (?b\<lparr>blk_cached_id := None\<rparr>)"
    by (simp_all add: block_valid_def block_new_def block_id_def Let_def)
  have ids: "fst (block_id ?X ?a) = fst (block_id ?X ?b)" "blk_cached_id ?b \<noteq> blk_cached_id ?a"
    by (simp_all add: block_new_def block_id_def Let_def)
  from block_id_injective [OF sample_codec_lib_ok valid cache_ok_new
      cache_ok_id [OF cache_ok_new] ids(1)] ids
  show ?thesis by (simp add: Let_def)
qed

text \<open>
  The canonical state delta survives the wire: decoding an encoded \<open>StateChanges\<close> within
  the limits rebuilds the same ordered maps of accounts and slots and consumes exactly the
  bytes written.
\<close>

theorem state_changes_roundtrip:
  assumes "codec_lib_ok X" and "state_changes_valid cfg sc"
  shows "read_state_changes X cfg (write_state_changes X sc @ rest) = Inr (sc, rest)"
  using codec.decode_encode [OF codec_state_changes] assms .

theorem state_changes_roundtrip_witness:
  "let cfg = \<lparr>max_accounts = 3, max_storage_slots = 3\<rparr>;
       sc = \<lparr>sc_accounts = [(5, \<lparr>ac_touched = True, ac_created = False, ac_selfdestructed = False,
               ac_nonce = 1, ac_balance = 10, ac_code_hash = 0, ac_storage = [(1, 2), (4, 0)]\<rparr>)]\<rparr>
   in state_changes_valid cfg sc \<and>
      read_state_changes sample_externs cfg (write_state_changes sample_externs sc @ [1]) =
        Inr (sc, [1])"
proof -
  let ?cfg = "\<lparr>max_accounts = 3, max_storage_slots = 3\<rparr>"
  let ?sc = "\<lparr>sc_accounts = [(5, \<lparr>ac_touched = True, ac_created = False,
    ac_selfdestructed = False, ac_nonce = 1, ac_balance = 10, ac_code_hash = 0,
    ac_storage = [(1, 2), (4, 0)]\<rparr>)]\<rparr>"
  have "state_changes_valid ?cfg ?sc"
    by (simp add: state_changes_valid_def account_change_valid_def)
  with state_changes_roundtrip [OF sample_codec_lib_ok this, of "[1]"] show ?thesis by simp
qed

text \<open>
  The sizes the encoders announce (\<open>EncodeSize\<close>) are the numbers of bytes they write, for
  transactions, blocks and state deltas, so a buffer allocated from them is filled exactly.
\<close>

theorem encode_size_exact:
  assumes "codec_size_ok X"
  shows "tx_encode_size X t = length (write_tx X t) \<and>
    block_encode_size X b = length (write_block X b) \<and>
    state_changes_encode_size X sc = length (write_state_changes X sc)"
  using assms by (intro conjI tx_encode_size block_encode_size state_changes_encode_size)

theorem encode_size_exact_witness:
  "block_encode_size sample_externs (block_new 7 3 100 9 11 [tx_new [1, 2, 3]]) = 117 \<and>
   length (write_block sample_externs (block_new 7 3 100 9 11 [tx_new [1, 2, 3]])) = 117"
  using encode_size_exact [OF sample_codec_size_ok, of "tx_new []" "block_new 7 3 100 9 11 [tx_new [1, 2, 3]]"]
  by (simp add: block_encode_size_def block_new_def tx_new_def sample_externs_def tx_encode_size_def
      sx_write_usize.simps)

end
