(* ===== verification/Domain_Events.thy ===== *)
theory Domain_Events
  imports Domain
begin

text \<open>
  \<open>crates/node/domain/src/events.rs\<close>: the events of the ledger and of the mempool, and the
  registry that hands ledger events to its subscribers.
\<close>

datatype LedgerEvent =
    TransactionSubmitted TxId
  | SnapshotPersisted ConsensusDigest
  | SeedUpdated ConsensusDigest b256

datatype MempoolEvent =
    TxAdded b256 address "address option" u256 u256 u64
  | TxIncluded b256 u64 b256
  | TxEvicted b256 string

text \<open>
  One subscriber: the receiving end is open until the subscriber drops it, and holds the
  events that were sent to it.
\<close>

record listener =
  ln_open :: bool
  ln_events :: "LedgerEvent list"

record LedgerEvents =
  le_listeners :: "listener list"

definition ledger_events_new :: LedgerEvents where
  "ledger_events_new = \<lparr>le_listeners = []\<rparr>"

text \<open>\<open>retain(|sender| sender.unbounded_send(..).is_ok())\<close>: a send to a closed channel fails.\<close>

definition publish :: "LedgerEvent \<Rightarrow> LedgerEvents \<Rightarrow> LedgerEvents" where
  "publish event ev =
     ev\<lparr>le_listeners :=
          map (\<lambda>l. l\<lparr>ln_events := ln_events l @ [event]\<rparr>) (filter ln_open (le_listeners ev))\<rparr>"

definition subscribe :: "LedgerEvents \<Rightarrow> LedgerEvents" where
  "subscribe ev = ev\<lparr>le_listeners := le_listeners ev @ [\<lparr>ln_open = True, ln_events = []\<rparr>]\<rparr>"

text \<open>Every open subscriber has received every event published since it subscribed, in order.\<close>

lemma fold_publish:
  "le_listeners (fold publish es ev) =
     (if es = [] then le_listeners ev
      else map (\<lambda>l. l\<lparr>ln_events := ln_events l @ es\<rparr>) (filter ln_open (le_listeners ev)))"
proof (induction es arbitrary: ev)
  case (Cons e es)
  have "filter ln_open (map (\<lambda>l. l\<lparr>ln_events := ln_events l @ [e]\<rparr>) ls) =
      map (\<lambda>l. l\<lparr>ln_events := ln_events l @ [e]\<rparr>) (filter ln_open ls)" for ls
    by (simp add: filter_map comp_def)
  moreover have "le_listeners (publish e ev) =
      map (\<lambda>l. l\<lparr>ln_events := ln_events l @ [e]\<rparr>) (filter ln_open (le_listeners ev))"
    by (simp add: publish_def)
  ultimately show ?case by (simp add: Cons comp_def)
qed simp

end
