(* ===== verification/Mempool_Interface.thy ===== *)
theory Mempool_Interface
  imports Domain
begin

text \<open>
  The \<open>Mempool\<close> trait that block building relies on (\<open>crates/node/consensus/src/traits.rs\<close> and
  \<open>crates/node/txpool/src/traits.rs\<close>) as a locale, the facts its clients use, and its simplest
  implementation, \<open>InMemoryMempool\<close> of \<open>crates/node/consensus/src/components/mempool.rs\<close>.
\<close>

section \<open>The interface\<close>

text \<open>
  \<open>content\<close> is the set of identifiers of the transactions held; \<open>wf\<close> the implementation's
  invariant; \<open>admissible\<close> what an inserted transaction has to satisfy for it.
\<close>

locale mempool =
  fixes txid :: "Tx \<Rightarrow> TxId"
    and insert_tx :: "Tx \<Rightarrow> 'm \<Rightarrow> 'm \<times> bool"
    and build_batch :: "nat \<Rightarrow> TxId list \<Rightarrow> 'm \<Rightarrow> Tx list"
    and prune_ids :: "TxId list \<Rightarrow> 'm \<Rightarrow> 'm"
    and len :: "'m \<Rightarrow> nat"
    and content :: "'m \<Rightarrow> TxId set"
    and wf :: "'m \<Rightarrow> bool"
    and admissible :: "Tx \<Rightarrow> bool"
  assumes insert_wf: "wf m \<Longrightarrow> admissible tx \<Longrightarrow> wf (fst (insert_tx tx m))"
    and prune_wf: "wf m \<Longrightarrow> wf (prune_ids ids m)"
    and prune_content: "wf m \<Longrightarrow> content (prune_ids ids m) \<subseteq> content m - set ids"
    and build_bound: "wf m \<Longrightarrow> length (build_batch k ex m) \<le> k"
    and build_content: "wf m \<Longrightarrow> tx \<in> set (build_batch k ex m) \<Longrightarrow> txid tx \<in> content m - set ex"
    and build_distinct: "wf m \<Longrightarrow> distinct (map txid (build_batch k ex m))"
    and len_content: "wf m \<Longrightarrow> len m = card (content m)"
begin

text \<open>What was finalized and pruned is never proposed again, nor what an ancestor holds.\<close>

lemma prune_then_build:
  "wf m \<Longrightarrow> tx \<in> set (build_batch k ex (prune_ids ids m)) \<Longrightarrow> txid tx \<notin> set ids \<union> set ex"
  using build_content [OF prune_wf] prune_content by blast

lemma build_ids:
  assumes "wf m"
  shows "set (map txid (build_batch k ex m)) \<inter> set ex = {}"
    and "card (txid ` set (build_batch k ex m)) = length (build_batch k ex m)"
proof -
  show "set (map txid (build_batch k ex m)) \<inter> set ex = {}" using build_content [OF assms] by auto
  show "card (txid ` set (build_batch k ex m)) = length (build_batch k ex m)"
    using distinct_card [OF build_distinct [OF assms, of k ex]] by simp
qed

text \<open>Two proposals, the second on top of the first, share no transaction.\<close>

lemma successive_builds_disjoint:
  assumes "wf m" "wf m'"
  shows "set (map txid (build_batch k ex m)) \<inter>
    set (map txid (build_batch k' (map txid (build_batch k ex m) @ ex) m')) = {}"
  using build_ids(1) [OF assms(2), of k' "map txid (build_batch k ex m) @ ex"] by auto

end

section \<open>The in-memory mempool\<close>

type_synonym InMemoryMempool = "(TxId, Tx) btree_map"

definition imm_new :: InMemoryMempool where
  "imm_new = []"

definition tx_order_key :: "externs \<Rightarrow> Tx \<Rightarrow> u8 \<times> address \<times> u64" where
  "tx_order_key X tx =
     (case ex_decode_2718 X (tx_bytes tx) of
        Inl _ \<Rightarrow> (1, 0, - 1)
      | Inr envelope \<Rightarrow>
          (case ex_recover_signer X envelope of
             None \<Rightarrow> (1, 0, - 1)
           | Some sender \<Rightarrow> (0, sender, tc_nonce (env_common envelope))))"

definition imm_insert :: "externs \<Rightarrow> Tx \<Rightarrow> InMemoryMempool \<Rightarrow> InMemoryMempool \<times> bool" where
  "imm_insert X tx m = (let i = tx_id X tx in (bt_insert i tx m, bt_get m i = None))"

definition imm_build :: "externs \<Rightarrow> nat \<Rightarrow> TxId list \<Rightarrow> InMemoryMempool \<Rightarrow> Tx list" where
  "imm_build X max_txs excluded m =
     (let candidates = map (\<lambda>(i, tx). (tx_order_key X tx, i, tx)) (filter (\<lambda>(i, _). i \<notin> set excluded) m);
          sorted = sort_key (\<lambda>(order, i, _). (order, i)) candidates
      in map (\<lambda>(_, _, tx). tx) (take max_txs sorted))"

definition imm_prune :: "TxId list \<Rightarrow> InMemoryMempool \<Rightarrow> InMemoryMempool" where
  "imm_prune tx_ids m = fold (\<lambda>i m. bt_remove i m) tx_ids m"

definition imm_len :: "InMemoryMempool \<Rightarrow> nat" where
  "imm_len m = length m"

definition imm_wf :: "externs \<Rightarrow> InMemoryMempool \<Rightarrow> bool" where
  "imm_wf X m \<longleftrightarrow> bt_wf m \<and> (\<forall>(i, tx) \<in> set m. i = tx_id X tx)"

lemma set_bt_insert_subset: "set (bt_insert k v m) \<subseteq> insert (k, v) (set m)"
  by (induction m) (auto split: ordering.splits)

lemma imm_wf_insert: "imm_wf X m \<Longrightarrow> imm_wf X (fst (imm_insert X tx m))"
  using set_bt_insert_subset [of "tx_id X tx" tx m]
  by (auto simp: imm_wf_def imm_insert_def Let_def)

lemma imm_prune_eq: "imm_prune ids m = filter (\<lambda>e. fst e \<notin> set ids) m"
  unfolding imm_prune_def
  by (induction ids arbitrary: m) (auto simp: AList.delete_eq conj_commute intro: filter_cong)

lemma imm_wf_prune: "imm_wf X m \<Longrightarrow> imm_wf X (imm_prune ids m)"
  by (auto simp: imm_wf_def imm_prune_eq sorted_wrt_map sorted_wrt_filter)

text \<open>The batch is a sorted rearrangement of the transactions that are not excluded.\<close>

lemma imm_build_ids:
  assumes "imm_wf X m"
  shows "distinct (map (tx_id X) (imm_build X k ex m))"
    and "set (map (tx_id X) (imm_build X k ex m)) \<subseteq> fst ` set m - set ex"
proof -
  let ?c = "map (\<lambda>(i, tx). (tx_order_key X tx, i, tx)) (filter (\<lambda>(i, _). i \<notin> set ex) m)"
  let ?s = "sort_key (\<lambda>(order, i, _). (order, i)) ?c"
  have id: "tx_id X tx = i" if "(ord, i, tx) \<in> set ?c" for ord i tx
    using that assms by (auto simp: imm_wf_def)
  have ids: "map (tx_id X) (imm_build X k ex m) = map (\<lambda>(_, i, _). i) (take k ?s)"
    unfolding imm_build_def Let_def using id by (auto dest!: in_set_takeD)
  have "distinct (map fst m)" using assms by (simp add: imm_wf_def bt_wf_distinct)
  then have "distinct (map (\<lambda>(_, i, _). i) ?c)"
    by (simp add: comp_def case_prod_unfold distinct_map_filter)
  moreover have "mset (map (\<lambda>(_, i, _). i) ?s) = mset (map (\<lambda>(_, i, _). i) ?c)"
    by (simp only: mset_map mset_sort)
  ultimately have "distinct (map (\<lambda>(_, i, _). i) ?s)"
    using mset_eq_imp_distinct_iff by blast
  then show "distinct (map (tx_id X) (imm_build X k ex m))"
    unfolding ids take_map [symmetric] by (rule distinct_take)
  show "set (map (tx_id X) (imm_build X k ex m)) \<subseteq> fst ` set m - set ex"
    unfolding ids by (force dest!: in_set_takeD)
qed

interpretation imm: mempool "tx_id X" "imm_insert X" "imm_build X" imm_prune imm_len
  "\<lambda>m. fst ` set m" "imm_wf X" "\<lambda>_. True" for X
proof unfold_locales
  fix m k ex ids tx
  assume wf: "imm_wf X m"
  show "imm_wf X (fst (imm_insert X tx m))" using wf by (rule imm_wf_insert)
  show "imm_wf X (imm_prune ids m)" using wf by (rule imm_wf_prune)
  show "fst ` set (imm_prune ids m) \<subseteq> fst ` set m - set ids" by (auto simp: imm_prune_eq)
  show "length (imm_build X k ex m) \<le> k" by (simp add: imm_build_def Let_def)
  show "distinct (map (tx_id X) (imm_build X k ex m))" using wf by (rule imm_build_ids)
  show "tx \<in> set (imm_build X k ex m) \<Longrightarrow> tx_id X tx \<in> fst ` set m - set ex"
    using imm_build_ids(2) [OF wf] by fastforce
  show "imm_len m = card (fst ` set m)"
    using wf distinct_card [of "map fst m"] by (simp add: imm_wf_def imm_len_def bt_wf_distinct)
qed

end
