(* ===== verification/Txpool_Ordering.thy ===== *)
theory Txpool_Ordering
  imports Domain
begin

text \<open>
  \<open>crates/node/txpool/src/ordering.rs\<close>: transactions with their ordering metadata, the
  priority order used to build blocks, and the per-sender queue that separates executable
  (pending) transactions from those waiting behind a nonce gap (queued).
\<close>

section \<open>Ordered transactions\<close>

record OrderedTransaction =
  ot_hash :: b256
  ot_sender :: address
  ot_nonce :: u64
  ot_price :: u128
  ot_timestamp :: u64
  ot_envelope :: TxEnvelope

definition ot_new ::
    "b256 \<Rightarrow> address \<Rightarrow> u64 \<Rightarrow> u128 \<Rightarrow> u64 \<Rightarrow> TxEnvelope \<Rightarrow> OrderedTransaction" where
  "ot_new h sender nonce price timestamp env =
     \<lparr>ot_hash = h, ot_sender = sender, ot_nonce = nonce, ot_price = price,
      ot_timestamp = timestamp, ot_envelope = env\<rparr>"

definition effective_tip :: "OrderedTransaction \<Rightarrow> u128 option \<Rightarrow> u128" where
  "effective_tip t base_fee =
     (case base_fee of None \<Rightarrow> ot_price t | Some base \<Rightarrow> saturating_sub (ot_price t) base)"

definition ot_eq :: "OrderedTransaction \<Rightarrow> OrderedTransaction \<Rightarrow> bool" where
  "ot_eq a b \<longleftrightarrow> ot_hash a = ot_hash b"

text \<open>\<open>Ord::cmp\<close>: higher price first, then older, then smaller hash.\<close>

definition ot_cmp :: "OrderedTransaction \<Rightarrow> OrderedTransaction \<Rightarrow> ordering" where
  "ot_cmp a b =
     then_with (cmp (ot_price b) (ot_price a))
       (then_with (cmp (ot_timestamp a) (ot_timestamp b)) (cmp (ot_hash a) (ot_hash b)))"

text \<open>The same order as a key, for \<open>sort()\<close> and \<open>min_by\<close>.\<close>

definition ot_key :: "OrderedTransaction \<Rightarrow> u128 reverse \<times> u64 \<times> b256" where
  "ot_key t = (Reverse (ot_price t), ot_timestamp t, ot_hash t)"

lemma ot_cmp_key: "ot_cmp a b = cmp (ot_key a) (ot_key b)"
  by (simp add: ot_cmp_def ot_key_def cmp_pair)

lemma ot_key_hash: "ot_key a = ot_key b \<Longrightarrow> ot_hash a = ot_hash b"
  by (simp add: ot_key_def)

section \<open>The per-sender queue\<close>

record SenderQueue =
  sq_sender :: address
  sq_next_nonce :: u64
  sq_pending :: "OrderedTransaction list"
  sq_queued :: "OrderedTransaction list"

definition sq_new :: "address \<Rightarrow> u64 \<Rightarrow> SenderQueue" where
  "sq_new sender initial_nonce =
     \<lparr>sq_sender = sender, sq_next_nonce = initial_nonce, sq_pending = [], sq_queued = []\<rparr>"

definition next_pending_nonce :: "SenderQueue \<Rightarrow> u64" where
  "next_pending_nonce q = saturating_add (sq_next_nonce q) (of_nat (length (sq_pending q)))"

definition sq_total_count :: "SenderQueue \<Rightarrow> nat" where
  "sq_total_count q = length (sq_pending q) + length (sq_queued q)"

definition sq_is_empty :: "SenderQueue \<Rightarrow> bool" where
  "sq_is_empty q \<longleftrightarrow> sq_pending q = [] \<and> sq_queued q = []"

text \<open>\<open>promote_queued\<close>: the loop stops at the first queued transaction that leaves a gap.\<close>

function promote_queued :: "SenderQueue \<Rightarrow> SenderQueue" where
  "promote_queued q =
     (case sq_queued q of
        [] \<Rightarrow> q
      | first # rest \<Rightarrow>
          if ot_nonce first = next_pending_nonce q
          then promote_queued (q\<lparr>sq_queued := rest, sq_pending := sq_pending q @ [first]\<rparr>)
          else q)"
  by pat_completeness auto
termination
  by (relation "measure (\<lambda>q. length (sq_queued q))") auto

declare promote_queued.simps [simp del]

definition sq_insert ::
    "OrderedTransaction \<Rightarrow> SenderQueue \<Rightarrow> SenderQueue \<times> OrderedTransaction option" where
  "sq_insert t q =
     (if ot_nonce t < sq_next_nonce q then (q, Some t)
      else if ot_nonce t = next_pending_nonce q then
        (promote_queued (q\<lparr>sq_pending := sq_pending q @ [t]\<rparr>), None)
      else if ot_nonce t > next_pending_nonce q then
        (case binary_search_by (\<lambda>x. cmp (ot_nonce x) (ot_nonce t)) (sq_queued q) of
           Inr pos \<Rightarrow>
             (let existing = sq_queued q ! pos
              in if ot_price t > ot_price existing
                 then (q\<lparr>sq_queued := (sq_queued q)[pos := t]\<rparr>, Some existing)
                 else (q, Some t))
         | Inl pos \<Rightarrow>
             (q\<lparr>sq_queued := take pos (sq_queued q) @ t # drop pos (sq_queued q)\<rparr>, None))
      else
        (let idx = unat (ot_nonce t - sq_next_nonce q)
         in if idx < length (sq_pending q) then
              (let existing = sq_pending q ! idx
               in if ot_price t > ot_price existing
                  then (q\<lparr>sq_pending := (sq_pending q)[idx := t]\<rparr>, Some existing)
                  else (q, Some t))
            else (q, Some t)))"

text \<open>\<open>Iterator::position\<close> of a predicate.\<close>

fun position :: "('a \<Rightarrow> bool) \<Rightarrow> 'a list \<Rightarrow> nat option" where
  "position P [] = None"
| "position P (x # xs) = (if P x then Some 0 else map_option Suc (position P xs))"

text \<open>\<open>Vec::remove(idx)\<close> on an index in range.\<close>

definition remove_nth :: "nat \<Rightarrow> 'a list \<Rightarrow> 'a list" where
  "remove_nth i xs = take i xs @ drop (Suc i) xs"

definition sq_remove_by_hash ::
    "b256 \<Rightarrow> SenderQueue \<Rightarrow> SenderQueue \<times> OrderedTransaction option" where
  "sq_remove_by_hash h q =
     (case position (\<lambda>t. ot_hash t = h) (sq_pending q) of
        Some idx \<Rightarrow>
          (let removed = sq_pending q ! idx;
               pending = remove_nth idx (sq_pending q);
               moved = drop idx pending
           in (q\<lparr>sq_pending := take idx pending,
                 sq_queued := sort_key ot_nonce (sq_queued q @ moved)\<rparr>, Some removed))
      | None \<Rightarrow>
          (case position (\<lambda>t. ot_hash t = h) (sq_queued q) of
             None \<Rightarrow> (q, None)
           | Some idx \<Rightarrow>
               (q\<lparr>sq_queued := remove_nth idx (sq_queued q)\<rparr>, Some (sq_queued q ! idx))))"

definition sq_remove_confirmed :: "u64 \<Rightarrow> SenderQueue \<Rightarrow> SenderQueue" where
  "sq_remove_confirmed confirmed q =
     promote_queued
       (q\<lparr>sq_pending := filter (\<lambda>t. ot_nonce t > confirmed) (sq_pending q),
          sq_queued := filter (\<lambda>t. ot_nonce t > confirmed) (sq_queued q),
          sq_next_nonce :=
            (if confirmed \<ge> sq_next_nonce q then saturating_add confirmed 1
             else sq_next_nonce q)\<rparr>)"

section \<open>The queue invariant\<close>

definition sq_txs :: "SenderQueue \<Rightarrow> OrderedTransaction list" where
  "sq_txs q = sq_pending q @ sq_queued q"

abbreviation nn :: "OrderedTransaction \<Rightarrow> nat" where
  "nn t \<equiv> unat (ot_nonce t)"

text \<open>
  Pending nonces are consecutive from \<open>next_nonce\<close>; queued nonces are strictly increasing and
  lie strictly behind the gap; every transaction has the queue's sender. Nonce \<open>u64::MAX\<close>
  is excluded: there the saturating \<open>next_pending_nonce\<close> no longer moves forward.
\<close>

definition sq_wf :: "SenderQueue \<Rightarrow> bool" where
  "sq_wf q \<longleftrightarrow>
     map nn (sq_pending q) =
       [unat (sq_next_nonce q)..<unat (sq_next_nonce q) + length (sq_pending q)] \<and>
     unat (sq_next_nonce q) + length (sq_pending q) < 2 ^ 64 \<and>
     sorted_wrt (\<lambda>a b. ot_nonce a < ot_nonce b) (sq_queued q) \<and>
     (\<forall>t \<in> set (sq_queued q). unat (sq_next_nonce q) + length (sq_pending q) < nn t \<and>
        ot_nonce t \<noteq> - 1) \<and>
     (\<forall>t \<in> set (sq_txs q). ot_sender t = sq_sender q)"

lemma sq_wfD:
  assumes "sq_wf q"
  shows "map nn (sq_pending q) =
      [unat (sq_next_nonce q)..<unat (sq_next_nonce q) + length (sq_pending q)]"
    and "unat (sq_next_nonce q) + length (sq_pending q) < 2 ^ 64"
    and "sorted_wrt (\<lambda>a b. ot_nonce a < ot_nonce b) (sq_queued q)"
    and "t \<in> set (sq_queued q) \<Longrightarrow> unat (sq_next_nonce q) + length (sq_pending q) < nn t"
    and "t \<in> set (sq_txs q) \<Longrightarrow> ot_sender t = sq_sender q"
  using assms by (auto simp: sq_wf_def)

lemma unat_minus_one_u64: "unat (- 1 :: u64) = 2 ^ 64 - 1"
  by (simp add: unsigned_minus_1_eq_mask mask_eq_exp_minus_1)

lemma nn_less_max: "ot_nonce t \<noteq> - 1 \<longleftrightarrow> nn t < 2 ^ 64 - 1"
proof -
  have "nn t < 2 ^ 64" using unsigned_less [where w = "ot_nonce t"] by simp
  moreover have "ot_nonce t = - 1 \<longleftrightarrow> nn t = 2 ^ 64 - 1"
    by (metis unat_minus_one_u64 word_unat_eq_iff)
  ultimately show ?thesis by linarith
qed

lemma unat_next_pending_nonce:
  assumes "sq_wf q"
  shows "unat (next_pending_nonce q) = unat (sq_next_nonce q) + length (sq_pending q)"
proof -
  have "unat (of_nat (length (sq_pending q)) :: u64) = length (sq_pending q)"
    using sq_wfD(2) [OF assms] by (simp add: unat_of_nat)
  with sq_wfD(2) [OF assms] show ?thesis
    by (simp add: next_pending_nonce_def unat_saturating_add)
qed

lemma nn_pending_nth:
  assumes "sq_wf q" and "i < length (sq_pending q)"
  shows "nn (sq_pending q ! i) = unat (sq_next_nonce q) + i"
  using arg_cong [OF sq_wfD(1) [OF assms(1)], of "\<lambda>xs. xs ! i"] assms(2) by simp

lemma sq_wf_new [simp]: "sq_wf (sq_new s n)"
  using unsigned_less [where w = n] by (simp add: sq_wf_def sq_new_def sq_txs_def)

section \<open>Every operation keeps the invariant\<close>

text \<open>
  Between an update and \<open>promote_queued\<close> the first queued transaction may sit right at the
  end of the pending run; \<open>sq_wf0\<close> is the invariant with that gap closed.
\<close>

definition sq_wf0 :: "SenderQueue \<Rightarrow> bool" where
  "sq_wf0 q \<longleftrightarrow>
     map nn (sq_pending q) =
       [unat (sq_next_nonce q)..<unat (sq_next_nonce q) + length (sq_pending q)] \<and>
     unat (sq_next_nonce q) + length (sq_pending q) < 2 ^ 64 \<and>
     sorted_wrt (\<lambda>a b. ot_nonce a < ot_nonce b) (sq_queued q) \<and>
     (\<forall>t \<in> set (sq_queued q). unat (sq_next_nonce q) + length (sq_pending q) \<le> nn t \<and>
        ot_nonce t \<noteq> - 1) \<and>
     (\<forall>t \<in> set (sq_txs q). ot_sender t = sq_sender q)"

lemma unat_next_pending_nonce0:
  assumes "sq_wf0 q"
  shows "unat (next_pending_nonce q) = unat (sq_next_nonce q) + length (sq_pending q)"
proof -
  have "unat (of_nat (length (sq_pending q)) :: u64) = length (sq_pending q)"
    using assms by (simp add: sq_wf0_def unat_of_nat)
  with assms show ?thesis
    by (simp add: next_pending_nonce_def unat_saturating_add sq_wf0_def)
qed

lemma sq_txs_promote [simp]: "sq_txs (promote_queued q) = sq_txs q"
proof (induction q rule: promote_queued.induct)
  case (1 q)
  then show ?case
    by (subst promote_queued.simps) (auto simp: sq_txs_def split: list.splits)
qed

lemma sq_sender_promote [simp]: "sq_sender (promote_queued q) = sq_sender q"
proof (induction q rule: promote_queued.induct)
  case (1 q)
  then show ?case by (subst promote_queued.simps) (auto split: list.splits)
qed

lemma sq_next_nonce_promote [simp]: "sq_next_nonce (promote_queued q) = sq_next_nonce q"
proof (induction q rule: promote_queued.induct)
  case (1 q)
  then show ?case by (subst promote_queued.simps) (auto split: list.splits)
qed

lemma sq_wf_promote: "sq_wf0 q \<Longrightarrow> sq_wf (promote_queued q)"
proof (induction q rule: promote_queued.induct)
  case (1 q)
  show ?case
  proof (cases "sq_queued q")
    case Nil
    with "1.prems" show ?thesis
      by (subst promote_queued.simps) (auto simp: sq_wf_def sq_wf0_def)
  next
    case (Cons t rest)
    note nxt = unat_next_pending_nonce0 [OF "1.prems"]
    have rest: "\<forall>t' \<in> set rest. nn t < nn t' \<and> ot_nonce t' \<noteq> - 1"
      using "1.prems" Cons by (auto simp: sq_wf0_def word_less_nat_alt)
    have t: "ot_nonce t \<noteq> - 1" "unat (sq_next_nonce q) + length (sq_pending q) \<le> nn t"
      using "1.prems" Cons by (auto simp: sq_wf0_def)
    show ?thesis
    proof (cases "ot_nonce t = next_pending_nonce q")
      case True
      let ?q = "q\<lparr>sq_queued := rest, sq_pending := sq_pending q @ [t]\<rparr>"
      have "nn t = unat (sq_next_nonce q) + length (sq_pending q)" using True nxt by simp
      with "1.prems" Cons rest t(1) have "sq_wf0 ?q"
        by (auto simp: sq_wf0_def sq_txs_def nn_less_max)
      with "1.IH" [OF Cons True] show ?thesis
        by (subst promote_queued.simps) (simp add: Cons True)
    next
      case False
      with nxt have "nn t \<noteq> unat (sq_next_nonce q) + length (sq_pending q)"
        by (metis word_unat_eq_iff)
      with t(2) have "unat (sq_next_nonce q) + length (sq_pending q) < nn t" by simp
      with "1.prems" Cons rest have "sq_wf q"
        by (auto simp: sq_wf_def sq_wf0_def)
      with False show ?thesis by (subst promote_queued.simps) (simp add: Cons)
    qed
  qed
qed

lemma sq_wf_wf0: "sq_wf q \<Longrightarrow> sq_wf0 q"
  by (auto simp: sq_wf_def sq_wf0_def)

lemma sq_wf_nonces:
  assumes "sq_wf q"
  shows "distinct (map ot_nonce (sq_txs q))"
    and "t \<in> set (sq_pending q) \<Longrightarrow> unat (sq_next_nonce q) \<le> nn t \<and>
      nn t < unat (sq_next_nonce q) + length (sq_pending q)"
    and "t \<in> set (sq_txs q) \<Longrightarrow> sq_next_nonce q \<le> ot_nonce t \<and> ot_nonce t \<noteq> - 1"
proof -
  have pend: "unat (sq_next_nonce q) \<le> nn t \<and> nn t < unat (sq_next_nonce q) + length (sq_pending q)"
    if "t \<in> set (sq_pending q)" for t
    using that nn_pending_nth [OF assms] by (auto simp: in_set_conv_nth)
  then show "t \<in> set (sq_pending q) \<Longrightarrow> unat (sq_next_nonce q) \<le> nn t \<and>
      nn t < unat (sq_next_nonce q) + length (sq_pending q)" .
  have queued: "unat (sq_next_nonce q) + length (sq_pending q) < nn t" "ot_nonce t \<noteq> - 1"
    if "t \<in> set (sq_queued q)" for t
    using that assms by (auto simp: sq_wf_def)
  have "distinct (map nn (sq_pending q))"
    by (subst sq_wfD(1) [OF assms]) simp
  then have "distinct (map ot_nonce (sq_pending q))"
    by (auto simp: distinct_map inj_on_def)
  moreover have "sorted_wrt (<) (map ot_nonce (sq_queued q))"
    using sq_wfD(3) [OF assms] by (simp add: sorted_wrt_map)
  then have "distinct (map ot_nonce (sq_queued q))"
    using strict_sorted_iff by blast
  ultimately show "distinct (map ot_nonce (sq_txs q))"
    using pend queued by (fastforce simp: sq_txs_def)
  show "t \<in> set (sq_txs q) \<Longrightarrow> sq_next_nonce q \<le> ot_nonce t \<and> ot_nonce t \<noteq> - 1"
    using pend [of t] queued [of t] sq_wfD(2) [OF assms]
    by (auto simp: sq_txs_def word_le_nat_alt nn_less_max)
qed

lemma sq_insert_spec:
  assumes wf: "sq_wf q" and max: "ot_nonce t \<noteq> - 1" and sender: "ot_sender t = sq_sender q"
    and ins: "sq_insert t q = (q', r)"
  obtains
    (Added) "r = None" "sq_wf q'" "mset (sq_txs q') = add_mset t (mset (sq_txs q))"
      "\<forall>u \<in> set (sq_txs q). ot_nonce u \<noteq> ot_nonce t" "sq_next_nonce q \<le> ot_nonce t"
  | (Replaced) old where "r = Some old" "sq_wf q'" "old \<in> set (sq_txs q)"
      "mset (sq_txs q') = add_mset t (mset (sq_txs q) - {#old#})"
      "ot_nonce old = ot_nonce t" "ot_price old < ot_price t"
  | (Rejected) "r = Some t" "q' = q"
      "ot_nonce t < sq_next_nonce q \<or>
       (\<exists>u \<in> set (sq_txs q). ot_nonce u = ot_nonce t \<and> ot_price t \<le> ot_price u)"
proof (cases "ot_nonce t < sq_next_nonce q")
  case True
  with ins show ?thesis by (intro Rejected) (auto simp: sq_insert_def)
next
  case ge: False
  note nxt = unat_next_pending_nonce [OF wf]
  consider (eq) "ot_nonce t = next_pending_nonce q" | (gt) "ot_nonce t > next_pending_nonce q"
    | (lt) "ot_nonce t < next_pending_nonce q" by fastforce
  then show ?thesis
  proof cases
    case eq
    let ?q = "q\<lparr>sq_pending := sq_pending q @ [t]\<rparr>"
    have nnt: "nn t = unat (sq_next_nonce q) + length (sq_pending q)" using eq nxt by simp
    have "sq_wf0 ?q"
      using wf sender max nnt by (auto simp: sq_wf_def sq_wf0_def sq_txs_def nn_less_max)
    moreover have "\<forall>u \<in> set (sq_txs q). ot_nonce u \<noteq> ot_nonce t"
      using sq_wf_nonces(2) [OF wf] sq_wfD(4) [OF wf] nnt by (fastforce simp: sq_txs_def)
    ultimately show ?thesis
      using ins ge eq by (intro Added) (auto simp: sq_insert_def sq_wf_promote, simp add: sq_txs_def)
  next
    case gt
    note sorted = sq_wfD(3) [OF wf]
    have ne: "ot_nonce t \<noteq> next_pending_nonce q" using gt by auto
    have nnt: "unat (sq_next_nonce q) + length (sq_pending q) < nn t"
      using gt nxt by (simp add: word_less_nat_alt)
    have pend: "\<forall>u \<in> set (sq_pending q). ot_nonce u \<noteq> ot_nonce t"
      using sq_wf_nonces(2) [OF wf] nnt by fastforce
    show ?thesis
    proof (cases "binary_search_by (\<lambda>x. cmp (ot_nonce x) (ot_nonce t)) (sq_queued q)")
      case (Inl pos)
      note pos = binary_search_by_Inl [OF sorted Inl]
      let ?q = "q\<lparr>sq_queued := take pos (sq_queued q) @ t # drop pos (sq_queued q)\<rparr>"
      have split: "sq_queued q = take pos (sq_queued q) @ drop pos (sq_queued q)" by simp
      have sorted': "sorted_wrt (\<lambda>a b. ot_nonce a < ot_nonce b) (sq_queued ?q)"
        using sorted pos by (subst (asm) split) (auto simp: sorted_wrt_append simp del: append_take_drop_id)
      have set': "set (take pos (sq_queued q)) \<union> set (drop pos (sq_queued q)) = set (sq_queued q)"
        by (metis set_append append_take_drop_id)
      have "sq_wf ?q"
        using wf sorted' nnt max sender set' by (fastforce simp: sq_wf_def sq_txs_def)
      moreover have "mset (sq_txs ?q) = add_mset t (mset (sq_txs q))"
        by (simp add: sq_txs_def) (metis mset_append append_take_drop_id)
      moreover have "ot_nonce u \<noteq> ot_nonce t" if "u \<in> set (sq_queued q)" for u
        using that pos(2,3) by (metis set' Un_iff less_irrefl)
      then have "\<forall>u \<in> set (sq_txs q). ot_nonce u \<noteq> ot_nonce t"
        using pend by (auto simp: sq_txs_def)
      moreover have "q' = ?q" "r = None" using ins ge gt ne Inl by (simp_all add: sq_insert_def)
      ultimately show ?thesis using ge by (intro Added) (simp_all add: not_less)
    next
      case (Inr pos)
      note pos = binary_search_by_Inr [OF sorted Inr]
      let ?old = "sq_queued q ! pos"
      show ?thesis
      proof (cases "ot_price t > ot_price ?old")
        case True
        let ?q = "q\<lparr>sq_queued := (sq_queued q)[pos := t]\<rparr>"
        have nonces: "map ot_nonce ((sq_queued q)[pos := t]) = map ot_nonce (sq_queued q)"
          using pos by (simp add: map_update list_update_same_conv)
        have sorted': "sorted_wrt (\<lambda>a b. ot_nonce a < ot_nonce b) ((sq_queued q)[pos := t])"
          using sorted nonces by (metis sorted_wrt_map)
        have "sq_wf ?q"
          using wf sorted' nnt max sender set_update_subset_insert [of "sq_queued q" pos t]
          by (fastforce simp: sq_wf_def sq_txs_def)
        moreover have "mset (sq_txs ?q) = add_mset t (mset (sq_txs q) - {#?old#})"
          using pos by (simp add: sq_txs_def mset_update)
        moreover have "q' = ?q" "r = Some ?old"
          using ins ge gt ne Inr True by (simp_all add: sq_insert_def)
        ultimately show ?thesis
          using True pos by (intro Replaced [of ?old]) (simp_all add: sq_txs_def)
      next
        case False
        then have "q' = q" "r = Some t" using ins ge gt ne Inr by (simp_all add: sq_insert_def)
        moreover have "?old \<in> set (sq_txs q)" using pos by (simp add: sq_txs_def)
        ultimately show ?thesis using False pos by (intro Rejected) (auto simp: not_less)
      qed
    qed
  next
    case lt
    have ne: "ot_nonce t \<noteq> next_pending_nonce q" "\<not> next_pending_nonce q < ot_nonce t"
      using lt by auto
    let ?idx = "unat (ot_nonce t - sq_next_nonce q)"
    let ?old = "sq_pending q ! ?idx"
    have idx: "?idx = nn t - unat (sq_next_nonce q)"
      using ge by (simp add: unat_sub not_less)
    have len: "?idx < length (sq_pending q)"
      using lt nxt ge by (simp add: idx word_less_nat_alt not_less)
    have nonce: "ot_nonce ?old = ot_nonce t"
      using nn_pending_nth [OF wf len] idx ge by (simp add: word_less_nat_alt word_unat_eq_iff)
    show ?thesis
    proof (cases "ot_price t > ot_price ?old")
      case True
      let ?q = "q\<lparr>sq_pending := (sq_pending q)[?idx := t]\<rparr>"
      have nonces: "map nn ((sq_pending q)[?idx := t]) = map nn (sq_pending q)"
        using len nonce by (simp add: map_update list_update_same_conv)
      have "sq_wf ?q"
        using wf sender nonces set_update_subset_insert [of "sq_pending q" ?idx t]
        by (fastforce simp: sq_wf_def sq_txs_def)
      moreover have "mset (sq_txs ?q) = add_mset t (mset (sq_txs q) - {#?old#})"
        using len by (simp add: sq_txs_def mset_update)
      moreover have "q' = ?q" "r = Some ?old"
        using ins ge lt ne len True by (simp_all add: sq_insert_def Let_def)
      ultimately show ?thesis
        using len True nonce by (intro Replaced [of ?old]) (simp_all add: sq_txs_def)
    next
      case False
      then have "q' = q" "r = Some t"
        using ins ge lt ne len by (simp_all add: sq_insert_def Let_def)
      moreover have "?old \<in> set (sq_txs q)" using len by (simp add: sq_txs_def)
      ultimately show ?thesis using False nonce by (intro Rejected) (auto simp: not_less)
    qed
  qed
qed

lemma position_Some:
  "position P xs = Some i \<Longrightarrow> i < length xs \<and> P (xs ! i) \<and> (\<forall>j < i. \<not> P (xs ! j))"
proof (induction xs arbitrary: i)
  case (Cons x xs)
  then show ?case by (auto split: if_splits simp: less_Suc_eq_0_disj)
qed simp

lemma position_None: "position P xs = None \<longleftrightarrow> (\<forall>x \<in> set xs. \<not> P x)"
  by (induction xs) auto

lemma mset_remove_nth: "i < length xs \<Longrightarrow> mset (remove_nth i xs) = mset xs - {#xs ! i#}"
  by (metis add_mset_remove_trivial id_take_nth_drop mset.simps(2) mset_append remove_nth_def
      union_mset_add_mset_right)

lemma take_remove_nth: "i < length xs \<Longrightarrow> take i (remove_nth i xs) = take i xs"
  by (simp add: remove_nth_def)

lemma drop_remove_nth: "i < length xs \<Longrightarrow> drop i (remove_nth i xs) = drop (Suc i) xs"
  by (simp add: remove_nth_def)

lemma sorted_wrt_remove_nth:
  assumes "sorted_wrt P xs"
  shows "sorted_wrt P (remove_nth i xs)"
proof -
  have "sorted_wrt P (take i xs @ drop i xs)" using assms by simp
  then have "sorted_wrt P (take i xs @ tl (drop i xs))"
    by (cases "drop i xs") (auto simp: sorted_wrt_append simp del: append_take_drop_id)
  then show ?thesis by (simp add: remove_nth_def drop_Suc tl_drop)
qed

text \<open>Removing a hash takes out exactly that transaction and keeps the invariant.\<close>

lemma sq_remove_by_hash_spec:
  assumes wf: "sq_wf q" and rem: "sq_remove_by_hash h q = (q', r)"
  obtains
    (Found) t where "r = Some t" "t \<in> set (sq_txs q)" "ot_hash t = h" "sq_wf q'"
      "mset (sq_txs q') = mset (sq_txs q) - {#t#}"
  | (Missing) "r = None" "q' = q" "\<forall>t \<in> set (sq_txs q). ot_hash t \<noteq> h"
proof (cases "position (\<lambda>t. ot_hash t = h) (sq_pending q)")
  case (Some i)
  let ?p = "sq_pending q"
  let ?moved = "drop (Suc i) ?p"
  have i: "i < length ?p" "ot_hash (?p ! i) = h" using position_Some [OF Some] by auto
  have res: "q' = q\<lparr>sq_pending := take i ?p, sq_queued := sort_key ot_nonce (sq_queued q @ ?moved)\<rparr>"
    "r = Some (?p ! i)"
    using rem Some i by (auto simp: sq_remove_by_hash_def Let_def take_remove_nth drop_remove_nth)
  have moved: "unat (sq_next_nonce q) + i < nn t \<and> ot_nonce t \<noteq> - 1" if "t \<in> set ?moved" for t
  proof -
    from that obtain j where "t = ?p ! j" "Suc i \<le> j" "j < length ?p"
      by (auto simp: in_set_conv_nth)
    then show ?thesis using nn_pending_nth [OF wf, of j] sq_wfD(2) [OF wf] by (simp add: nn_less_max)
  qed
  have "sq_txs q = take (Suc i) ?p @ ?moved @ sq_queued q"
    by (simp add: sq_txs_def flip: append_assoc)
  then have "distinct (map ot_nonce (sq_queued q @ ?moved))"
    using sq_wf_nonces(1) [OF wf] by auto
  from strict_sort_key [OF this]
  have sorted: "sorted_wrt (\<lambda>a b. ot_nonce a < ot_nonce b) (sq_queued q')"
    by (simp add: res)
  have pend: "map nn (take i ?p) = [unat (sq_next_nonce q)..<unat (sq_next_nonce q) + i]"
    using sq_wfD(1) [OF wf] i(1) by (simp add: take_map [symmetric])
  have "\<forall>t \<in> set (sq_queued q'). unat (sq_next_nonce q) + i < nn t \<and> ot_nonce t \<noteq> - 1"
    using moved wf i(1) by (auto simp: res sq_wf_def)
  moreover have "set (sq_txs q') \<subseteq> set (sq_txs q)"
    by (auto simp: res sq_txs_def dest: in_set_takeD in_set_dropD)
  ultimately have "sq_wf q'"
    using sorted pend wf i(1) by (auto simp: sq_wf_def res min_def)
  moreover have "mset (sq_txs q') = mset (sq_txs q) - {#?p ! i#}"
  proof -
    have "mset (take i ?p) + mset ?moved = mset ?p - {#?p ! i#}"
      using mset_remove_nth [OF i(1)] by (simp add: remove_nth_def)
    then show ?thesis using i(1) by (simp add: res sq_txs_def ac_simps)
  qed
  ultimately show ?thesis using i res(2) by (intro Found [of "?p ! i"]) (auto simp: sq_txs_def)
next
  case None
  then have none: "\<forall>t \<in> set (sq_pending q). ot_hash t \<noteq> h" by (simp add: position_None)
  show ?thesis
  proof (cases "position (\<lambda>t. ot_hash t = h) (sq_queued q)")
    case None': None
    with rem None none show ?thesis
      by (intro Missing) (auto simp: sq_remove_by_hash_def sq_txs_def position_None)
  next
    case (Some i)
    have i: "i < length (sq_queued q)" "ot_hash (sq_queued q ! i) = h"
      using position_Some [OF Some] by auto
    have res: "q' = q\<lparr>sq_queued := remove_nth i (sq_queued q)\<rparr>" "r = Some (sq_queued q ! i)"
      using rem None Some by (auto simp: sq_remove_by_hash_def)
    have "set (remove_nth i (sq_queued q)) \<subseteq> set (sq_queued q)"
      by (auto simp: remove_nth_def dest: in_set_takeD in_set_dropD)
    then have "sq_wf q'"
      using wf sorted_wrt_remove_nth by (auto simp: sq_wf_def res sq_txs_def)
    moreover have "mset (sq_txs q') = mset (sq_txs q) - {#sq_queued q ! i#}"
      using i by (simp add: res sq_txs_def mset_remove_nth)
    ultimately show ?thesis
      using i res(2) by (intro Found [of "sq_queued q ! i"]) (auto simp: sq_txs_def)
  qed
qed

lemma sq_remove_missing:
  assumes "\<forall>t \<in> set (sq_txs q). ot_hash t \<noteq> h"
  shows "sq_remove_by_hash h q = (q, None)"
proof -
  have "position (\<lambda>t. ot_hash t = h) (sq_pending q) = None"
    "position (\<lambda>t. ot_hash t = h) (sq_queued q) = None"
    using assms by (simp_all add: position_None sq_txs_def)
  then show ?thesis by (simp add: sq_remove_by_hash_def)
qed

lemma filter_gt_upt: "filter (\<lambda>n. c < n) [a..<b] = [max a (Suc c)..<b]"
  by (induction b) auto

lemma upt_diff: "[a..<a + (b - a)] = [a..<b]" for a b :: nat
  by (cases "a \<le> b") simp_all

text \<open>
  Confirming a nonce drops exactly the transactions up to it, moves \<open>next_nonce\<close> behind it and
  keeps the invariant; in particular the pending run is consecutive again.
\<close>

lemma sq_remove_confirmed_spec:
  assumes wf: "sq_wf q"
  shows "sq_wf (sq_remove_confirmed c q)"
    and "sq_txs (sq_remove_confirmed c q) = filter (\<lambda>t. c < ot_nonce t) (sq_txs q)"
    and "sq_next_nonce (sq_remove_confirmed c q) =
      (if sq_next_nonce q \<le> c then saturating_add c 1 else sq_next_nonce q)"
    and "sq_sender (sq_remove_confirmed c q) = sq_sender q"
proof -
  let ?nxt = "if sq_next_nonce q \<le> c then saturating_add c 1 else sq_next_nonce q"
  let ?q = "q\<lparr>sq_pending := filter (\<lambda>t. c < ot_nonce t) (sq_pending q),
      sq_queued := filter (\<lambda>t. c < ot_nonce t) (sq_queued q), sq_next_nonce := ?nxt\<rparr>"
  let ?a = "unat (sq_next_nonce q)" and ?b = "unat (sq_next_nonce q) + length (sq_pending q)"
  have c: "unat c < 2 ^ 64" using unsigned_less [where w = c] by simp
  have "map nn (filter (\<lambda>t. c < ot_nonce t) (sq_pending q)) =
      filter (\<lambda>n. unat c < n) (map nn (sq_pending q))"
    by (simp add: filter_map comp_def word_less_nat_alt)
  also have "\<dots> = [max ?a (Suc (unat c))..<?b]"
    by (subst sq_wfD(1) [OF wf]) (rule filter_gt_upt)
  finally have pend: "map nn (sq_pending ?q) = [max ?a (Suc (unat c))..<?b]" by simp
  have len: "length (sq_pending ?q) = ?b - max ?a (Suc (unat c))"
    using arg_cong [OF pend, of length] by simp
  have nxt: "unat ?nxt = (if ?a \<le> unat c then min (Suc (unat c)) (2 ^ 64 - 1) else ?a)"
    by (simp add: word_le_nat_alt unat_saturating_add)
  have q: "\<forall>t \<in> set (sq_queued q). ?b < nn t \<and> ot_nonce t \<noteq> - 1"
    using wf by (simp add: sq_wf_def)
  have b: "?b < 2 ^ 64" using sq_wfD(2) [OF wf] .
  have "sq_wf0 ?q"
  proof (cases "?a \<le> unat c")
    case False
    then have "max ?a (Suc (unat c)) = ?a" by simp
    with False pend len nxt q b sq_wfD(3,5) [OF wf] show ?thesis
      by (auto simp: sq_wf0_def sq_txs_def intro: sorted_wrt_filter)
  next
    case True
    then have max: "max ?a (Suc (unat c)) = Suc (unat c)" by simp
    show ?thesis
    proof (cases "Suc (unat c) \<le> 2 ^ 64 - 1")
      case le: True
      then have n: "unat ?nxt = Suc (unat c)" using True nxt by simp
      have "\<forall>t \<in> set (sq_queued ?q). unat ?nxt + length (sq_pending ?q) \<le> nn t \<and> ot_nonce t \<noteq> - 1"
        using q len max n by (auto simp: word_less_nat_alt)
      moreover have "unat ?nxt + length (sq_pending ?q) < 2 ^ 64" using len max n b le by simp
      moreover have "map nn (sq_pending ?q) = [unat ?nxt..<unat ?nxt + length (sq_pending ?q)]"
        unfolding pend len n max by (rule upt_diff [symmetric])
      moreover have "sorted_wrt (\<lambda>a b. ot_nonce a < ot_nonce b) (sq_queued ?q)"
        using sq_wfD(3) [OF wf] by (simp add: sorted_wrt_filter)
      moreover have "\<forall>t \<in> set (sq_txs ?q). ot_sender t = sq_sender ?q"
        using sq_wfD(5) [OF wf] by (auto simp: sq_txs_def)
      ultimately show ?thesis unfolding sq_wf0_def by simp
    next
      case gt: False
      then have "unat c = 2 ^ 64 - 1" using c by simp
      then have none: "\<not> c < ot_nonce t" for t
        using unat_u64_less [of "ot_nonce t"] by (simp add: word_less_nat_alt)
      have "unat ?nxt < 2 ^ 64" by (rule unat_u64_less)
      then show ?thesis by (simp add: sq_wf0_def sq_txs_def none)
    qed
  qed
  moreover have conf: "sq_remove_confirmed c q = promote_queued ?q"
    by (simp add: sq_remove_confirmed_def)
  ultimately show "sq_wf (sq_remove_confirmed c q)" by (simp add: sq_wf_promote)
  show "sq_txs (sq_remove_confirmed c q) = filter (\<lambda>t. c < ot_nonce t) (sq_txs q)"
    "sq_next_nonce (sq_remove_confirmed c q) = ?nxt"
    "sq_sender (sq_remove_confirmed c q) = sq_sender q"
    by (simp_all add: conf) (simp add: sq_txs_def)
qed

text \<open>
  A well-formed queue is determined by its sender, its next nonce and the set of its
  transactions: the split into pending and queued is the longest consecutive run.
\<close>

lemma sq_wf_pending_iff:
  assumes "sq_wf q" and "t \<in> set (sq_txs q)"
  shows "t \<in> set (sq_pending q) \<longleftrightarrow>
    (\<forall>n \<in> {unat (sq_next_nonce q)..nn t}. \<exists>u \<in> set (sq_txs q). nn u = n)"
proof
  assume "t \<in> set (sq_pending q)"
  then have t: "nn t < unat (sq_next_nonce q) + length (sq_pending q)"
    using sq_wf_nonces(2) [OF assms(1)] by blast
  show "\<forall>n \<in> {unat (sq_next_nonce q)..nn t}. \<exists>u \<in> set (sq_txs q). nn u = n"
  proof
    fix n assume "n \<in> {unat (sq_next_nonce q)..nn t}"
    with t have "n \<in> set (map nn (sq_pending q))" by (simp add: sq_wfD(1) [OF assms(1)])
    then show "\<exists>u \<in> set (sq_txs q). nn u = n" by (auto simp: sq_txs_def)
  qed
next
  assume all: "\<forall>n \<in> {unat (sq_next_nonce q)..nn t}. \<exists>u \<in> set (sq_txs q). nn u = n"
  show "t \<in> set (sq_pending q)"
  proof (rule ccontr)
    let ?g = "unat (sq_next_nonce q) + length (sq_pending q)"
    assume "t \<notin> set (sq_pending q)"
    with assms have "?g < nn t" using sq_wfD(4) [OF assms(1)] by (simp add: sq_txs_def)
    then have "?g \<in> {unat (sq_next_nonce q)..nn t}" by simp
    with all obtain u where u: "u \<in> set (sq_txs q)" "nn u = ?g" by blast
    show False
    proof (cases "u \<in> set (sq_pending q)")
      case True
      then show False using sq_wf_nonces(2) [OF assms(1)] u(2) by fastforce
    next
      case False
      then show False using u sq_wfD(4) [OF assms(1)] by (fastforce simp: sq_txs_def)
    qed
  qed
qed

lemma sq_sorted_pending: "sq_wf q \<Longrightarrow> sorted_wrt (\<lambda>a b. ot_nonce a < ot_nonce b) (sq_pending q)"
  by (simp add: sorted_wrt_iff_nth_less word_less_nat_alt nn_pending_nth)

lemma strict_sorted_unique:
  assumes "sorted_wrt (\<lambda>a b. (f a :: 'b::linorder) < f b) xs"
    and "sorted_wrt (\<lambda>a b. f a < f b) ys" and "set xs = set ys"
  shows "xs = ys"
proof -
  have *: "sorted (map f zs) \<and> distinct (map f zs)" if "sorted_wrt (\<lambda>a b. f a < f b) zs" for zs
  proof -
    from that have "sorted_wrt (<) (map f zs)" by (simp add: sorted_wrt_map)
    then show ?thesis by (simp add: strict_sorted_iff)
  qed
  from * [OF assms(1)] have "inj_on f (set xs)" by (simp add: distinct_map)
  with * [OF assms(1)] * [OF assms(2)] assms(3) show ?thesis
    by (intro map_sorted_distinct_set_unique [where f = f]) (simp_all add: distinct_map)
qed

lemma sq_wf_canonical:
  assumes "sq_wf a" "sq_wf b" "sq_sender a = sq_sender b" "sq_next_nonce a = sq_next_nonce b"
    and "set (sq_txs a) = set (sq_txs b)"
  shows "a = b"
proof -
  have "set (sq_pending q) = {t \<in> set (sq_txs q). \<forall>n \<in> {unat (sq_next_nonce q)..nn t}.
      \<exists>u \<in> set (sq_txs q). nn u = n}" if "sq_wf q" for q
    using sq_wf_pending_iff [OF that] by (auto simp: sq_txs_def)
  then have pend: "set (sq_pending a) = set (sq_pending b)"
    using assms(1,2,4,5) by simp
  have disj: "set (sq_pending q) \<inter> set (sq_queued q) = {}" if "sq_wf q" for q
    using sq_wf_nonces(2) [OF that] sq_wfD(4) [OF that] by fastforce
  have "set (sq_queued a) = set (sq_queued b)"
    using pend disj [OF assms(1)] disj [OF assms(2)] assms(5) by (auto simp: sq_txs_def)
  then have "sq_queued a = sq_queued b"
    using sq_wfD(3) [OF assms(1)] sq_wfD(3) [OF assms(2)] by (intro strict_sorted_unique) auto
  moreover have "sq_pending a = sq_pending b"
    using pend sq_sorted_pending [OF assms(1)] sq_sorted_pending [OF assms(2)]
    by (intro strict_sorted_unique) auto
  ultimately show ?thesis using assms(3,4) by simp
qed

section \<open>The operations on the set of transactions\<close>

lemma sq_insert_frame:
  "sq_insert t q = (q', r) \<Longrightarrow> sq_sender q' = sq_sender q \<and> sq_next_nonce q' = sq_next_nonce q"
  by (auto simp: sq_insert_def Let_def split: if_splits sum.splits)

lemma sq_remove_by_hash_frame:
  "sq_remove_by_hash h q = (q', r) \<Longrightarrow> sq_sender q' = sq_sender q \<and> sq_next_nonce q' = sq_next_nonce q"
  by (auto simp: sq_remove_by_hash_def Let_def split: option.splits)

lemma sq_wf_distinct: "sq_wf q \<Longrightarrow> distinct (sq_txs q)"
  using sq_wf_nonces(1) [of q] by (simp add: distinct_map)

lemma sq_insert_wf:
  assumes "sq_wf q" "ot_nonce t \<noteq> - 1" "ot_sender t = sq_sender q" "sq_insert t q = (q', r)"
  shows "sq_wf q'"
  by (rule sq_insert_spec [OF assms]) (simp_all add: assms(1))

lemma sq_remove_by_hash_wf: "sq_wf q \<Longrightarrow> sq_remove_by_hash h q = (q', r) \<Longrightarrow> sq_wf q'"
  by (rule sq_remove_by_hash_spec [of q h q' r]) simp_all

text \<open>
  The queue as a set of transactions with distinct nonces: an insertion adds the transaction,
  replaces the cheaper one of the same nonce, or changes nothing.
\<close>

lemma sq_insert_set:
  assumes wf: "sq_wf q" and ins: "ot_nonce t \<noteq> - 1" "ot_sender t = sq_sender q"
    "sq_insert t q = (q', r)"
  shows "case find (\<lambda>u. ot_nonce u = ot_nonce t) (sq_txs q) of
      None \<Rightarrow> if ot_nonce t < sq_next_nonce q then q' = q \<and> r = Some t
              else r = None \<and> set (sq_txs q') = insert t (set (sq_txs q))
    | Some old \<Rightarrow> if ot_price t > ot_price old
        then r = Some old \<and> set (sq_txs q') = insert t (set (sq_txs q) - {old})
        else q' = q \<and> r = Some t"
proof (cases "find (\<lambda>u. ot_nonce u = ot_nonce t) (sq_txs q)")
  case None
  then have none: "\<forall>u \<in> set (sq_txs q). ot_nonce u \<noteq> ot_nonce t"
    by (simp add: find_None_iff)
  from wf ins show ?thesis
  proof (cases rule: sq_insert_spec)
    case Added
    with none None set_from_mset_add [OF Added(3)] show ?thesis by auto
  qed (use none None in auto)
next
  case (Some old)
  then have old: "old \<in> set (sq_txs q)" "ot_nonce old = ot_nonce t"
    by (auto simp: find_Some_iff)
  have unique: "u = old" if "u \<in> set (sq_txs q)" "ot_nonce u = ot_nonce t" for u
    using distinct_map_key [OF sq_wf_nonces(1) [OF wf] that(1) old(1)] that(2) old(2) by simp
  from wf ins show ?thesis
  proof (cases rule: sq_insert_spec)
    case Added
    then show ?thesis using old by auto
  next
    case (Replaced u)
    have "mset (sq_txs q') = mset (t # remove1 u (sq_txs q))" using Replaced(4) by simp
    from mset_eq_setD [OF this] have "set (sq_txs q') = insert t (set (sq_txs q) - {u})"
      using sq_wf_distinct [OF wf] by simp
    moreover have "u = old" using unique Replaced by blast
    ultimately show ?thesis using Some Replaced by simp
  next
    case Rejected
    moreover have "sq_next_nonce q \<le> ot_nonce t" using sq_wf_nonces(3) [OF wf old(1)] old(2) by simp
    ultimately have "\<not> ot_price old < ot_price t" using unique by fastforce
    with Rejected Some show ?thesis by simp
  qed
qed

lemma sq_remove_by_hash_set:
  assumes wf: "sq_wf q" and rem: "sq_remove_by_hash h q = (q', r)"
    and uniq: "\<And>u v. u \<in> set (sq_txs q) \<Longrightarrow> v \<in> set (sq_txs q) \<Longrightarrow> ot_hash u = ot_hash v \<Longrightarrow> u = v"
  shows "set (sq_txs q') = {t \<in> set (sq_txs q). ot_hash t \<noteq> h}"
  using wf rem
proof (cases rule: sq_remove_by_hash_spec)
  case (Found t)
  then have "set (sq_txs q') = set (sq_txs q) - {t}"
    using set_from_mset_remove [OF sq_wf_distinct [OF wf]] by blast
  with Found uniq show ?thesis by auto
qed auto

section \<open>Properties\<close>

text \<open>A legacy transfer with the given ordering data, for concrete instances.\<close>

definition sample_tx :: "b256 \<Rightarrow> address \<Rightarrow> u64 \<Rightarrow> u128 \<Rightarrow> OrderedTransaction" where
  "sample_tx h s n p =
     ot_new h s n p 1
       (Legacy \<lparr>tc_chain_id = Some 1, tc_nonce = n, tc_gas_limit = 21000, tc_to = Some (ucast h),
                tc_value = 0, tc_input = []\<rparr>
          \<lparr>sig_r = ucast s, sig_s = 1, sig_v = False\<rparr> p)"

lemma sample_tx_simps [simp]:
  "ot_hash (sample_tx h s n p) = h" "ot_sender (sample_tx h s n p) = s"
  "ot_nonce (sample_tx h s n p) = n" "ot_price (sample_tx h s n p) = p"
  "ot_timestamp (sample_tx h s n p) = 1"
  by (simp_all add: sample_tx_def ot_new_def)

lemma sample_tx_eq [simp]:
  "sample_tx h s n p = sample_tx h' s' n' p' \<longleftrightarrow> h = h' \<and> s = s' \<and> n = n' \<and> p = p'"
  by (metis sample_tx_simps(1-4))

text \<open>
  The life of a sender's queue: it is created for a first nonce and then changed by
  insertions, removals by hash and confirmations, in any order.
\<close>

inductive sq_reachable :: "SenderQueue \<Rightarrow> bool" where
  create: "sq_reachable (sq_new s n)"
| insert: "sq_reachable q \<Longrightarrow> ot_sender t = sq_sender q \<Longrightarrow> ot_nonce t \<noteq> - 1 \<Longrightarrow>
    sq_insert t q = (q', r) \<Longrightarrow> sq_reachable q'"
| remove: "sq_reachable q \<Longrightarrow> sq_remove_by_hash h q = (q', r) \<Longrightarrow> sq_reachable q'"
| confirm: "sq_reachable q \<Longrightarrow> sq_reachable (sq_remove_confirmed c q)"

text \<open>
  C34: whatever insertions, removals and confirmations a sender's queue goes through, as long as the inserted
  transactions are of that sender and have nonces below \<open>u64::MAX\<close> (there a second transaction of the same nonce
  would be appended), its pending
  transactions carry consecutive nonces starting at \<open>next_nonce\<close>, its queued transactions are
  sorted by nonce and lie strictly behind the first gap, and all belong to its sender.
\<close>

theorem sender_queue_invariant:
  assumes "sq_reachable q"
  shows "sq_wf q"
  using assms
proof induction
  case (insert q t q' r)
  then show ?case using sq_insert_wf by blast
next
  case (remove q h q' r)
  then show ?case using sq_remove_by_hash_wf by blast
qed (simp_all add: sq_remove_confirmed_spec(1))

theorem sender_queue_invariant_witness:
  "let q = fst (sq_insert (sample_tx 12 1 7 9) (fst (sq_insert (sample_tx 11 1 5 9) (sq_new 1 5))))
   in sq_wf q \<and> map ot_nonce (sq_pending q) = [5] \<and> map ot_nonce (sq_queued q) = [7]"
proof -
  let ?q1 = "fst (sq_insert (sample_tx 11 1 5 9) (sq_new 1 5))"
  let ?q = "fst (sq_insert (sample_tx 12 1 7 9) ?q1)"
  have step: "sq_reachable (fst (sq_insert t q))"
    if "sq_reachable q" "ot_sender t = sq_sender q" "ot_nonce t \<noteq> - 1" for t q
    using that sq_reachable.insert [where r = "snd (sq_insert t q)"] by simp
  have q1: "?q1 = \<lparr>sq_sender = 1, sq_next_nonce = 5, sq_pending = [sample_tx 11 1 5 9],
      sq_queued = []\<rparr>"
    by (simp add: sq_insert_def sq_new_def next_pending_nonce_def saturating_add_def
        promote_queued.simps)
  have "sq_reachable ?q1" using sq_reachable.create by (rule step) (simp_all add: sq_new_def)
  then have "sq_reachable ?q" by (rule step) (simp_all add: q1)
  moreover have "map ot_nonce (sq_pending ?q) = [5]" "map ot_nonce (sq_queued ?q) = [7]"
    unfolding q1
    by (simp_all add: sq_insert_def next_pending_nonce_def saturating_add_def binary_search_by_def)
  ultimately show ?thesis using sender_queue_invariant by simp
qed

text \<open>
  Inserting into a well-formed queue does exactly one of four things. A free nonce at or
  above \<open>next_nonce\<close> adds the transaction; an occupied nonce replaces the old transaction, which
  is returned, when the new price is strictly higher; otherwise the queue is unchanged and the
  transaction is handed back. The invariant and \<open>next_nonce\<close> are kept.
\<close>

theorem sq_insert_functional:
  assumes "sq_wf q" and "ot_nonce t \<noteq> - 1" and "ot_sender t = sq_sender q"
    and "sq_insert t q = (q', r)"
  shows "sq_wf q' \<and> sq_next_nonce q' = sq_next_nonce q \<and>
    (case find (\<lambda>u. ot_nonce u = ot_nonce t) (sq_txs q) of
       None \<Rightarrow> if ot_nonce t < sq_next_nonce q then q' = q \<and> r = Some t
               else r = None \<and> set (sq_txs q') = insert t (set (sq_txs q))
     | Some old \<Rightarrow> if ot_price t > ot_price old
         then r = Some old \<and> set (sq_txs q') = insert t (set (sq_txs q) - {old})
         else q' = q \<and> r = Some t)"
  using sq_insert_wf [OF assms] sq_insert_frame [OF assms(4)] sq_insert_set [OF assms] by blast

theorem sq_insert_functional_witness:
  "let q = \<lparr>sq_sender = 1, sq_next_nonce = 5, sq_pending = [sample_tx 11 1 5 9], sq_queued = []\<rparr>;
       t = sample_tx 12 1 5 10; q' = fst (sq_insert t q)
   in sq_wf q' \<and> set (sq_txs q') = {t} \<and> snd (sq_insert t q) = Some (sample_tx 11 1 5 9)"
proof -
  let ?q = "\<lparr>sq_sender = 1, sq_next_nonce = 5, sq_pending = [sample_tx 11 1 5 9], sq_queued = []\<rparr>"
  let ?t = "sample_tx 12 1 5 10"
  have "sq_wf ?q" by (simp add: sq_wf_def sq_txs_def)
  from sq_insert_functional [OF this, of ?t "fst (sq_insert ?t ?q)" "snd (sq_insert ?t ?q)"]
  show ?thesis by (simp add: sq_txs_def)
qed

text \<open>
  Removing a pending transaction keeps only what is still executable in the pending run:
  the later nonces of the same sender move to the queued part, sorted, and nothing else is
  lost. Confirming nonces up to \<open>c\<close> afterwards gives the same queue as confirming them directly.
\<close>

theorem sq_remove_then_confirm:
  assumes wf: "sq_wf q" and t: "t \<in> set (sq_txs q)" "ot_nonce t \<le> c"
    and rem: "sq_remove_by_hash (ot_hash t) q = (q', r)"
    and uniq: "distinct (map ot_hash (sq_txs q))"
  shows "sq_remove_confirmed c q' = sq_remove_confirmed c q \<and>
    set (sq_txs q') = set (sq_txs q) - {t}"
proof -
  have u: "u = v" if "u \<in> set (sq_txs q)" "v \<in> set (sq_txs q)" "ot_hash u = ot_hash v" for u v
    using distinct_map_key [OF uniq that] .
  have wf': "sq_wf q'" using sq_remove_by_hash_wf [OF wf rem] .
  have set': "set (sq_txs q') = set (sq_txs q) - {t}"
  proof -
    have "set (sq_txs q') = {v \<in> set (sq_txs q). ot_hash v \<noteq> ot_hash t}"
      using wf rem u by (rule sq_remove_by_hash_set)
    also have "\<dots> = set (sq_txs q) - {t}" using u t(1) by blast
    finally show ?thesis .
  qed
  have "set (sq_txs (sq_remove_confirmed c q')) = set (sq_txs (sq_remove_confirmed c q))"
    unfolding sq_remove_confirmed_spec(2) [OF wf] sq_remove_confirmed_spec(2) [OF wf'] set_filter set'
    using t(2) by auto
  moreover have "sq_sender q' = sq_sender q" "sq_next_nonce q' = sq_next_nonce q"
    using sq_remove_by_hash_frame [OF rem] by simp_all
  ultimately have "sq_remove_confirmed c q' = sq_remove_confirmed c q"
    by (intro sq_wf_canonical) (simp_all add: sq_remove_confirmed_spec(1,3,4) wf wf')
  with set' show ?thesis by simp
qed

theorem sq_remove_then_confirm_witness:
  "let q = \<lparr>sq_sender = 1, sq_next_nonce = 5,
             sq_pending = [sample_tx 11 1 5 9, sample_tx 12 1 6 9], sq_queued = []\<rparr>;
       q' = fst (sq_remove_by_hash 11 q)
   in sq_pending q' = [] \<and> sq_queued q' = [sample_tx 12 1 6 9] \<and>
      sq_remove_confirmed 5 q' = sq_remove_confirmed 5 q"
proof -
  let ?q = "\<lparr>sq_sender = 1, sq_next_nonce = 5,
             sq_pending = [sample_tx 11 1 5 9, sample_tx 12 1 6 9], sq_queued = []\<rparr>"
  have "sq_wf ?q" by (simp add: sq_wf_def sq_txs_def upt_rec)
  moreover have rem: "sq_remove_by_hash 11 ?q =
      (?q\<lparr>sq_pending := [], sq_queued := [sample_tx 12 1 6 9]\<rparr>, Some (sample_tx 11 1 5 9))"
    by (simp add: sq_remove_by_hash_def remove_nth_def)
  ultimately show ?thesis
    using sq_remove_then_confirm [of ?q "sample_tx 11 1 5 9" 5] by (simp add: sq_txs_def)
qed

end
