(* ===== verification/Txpool_Types.thy ===== *)
theory Txpool_Types
  imports Txpool_Ordering Domain_Events
begin

text \<open>
  The configuration (\<open>config.rs\<close>) and errors (\<open>error.rs\<close>) of the transaction pool, and the
  part of \<open>validator.rs\<close> the pool itself uses: recovering the sender of a signed envelope and
  the price it offers.
\<close>

section \<open>Configuration\<close>

record PoolConfig =
  max_pending_txs :: nat
  max_queued_txs :: nat
  max_txs_per_sender :: nat
  max_tx_size :: nat
  min_gas_price :: u128
  replacement_bump_percent :: u8
  pending_ttl_secs :: u64
  queued_ttl_secs :: u64

definition pool_config_new :: PoolConfig where
  "pool_config_new =
     \<lparr>max_pending_txs = 4096, max_queued_txs = 1024, max_txs_per_sender = 256,
      max_tx_size = 128 * 1024, min_gas_price = 1000000000, replacement_bump_percent = 10,
      pending_ttl_secs = 30 * 60, queued_ttl_secs = 60 * 60\<rparr>"

definition with_max_pending_txs :: "nat \<Rightarrow> PoolConfig \<Rightarrow> PoolConfig" where
  "with_max_pending_txs m c = c\<lparr>max_pending_txs := m\<rparr>"

definition with_max_queued_txs :: "nat \<Rightarrow> PoolConfig \<Rightarrow> PoolConfig" where
  "with_max_queued_txs m c = c\<lparr>max_queued_txs := m\<rparr>"

definition with_max_txs_per_sender :: "nat \<Rightarrow> PoolConfig \<Rightarrow> PoolConfig" where
  "with_max_txs_per_sender m c = c\<lparr>max_txs_per_sender := m\<rparr>"

definition with_max_tx_size :: "nat \<Rightarrow> PoolConfig \<Rightarrow> PoolConfig" where
  "with_max_tx_size m c = c\<lparr>max_tx_size := m\<rparr>"

definition with_min_gas_price :: "u128 \<Rightarrow> PoolConfig \<Rightarrow> PoolConfig" where
  "with_min_gas_price m c = c\<lparr>min_gas_price := m\<rparr>"

definition with_replacement_bump_percent :: "u8 \<Rightarrow> PoolConfig \<Rightarrow> PoolConfig" where
  "with_replacement_bump_percent m c = c\<lparr>replacement_bump_percent := m\<rparr>"

definition with_pending_ttl_secs :: "u64 \<Rightarrow> PoolConfig \<Rightarrow> PoolConfig" where
  "with_pending_ttl_secs ttl c = c\<lparr>pending_ttl_secs := ttl\<rparr>"

definition with_queued_ttl_secs :: "u64 \<Rightarrow> PoolConfig \<Rightarrow> PoolConfig" where
  "with_queued_ttl_secs ttl c = c\<lparr>queued_ttl_secs := ttl\<rparr>"

lemmas pool_config_defs [simp] =
  with_max_pending_txs_def with_max_queued_txs_def with_max_txs_per_sender_def
  with_max_tx_size_def with_min_gas_price_def with_replacement_bump_percent_def
  with_pending_ttl_secs_def with_queued_ttl_secs_def

section \<open>Errors\<close>

datatype TxPoolError =
    PoolFull
  | SenderFull address
  | TxTooLarge nat nat
  | GasPriceTooLow u128 u128
  | NonceTooLow u64 u64
  | NonceGap u64 u64
  | InsufficientBalance u256 u256
  | InvalidChainId u64 u64
  | InvalidSignature
  | DecodeError string
  | IntrinsicGasTooLow u64 u64
  | AlreadyExists
  | NonceAlreadyInPool address u64
  | StateError string
  | ReplacementUnderpriced

fun rejection_reason :: "TxPoolError \<Rightarrow> string" where
  "rejection_reason PoolFull = ''pool_full''"
| "rejection_reason (SenderFull _) = ''sender_full''"
| "rejection_reason (TxTooLarge _ _) = ''tx_too_large''"
| "rejection_reason (GasPriceTooLow _ _) = ''gas_price_too_low''"
| "rejection_reason (NonceTooLow _ _) = ''nonce_too_low''"
| "rejection_reason (NonceGap _ _) = ''nonce_gap''"
| "rejection_reason (InsufficientBalance _ _) = ''insufficient_balance''"
| "rejection_reason (InvalidChainId _ _) = ''invalid_chain_id''"
| "rejection_reason InvalidSignature = ''invalid_signature''"
| "rejection_reason (DecodeError _) = ''decode_error''"
| "rejection_reason (IntrinsicGasTooLow _ _) = ''intrinsic_gas_too_low''"
| "rejection_reason AlreadyExists = ''already_exists''"
| "rejection_reason (NonceAlreadyInPool _ _) = ''nonce_already_in_pool''"
| "rejection_reason (StateError _) = ''state_error''"
| "rejection_reason ReplacementUnderpriced = ''replacement_underpriced''"

section \<open>Sender and price of an envelope\<close>

definition recover_sender_and_hash :: "externs \<Rightarrow> TxEnvelope \<Rightarrow> TxPoolError + address \<times> b256" where
  "recover_sender_and_hash X envelope =
     (let h = ex_keccak256 X (ex_rlp_encode X envelope);
          signature = env_signature envelope;
          sig_bytes = to_be_bytes 32 (sig_r signature) @ to_be_bytes 32 (sig_s signature);
          v_val = (if sig_v signature then 1 else 0);
          signing_hash = ex_signature_hash X envelope
      in case ex_recover_key X signing_hash sig_bytes v_val of
           None \<Rightarrow> Inl InvalidSignature
         | Some pubkey \<Rightarrow>
             (let pubkey_hash = ex_keccak256 X (drop 1 pubkey)
              in Inr (ucast pubkey_hash, h)))"

definition recover_sender_from_envelope :: "externs \<Rightarrow> TxEnvelope \<Rightarrow> TxPoolError + address" where
  "recover_sender_from_envelope X envelope =
     (case recover_sender_and_hash X envelope of
        Inl e \<Rightarrow> Inl e
      | Inr (addr, _) \<Rightarrow> Inr addr)"

fun effective_gas_price :: "TxEnvelope \<Rightarrow> u128" where
  "effective_gas_price (Legacy c s p) = p"
| "effective_gas_price (Eip2930 c s p a) = p"
| "effective_gas_price (Eip1559 c s p a) = p"
| "effective_gas_price (Eip4844 c s p a) = p"
| "effective_gas_price (Eip7702 c s p a) = p"

end
