(* ===== verification/Txpool_Pool.thy ===== *)
theory Txpool_Pool
  imports Txpool_Types
begin

text \<open>
  \<open>crates/node/txpool/src/pool.rs\<close>: the transaction pool. The three indexes behind the lock
  are \<open>PoolInner\<close>; the pool adds its configuration, the event channel (the events sent on it)
  and the metric gauges. A method that mutates the pool returns the new pool with its result;
  the wall clock is an argument where the source reads it.
\<close>

section \<open>The indexes\<close>

record PoolInner =
  by_hash :: "(b256, OrderedTransaction) hash_map"
  by_id :: "(TxId, b256) hash_map"
  by_sender :: "(address, SenderQueue) hash_map"
  pending_count :: nat
  queued_count :: nat

definition ordered_to_tx :: "externs \<Rightarrow> OrderedTransaction \<Rightarrow> Tx" where
  "ordered_to_tx X t = tx_new (ex_encode_2718 X (ot_envelope t))"

definition ordered_tx_id :: "externs \<Rightarrow> OrderedTransaction \<Rightarrow> TxId" where
  "ordered_tx_id X t = tx_id X (ordered_to_tx X t)"

definition inner_new :: PoolInner where
  "inner_new =
     \<lparr>by_hash = [], by_id = [], by_sender = [], pending_count = 0, queued_count = 0\<rparr>"

definition update_counts :: "PoolInner \<Rightarrow> PoolInner" where
  "update_counts n =
     n\<lparr>pending_count := sum_list (map (\<lambda>q. length (sq_pending q)) (map snd (by_sender n))),
       queued_count := sum_list (map (\<lambda>q. length (sq_queued q)) (map snd (by_sender n)))\<rparr>"

definition inner_remove_by_hash ::
    "externs \<Rightarrow> b256 \<Rightarrow> PoolInner \<Rightarrow> PoolInner \<times> OrderedTransaction option" where
  "inner_remove_by_hash X h n =
     (case hm_get (by_hash n) h of
        None \<Rightarrow> (n, None)
      | Some t \<Rightarrow>
          (let n1 = n\<lparr>by_hash := hm_remove h (by_hash n),
                      by_id := hm_remove (ordered_tx_id X t) (by_id n)\<rparr>
           in case hm_get (by_sender n1) (ot_sender t) of
                None \<Rightarrow> (n1, Some t)
              | Some queue \<Rightarrow>
                  (let queue' = fst (sq_remove_by_hash h queue)
                   in (n1\<lparr>by_sender :=
                            (if sq_is_empty queue' then hm_remove (ot_sender t) (by_sender n1)
                             else hm_insert (ot_sender t) queue' (by_sender n1))\<rparr>, Some t))))"

section \<open>Where an insertion goes\<close>

datatype InsertionTarget = Pending | Queued | Replacement

definition existing_nonce_tx :: "SenderQueue \<Rightarrow> u64 \<Rightarrow> OrderedTransaction option" where
  "existing_nonce_tx queue nonce = find (\<lambda>t. ot_nonce t = nonce) (sq_pending queue @ sq_queued queue)"

text \<open>The addition is unchecked in the source: it wraps.\<close>

definition insertion_target :: "SenderQueue option \<Rightarrow> OrderedTransaction \<Rightarrow> InsertionTarget" where
  "insertion_target queue t =
     (case queue of
        None \<Rightarrow> Pending
      | Some queue \<Rightarrow>
          if existing_nonce_tx queue (ot_nonce t) \<noteq> None then Replacement
          else if ot_nonce t = sq_next_nonce queue + of_nat (length (sq_pending queue)) then Pending
          else Queued)"

section \<open>The pool\<close>

record pool_metrics =
  txpool_size :: int
  txpool_pending :: int
  txpool_queued :: int
  txpool_rejected :: "(string, nat) hash_map"

record TransactionPool =
  tp_inner :: PoolInner
  tp_config :: PoolConfig
  tp_events :: "MempoolEvent list option"
  tp_metrics :: "pool_metrics option"

definition pool_new :: "PoolConfig \<Rightarrow> TransactionPool" where
  "pool_new config =
     \<lparr>tp_inner = inner_new, tp_config = config, tp_events = None, tp_metrics = None\<rparr>"

definition new_with_events :: "PoolConfig \<Rightarrow> MempoolEvent list \<Rightarrow> TransactionPool" where
  "new_with_events config events =
     \<lparr>tp_inner = inner_new, tp_config = config, tp_events = Some events, tp_metrics = None\<rparr>"

definition set_metrics :: "pool_metrics \<Rightarrow> TransactionPool \<Rightarrow> TransactionPool" where
  "set_metrics m p = p\<lparr>tp_metrics := Some m\<rparr>"

definition sync_metrics :: "TransactionPool \<Rightarrow> TransactionPool" where
  "sync_metrics p =
     (case tp_metrics p of
        None \<Rightarrow> p
      | Some m \<Rightarrow>
          p\<lparr>tp_metrics := Some (m\<lparr>txpool_size := int (length (by_hash (tp_inner p))),
                                  txpool_pending := int (pending_count (tp_inner p)),
                                  txpool_queued := int (queued_count (tp_inner p))\<rparr>)\<rparr>)"

definition record_rejection :: "string \<Rightarrow> TransactionPool \<Rightarrow> TransactionPool" where
  "record_rejection reason p =
     (case tp_metrics p of
        None \<Rightarrow> p
      | Some m \<Rightarrow>
          p\<lparr>tp_metrics := Some (m\<lparr>txpool_rejected :=
               hm_insert reason
                 ((case hm_get (txpool_rejected m) reason of None \<Rightarrow> 0 | Some c \<Rightarrow> c) + 1)
                 (txpool_rejected m)\<rparr>)\<rparr>)"

definition send_event :: "MempoolEvent \<Rightarrow> TransactionPool \<Rightarrow> TransactionPool" where
  "send_event e p = p\<lparr>tp_events := map_option (\<lambda>es. es @ [e]) (tp_events p)\<rparr>"

definition tx_added_event :: "OrderedTransaction \<Rightarrow> MempoolEvent" where
  "tx_added_event t =
     TxAdded (ot_hash t) (ot_sender t) (tc_to (env_common (ot_envelope t)))
       (tc_value (env_common (ot_envelope t))) (ucast (ot_price t)) (ot_nonce t)"

subsection \<open>Adding a transaction\<close>

definition all_pending :: "PoolInner \<Rightarrow> OrderedTransaction list" where
  "all_pending n = concat (map sq_pending (map snd (by_sender n)))"

definition all_queued :: "PoolInner \<Rightarrow> OrderedTransaction list" where
  "all_queued n = concat (map sq_queued (map snd (by_sender n)))"

definition min_pending_price :: "PoolInner \<Rightarrow> u128 option" where
  "min_pending_price n = min_by_key id (map ot_price (all_pending n))"

definition min_queued_price :: "PoolInner \<Rightarrow> u128 option" where
  "min_queued_price n = min_by_key id (map ot_price (all_queued n))"

definition eviction_key :: "OrderedTransaction \<Rightarrow> u128 \<times> u64 reverse \<times> b256" where
  "eviction_key t = (ot_price t, Reverse (ot_timestamp t), ot_hash t)"

definition evict_lowest_pending ::
    "externs \<Rightarrow> PoolInner \<Rightarrow> PoolInner \<times> OrderedTransaction option" where
  "evict_lowest_pending X n =
     (case min_by_key eviction_key (all_pending n) of
        None \<Rightarrow> (n, None)
      | Some t \<Rightarrow>
          (let (n1, removed) = inner_remove_by_hash X (ot_hash t) n in (update_counts n1, removed)))"

definition evict_lowest_queued ::
    "externs \<Rightarrow> PoolInner \<Rightarrow> PoolInner \<times> OrderedTransaction option" where
  "evict_lowest_queued X n =
     (case min_by_key eviction_key (all_queued n) of
        None \<Rightarrow> (n, None)
      | Some t \<Rightarrow>
          (let (n1, removed) = inner_remove_by_hash X (ot_hash t) n in (update_counts n1, removed)))"

definition reject_underpriced_when_full ::
    "PoolConfig \<Rightarrow> PoolInner \<Rightarrow> OrderedTransaction \<Rightarrow> InsertionTarget \<Rightarrow> TxPoolError + unit" where
  "reject_underpriced_when_full cfg n t target =
     (case target of
        Pending \<Rightarrow>
          if max_pending_txs cfg = 0 then Inl PoolFull
          else if pending_count n \<ge> max_pending_txs cfg then
            (case min_pending_price n of
               None \<Rightarrow> Inr ()
             | Some min_price \<Rightarrow> if ot_price t \<le> min_price then Inl PoolFull else Inr ())
          else Inr ()
      | Queued \<Rightarrow>
          if max_queued_txs cfg = 0 then Inl PoolFull
          else if queued_count n \<ge> max_queued_txs cfg then
            (case min_queued_price n of
               None \<Rightarrow> Inr ()
             | Some min_price \<Rightarrow> if ot_price t \<le> min_price then Inl PoolFull else Inr ())
          else Inr ()
      | Replacement \<Rightarrow> Inr ())"

text \<open>
  The two eviction loops of \<open>add\<close>. Each returns the indexes, the hashes evicted so far and
  whether the inserted transaction was among them. They end because an eviction that returns a
  transaction has taken it out of \<open>by_hash\<close>.
\<close>

lemma inner_remove_shrinks:
  "inner_remove_by_hash X h n = (n', Some t) \<Longrightarrow> length (by_hash n') < length (by_hash n)"
  by (auto simp: inner_remove_by_hash_def Let_def length_hm_remove_less split: option.splits if_splits)

lemma evict_shrinks:
  "evict_lowest_pending X n = (n', Some t) \<Longrightarrow> length (by_hash n') < length (by_hash n)"
  "evict_lowest_queued X n = (n', Some t) \<Longrightarrow> length (by_hash n') < length (by_hash n)"
  by (auto simp: evict_lowest_pending_def evict_lowest_queued_def update_counts_def
      dest: inner_remove_shrinks split: option.splits prod.splits)

function evict_pending_loop ::
    "externs \<Rightarrow> nat \<Rightarrow> b256 \<Rightarrow> PoolInner \<Rightarrow> b256 list \<Rightarrow> bool \<Rightarrow> PoolInner \<times> b256 list \<times> bool" where
  "evict_pending_loop X limit inserted_hash n evicted_hashes inserted_evicted =
     (if pending_count n > limit then
        (case evict_lowest_pending X n of
           (n', None) \<Rightarrow> (n', evicted_hashes, inserted_evicted)
         | (n', Some evicted) \<Rightarrow>
             evict_pending_loop X limit inserted_hash n' (evicted_hashes @ [ot_hash evicted])
               (inserted_evicted \<or> ot_hash evicted = inserted_hash))
      else (n, evicted_hashes, inserted_evicted))"
  by pat_completeness auto
termination
  by (relation "measure (\<lambda>(X, limit, h, n, es, b). length (by_hash n))") (auto dest: evict_shrinks [OF sym])

function evict_queued_loop ::
    "externs \<Rightarrow> nat \<Rightarrow> b256 \<Rightarrow> PoolInner \<Rightarrow> b256 list \<Rightarrow> bool \<Rightarrow> PoolInner \<times> b256 list \<times> bool" where
  "evict_queued_loop X limit inserted_hash n evicted_hashes inserted_evicted =
     (if queued_count n > limit then
        (case evict_lowest_queued X n of
           (n', None) \<Rightarrow> (n', evicted_hashes, inserted_evicted)
         | (n', Some evicted) \<Rightarrow>
             evict_queued_loop X limit inserted_hash n' (evicted_hashes @ [ot_hash evicted])
               (inserted_evicted \<or> ot_hash evicted = inserted_hash))
      else (n, evicted_hashes, inserted_evicted))"
  by pat_completeness auto
termination
  by (relation "measure (\<lambda>(X, limit, h, n, es, b). length (by_hash n))") (auto dest: evict_shrinks [OF sym])

declare evict_pending_loop.simps [simp del] evict_queued_loop.simps [simp del]

text \<open>
  \<open>add\<close> in the order of the source: duplicate check, per-sender guards, capacity guard, queue
  insertion (with the removal of a replaced transaction from the indexes), index insertion,
  eviction, and, with the lock released, events and metrics.
\<close>

definition sender_guard ::
    "PoolConfig \<Rightarrow> SenderQueue option \<Rightarrow> OrderedTransaction \<Rightarrow> InsertionTarget \<Rightarrow> TxPoolError + unit" where
  "sender_guard cfg queue t target =
     (case queue of
        None \<Rightarrow> Inr ()
      | Some queue \<Rightarrow>
          if ot_nonce t < sq_next_nonce queue
          then Inl (NonceTooLow (ot_nonce t) (sq_next_nonce queue))
          else if target \<noteq> Replacement \<and> sq_total_count queue \<ge> max_txs_per_sender cfg
          then Inl (SenderFull (ot_sender t))
          else Inr ())"

definition insert_in_queue ::
    "externs \<Rightarrow> OrderedTransaction \<Rightarrow> PoolInner \<Rightarrow> PoolInner \<times> (TxPoolError + b256 option)" where
  "insert_in_queue X t n =
     (let queue = (case hm_get (by_sender n) (ot_sender t) of
                     None \<Rightarrow> sq_new (ot_sender t) (ot_nonce t)
                   | Some q \<Rightarrow> q);
          (queue', r) = sq_insert t queue;
          n1 = n\<lparr>by_sender := hm_insert (ot_sender t) queue' (by_sender n)\<rparr>
      in case r of
           None \<Rightarrow> (n1, Inr None)
         | Some replaced \<Rightarrow>
             if ot_hash replaced = ot_hash t then (n1, Inl ReplacementUnderpriced)
             else (fst (inner_remove_by_hash X (ot_hash replaced) n1), Inr (Some (ot_hash replaced))))"

definition index_tx :: "externs \<Rightarrow> OrderedTransaction \<Rightarrow> PoolInner \<Rightarrow> PoolInner" where
  "index_tx X t n =
     update_counts (n\<lparr>by_hash := hm_insert (ot_hash t) t (by_hash n),
                      by_id := hm_insert (ordered_tx_id X t) (ot_hash t) (by_id n)\<rparr>)"

definition add_events ::
    "OrderedTransaction \<Rightarrow> b256 option \<Rightarrow> b256 list \<Rightarrow> bool \<Rightarrow> TransactionPool \<Rightarrow> TransactionPool" where
  "add_events t replaced_hash evicted_hashes inserted_evicted p =
     (let p1 = (case replaced_hash of
                  None \<Rightarrow> p | Some h \<Rightarrow> send_event (TxEvicted h ''replaced'') p);
          p2 = (if inserted_evicted then p1 else send_event (tx_added_event t) p1)
      in fold (\<lambda>h. send_event (TxEvicted h ''evicted'')) evicted_hashes p2)"

definition add :: "externs \<Rightarrow> OrderedTransaction \<Rightarrow> TransactionPool \<Rightarrow>
    TransactionPool \<times> (TxPoolError + unit)" where
  "add X t p =
     (let n = tp_inner p; cfg = tp_config p; queue = hm_get (by_sender n) (ot_sender t)
      in if hm_get (by_hash n) (ot_hash t) \<noteq> None \<or> hm_get (by_id n) (ordered_tx_id X t) \<noteq> None
         then (p, Inl AlreadyExists)
         else
           (let target = insertion_target queue t
            in case sender_guard cfg queue t target of
                 Inl e \<Rightarrow> (p, Inl e)
               | Inr _ \<Rightarrow>
                   (case reject_underpriced_when_full cfg n t target of
                      Inl e \<Rightarrow> (p, Inl e)
                    | Inr _ \<Rightarrow>
                        (case insert_in_queue X t n of
                           (n1, Inl e) \<Rightarrow> (p\<lparr>tp_inner := n1\<rparr>, Inl e)
                         | (n1, Inr replaced_hash) \<Rightarrow>
                             (let n2 = index_tx X t n1;
                                  (n3, evicted1, ins1) =
                                    evict_pending_loop X (max_pending_txs cfg) (ot_hash t) n2 [] False;
                                  (n4, evicted, inserted_evicted) =
                                    evict_queued_loop X (max_queued_txs cfg) (ot_hash t) n3 evicted1 ins1;
                                  p1 = add_events t replaced_hash evicted inserted_evicted
                                         (p\<lparr>tp_inner := n4\<rparr>);
                                  p2 = sync_metrics p1
                              in if inserted_evicted then (p2, Inl PoolFull) else (p2, Inr ()))))))"

subsection \<open>Queries\<close>

definition pool_pending :: "nat \<Rightarrow> TransactionPool \<Rightarrow> OrderedTransaction list" where
  "pool_pending max_txs p = take max_txs (sort_key ot_key (all_pending (tp_inner p)))"

definition pending_for_sender :: "address \<Rightarrow> TransactionPool \<Rightarrow> OrderedTransaction list" where
  "pending_for_sender sender p =
     (case hm_get (by_sender (tp_inner p)) sender of None \<Rightarrow> [] | Some q \<Rightarrow> sq_pending q)"

definition next_nonce :: "address \<Rightarrow> TransactionPool \<Rightarrow> u64 option" where
  "next_nonce sender p = map_option next_pending_nonce (hm_get (by_sender (tp_inner p)) sender)"

definition pool_get :: "b256 \<Rightarrow> TransactionPool \<Rightarrow> OrderedTransaction option" where
  "pool_get h p = hm_get (by_hash (tp_inner p)) h"

definition pool_len :: "TransactionPool \<Rightarrow> nat" where
  "pool_len p = length (by_hash (tp_inner p))"

definition pool_is_empty :: "TransactionPool \<Rightarrow> bool" where
  "pool_is_empty p \<longleftrightarrow> by_hash (tp_inner p) = []"

definition pool_senders :: "TransactionPool \<Rightarrow> address list" where
  "pool_senders p = map fst (by_sender (tp_inner p))"

definition contains :: "b256 \<Rightarrow> TransactionPool \<Rightarrow> bool" where
  "contains h p \<longleftrightarrow> hm_get (by_hash (tp_inner p)) h \<noteq> None"

definition has_nonce :: "address \<Rightarrow> u64 \<Rightarrow> TransactionPool \<Rightarrow> bool" where
  "has_nonce sender nonce p =
     (case hm_get (by_sender (tp_inner p)) sender of
        None \<Rightarrow> False
      | Some queue \<Rightarrow> list_ex (\<lambda>t. ot_nonce t = nonce) (sq_pending queue @ sq_queued queue))"

definition pool_snapshot :: "TransactionPool \<Rightarrow>
    (address, OrderedTransaction list \<times> OrderedTransaction list) hash_map" where
  "pool_snapshot p = map (\<lambda>(sender, q). (sender, (sq_pending q, sq_queued q))) (by_sender (tp_inner p))"

subsection \<open>Removals\<close>

definition remove_with_reason ::
    "externs \<Rightarrow> b256 \<Rightarrow> string \<Rightarrow> TransactionPool \<Rightarrow> TransactionPool \<times> OrderedTransaction option" where
  "remove_with_reason X h reason p =
     (case inner_remove_by_hash X h (tp_inner p) of
        (_, None) \<Rightarrow> (p, None)
      | (n, Some t) \<Rightarrow>
          (sync_metrics (send_event (TxEvicted h reason) (p\<lparr>tp_inner := update_counts n\<rparr>)), Some t))"

definition pool_remove :: "externs \<Rightarrow> b256 \<Rightarrow> TransactionPool \<Rightarrow>
    TransactionPool \<times> OrderedTransaction option" where
  "pool_remove X h p = remove_with_reason X h ''removed'' p"

definition remove_all :: "externs \<Rightarrow> b256 list \<Rightarrow> PoolInner \<Rightarrow> PoolInner" where
  "remove_all X hs n = fold (\<lambda>h m. fst (inner_remove_by_hash X h m)) hs n"

definition confirmed_hashes :: "u64 \<Rightarrow> SenderQueue \<Rightarrow> b256 list" where
  "confirmed_hashes confirmed_nonce queue =
     map ot_hash (filter (\<lambda>t. ot_nonce t \<le> confirmed_nonce) (sq_pending queue @ sq_queued queue))"

definition pool_remove_confirmed ::
    "externs \<Rightarrow> address \<Rightarrow> u64 \<Rightarrow> TransactionPool \<Rightarrow> TransactionPool" where
  "pool_remove_confirmed X sender confirmed_nonce p =
     (let n = tp_inner p;
          hashes_to_remove =
            (case hm_get (by_sender n) sender of
               None \<Rightarrow> [] | Some queue \<Rightarrow> confirmed_hashes confirmed_nonce queue);
          n1 = remove_all X hashes_to_remove n;
          n2 = (case hm_get (by_sender n1) sender of
                  None \<Rightarrow> n1
                | Some queue \<Rightarrow>
                    (let queue' = sq_remove_confirmed confirmed_nonce queue
                     in n1\<lparr>by_sender := (if sq_is_empty queue' then hm_remove sender (by_sender n1)
                                        else hm_insert sender queue' (by_sender n1))\<rparr>))
      in sync_metrics (p\<lparr>tp_inner := update_counts n2\<rparr>))"

definition expired_hashes :: "PoolConfig \<Rightarrow> u64 \<Rightarrow> SenderQueue \<Rightarrow> b256 list" where
  "expired_hashes cfg now queue =
     map ot_hash (filter (\<lambda>t. saturating_sub now (ot_timestamp t) > pending_ttl_secs cfg)
       (sq_pending queue)) @
     map ot_hash (filter (\<lambda>t. saturating_sub now (ot_timestamp t) > queued_ttl_secs cfg)
       (sq_queued queue))"

fun count_removed :: "externs \<Rightarrow> b256 list \<Rightarrow> PoolInner \<Rightarrow> nat \<Rightarrow> PoolInner \<times> nat" where
  "count_removed X [] n removed = (n, removed)"
| "count_removed X (h # hs) n removed =
     (case inner_remove_by_hash X h n of
        (n', None) \<Rightarrow> count_removed X hs n' removed
      | (n', Some _) \<Rightarrow> count_removed X hs n' (removed + 1))"

definition cleanup :: "externs \<Rightarrow> u64 \<Rightarrow> TransactionPool \<Rightarrow> TransactionPool \<times> nat" where
  "cleanup X now p =
     (let n = tp_inner p;
          expired = concat (map (expired_hashes (tp_config p) now) (map snd (by_sender n)));
          (n1, removed) = count_removed X expired n 0;
          p1 = p\<lparr>tp_inner := update_counts n1\<rparr>
      in (if removed > 0 then sync_metrics p1 else p1, removed))"

definition clear :: "TransactionPool \<Rightarrow> TransactionPool" where
  "clear p =
     sync_metrics (p\<lparr>tp_inner := (tp_inner p)\<lparr>by_hash := [], by_id := [], by_sender := [],
                                             pending_count := 0, queued_count := 0\<rparr>\<rparr>)"

end
