(* ===== verification/Txpool_Invariant.thy ===== *)
theory Txpool_Invariant
  imports Txpool_Pool
begin

text \<open>
  The invariant of the transaction pool: the hash index, the identifier index and the
  per-sender queues describe the same set of transactions, every queue is well formed and
  nonempty, and the counters are exact. Every operation of \<open>pool.rs\<close> keeps it.
\<close>

section \<open>The invariant\<close>

definition queue_txs :: "(address, SenderQueue) hash_map \<Rightarrow> OrderedTransaction set" where
  "queue_txs bs = (\<Union>q \<in> snd ` set bs. set (sq_txs q))"

definition queues_ok :: "(address, SenderQueue) hash_map \<Rightarrow> bool" where
  "queues_ok bs \<longleftrightarrow> hm_wf bs \<and> (\<forall>s q. hm_get bs s = Some q \<longrightarrow> sq_wf q \<and> sq_sender q = s)"

definition index_ok :: "externs \<Rightarrow> (b256, OrderedTransaction) hash_map \<Rightarrow> (TxId, b256) hash_map \<Rightarrow>
    OrderedTransaction set \<Rightarrow> bool" where
  "index_ok X bh bi T \<longleftrightarrow> hm_wf bh \<and> hm_wf bi \<and>
     (\<forall>h t. hm_get bh h = Some t \<longleftrightarrow> t \<in> T \<and> ot_hash t = h) \<and>
     (\<forall>i h. hm_get bi i = Some h \<longleftrightarrow> (\<exists>t \<in> T. ordered_tx_id X t = i \<and> ot_hash t = h))"

definition counts_ok :: "PoolInner \<Rightarrow> bool" where
  "counts_ok n \<longleftrightarrow>
     pending_count n = length (all_pending n) \<and> queued_count n = length (all_queued n)"

text \<open>
  Inside an operation the indexes may still hold transactions that have left the queues, and
  the queues of some senders may be empty: \<open>T\<close> is what the indexes hold, \<open>S\<close> are those senders.
\<close>

definition inner_inv :: "externs \<Rightarrow> PoolInner \<Rightarrow> OrderedTransaction set \<Rightarrow> address set \<Rightarrow> bool" where
  "inner_inv X n T S \<longleftrightarrow> queues_ok (by_sender n) \<and>
     (\<forall>s q. hm_get (by_sender n) s = Some q \<longrightarrow> s \<notin> S \<longrightarrow> \<not> sq_is_empty q) \<and>
     index_ok X (by_hash n) (by_id n) T \<and> queue_txs (by_sender n) \<subseteq> T"

definition pool_wf :: "externs \<Rightarrow> PoolInner \<Rightarrow> bool" where
  "pool_wf X n \<longleftrightarrow> inner_inv X n (queue_txs (by_sender n)) {} \<and> counts_ok n"

section \<open>The queues\<close>

lemma queue_txs_iff:
  assumes "queues_ok bs"
  shows "t \<in> queue_txs bs \<longleftrightarrow> (\<exists>q. hm_get bs (ot_sender t) = Some q \<and> t \<in> set (sq_txs q))"
proof
  assume "t \<in> queue_txs bs"
  then obtain s q where sq: "(s, q) \<in> set bs" "t \<in> set (sq_txs q)" by (auto simp: queue_txs_def)
  then have "hm_get bs s = Some q" using assms by (simp add: queues_ok_def)
  moreover from this have "sq_wf q" "sq_sender q = s" using assms by (simp_all add: queues_ok_def)
  then have "s = ot_sender t" using sq_wfD(5) [of q t] sq(2) by simp
  ultimately show "\<exists>q. hm_get bs (ot_sender t) = Some q \<and> t \<in> set (sq_txs q)" using sq(2) by blast
next
  assume "\<exists>q. hm_get bs (ot_sender t) = Some q \<and> t \<in> set (sq_txs q)"
  then show "t \<in> queue_txs bs" by (force simp: queue_txs_def dest: map_of_SomeD)
qed

lemma queue_txs_get: "queues_ok bs \<Longrightarrow> hm_get bs s = Some q \<Longrightarrow> t \<in> set (sq_txs q) \<Longrightarrow> t \<in> queue_txs bs"
  by (force simp: queue_txs_def dest: map_of_SomeD)

lemma queues_okD: "queues_ok bs \<Longrightarrow> hm_get bs s = Some q \<Longrightarrow> sq_wf q \<and> sq_sender q = s"
  by (simp add: queues_ok_def)

lemma queues_ok_put: "queues_ok bs \<Longrightarrow> sq_wf q \<Longrightarrow> sq_sender q = s \<Longrightarrow> queues_ok (hm_insert s q bs)"
  by (auto simp: queues_ok_def hm.get_put hm.wf_put)

lemma queues_ok_remove: "queues_ok bs \<Longrightarrow> queues_ok (hm_remove s bs)"
  by (auto simp: queues_ok_def hm.get_remove hm.wf_remove)

lemma queue_txs_put:
  assumes "queues_ok bs" "sq_wf q" "sq_sender q = s"
  shows "queue_txs (hm_insert s q bs) = {t \<in> queue_txs bs. ot_sender t \<noteq> s} \<union> set (sq_txs q)"
proof -
  have "ot_sender t = s" if "t \<in> set (sq_txs q)" for t
    using assms(2,3) that sq_wfD(5) by blast
  then show ?thesis
    using assms queues_ok_put [OF assms] by (auto simp: queue_txs_iff hm.get_put split: if_splits)
qed

lemma queue_txs_remove:
  "queues_ok bs \<Longrightarrow> queue_txs (hm_remove s bs) = {t \<in> queue_txs bs. ot_sender t \<noteq> s}"
  using queues_ok_remove by (auto simp: queue_txs_iff hm.get_remove split: if_splits)

text \<open>Writing a queue back and dropping it when it is empty.\<close>

definition store_queue ::
    "address \<Rightarrow> SenderQueue \<Rightarrow> (address, SenderQueue) hash_map \<Rightarrow> (address, SenderQueue) hash_map" where
  "store_queue s q bs = (if sq_is_empty q then hm_remove s bs else hm_insert s q bs)"

lemma sq_is_empty_txs: "sq_is_empty q \<longleftrightarrow> sq_txs q = []"
  by (auto simp: sq_is_empty_def sq_txs_def)

lemma get_store_queue:
  "hm_get (store_queue s q bs) s' =
     (if s' = s then (if sq_is_empty q then None else Some q) else hm_get bs s')"
  by (simp add: store_queue_def hm.get_put hm.get_remove)

lemma queues_ok_store: "queues_ok bs \<Longrightarrow> sq_wf q \<Longrightarrow> sq_sender q = s \<Longrightarrow> queues_ok (store_queue s q bs)"
  by (simp add: store_queue_def queues_ok_put queues_ok_remove)

lemma queue_txs_store:
  "queues_ok bs \<Longrightarrow> sq_wf q \<Longrightarrow> sq_sender q = s \<Longrightarrow>
     queue_txs (store_queue s q bs) = {t \<in> queue_txs bs. ot_sender t \<noteq> s} \<union> set (sq_txs q)"
  by (simp add: store_queue_def queue_txs_put queue_txs_remove sq_is_empty_txs)

section \<open>The indexes\<close>

lemma index_hash_inj:
  "index_ok X bh bi T \<Longrightarrow> t \<in> T \<Longrightarrow> u \<in> T \<Longrightarrow> ot_hash t = ot_hash u \<Longrightarrow> t = u"
  unfolding index_ok_def by (metis option.inject)

lemma index_id_inj:
  assumes "index_ok X bh bi T" "t \<in> T" "u \<in> T" "ordered_tx_id X t = ordered_tx_id X u"
  shows "t = u"
proof -
  have "hm_get bi (ordered_tx_id X t) = Some (ot_hash t)" "hm_get bi (ordered_tx_id X u) = Some (ot_hash u)"
    using assms(1-3) unfolding index_ok_def by blast+
  with assms show ?thesis by (metis index_hash_inj option.inject)
qed

lemma index_ok_remove:
  assumes "index_ok X bh bi T" and "hm_get bh h = Some t"
  shows "index_ok X (hm_remove h bh) (hm_remove (ordered_tx_id X t) bi) {u \<in> T. ot_hash u \<noteq> h}"
proof -
  have t: "t \<in> T" "ot_hash t = h" using assms by (auto simp: index_ok_def)
  have iff: "ordered_tx_id X u = ordered_tx_id X t \<longleftrightarrow> ot_hash u = h" if "u \<in> T" for u
    using index_id_inj [OF assms(1) that t(1)] index_hash_inj [OF assms(1) that t(1)] t(2) by auto
  have "hm_get (hm_remove (ordered_tx_id X t) bi) i = Some h' \<longleftrightarrow>
      (\<exists>u \<in> {u \<in> T. ot_hash u \<noteq> h}. ordered_tx_id X u = i \<and> ot_hash u = h')" for i h'
    using assms(1) iff by (auto simp: index_ok_def hm.get_remove)
  moreover have "hm_get (hm_remove h bh) h' = Some u \<longleftrightarrow> u \<in> {u \<in> T. ot_hash u \<noteq> h} \<and> ot_hash u = h'"
    for h' u
    using assms(1) by (auto simp: index_ok_def hm.get_remove)
  ultimately show ?thesis using assms(1) by (simp add: index_ok_def hm.wf_remove)
qed

lemma index_ok_put:
  assumes "index_ok X bh bi T" and "hm_get bh (ot_hash t) = None"
    and "hm_get bi (ordered_tx_id X t) = None"
  shows "index_ok X (hm_insert (ot_hash t) t bh) (hm_insert (ordered_tx_id X t) (ot_hash t) bi)
    (insert t T)"
proof -
  have no: "ot_hash u \<noteq> ot_hash t" "ordered_tx_id X u \<noteq> ordered_tx_id X t" if "u \<in> T" for u
    using assms that unfolding index_ok_def by (metis option.distinct(1))+
  have "hm_get (hm_insert (ordered_tx_id X t) (ot_hash t) bi) i = Some h \<longleftrightarrow>
      (\<exists>u \<in> insert t T. ordered_tx_id X u = i \<and> ot_hash u = h)" for i h
    using assms(1) no by (auto simp: index_ok_def hm.get_put)
  moreover have "hm_get (hm_insert (ot_hash t) t bh) h = Some u \<longleftrightarrow> u \<in> insert t T \<and> ot_hash u = h"
    for h u
    using assms(1) no by (auto simp: index_ok_def hm.get_put)
  ultimately show ?thesis using assms(1) by (simp add: index_ok_def hm.wf_put)
qed

section \<open>Removing by hash\<close>

lemma inner_remove_store:
  "inner_remove_by_hash X h n =
     (case hm_get (by_hash n) h of
        None \<Rightarrow> (n, None)
      | Some t \<Rightarrow>
          (let n1 = n\<lparr>by_hash := hm_remove h (by_hash n),
                      by_id := hm_remove (ordered_tx_id X t) (by_id n)\<rparr>
           in case hm_get (by_sender n) (ot_sender t) of
                None \<Rightarrow> (n1, Some t)
              | Some queue \<Rightarrow>
                  (n1\<lparr>by_sender := store_queue (ot_sender t) (fst (sq_remove_by_hash h queue))
                       (by_sender n)\<rparr>, Some t)))"
  by (simp add: inner_remove_by_hash_def store_queue_def Let_def split: option.splits)

text \<open>
  What a removal does, on every branch: the indexes and the queues lose the transactions with
  that hash, other senders' queues are untouched, and no \<open>next_nonce\<close> changes.
\<close>

lemma inner_remove_spec:
  assumes inv: "inner_inv X n T S" and rem: "inner_remove_by_hash X h n = (n', r)"
  shows "inner_inv X n' {t \<in> T. ot_hash t \<noteq> h} S"
    and "queue_txs (by_sender n') = {t \<in> queue_txs (by_sender n). ot_hash t \<noteq> h}"
    and "r = hm_get (by_hash n) h"
    and "hm_get (by_sender n') s = Some q' \<Longrightarrow>
      \<exists>q. hm_get (by_sender n) s = Some q \<and> sq_next_nonce q' = sq_next_nonce q"
proof -
  have qok: "queues_ok (by_sender n)" and idx: "index_ok X (by_hash n) (by_id n) T"
    and ne: "\<And>s q. hm_get (by_sender n) s = Some q \<Longrightarrow> s \<notin> S \<Longrightarrow> \<not> sq_is_empty q"
    and sub: "queue_txs (by_sender n) \<subseteq> T"
    using inv by (auto simp: inner_inv_def)
  have "inner_inv X n' {t \<in> T. ot_hash t \<noteq> h} S \<and>
    queue_txs (by_sender n') = {t \<in> queue_txs (by_sender n). ot_hash t \<noteq> h} \<and>
    r = hm_get (by_hash n) h \<and>
    (\<forall>s q'. hm_get (by_sender n') s = Some q' \<longrightarrow>
      (\<exists>q. hm_get (by_sender n) s = Some q \<and> sq_next_nonce q' = sq_next_nonce q))"
  proof (cases "hm_get (by_hash n) h")
    case None
    then have "\<forall>t \<in> T. ot_hash t \<noteq> h" using idx unfolding index_ok_def by (metis option.distinct(1))
    then have "{t \<in> T. ot_hash t \<noteq> h} = T"
      "{t \<in> queue_txs (by_sender n). ot_hash t \<noteq> h} = queue_txs (by_sender n)" using sub by auto
    with None rem inv show ?thesis by (simp add: inner_remove_store)
  next
    case (Some t)
    have t: "t \<in> T" "ot_hash t = h" using idx Some by (auto simp: index_ok_def)
    note idx' = index_ok_remove [OF idx Some]
    have uniq: "u = t" if "u \<in> T" "ot_hash u = h" for u
      using index_hash_inj [OF idx that(1) t(1)] that(2) t(2) by simp
    show ?thesis
    proof (cases "hm_get (by_sender n) (ot_sender t)")
      case None
      then have "t \<notin> queue_txs (by_sender n)" using qok by (simp add: queue_txs_iff)
      then have "{t \<in> queue_txs (by_sender n). ot_hash t \<noteq> h} = queue_txs (by_sender n)"
        using uniq sub by auto
      with None Some rem qok ne idx' sub show ?thesis
        by (auto simp: inner_remove_store Let_def inner_inv_def)
    next
      case (Some q)
      obtain q' x where q': "sq_remove_by_hash h q = (q', x)" by fastforce
      have q: "sq_wf q" "sq_sender q = ot_sender t" using queues_okD [OF qok Some] by simp_all
      have wf': "sq_wf q'" using sq_remove_by_hash_wf [OF q(1) q'] .
      have frame: "sq_sender q' = ot_sender t" "sq_next_nonce q' = sq_next_nonce q"
        using sq_remove_by_hash_frame [OF q'] q(2) by simp_all
      have "u = v" if "u \<in> set (sq_txs q)" "v \<in> set (sq_txs q)" "ot_hash u = ot_hash v" for u v
        using index_hash_inj [OF idx] that queue_txs_get [OF qok Some] sub by blast
      with q(1) q' have set': "set (sq_txs q') = {u \<in> set (sq_txs q). ot_hash u \<noteq> h}"
        by (rule sq_remove_by_hash_set)
      have n': "by_sender n' = store_queue (ot_sender t) q' (by_sender n)" "r = Some t"
        "by_hash n' = hm_remove h (by_hash n)" "by_id n' = hm_remove (ordered_tx_id X t) (by_id n)"
        using rem Some \<open>hm_get (by_hash n) h = Some t\<close> q' by (auto simp: inner_remove_store Let_def)
      have "queue_txs (by_sender n') = {u \<in> queue_txs (by_sender n). ot_sender u \<noteq> ot_sender t}
          \<union> {u \<in> set (sq_txs q). ot_hash u \<noteq> h}"
        using queue_txs_store [OF qok wf' frame(1)] by (simp add: n' set')
      also have "{u \<in> set (sq_txs q). ot_hash u \<noteq> h} =
          {u \<in> queue_txs (by_sender n). ot_sender u = ot_sender t \<and> ot_hash u \<noteq> h}"
        using Some qok q sq_wfD(5) by (fastforce simp: queue_txs_iff)
      finally have "queue_txs (by_sender n') = {u \<in> queue_txs (by_sender n). ot_hash u \<noteq> h}"
        using uniq sub by blast
      moreover have "queues_ok (by_sender n')"
        using queues_ok_store [OF qok wf' frame(1)] by (simp add: n')
      moreover have "\<not> sq_is_empty p" if "hm_get (by_sender n') s = Some p" "s \<notin> S" for s p
        using that ne by (auto simp: n' get_store_queue split: if_splits)
      moreover have "\<exists>q. hm_get (by_sender n) s = Some q \<and> sq_next_nonce p = sq_next_nonce q"
        if "hm_get (by_sender n') s = Some p" for s p
        using that frame(2) Some by (auto simp: n' get_store_queue split: if_splits)
      ultimately show ?thesis
        using idx' sub \<open>hm_get (by_hash n) h = Some t\<close> by (auto simp: inner_inv_def n')
    qed
  qed
  then show "inner_inv X n' {t \<in> T. ot_hash t \<noteq> h} S"
    "queue_txs (by_sender n') = {t \<in> queue_txs (by_sender n). ot_hash t \<noteq> h}"
    "r = hm_get (by_hash n) h"
    "hm_get (by_sender n') s = Some q' \<Longrightarrow>
      \<exists>q. hm_get (by_sender n) s = Some q \<and> sq_next_nonce q' = sq_next_nonce q"
    by blast+
qed

section \<open>Removing several hashes, counters\<close>

lemma remove_all_spec:
  assumes "inner_inv X n T S"
  shows "inner_inv X (remove_all X hs n) {t \<in> T. ot_hash t \<notin> set hs} S"
    and "queue_txs (by_sender (remove_all X hs n)) = {t \<in> queue_txs (by_sender n). ot_hash t \<notin> set hs}"
    and "hm_get (by_sender (remove_all X hs n)) s = Some q' \<Longrightarrow>
      \<exists>q. hm_get (by_sender n) s = Some q \<and> sq_next_nonce q' = sq_next_nonce q"
proof -
  have "inner_inv X (remove_all X hs n) {t \<in> T. ot_hash t \<notin> set hs} S \<and>
    queue_txs (by_sender (remove_all X hs n)) = {t \<in> queue_txs (by_sender n). ot_hash t \<notin> set hs} \<and>
    (\<forall>s q'. hm_get (by_sender (remove_all X hs n)) s = Some q' \<longrightarrow>
      (\<exists>q. hm_get (by_sender n) s = Some q \<and> sq_next_nonce q' = sq_next_nonce q))"
    using assms
  proof (induction hs arbitrary: n T)
    case Nil
    then show ?case by (simp add: remove_all_def)
  next
    case (Cons h hs)
    obtain n1 r where n1: "inner_remove_by_hash X h n = (n1, r)" by fastforce
    note spec = inner_remove_spec [OF Cons.prems n1]
    have "remove_all X (h # hs) n = remove_all X hs n1" by (simp add: remove_all_def n1)
    moreover have "{t \<in> {t \<in> A. ot_hash t \<noteq> h}. ot_hash t \<notin> set hs} =
        {t \<in> A. ot_hash t \<notin> set (h # hs)}" for A
      by auto
    moreover have "\<exists>q. hm_get (by_sender n) s = Some q \<and> sq_next_nonce q' = sq_next_nonce q"
      if "hm_get (by_sender (remove_all X hs n1)) s = Some q'" for s q'
      using that Cons.IH [OF spec(1)] spec(4) by fastforce
    ultimately show ?case using Cons.IH [OF spec(1)] spec(2) by auto
  qed
  then show "inner_inv X (remove_all X hs n) {t \<in> T. ot_hash t \<notin> set hs} S"
    "queue_txs (by_sender (remove_all X hs n)) = {t \<in> queue_txs (by_sender n). ot_hash t \<notin> set hs}"
    "hm_get (by_sender (remove_all X hs n)) s = Some q' \<Longrightarrow>
      \<exists>q. hm_get (by_sender n) s = Some q \<and> sq_next_nonce q' = sq_next_nonce q"
    by blast+
qed

lemma update_counts_simps [simp]:
  "by_hash (update_counts n) = by_hash n" "by_id (update_counts n) = by_id n"
  "by_sender (update_counts n) = by_sender n"
  by (simp_all add: update_counts_def)

lemma inner_inv_update_counts [simp]: "inner_inv X (update_counts n) T S = inner_inv X n T S"
  by (simp add: inner_inv_def)

lemma counts_ok_update: "counts_ok (update_counts n)"
  by (simp add: counts_ok_def update_counts_def all_pending_def all_queued_def length_concat comp_def)

lemma pool_wf_update_counts:
  "inner_inv X n (queue_txs (by_sender n)) {} \<Longrightarrow> pool_wf X (update_counts n)"
  by (simp add: pool_wf_def counts_ok_update)

lemma pool_wf_new: "pool_wf X inner_new"
  by (simp add: pool_wf_def inner_new_def inner_inv_def queues_ok_def index_ok_def queue_txs_def
      counts_ok_def all_pending_def all_queued_def)

lemma set_all_txs: "set (all_pending n) \<union> set (all_queued n) = queue_txs (by_sender n)"
  by (auto simp: all_pending_def all_queued_def queue_txs_def sq_txs_def)

lemma pool_wf_get: "pool_wf X n \<Longrightarrow> hm_get (by_hash n) h = Some t \<longleftrightarrow> t \<in> queue_txs (by_sender n) \<and> ot_hash t = h"
  by (simp add: pool_wf_def inner_inv_def index_ok_def)

lemma pool_wf_id: "pool_wf X n \<Longrightarrow> hm_get (by_id n) i = Some h \<longleftrightarrow>
    (\<exists>t \<in> queue_txs (by_sender n). ordered_tx_id X t = i \<and> ot_hash t = h)"
  by (simp add: pool_wf_def inner_inv_def index_ok_def)

lemma pool_wf_hash_inj:
  "pool_wf X n \<Longrightarrow> t \<in> queue_txs (by_sender n) \<Longrightarrow> u \<in> queue_txs (by_sender n) \<Longrightarrow>
     ot_hash t = ot_hash u \<Longrightarrow> t = u"
  unfolding pool_wf_def inner_inv_def using index_hash_inj by blast

text \<open>The number of indexed transactions is the sum of the two counters.\<close>

lemma queues_ok_set:
  "queues_ok bs \<longleftrightarrow> hm_wf bs \<and> (\<forall>(s, q) \<in> set bs. sq_wf q \<and> sq_sender q = s)"
proof (cases "hm_wf bs")
  case True
  then have "hm_get bs s = Some q \<longleftrightarrow> (s, q) \<in> set bs" for s q by (rule map_of_eq_Some_iff)
  then show ?thesis by (simp add: queues_ok_def Ball_def True)
qed (simp add: queues_ok_def)

lemma distinct_all_txs:
  assumes "queues_ok bs"
  shows "distinct (concat (map sq_txs (map snd bs)))"
  using assms
proof (induction bs)
  case (Cons e bs)
  obtain s q where e: "e = (s, q)" by fastforce
  have ok: "queues_ok bs" "s \<notin> fst ` set bs" and q: "sq_wf q" "sq_sender q = s"
    using Cons.prems by (simp_all add: queues_ok_set e)
  have "ot_sender t = s" if "t \<in> set (sq_txs q)" for t using sq_wfD(5) [OF q(1) that] q(2) by simp
  moreover have "ot_sender t \<in> fst ` set bs" if "t \<in> queue_txs bs" for t
  proof -
    from that obtain q where "hm_get bs (ot_sender t) = Some q" using queue_txs_iff [OF ok(1)] by blast
    then have "(ot_sender t, q) \<in> set bs" by (rule map_of_SomeD)
    then show ?thesis by (rule rev_image_eqI) simp
  qed
  moreover have "set (concat (map sq_txs (map snd bs))) = queue_txs bs"
    by (auto simp: queue_txs_def)
  ultimately show ?case
    using Cons.IH [OF ok(1)] ok(2) sq_wf_distinct [OF q(1)] by (auto simp: e)
qed simp

lemma pool_wf_size:
  assumes "pool_wf X n"
  shows "length (by_hash n) = pending_count n + queued_count n"
proof -
  let ?all = "concat (map sq_txs (map snd (by_sender n)))"
  have wf: "hm_wf (by_hash n)" using assms by (simp add: pool_wf_def inner_inv_def index_ok_def)
  have all: "set ?all = queue_txs (by_sender n)" by (auto simp: queue_txs_def)
  have mem: "(h, t) \<in> set (by_hash n) \<longleftrightarrow> t \<in> queue_txs (by_sender n) \<and> ot_hash t = h" for h t
    using pool_wf_get [OF assms] map_of_eq_Some_iff [OF wf] by metis
  have "set (map snd (by_hash n)) = queue_txs (by_sender n)"
    using mem by force
  moreover have "distinct (map snd (by_hash n))"
    using wf mem by (auto simp: distinct_map inj_on_def)
  ultimately have "length (by_hash n) = card (set ?all)"
    using all by (metis distinct_card length_map)
  also have "\<dots> = length ?all"
    using assms distinct_all_txs by (intro distinct_card) (auto simp: pool_wf_def inner_inv_def)
  also have "\<dots> = length (all_pending n) + length (all_queued n)"
    by (simp add: all_pending_def all_queued_def length_concat sq_txs_def comp_def sum_list_addf)
  finally show ?thesis using assms by (simp add: pool_wf_def counts_ok_def)
qed

section \<open>Sizes of the queues\<close>

lemma queue_txs_sender:
  assumes "queues_ok bs" and "hm_get bs s = Some q"
  shows "set (sq_txs q) = {t \<in> queue_txs bs. ot_sender t = s}"
  using assms queues_okD [OF assms] sq_wfD(5) [of q] by (auto simp: queue_txs_iff)

lemma total_count_card:
  assumes "queues_ok bs" and "hm_get bs s = Some q"
  shows "sq_total_count q = card {t \<in> queue_txs bs. ot_sender t = s}"
proof -
  have "sq_total_count q = length (sq_txs q)" by (simp add: sq_total_count_def sq_txs_def)
  also have "\<dots> = card (set (sq_txs q))"
    using sq_wf_distinct queues_okD [OF assms] by (metis distinct_card)
  finally show ?thesis using queue_txs_sender [OF assms] by simp
qed

lemma finite_queue_txs [simp]: "finite (queue_txs bs)"
  by (simp add: queue_txs_def)

definition sender_limit_ok :: "PoolConfig \<Rightarrow> OrderedTransaction set \<Rightarrow> bool" where
  "sender_limit_ok cfg T \<longleftrightarrow> (\<forall>s. card {t \<in> T. ot_sender t = s} \<le> max 1 (max_txs_per_sender cfg))"

lemma sender_limit_mono:
  "sender_limit_ok cfg T \<Longrightarrow> finite T \<Longrightarrow> U \<subseteq> T \<Longrightarrow> sender_limit_ok cfg U"
proof -
  assume "sender_limit_ok cfg T" "finite T" "U \<subseteq> T"
  moreover from this have "card {t \<in> U. ot_sender t = s} \<le> card {t \<in> T. ot_sender t = s}" for s
    by (intro card_mono) auto
  ultimately show ?thesis unfolding sender_limit_ok_def using le_trans by blast
qed

section \<open>Eviction\<close>

lemma pool_wf_inv: "pool_wf X n \<Longrightarrow> inner_inv X n (queue_txs (by_sender n)) {}"
  by (simp add: pool_wf_def)

lemma pool_wf_remove:
  assumes "pool_wf X n" and "inner_remove_by_hash X h n = (n', r)"
  shows "pool_wf X (update_counts n')"
    and "queue_txs (by_sender n') = {t \<in> queue_txs (by_sender n). ot_hash t \<noteq> h}"
    and "r = hm_get (by_hash n) h"
  using inner_remove_spec [OF pool_wf_inv [OF assms(1)] assms(2)] by (simp_all add: pool_wf_update_counts)

lemma remove_present:
  assumes "pool_wf X n" and "t \<in> queue_txs (by_sender n)"
    and "inner_remove_by_hash X (ot_hash t) n = (n', r)"
  shows "r = Some t" and "queue_txs (by_sender n') = queue_txs (by_sender n) - {t}"
proof -
  have "hm_get (by_hash n) (ot_hash t) = Some t"
    using pool_wf_get [OF assms(1)] assms(2) by simp
  then show "r = Some t" using pool_wf_remove(3) [OF assms(1,3)] by simp
  show "queue_txs (by_sender n') = queue_txs (by_sender n) - {t}"
    using pool_wf_remove(2) [OF assms(1,3)] pool_wf_hash_inj [OF assms(1) _ assms(2)] by auto
qed

lemma evict_lowest_pending_cases:
  assumes "pool_wf X n" and "evict_lowest_pending X n = (n', r)"
  obtains (None) "all_pending n = []" "n' = n" "r = None"
  | (Some) t where "r = Some t" "t \<in> set (all_pending n)"
      "\<forall>u \<in> set (all_pending n). eviction_key t \<le> eviction_key u"
      "pool_wf X n'" "queue_txs (by_sender n') = queue_txs (by_sender n) - {t}"
proof (cases "min_by_key eviction_key (all_pending n)")
  case None
  then show ?thesis using assms(2) by (intro that(1)) (simp_all add: evict_lowest_pending_def)
next
  case (Some t)
  obtain n1 r1 where rem: "inner_remove_by_hash X (ot_hash t) n = (n1, r1)" by fastforce
  have t: "t \<in> set (all_pending n)" "\<forall>u \<in> set (all_pending n). eviction_key t \<le> eviction_key u"
    using min_by_key_Some [OF Some] by auto
  then have in_pool: "t \<in> queue_txs (by_sender n)" using set_all_txs by blast
  have "n' = update_counts n1" "r = r1"
    using assms(2) Some rem by (auto simp: evict_lowest_pending_def)
  then show ?thesis
    using t remove_present [OF assms(1) in_pool rem] pool_wf_remove(1) [OF assms(1) rem]
    by (intro that(2) [of t]) simp_all
qed

text \<open>Removing a queued transaction leaves every pending run as it is.\<close>

lemma sq_remove_queued_pending:
  assumes wf: "sq_wf q" and t: "t \<in> set (sq_queued q)"
    and uniq: "\<And>u. u \<in> set (sq_txs q) \<Longrightarrow> ot_hash u = ot_hash t \<Longrightarrow> u = t"
  shows "sq_pending (fst (sq_remove_by_hash (ot_hash t) q)) = sq_pending q"
proof -
  have "u \<noteq> t" if "u \<in> set (sq_pending q)" for u
    using sq_wf_nonces(2) [OF wf that] sq_wfD(4) [OF wf t] by auto
  then have "\<forall>u \<in> set (sq_pending q). ot_hash u \<noteq> ot_hash t"
    using uniq by (auto simp: sq_txs_def)
  then have "position (\<lambda>u. ot_hash u = ot_hash t) (sq_pending q) = None"
    by (simp add: position_None)
  then show ?thesis by (auto simp: sq_remove_by_hash_def split: option.splits)
qed

lemma concat_pending_store:
  assumes "hm_wf bs" "hm_get bs s = Some q" "sq_pending q' = sq_pending q"
  shows "concat (map sq_pending (map snd (store_queue s q' bs))) = concat (map sq_pending (map snd bs))"
  using assms(1,2)
proof (rule hm_split)
  fix xs ys
  assume "bs = xs @ (s, q) # ys" "\<And>w. hm_insert s w bs = xs @ (s, w) # ys" "hm_remove s bs = xs @ ys"
  then show ?thesis using assms(3) by (simp add: store_queue_def sq_is_empty_def)
qed

lemma remove_queued_pending:
  assumes wf: "pool_wf X n" and t: "t \<in> set (all_queued n)"
    and rem: "inner_remove_by_hash X (ot_hash t) n = (n', r)"
  shows "all_pending n' = all_pending n"
proof -
  have qok: "queues_ok (by_sender n)" using wf by (simp add: pool_wf_def inner_inv_def)
  then have hwf: "hm_wf (by_sender n)" by (simp add: queues_ok_def)
  obtain s q where sq: "(s, q) \<in> set (by_sender n)" "t \<in> set (sq_queued q)"
    using t by (auto simp: all_queued_def)
  then have get: "hm_get (by_sender n) s = Some q" using hwf by simp
  have q: "sq_wf q" "sq_sender q = s" using queues_okD [OF qok get] by simp_all
  have s: "s = ot_sender t" using sq_wfD(5) [OF q(1), of t] q(2) sq(2) by (simp add: sq_txs_def)
  have in_pool: "u \<in> queue_txs (by_sender n)" if "u \<in> set (sq_txs q)" for u
    using queue_txs_get [OF qok get that] .
  have tq: "t \<in> set (sq_txs q)" using sq(2) by (simp add: sq_txs_def)
  have "hm_get (by_hash n) (ot_hash t) = Some t" using pool_wf_get [OF wf] in_pool [OF tq] by simp
  then have "by_sender n' = store_queue s (fst (sq_remove_by_hash (ot_hash t) q)) (by_sender n)"
    using rem get by (auto simp: inner_remove_store Let_def s)
  moreover have "sq_pending (fst (sq_remove_by_hash (ot_hash t) q)) = sq_pending q"
    using sq_remove_queued_pending [OF q(1) sq(2)] pool_wf_hash_inj [OF wf] in_pool tq by blast
  ultimately show ?thesis
    unfolding all_pending_def using concat_pending_store [OF hwf get] by simp
qed

lemma evict_lowest_queued_cases:
  assumes "pool_wf X n" and "evict_lowest_queued X n = (n', r)"
  obtains (None) "all_queued n = []" "n' = n" "r = None"
  | (Some) t where "r = Some t" "t \<in> set (all_queued n)"
      "\<forall>u \<in> set (all_queued n). eviction_key t \<le> eviction_key u"
      "pool_wf X n'" "queue_txs (by_sender n') = queue_txs (by_sender n) - {t}"
      "all_pending n' = all_pending n"
proof (cases "min_by_key eviction_key (all_queued n)")
  case None
  then show ?thesis using assms(2) by (intro that(1)) (simp_all add: evict_lowest_queued_def)
next
  case (Some t)
  obtain n1 r1 where rem: "inner_remove_by_hash X (ot_hash t) n = (n1, r1)" by fastforce
  have t: "t \<in> set (all_queued n)" "\<forall>u \<in> set (all_queued n). eviction_key t \<le> eviction_key u"
    using min_by_key_Some [OF Some] by auto
  then have in_pool: "t \<in> queue_txs (by_sender n)" using set_all_txs by blast
  have n': "n' = update_counts n1" "r = r1"
    using assms(2) Some rem by (auto simp: evict_lowest_queued_def)
  moreover have "all_pending n1 = all_pending n" using assms(1) t(1) rem by (rule remove_queued_pending)
  moreover have "all_pending (update_counts n1) = all_pending n1" by (simp add: all_pending_def)
  ultimately show ?thesis
    using t remove_present [OF assms(1) in_pool rem] pool_wf_remove(1) [OF assms(1) rem]
    by (intro that(2) [of t]) simp_all
qed

end
