(* ===== verification/Txpool_Operations.thy ===== *)
theory Txpool_Operations
  imports Txpool_Invariant
begin

text \<open>
  The operations of the transaction pool keep its invariant, and what each of them does to the
  set of transactions: insertion with replacement and eviction, removal, confirmation, expiry.
\<close>

section \<open>The eviction loops\<close>

lemma evict_pending_loop_spec:
  assumes "pool_wf X n" and "evict_pending_loop X limit h n es b = (n', es', b')"
  shows "\<exists>evs. es' = es @ map ot_hash evs \<and> set evs \<subseteq> queue_txs (by_sender n) \<and>
    queue_txs (by_sender n') = queue_txs (by_sender n) - set evs \<and>
    (b' \<longleftrightarrow> b \<or> h \<in> ot_hash ` set evs) \<and> pool_wf X n' \<and> pending_count n' \<le> limit"
  using assms
proof (induction X limit h n es b rule: evict_pending_loop.induct)
  case (1 X limit h n es b)
  note loop = "1.prems"(2) [unfolded evict_pending_loop.simps [of X limit h n es b]]
  show ?case
  proof (cases "pending_count n > limit")
    case False
    then show ?thesis using "1.prems"(1) loop by (intro exI [of _ "[]"]) auto
  next
    case True
    obtain n1 r where ev: "evict_lowest_pending X n = (n1, r)" by fastforce
    from "1.prems"(1) ev show ?thesis
    proof (cases rule: evict_lowest_pending_cases)
      case None
      then show ?thesis using True "1.prems"(1) by (simp add: pool_wf_def counts_ok_def)
    next
      case (Some t)
      have "evict_pending_loop X limit h n1 (es @ [ot_hash t]) (b \<or> ot_hash t = h) = (n', es', b')"
        using loop True ev Some(1) by simp
      from "1.IH" [OF True ev [symmetric] Some(1) Some(4) this] obtain evs where
        evs: "es' = (es @ [ot_hash t]) @ map ot_hash evs" "set evs \<subseteq> queue_txs (by_sender n1)"
          "queue_txs (by_sender n') = queue_txs (by_sender n1) - set evs"
          "b' \<longleftrightarrow> (b \<or> ot_hash t = h) \<or> h \<in> ot_hash ` set evs" "pool_wf X n'" "pending_count n' \<le> limit"
        by blast
      have "t \<in> queue_txs (by_sender n)" using Some(2) set_all_txs by blast
      then show ?thesis using evs Some(5) by (intro exI [of _ "t # evs"]) auto
    qed
  qed
qed

lemma evict_queued_loop_spec:
  assumes "pool_wf X n" and "evict_queued_loop X limit h n es b = (n', es', b')"
  shows "\<exists>evs. es' = es @ map ot_hash evs \<and> set evs \<subseteq> queue_txs (by_sender n) \<and>
    queue_txs (by_sender n') = queue_txs (by_sender n) - set evs \<and>
    (b' \<longleftrightarrow> b \<or> h \<in> ot_hash ` set evs) \<and> pool_wf X n' \<and> queued_count n' \<le> limit \<and>
    pending_count n' = pending_count n"
  using assms
proof (induction X limit h n es b rule: evict_queued_loop.induct)
  case (1 X limit h n es b)
  note loop = "1.prems"(2) [unfolded evict_queued_loop.simps [of X limit h n es b]]
  show ?case
  proof (cases "queued_count n > limit")
    case False
    then show ?thesis using "1.prems"(1) loop by (intro exI [of _ "[]"]) auto
  next
    case True
    obtain n1 r where ev: "evict_lowest_queued X n = (n1, r)" by fastforce
    from "1.prems"(1) ev show ?thesis
    proof (cases rule: evict_lowest_queued_cases)
      case None
      then show ?thesis using True "1.prems"(1) by (simp add: pool_wf_def counts_ok_def)
    next
      case (Some t)
      have "evict_queued_loop X limit h n1 (es @ [ot_hash t]) (b \<or> ot_hash t = h) = (n', es', b')"
        using loop True ev Some(1) by simp
      from "1.IH" [OF True ev [symmetric] Some(1) Some(4) this] obtain evs where
        evs: "es' = (es @ [ot_hash t]) @ map ot_hash evs" "set evs \<subseteq> queue_txs (by_sender n1)"
          "queue_txs (by_sender n') = queue_txs (by_sender n1) - set evs"
          "b' \<longleftrightarrow> (b \<or> ot_hash t = h) \<or> h \<in> ot_hash ` set evs" "pool_wf X n'" "queued_count n' \<le> limit"
          "pending_count n' = pending_count n1"
        by blast
      have "t \<in> queue_txs (by_sender n)" using Some(2) set_all_txs by blast
      moreover have "pending_count n1 = pending_count n"
        using Some(4,6) "1.prems"(1) by (simp add: pool_wf_def counts_ok_def)
      ultimately show ?thesis using evs Some(5) by (intro exI [of _ "t # evs"]) auto
    qed
  qed
qed

section \<open>Insertion into the queues and indexes\<close>

definition same_nonce :: "OrderedTransaction \<Rightarrow> OrderedTransaction set \<Rightarrow> OrderedTransaction set" where
  "same_nonce t T = {u \<in> T. ot_sender u = ot_sender t \<and> ot_nonce u = ot_nonce t}"

definition fresh :: "externs \<Rightarrow> OrderedTransaction \<Rightarrow> OrderedTransaction set \<Rightarrow> bool" where
  "fresh X t T \<longleftrightarrow>
     (\<forall>u \<in> T. ot_hash u \<noteq> ot_hash t \<and> ordered_tx_id X u \<noteq> ordered_tx_id X t)"

lemma fresh_iff:
  assumes "pool_wf X n"
  shows "hm_get (by_hash n) (ot_hash t) = None \<and> hm_get (by_id n) (ordered_tx_id X t) = None \<longleftrightarrow>
    fresh X t (queue_txs (by_sender n))"
proof -
  have "hm_get (by_hash n) (ot_hash t) = None \<longleftrightarrow> (\<forall>u \<in> queue_txs (by_sender n). ot_hash u \<noteq> ot_hash t)"
    using pool_wf_get [OF assms, of "ot_hash t"] by (cases "hm_get (by_hash n) (ot_hash t)") auto
  moreover have "hm_get (by_id n) (ordered_tx_id X t) = None \<longleftrightarrow>
      (\<forall>u \<in> queue_txs (by_sender n). ordered_tx_id X u \<noteq> ordered_tx_id X t)"
    using pool_wf_id [OF assms, of "ordered_tx_id X t"]
    by (cases "hm_get (by_id n) (ordered_tx_id X t)") auto
  ultimately show ?thesis by (auto simp: fresh_def)
qed

text \<open>
  The queue step of \<open>add\<close>: either the transaction is underpriced and nothing changes, or it is
  in the queues, a transaction of the same sender and nonce is in neither queues nor indexes,
  and everything else is as before.
\<close>

lemma insert_in_queue_cases:
  assumes wf: "pool_wf X n" and max: "ot_nonce t \<noteq> - 1"
    and fresh: "fresh X t (queue_txs (by_sender n))"
    and ins: "insert_in_queue X t n = (n1, res)"
  obtains (Underpriced) "res = Inl ReplacementUnderpriced" "n1 = n"
  | (Inserted) rep where "res = Inr rep" "queues_ok (by_sender n1)"
      "\<forall>s q. hm_get (by_sender n1) s = Some q \<longrightarrow> \<not> sq_is_empty q"
      "queue_txs (by_sender n1) = insert t (queue_txs (by_sender n) - same_nonce t (queue_txs (by_sender n)))"
      "index_ok X (by_hash n1) (by_id n1) (queue_txs (by_sender n) - same_nonce t (queue_txs (by_sender n)))"
      "ot_hash ` same_nonce t (queue_txs (by_sender n)) = set_option rep"
      "\<forall>u \<in> same_nonce t (queue_txs (by_sender n)). ot_price u < ot_price t"
proof -
  let ?T = "queue_txs (by_sender n)" and ?s = "ot_sender t" and ?bs = "by_sender n"
  have qok: "queues_ok ?bs" and ne: "\<And>s q. hm_get ?bs s = Some q \<Longrightarrow> \<not> sq_is_empty q"
    and idx: "index_ok X (by_hash n) (by_id n) ?T"
    using wf by (auto simp: pool_wf_def inner_inv_def)
  define q where "q = (case hm_get ?bs ?s of None \<Rightarrow> sq_new ?s (ot_nonce t) | Some q \<Rightarrow> q)"
  obtain q' r where q': "sq_insert t q = (q', r)" by fastforce
  have q: "sq_wf q" "sq_sender q = ?s" "set (sq_txs q) = {u \<in> ?T. ot_sender u = ?s}"
  proof (atomize (full), cases "hm_get ?bs ?s")
    case None
    then have "{u \<in> ?T. ot_sender u = ?s} = {}" using queue_txs_iff [OF qok] by auto
    with None show "sq_wf q \<and> sq_sender q = ?s \<and> set (sq_txs q) = {u \<in> ?T. ot_sender u = ?s}"
      by (simp add: q_def) (simp add: sq_new_def sq_txs_def)
  next
    case (Some p)
    then show "sq_wf q \<and> sq_sender q = ?s \<and> set (sq_txs q) = {u \<in> ?T. ot_sender u = ?s}"
      using queues_okD [OF qok Some] queue_txs_sender [OF qok Some] by (simp add: q_def)
  qed
  have wf': "sq_wf q'" and frame: "sq_sender q' = ?s"
    using sq_insert_wf [OF q(1) max _ q'] sq_insert_frame [OF q'] q(2) by simp_all
  let ?n1 = "n\<lparr>by_sender := hm_insert ?s q' ?bs\<rparr>"
  have step: "(n1, res) = (case r of None \<Rightarrow> (?n1, Inr None) | Some u \<Rightarrow>
      if ot_hash u = ot_hash t then (?n1, Inl ReplacementUnderpriced)
      else (fst (inner_remove_by_hash X (ot_hash u) ?n1), Inr (Some (ot_hash u))))"
    using ins q' by (simp add: insert_in_queue_def q_def Let_def)
  have qok': "queues_ok (hm_insert ?s q' ?bs)" using queues_ok_put [OF qok wf' frame] .
  have txs': "queue_txs (hm_insert ?s q' ?bs) = {u \<in> ?T. ot_sender u \<noteq> ?s} \<union> set (sq_txs q')"
    using queue_txs_put [OF qok wf' frame] .
  have fr: "ot_hash u \<noteq> ot_hash t" if "u \<in> ?T" for u using fresh that by (simp add: fresh_def)
  have same: "same_nonce t ?T = {u \<in> set (sq_txs q). ot_nonce u = ot_nonce t}"
    using q(3) by (auto simp: same_nonce_def)
  have sender: "ot_sender t = sq_sender q" using q(2) by simp
  from q(1) max sender q' show ?thesis
  proof (cases rule: sq_insert_spec)
    case Added
    have "set (sq_txs q') = insert t (set (sq_txs q))" using set_from_mset_add [OF Added(3)] by simp
    moreover have "same_nonce t ?T = {}" using Added(4) same by auto
    moreover have "n1 = ?n1" "res = Inr None" using step Added(1) by simp_all
    moreover from calculation(1) have "\<not> sq_is_empty q'" by (auto simp: sq_is_empty_txs)
    then have "\<forall>s p. hm_get (hm_insert ?s q' ?bs) s = Some p \<longrightarrow> \<not> sq_is_empty p"
      using ne by (auto simp: hm.get_put)
    moreover have "queue_txs (hm_insert ?s q' ?bs) = insert t ?T" using txs' calculation(1) q(3) by auto
    ultimately show ?thesis using qok' idx by (intro Inserted [of None]) simp_all
  next
    case (Replaced old)
    have old: "old \<in> ?T" "ot_sender old = ?s" using Replaced(3) q(3) by auto
    have uniq: "same_nonce t ?T = {old}"
      using same Replaced(3,5) distinct_map_key [OF sq_wf_nonces(1) [OF q(1)]] by fastforce
    have "mset (sq_txs q') = mset (t # remove1 old (sq_txs q))" using Replaced(4) by simp
    from mset_eq_setD [OF this] have set': "set (sq_txs q') = insert t (set (sq_txs q) - {old})"
      using sq_wf_distinct [OF q(1)] by simp
    have ne': "\<not> sq_is_empty q'" using set' by (auto simp: sq_is_empty_txs)
    have hash: "hm_get (by_hash n) (ot_hash old) = Some old" using pool_wf_get [OF wf] old(1) by simp
    have "\<forall>u \<in> set (sq_txs q'). ot_hash u \<noteq> ot_hash old"
      using set' fr [OF old(1)] q(3) pool_wf_hash_inj [OF wf _ old(1)] by auto
    then have "fst (sq_remove_by_hash (ot_hash old) q') = q'" by (simp add: sq_remove_missing)
    moreover have "hm_insert ?s q' (hm_insert ?s q' ?bs) = hm_insert ?s q' ?bs"
      using qok' by (intro hm_insert_same) (simp_all add: queues_ok_def hm.get_put)
    ultimately have "inner_remove_by_hash X (ot_hash old) ?n1 =
        (?n1\<lparr>by_hash := hm_remove (ot_hash old) (by_hash n),
             by_id := hm_remove (ordered_tx_id X old) (by_id n)\<rparr>, Some old)"
      using hash ne' old(2) by (simp add: inner_remove_store Let_def hm.get_put store_queue_def)
    then have n1: "n1 = ?n1\<lparr>by_hash := hm_remove (ot_hash old) (by_hash n),
        by_id := hm_remove (ordered_tx_id X old) (by_id n)\<rparr>" "res = Inr (Some (ot_hash old))"
      using step Replaced(1) fr [OF old(1)] by simp_all
    have "{u \<in> ?T. ot_hash u \<noteq> ot_hash old} = ?T - {old}"
      using pool_wf_hash_inj [OF wf _ old(1)] by auto
    then have "index_ok X (by_hash n1) (by_id n1) (?T - same_nonce t ?T)"
      using index_ok_remove [OF idx hash] by (simp add: n1 uniq)
    moreover have "queue_txs (by_sender n1) = insert t (?T - same_nonce t ?T)"
      using txs' set' q(3) old(2) by (auto simp: n1 uniq)
    moreover have "\<forall>s p. hm_get (by_sender n1) s = Some p \<longrightarrow> \<not> sq_is_empty p"
      using ne ne' by (auto simp: n1 hm.get_put)
    ultimately show ?thesis
      using qok' uniq Replaced(6) by (intro Inserted [of "Some (ot_hash old)"]) (simp_all add: n1)
  next
    case Rejected
    have "hm_get ?bs ?s \<noteq> None"
    proof
      assume "hm_get ?bs ?s = None"
      then have "q = sq_new ?s (ot_nonce t)" by (simp add: q_def)
      then show False using Rejected(3) by (simp add: sq_new_def sq_txs_def)
    qed
    then have "hm_get ?bs ?s = Some q" by (auto simp: q_def)
    then have "hm_insert ?s q' ?bs = ?bs"
      using Rejected(2) qok by (simp add: hm_insert_same queues_ok_def)
    then show ?thesis using step Rejected(1) by (intro Underpriced) simp_all
  qed
qed

section \<open>Adding a transaction\<close>

lemma frame_simps [simp]:
  "tp_inner (send_event e p) = tp_inner p" "tp_config (send_event e p) = tp_config p"
  "tp_metrics (send_event e p) = tp_metrics p"
  "tp_inner (sync_metrics p) = tp_inner p" "tp_config (sync_metrics p) = tp_config p"
  "tp_events (sync_metrics p) = tp_events p"
  "tp_inner (record_rejection s p) = tp_inner p" "tp_config (record_rejection s p) = tp_config p"
  "tp_inner (set_metrics m p) = tp_inner p" "tp_config (set_metrics m p) = tp_config p"
  by (simp_all add: send_event_def sync_metrics_def record_rejection_def set_metrics_def
      split: option.split)

lemma fold_send_event:
  "fold (\<lambda>h. send_event (f h)) hs p =
     p\<lparr>tp_events := map_option (\<lambda>es. es @ map f hs) (tp_events p)\<rparr>"
  by (induction hs arbitrary: p) (simp_all add: send_event_def option.map_comp comp_def option.map_ident)

lemma add_events_eq:
  "add_events t rep hs b p =
     p\<lparr>tp_events := map_option (\<lambda>es. es @
         map (\<lambda>h. TxEvicted h ''replaced'') (case rep of None \<Rightarrow> [] | Some h \<Rightarrow> [h]) @
         (if b then [] else [tx_added_event t]) @ map (\<lambda>h. TxEvicted h ''evicted'') hs) (tp_events p)\<rparr>"
  by (simp add: add_events_def fold_send_event)
    (simp add: send_event_def option.map_comp comp_def option.map_ident split: option.split)

lemma pool_wf_index_tx:
  assumes "queues_ok (by_sender n)" "\<forall>s q. hm_get (by_sender n) s = Some q \<longrightarrow> \<not> sq_is_empty q"
    and "queue_txs (by_sender n) = insert t T" "index_ok X (by_hash n) (by_id n) T" "fresh X t T"
  shows "pool_wf X (index_tx X t n)" and "queue_txs (by_sender (index_tx X t n)) = insert t T"
proof -
  have "hm_get (by_hash n) (ot_hash t) \<noteq> Some u" for u
    using assms(4,5) by (auto simp: index_ok_def fresh_def)
  then have "hm_get (by_hash n) (ot_hash t) = None" by blast
  moreover have "hm_get (by_id n) (ordered_tx_id X t) \<noteq> Some h" for h
    using assms(4,5) by (auto simp: index_ok_def fresh_def)
  then have "hm_get (by_id n) (ordered_tx_id X t) = None" by blast
  ultimately have "index_ok X (hm_insert (ot_hash t) t (by_hash n))
      (hm_insert (ordered_tx_id X t) (ot_hash t) (by_id n)) (insert t T)"
    using index_ok_put [OF assms(4)] by blast
  then show "pool_wf X (index_tx X t n)"
    unfolding index_tx_def using assms(1-3)
    by (intro pool_wf_update_counts) (simp add: inner_inv_def)
  show "queue_txs (by_sender (index_tx X t n)) = insert t T" by (simp add: index_tx_def assms(3))
qed

text \<open>
  The two outcomes of \<open>add\<close>: an error that leaves the pool untouched, or a stored transaction
  after which both limits hold, with the transactions that were evicted to get there.
\<close>

lemma add_cases:
  assumes wf: "pool_wf X (tp_inner p)" and max: "ot_nonce t \<noteq> - 1" and add: "add X t p = (p', r)"
  obtains (Rejected) e where "r = Inl e" "p' = p"
  | (Stored) rep evs where
      "fresh X t (queue_txs (by_sender (tp_inner p)))"
      "sender_guard (tp_config p) (hm_get (by_sender (tp_inner p)) (ot_sender t)) t
         (insertion_target (hm_get (by_sender (tp_inner p)) (ot_sender t)) t) = Inr ()"
      "pool_wf X (tp_inner p')"
      "queue_txs (by_sender (tp_inner p')) = insert t (queue_txs (by_sender (tp_inner p)) -
         same_nonce t (queue_txs (by_sender (tp_inner p)))) - set evs"
      "set evs \<subseteq> insert t (queue_txs (by_sender (tp_inner p)))"
      "pending_count (tp_inner p') \<le> max_pending_txs (tp_config p)"
      "queued_count (tp_inner p') \<le> max_queued_txs (tp_config p)"
      "r = (if t \<in> set evs then Inl PoolFull else Inr ())" "tp_config p' = tp_config p"
      "\<forall>u \<in> same_nonce t (queue_txs (by_sender (tp_inner p))). ot_price u < ot_price t"
      "ot_hash ` same_nonce t (queue_txs (by_sender (tp_inner p))) = set_option rep"
      "p' = sync_metrics (add_events t rep (map ot_hash evs) (t \<in> set evs) (p\<lparr>tp_inner := tp_inner p'\<rparr>))"
proof -
  let ?n = "tp_inner p" and ?cfg = "tp_config p"
  let ?T = "queue_txs (by_sender ?n)" and ?q = "hm_get (by_sender ?n) (ot_sender t)"
  let ?target = "insertion_target ?q t"
  show ?thesis
  proof (cases "fresh X t ?T \<and> sender_guard ?cfg ?q t ?target = Inr () \<and>
      reject_underpriced_when_full ?cfg ?n t ?target = Inr ()")
    case False
    then have "\<exists>e. add X t p = (p, Inl e)"
      using fresh_iff [OF wf, of t] by (auto simp: add_def Let_def split: sum.split)
    then show ?thesis using add by (auto intro: Rejected)
  next
    case True
    obtain n1 res where ins: "insert_in_queue X t ?n = (n1, res)" by fastforce
    have none: "hm_get (by_hash ?n) (ot_hash t) = None" "hm_get (by_id ?n) (ordered_tx_id X t) = None"
      using fresh_iff [OF wf, of t] True by auto
    from wf max _ ins show ?thesis
    proof (rule insert_in_queue_cases)
      show "fresh X t ?T" using True by simp
    next
      assume "res = Inl ReplacementUnderpriced" "n1 = ?n"
      then have "add X t p = (p, Inl ReplacementUnderpriced)"
        using True none ins by (simp add: add_def Let_def)
      then show ?thesis using add by (intro Rejected) simp_all
    next
      fix rep
      let ?U = "?T - same_nonce t ?T"
      assume res: "res = Inr rep" and st: "queues_ok (by_sender n1)"
        "\<forall>s q. hm_get (by_sender n1) s = Some q \<longrightarrow> \<not> sq_is_empty q"
        "queue_txs (by_sender n1) = insert t ?U" "index_ok X (by_hash n1) (by_id n1) ?U"
        and rep: "ot_hash ` same_nonce t ?T = set_option rep"
        "\<forall>u \<in> same_nonce t ?T. ot_price u < ot_price t"
      have "fresh X t ?U" using True by (auto simp: fresh_def)
      note idx = pool_wf_index_tx [OF st this]
      obtain n3 es1 b1 where l1: "evict_pending_loop X (max_pending_txs ?cfg) (ot_hash t)
          (index_tx X t n1) [] False = (n3, es1, b1)" by (metis prod_cases3)
      obtain n4 es b where l2: "evict_queued_loop X (max_queued_txs ?cfg) (ot_hash t) n3 es1 b1 =
          (n4, es, b)" by (metis prod_cases3)
      obtain ev1 where ev1: "es1 = map ot_hash ev1" "set ev1 \<subseteq> insert t ?U"
        "queue_txs (by_sender n3) = insert t ?U - set ev1" "b1 \<longleftrightarrow> ot_hash t \<in> ot_hash ` set ev1"
        "pool_wf X n3" "pending_count n3 \<le> max_pending_txs ?cfg"
        using evict_pending_loop_spec [OF idx(1) l1] by (auto simp: idx(2))
      obtain ev2 where ev2: "es = es1 @ map ot_hash ev2" "set ev2 \<subseteq> queue_txs (by_sender n3)"
        "queue_txs (by_sender n4) = queue_txs (by_sender n3) - set ev2"
        "b \<longleftrightarrow> b1 \<or> ot_hash t \<in> ot_hash ` set ev2" "pool_wf X n4"
        "queued_count n4 \<le> max_queued_txs ?cfg" "pending_count n4 = pending_count n3"
        using evict_queued_loop_spec [OF ev1(5) l2] by blast
      have sub: "set (ev1 @ ev2) \<subseteq> insert t ?T" using ev1(2,3) ev2(2) by auto
      have b: "b \<longleftrightarrow> t \<in> set (ev1 @ ev2)"
        using ev1(4) ev2(4) sub True by (auto simp: fresh_def)
      let ?p1 = "sync_metrics (add_events t rep es b (p\<lparr>tp_inner := n4\<rparr>))"
      have "add X t p = (?p1, if b then Inl PoolFull else Inr ())"
        using True none ins res l1 l2 by (simp add: add_def Let_def)
      then have p': "p' = ?p1" "r = (if t \<in> set (ev1 @ ev2) then Inl PoolFull else Inr ())"
        using add b by simp_all
      have inner: "tp_inner p' = n4" "tp_config p' = ?cfg" by (simp_all add: p'(1) add_events_eq)
      show ?thesis
      proof (rule Stored [of "ev1 @ ev2" rep])
        show "p' = sync_metrics (add_events t rep (map ot_hash (ev1 @ ev2)) (t \<in> set (ev1 @ ev2))
            (p\<lparr>tp_inner := tp_inner p'\<rparr>))"
          using inner b by (simp add: p'(1) ev1(1) ev2(1))
      qed (use True inner p'(2) sub rep ev1 ev2 in auto)
    qed
  qed
qed

lemma add_sender_limit:
  assumes wf: "pool_wf X (tp_inner p)" and max: "ot_nonce t \<noteq> - 1" and add: "add X t p = (p', r)"
    and lim: "sender_limit_ok (tp_config p) (queue_txs (by_sender (tp_inner p)))"
  shows "sender_limit_ok (tp_config p) (queue_txs (by_sender (tp_inner p')))"
  using wf max add
proof (cases rule: add_cases)
  case (Rejected e)
  then show ?thesis using lim by simp
next
  case (Stored rep evs)
  let ?T = "queue_txs (by_sender (tp_inner p))" and ?s = "ot_sender t"
  let ?U = "insert t (?T - same_nonce t ?T)" and ?M = "max_txs_per_sender (tp_config p)"
  have qok: "queues_ok (by_sender (tp_inner p))" using wf by (simp add: pool_wf_def inner_inv_def)
  have "card {u \<in> ?U. ot_sender u = s} \<le> max 1 ?M" for s
  proof (cases "s = ?s")
    case False
    then have "card {u \<in> ?U. ot_sender u = s} \<le> card {u \<in> ?T. ot_sender u = s}"
      by (intro card_mono) auto
    then show ?thesis using lim le_trans unfolding sender_limit_ok_def by blast
  next
    case True
    let ?Ts = "{u \<in> ?T. ot_sender u = ?s}"
    have U: "{u \<in> ?U. ot_sender u = s} = insert t (?Ts - same_nonce t ?T)" using True by auto
    consider (Fresh) "?Ts = {}" | (Room) "card ?Ts < ?M" | (Same) "same_nonce t ?T \<noteq> {}"
    proof (cases "hm_get (by_sender (tp_inner p)) ?s")
      case None
      then have "?Ts = {}" using queue_txs_iff [OF qok] by auto
      then show thesis by (rule Fresh)
    next
      case (Some q)
      show thesis
      proof (cases "existing_nonce_tx q (ot_nonce t)")
        case None
        then have "sq_total_count q < ?M"
          using Stored(2) Some by (auto simp: sender_guard_def insertion_target_def split: if_splits)
        then show thesis using total_count_card [OF qok Some] by (intro Room) simp
      next
        case (Some u)
        then have "u \<in> set (sq_txs q)" "ot_nonce u = ot_nonce t"
          by (auto simp: existing_nonce_tx_def find_Some_iff simp flip: sq_txs_def)
        then have "u \<in> same_nonce t ?T"
          using queue_txs_sender [OF qok \<open>hm_get _ _ = Some q\<close>] by (auto simp: same_nonce_def)
        then show thesis by (intro Same) auto
      qed
    qed
    then show ?thesis
    proof cases
      case Fresh
      then show ?thesis unfolding U by (simp only:) simp
    next
      case Room
      have "card (insert t (?Ts - same_nonce t ?T)) \<le> Suc (card (?Ts - same_nonce t ?T))"
        by (simp add: card_insert_if)
      also have "\<dots> \<le> Suc (card ?Ts)" by (simp add: card_mono)
      finally show ?thesis unfolding U using Room by simp
    next
      case Same
      then obtain u where "u \<in> same_nonce t ?T" by blast
      then have u: "u \<in> ?Ts" "?Ts - same_nonce t ?T \<subseteq> ?Ts - {u}" by (auto simp: same_nonce_def)
      have "card (insert t (?Ts - same_nonce t ?T)) \<le> Suc (card (?Ts - same_nonce t ?T))"
        by (simp add: card_insert_if)
      also have "\<dots> \<le> Suc (card (?Ts - {u}))" using u(2) by (simp add: card_mono)
      also have "\<dots> = card ?Ts" using u(1) by (intro card.remove [symmetric]) simp_all
      finally show ?thesis unfolding U using lim le_trans unfolding sender_limit_ok_def by blast
    qed
  qed
  then have "sender_limit_ok (tp_config p) ?U" by (simp add: sender_limit_ok_def)
  then show ?thesis by (rule sender_limit_mono) (auto simp: Stored(4))
qed

section \<open>The other operations\<close>

lemma remove_with_reason_spec:
  assumes wf: "pool_wf X (tp_inner p)" and rem: "remove_with_reason X h reason p = (p', r)"
  shows "pool_wf X (tp_inner p')" and "r = hm_get (by_hash (tp_inner p)) h"
    and "queue_txs (by_sender (tp_inner p')) = {t \<in> queue_txs (by_sender (tp_inner p)). ot_hash t \<noteq> h}"
    and "tp_config p' = tp_config p"
proof -
  obtain n x where n: "inner_remove_by_hash X h (tp_inner p) = (n, x)" by fastforce
  note spec = pool_wf_remove [OF wf n]
  have "pool_wf X (tp_inner p') \<and> r = hm_get (by_hash (tp_inner p)) h \<and>
    queue_txs (by_sender (tp_inner p')) = {t \<in> queue_txs (by_sender (tp_inner p)). ot_hash t \<noteq> h} \<and>
    tp_config p' = tp_config p"
  proof (cases x)
    case None
    then have "n = tp_inner p" using n by (auto simp: inner_remove_by_hash_def Let_def split: option.splits)
    then show ?thesis using rem n None spec wf by (simp add: remove_with_reason_def)
  next
    case (Some t)
    then have "p' = sync_metrics (send_event (TxEvicted h reason) (p\<lparr>tp_inner := update_counts n\<rparr>))"
      "r = Some t" using rem n by (simp_all add: remove_with_reason_def)
    then show ?thesis using spec Some by simp
  qed
  then show "pool_wf X (tp_inner p')" "r = hm_get (by_hash (tp_inner p)) h"
    "queue_txs (by_sender (tp_inner p')) = {t \<in> queue_txs (by_sender (tp_inner p)). ot_hash t \<noteq> h}"
    "tp_config p' = tp_config p"
    by blast+
qed

lemma confirmed_hashes_iff:
  assumes wf: "pool_wf X n" and get: "hm_get (by_sender n) s = Some q"
    and u: "u \<in> queue_txs (by_sender n)"
  shows "ot_hash u \<in> set (confirmed_hashes c q) \<longleftrightarrow> ot_sender u = s \<and> ot_nonce u \<le> c"
proof -
  have qok: "queues_ok (by_sender n)" using wf by (simp add: pool_wf_def inner_inv_def)
  have "set (confirmed_hashes c q) = ot_hash ` {t \<in> set (sq_txs q). ot_nonce t \<le> c}"
    by (auto simp: confirmed_hashes_def sq_txs_def)
  also have "{t \<in> set (sq_txs q). ot_nonce t \<le> c} =
      {t \<in> queue_txs (by_sender n). ot_sender t = s \<and> ot_nonce t \<le> c}"
    using queue_txs_sender [OF qok get] by auto
  finally show ?thesis using pool_wf_hash_inj [OF wf u] u by (auto simp: image_iff)
qed

lemma remove_confirmed_spec:
  fixes s :: address and c :: u64 and p :: TransactionPool and X :: externs
  assumes wf: "pool_wf X (tp_inner p)"
  defines "p' \<equiv> pool_remove_confirmed X s c p"
  shows "pool_wf X (tp_inner p')" and "tp_config p' = tp_config p"
    and "queue_txs (by_sender (tp_inner p')) =
      {t \<in> queue_txs (by_sender (tp_inner p)). \<not> (ot_sender t = s \<and> ot_nonce t \<le> c)}"
proof -
  let ?n = "tp_inner p"
  let ?T = "queue_txs (by_sender ?n)"
  let ?R = "{t \<in> ?T. \<not> (ot_sender t = s \<and> ot_nonce t \<le> c)}"
  let ?hs = "case hm_get (by_sender ?n) s of None \<Rightarrow> [] | Some q \<Rightarrow> confirmed_hashes c q"
  define n1 where "n1 = remove_all X ?hs ?n"
  define n2 where "n2 = (case hm_get (by_sender n1) s of None \<Rightarrow> n1
    | Some q \<Rightarrow> n1\<lparr>by_sender := store_queue s (sq_remove_confirmed c q) (by_sender n1)\<rparr>)"
  have p': "p' = sync_metrics (p\<lparr>tp_inner := update_counts n2\<rparr>)"
    unfolding p'_def pool_remove_confirmed_def n2_def n1_def Let_def store_queue_def
    by (simp split: option.split)
  have qok: "queues_ok (by_sender ?n)" using wf by (simp add: pool_wf_def inner_inv_def)
  have R: "{t \<in> ?T. ot_hash t \<notin> set ?hs} = ?R"
  proof (cases "hm_get (by_sender ?n) s")
    case None
    then show ?thesis using queue_txs_iff [OF qok] by auto
  next
    case (Some q)
    then show ?thesis using confirmed_hashes_iff [OF wf Some] by auto
  qed
  have inv: "inner_inv X n1 ?R {}" and txs: "queue_txs (by_sender n1) = ?R"
    using remove_all_spec(1,2) [OF pool_wf_inv [OF wf], of ?hs] by (simp_all only: n1_def R)
  have qok1: "queues_ok (by_sender n1)" using inv by (simp add: inner_inv_def)
  have "inner_inv X n2 ?R {} \<and> queue_txs (by_sender n2) = ?R"
  proof (cases "hm_get (by_sender n1) s")
    case None
    then show ?thesis using inv txs by (simp add: n2_def)
  next
    case (Some q)
    let ?q = "sq_remove_confirmed c q"
    have q: "sq_wf q" "sq_sender q = s" using queues_okD [OF qok1 Some] by simp_all
    have q': "sq_wf ?q" "sq_sender ?q = s" using sq_remove_confirmed_spec [OF q(1)] q(2) by simp_all
    have "set (sq_txs q) = {t \<in> ?R. ot_sender t = s}" using queue_txs_sender [OF qok1 Some] txs by simp
    then have "set (sq_txs ?q) = {t \<in> ?R. ot_sender t = s}"
      using sq_remove_confirmed_spec(2) [OF q(1)] by (auto simp: not_le)
    then have "queue_txs (store_queue s ?q (by_sender n1)) = ?R"
      using queue_txs_store [OF qok1 q'] txs by auto
    moreover have "\<not> sq_is_empty x" if "hm_get (store_queue s ?q (by_sender n1)) s' = Some x" for s' x
      using that inv by (auto simp: get_store_queue inner_inv_def split: if_splits)
    ultimately show ?thesis
      using Some queues_ok_store [OF qok1 q'] inv by (simp add: n2_def inner_inv_def)
  qed
  then show "pool_wf X (tp_inner p')" "queue_txs (by_sender (tp_inner p')) = ?R"
    by (simp_all add: p' pool_wf_update_counts)
  show "tp_config p' = tp_config p" by (simp add: p')
qed

lemma count_removed_fst: "fst (count_removed X hs n k) = remove_all X hs n"
  by (induction X hs n k rule: count_removed.induct)
    (auto simp: remove_all_def split: prod.splits option.splits)

lemma count_removed_snd:
  "inner_inv X n T S \<Longrightarrow> distinct hs \<Longrightarrow> set hs \<subseteq> ot_hash ` T \<Longrightarrow>
     snd (count_removed X hs n k) = k + length hs"
proof (induction hs arbitrary: n T k)
  case (Cons h hs)
  obtain n' r where rem: "inner_remove_by_hash X h n = (n', r)" by fastforce
  note spec = inner_remove_spec [OF Cons.prems(1) rem]
  obtain t where t: "t \<in> T" "ot_hash t = h" using Cons.prems(3) by auto
  then have "r = Some t" using spec(3) Cons.prems(1) by (simp add: inner_inv_def index_ok_def)
  moreover have "set hs \<subseteq> ot_hash ` {t \<in> T. ot_hash t \<noteq> h}"
  proof
    fix x assume "x \<in> set hs"
    moreover from this obtain u where "u \<in> T" "ot_hash u = x" using Cons.prems(3) by auto
    ultimately show "x \<in> ot_hash ` {t \<in> T. ot_hash t \<noteq> h}" using Cons.prems(2) by auto
  qed
  ultimately show ?case using Cons.IH [OF spec(1)] Cons.prems(2) rem by simp
qed simp

definition expired_txs :: "PoolConfig \<Rightarrow> u64 \<Rightarrow> PoolInner \<Rightarrow> OrderedTransaction set" where
  "expired_txs cfg now n =
     {t \<in> set (all_pending n). pending_ttl_secs cfg < saturating_sub now (ot_timestamp t)} \<union>
     {t \<in> set (all_queued n). queued_ttl_secs cfg < saturating_sub now (ot_timestamp t)}"

lemma cleanup_spec:
  assumes wf: "pool_wf X (tp_inner p)" and cleanup: "cleanup X now p = (p', k)"
  shows "pool_wf X (tp_inner p')" and "tp_config p' = tp_config p"
    and "queue_txs (by_sender (tp_inner p')) =
      queue_txs (by_sender (tp_inner p)) - expired_txs (tp_config p) now (tp_inner p)"
    and "k = card (expired_txs (tp_config p) now (tp_inner p))"
proof -
  let ?n = "tp_inner p"
  let ?E = "expired_txs (tp_config p) now ?n" and ?T = "queue_txs (by_sender ?n)"
  let ?e = "\<lambda>q. filter (\<lambda>t. pending_ttl_secs (tp_config p) < saturating_sub now (ot_timestamp t)) (sq_pending q) @
    filter (\<lambda>t. queued_ttl_secs (tp_config p) < saturating_sub now (ot_timestamp t)) (sq_queued q)"
  let ?es = "concat (map ?e (map snd (by_sender ?n)))"
  let ?hs = "concat (map (expired_hashes (tp_config p) now) (map snd (by_sender ?n)))"
  have hs: "?hs = map ot_hash ?es"
    by (simp add: expired_hashes_def map_concat comp_def)
  have set_es: "set ?es = ?E"
    by (auto simp: expired_txs_def all_pending_def all_queued_def)
  have E: "?E \<subseteq> ?T" using set_all_txs [of ?n] by (auto simp: expired_txs_def)
  have "distinct ?es"
  proof -
    have "distinct (concat (map ?e qs))" if "distinct (concat (map sq_txs qs))" for qs
      using that by (induction qs) (auto simp: sq_txs_def)
    moreover have "queues_ok (by_sender ?n)" using wf by (simp add: pool_wf_def inner_inv_def)
    ultimately show ?thesis using distinct_all_txs by blast
  qed
  moreover have inj: "inj_on ot_hash ?T" using pool_wf_hash_inj [OF wf] by (auto simp: inj_on_def)
  ultimately have dist: "distinct ?hs"
    unfolding hs distinct_map set_es using inj_on_subset [OF inj E] by blast
  have "{t \<in> ?T. ot_hash t \<notin> set ?hs} = ?T - ?E"
    using inj E unfolding hs set_map set_es inj_on_def by blast
  then have inv: "inner_inv X (remove_all X ?hs ?n) (?T - ?E) {}"
    and txs: "queue_txs (by_sender (remove_all X ?hs ?n)) = ?T - ?E"
    using remove_all_spec(1,2) [OF pool_wf_inv [OF wf], of ?hs] by simp_all
  have "set ?hs \<subseteq> ot_hash ` ?T" unfolding hs set_map set_es using E by (rule image_mono)
  from count_removed_snd [OF pool_wf_inv [OF wf] dist this, of 0]
  have k: "snd (count_removed X ?hs ?n 0) = card ?E"
    unfolding hs set_es [symmetric] distinct_card [OF \<open>distinct ?es\<close>] by simp
  have p': "tp_inner p' = update_counts (remove_all X ?hs ?n)" "tp_config p' = tp_config p" "k = card ?E"
    using cleanup k count_removed_fst [of X ?hs ?n 0]
    by (auto simp: cleanup_def Let_def split: prod.splits if_splits)
  show "pool_wf X (tp_inner p')" unfolding p' using inv txs by (intro pool_wf_update_counts) simp
  show "tp_config p' = tp_config p" "k = card ?E" using p' by simp_all
  show "queue_txs (by_sender (tp_inner p')) = ?T - ?E" using txs by (simp add: p')
qed

lemma clear_spec: "tp_inner (clear p) = inner_new" "tp_config (clear p) = tp_config p"
  by (simp_all add: clear_def inner_new_def)

end
