(* ===== verification/Txpool_Mempool.thy ===== *)
theory Txpool_Mempool
  imports Txpool_Operations
begin

text \<open>
  The \<open>Mempool\<close> side of \<open>pool.rs\<close>: decoding and inserting raw transactions, building a block's
  transactions from the pending runs of all senders, and pruning what a finalized block
  contains.
\<close>

section \<open>Inserting raw transactions\<close>

definition tx_to_ordered :: "externs \<Rightarrow> u64 \<Rightarrow> Tx \<Rightarrow> OrderedTransaction option" where
  "tx_to_ordered X now tx =
     (case ex_decode_2718 X (tx_bytes tx) of
        Inl _ \<Rightarrow> None
      | Inr envelope \<Rightarrow>
          (case recover_sender_from_envelope X envelope of
             Inl _ \<Rightarrow> None
           | Inr sender \<Rightarrow>
               Some (ot_new (ex_keccak256 X (tx_bytes tx)) sender (tc_nonce (env_common envelope))
                      (effective_gas_price envelope) now envelope)))"

definition mempool_insert :: "externs \<Rightarrow> u64 \<Rightarrow> Tx \<Rightarrow> TransactionPool \<Rightarrow> TransactionPool \<times> bool" where
  "mempool_insert X now tx p =
     (case tx_to_ordered X now tx of
        None \<Rightarrow> (record_rejection ''decode_error'' p, False)
      | Some ordered \<Rightarrow>
          (case add X ordered p of
             (p', Inr _) \<Rightarrow> (p', True)
           | (p', Inl e) \<Rightarrow> (record_rejection (rejection_reason e) p', False)))"

section \<open>Building a batch\<close>

record BuildSenderState =
  bs_txs :: "OrderedTransaction list"
  bs_index :: nat
  bs_expected_nonce :: u64

function next_candidate :: "externs \<Rightarrow> TxId list \<Rightarrow> BuildSenderState \<Rightarrow>
    BuildSenderState \<times> OrderedTransaction option" where
  "next_candidate X excluded st =
     (if bs_index st < length (bs_txs st) then
        (let t = bs_txs st ! bs_index st
         in if ot_nonce t < bs_expected_nonce st then
              next_candidate X excluded (st\<lparr>bs_index := bs_index st + 1\<rparr>)
            else if ot_nonce t > bs_expected_nonce st then (st, None)
            else if ordered_tx_id X t \<in> set excluded then
              next_candidate X excluded
                (st\<lparr>bs_expected_nonce := saturating_add (ot_nonce t) 1, bs_index := bs_index st + 1\<rparr>)
            else (st, Some t))
      else (st, None))"
  by pat_completeness auto
termination
  by (relation "measure (\<lambda>(X, ex, st). length (bs_txs st) - bs_index st)") (auto simp: Let_def)

declare next_candidate.simps [simp del]

definition consume :: "BuildSenderState \<Rightarrow> BuildSenderState" where
  "consume st =
     st\<lparr>bs_expected_nonce := saturating_add (bs_expected_nonce st) 1, bs_index := bs_index st + 1\<rparr>"

text \<open>
  One pass over the senders: \<open>next_candidate\<close> runs on every state (and moves it), and the
  candidates are paired with their senders in iteration order.
\<close>

definition advance_all :: "externs \<Rightarrow> TxId list \<Rightarrow> (address, BuildSenderState) hash_map \<Rightarrow>
    (address, BuildSenderState) hash_map" where
  "advance_all X excluded senders =
     map (\<lambda>(s, st). (s, fst (next_candidate X excluded st))) senders"

definition candidates :: "externs \<Rightarrow> TxId list \<Rightarrow> (address, BuildSenderState) hash_map \<Rightarrow>
    (address \<times> OrderedTransaction) list" where
  "candidates X excluded senders =
     List.map_filter (\<lambda>(s, st). map_option (\<lambda>t. (s, t)) (snd (next_candidate X excluded st))) senders"

lemma set_map_filter: "set (List.map_filter f xs) = {y. \<exists>x \<in> set xs. f x = Some y}"
  by (induction xs) (auto simp: List.map_filter_simps split: option.splits)

lemma set_candidates:
  "set (candidates X excluded senders) =
     {(s, t). \<exists>st. (s, st) \<in> set senders \<and> snd (next_candidate X excluded st) = Some t}"
  by (force simp: candidates_def set_map_filter)

lemma keys_advance_all [simp]: "map fst (advance_all X excluded senders) = map fst senders"
  by (simp add: advance_all_def case_prod_unfold comp_def)

lemma get_advance_all:
  "hm_get (advance_all X excluded senders) s = map_option (\<lambda>st. fst (next_candidate X excluded st)) (hm_get senders s)"
  by (induction senders) (auto simp: advance_all_def)

lemma candidates_key:
  assumes "(s, t) \<in> set (candidates X excluded senders)"
  shows "hm_get (advance_all X excluded senders) s \<noteq> None"
proof -
  from assms obtain st where "(s, st) \<in> set senders" by (auto simp: set_candidates)
  then have "hm_get senders s \<noteq> None" by (auto simp: map_of_eq_None_iff intro: rev_image_eqI)
  then show ?thesis by (simp add: get_advance_all)
qed

lemma min_by_mem: "min_by c xs = Some x \<Longrightarrow> x \<in> set xs"
proof (cases xs)
  case (Cons y ys)
  have "fold (\<lambda>y m. if c m y = Greater then y else m) ys y \<in> set (y # ys)" for y ys
  proof (induction ys arbitrary: y)
    case (Cons a ys)
    then show ?case using Cons.IH [of a] Cons.IH [of y] by auto
  qed simp
  then show "min_by c xs = Some x \<Longrightarrow> x \<in> set xs" using Cons by auto
qed simp

function build_loop :: "externs \<Rightarrow> nat \<Rightarrow> TxId list \<Rightarrow> (address, BuildSenderState) hash_map \<Rightarrow>
    Tx list \<Rightarrow> Tx list" where
  "build_loop X max_txs excluded senders result =
     (if length result < max_txs then
        (case min_by (\<lambda>l r. ot_cmp (snd l) (snd r)) (candidates X excluded senders) of
           None \<Rightarrow> result
         | Some (sender, t) \<Rightarrow>
             (let senders' = advance_all X excluded senders
              in case hm_get senders' sender of
                   None \<Rightarrow> build_loop X max_txs excluded senders' result
                 | Some st \<Rightarrow>
                     build_loop X max_txs excluded (hm_insert sender (consume st) senders')
                       (result @ [ordered_to_tx X t])))
      else result)"
  by pat_completeness auto
termination
proof (relation "measure (\<lambda>(X, m, ex, senders, result). m - length result)", goal_cases)
  case (2 X max_txs excluded senders result z sender t senders')
  then show ?case using candidates_key min_by_mem by fastforce
qed auto

declare build_loop.simps [simp del]

definition build_senders :: "PoolInner \<Rightarrow> (address, BuildSenderState) hash_map" where
  "build_senders n =
     map (\<lambda>(sender, queue). (sender, \<lparr>bs_txs = sq_pending queue, bs_index = 0,
                                      bs_expected_nonce = sq_next_nonce queue\<rparr>))
       (filter (\<lambda>(_, queue). sq_pending queue \<noteq> []) (by_sender n))"

definition build :: "externs \<Rightarrow> nat \<Rightarrow> TxId list \<Rightarrow> TransactionPool \<Rightarrow> Tx list" where
  "build X max_txs excluded p = build_loop X max_txs excluded (build_senders (tp_inner p)) []"

section \<open>Pruning\<close>

definition note_confirmed :: "PoolInner \<Rightarrow> TxId \<Rightarrow> (address, u64) hash_map \<Rightarrow> (address, u64) hash_map" where
  "note_confirmed n tid confirmed =
     (case hm_get (by_id n) tid of
        None \<Rightarrow> confirmed
      | Some h \<Rightarrow>
          (case hm_get (by_hash n) h of
             None \<Rightarrow> confirmed
           | Some t \<Rightarrow>
               hm_insert (ot_sender t)
                 (case hm_get confirmed (ot_sender t) of
                    None \<Rightarrow> ot_nonce t | Some nonce \<Rightarrow> max nonce (ot_nonce t)) confirmed))"

definition prune_sender :: "address \<times> u64 \<Rightarrow> PoolInner \<times> address list \<times> b256 list \<Rightarrow>
    PoolInner \<times> address list \<times> b256 list" where
  "prune_sender e st =
     (case (e, st) of ((sender, confirmed_nonce), (n, senders_to_check, hashes_to_remove)) \<Rightarrow>
        (case hm_get (by_sender n) sender of
           None \<Rightarrow> st
         | Some queue \<Rightarrow>
             (n\<lparr>by_sender := hm_insert sender (sq_remove_confirmed confirmed_nonce queue) (by_sender n)\<rparr>,
              senders_to_check @ [sender],
              hashes_to_remove @ confirmed_hashes confirmed_nonce queue)))"

definition drop_if_empty :: "address \<Rightarrow> PoolInner \<Rightarrow> PoolInner" where
  "drop_if_empty sender n =
     (case hm_get (by_sender n) sender of
        None \<Rightarrow> n
      | Some queue \<Rightarrow>
          if sq_is_empty queue then n\<lparr>by_sender := hm_remove sender (by_sender n)\<rparr> else n)"

definition prune :: "externs \<Rightarrow> TxId list \<Rightarrow> TransactionPool \<Rightarrow> TransactionPool" where
  "prune X tx_ids p =
     (let n = tp_inner p;
          confirmed_by_sender = fold (note_confirmed n) tx_ids [];
          (n1, senders_to_check, hashes_to_remove) = fold prune_sender confirmed_by_sender (n, [], []);
          n2 = remove_all X hashes_to_remove n1;
          n3 = fold drop_if_empty senders_to_check n2
      in sync_metrics (p\<lparr>tp_inner := update_counts n3\<rparr>))"

definition mempool_len :: "TransactionPool \<Rightarrow> nat" where
  "mempool_len p = length (by_hash (tp_inner p))"

end
