(* ===== verification/Txpool_Prune.thy ===== *)
theory Txpool_Prune
  imports Txpool_Mempool
begin

text \<open>
  Pruning after finalization: which transactions leave the pool, that the invariant is kept,
  and that pruning refines \<open>SenderQueue::remove_confirmed\<close> on every affected sender.
\<close>

section \<open>The highest confirmed nonce per sender\<close>

definition pruned_of :: "externs \<Rightarrow> TxId list \<Rightarrow> OrderedTransaction set \<Rightarrow> address \<Rightarrow>
    OrderedTransaction set" where
  "pruned_of X ids T s = {u \<in> T. ordered_tx_id X u \<in> set ids \<and> ot_sender u = s}"

lemma note_confirmed_hit:
  assumes "pool_wf X n" and "u \<in> queue_txs (by_sender n)"
  shows "note_confirmed n (ordered_tx_id X u) m =
    hm_insert (ot_sender u) (case hm_get m (ot_sender u) of
      None \<Rightarrow> ot_nonce u | Some nonce \<Rightarrow> max nonce (ot_nonce u)) m"
proof -
  have "hm_get (by_id n) (ordered_tx_id X u) = Some (ot_hash u)"
    using pool_wf_id [OF assms(1)] assms(2) by blast
  moreover have "hm_get (by_hash n) (ot_hash u) = Some u"
    using pool_wf_get [OF assms(1)] assms(2) by blast
  ultimately show ?thesis by (simp add: note_confirmed_def)
qed

lemma note_confirmed_miss:
  assumes "pool_wf X n" and "\<forall>u \<in> queue_txs (by_sender n). ordered_tx_id X u \<noteq> i"
  shows "note_confirmed n i m = m"
proof -
  have "hm_get (by_id n) i \<noteq> Some h" for h using pool_wf_id [OF assms(1)] assms(2) by blast
  then have "hm_get (by_id n) i = None" by blast
  then show ?thesis by (simp add: note_confirmed_def)
qed

lemma pool_wf_id_inj:
  "pool_wf X n \<Longrightarrow> t \<in> queue_txs (by_sender n) \<Longrightarrow> u \<in> queue_txs (by_sender n) \<Longrightarrow>
     ordered_tx_id X t = ordered_tx_id X u \<Longrightarrow> t = u"
  unfolding pool_wf_def inner_inv_def using index_id_inj by blast

lemma confirmed_by_sender_spec:
  assumes wf: "pool_wf X n"
  defines "T \<equiv> queue_txs (by_sender n)"
  shows "hm_wf (fold (note_confirmed n) ids []) \<and>
    (\<forall>s. case hm_get (fold (note_confirmed n) ids []) s of
       None \<Rightarrow> pruned_of X ids T s = {}
     | Some c \<Rightarrow> c \<in> ot_nonce ` pruned_of X ids T s \<and> (\<forall>u \<in> pruned_of X ids T s. ot_nonce u \<le> c))"
proof (induction ids rule: rev_induct)
  case Nil
  then show ?case by (simp add: pruned_of_def)
next
  case (snoc i ids)
  let ?m = "fold (note_confirmed n) ids []"
  have wfm: "hm_wf ?m" using snoc by blast
  have IH: "case hm_get ?m s of None \<Rightarrow> pruned_of X ids T s = {}
     | Some c \<Rightarrow> c \<in> ot_nonce ` pruned_of X ids T s \<and> (\<forall>u \<in> pruned_of X ids T s. ot_nonce u \<le> c)" for s
    using snoc by blast
  show ?case
  proof (cases "\<exists>u \<in> T. ordered_tx_id X u = i")
    case False
    then have pr: "pruned_of X (ids @ [i]) T = pruned_of X ids T" by (auto simp: pruned_of_def fun_eq_iff)
    have "note_confirmed n i ?m = ?m"
      using note_confirmed_miss [OF wf] False by (simp add: T_def)
    then have m: "fold (note_confirmed n) (ids @ [i]) [] = ?m" by simp
    show ?thesis unfolding pr m using snoc .
  next
    case True
    then obtain u where u: "u \<in> T" "ordered_tx_id X u = i" by blast
    have pr: "pruned_of X (ids @ [i]) T s =
        (if s = ot_sender u then insert u (pruned_of X ids T s) else pruned_of X ids T s)" for s
      using u pool_wf_id_inj [OF wf] by (auto simp: pruned_of_def T_def)
    have m: "fold (note_confirmed n) (ids @ [i]) [] =
        hm_insert (ot_sender u) (case hm_get ?m (ot_sender u) of
          None \<Rightarrow> ot_nonce u | Some nonce \<Rightarrow> max nonce (ot_nonce u)) ?m"
      using note_confirmed_hit [OF wf, of u ?m] u by (simp add: T_def)
    have "case hm_get (fold (note_confirmed n) (ids @ [i]) []) s of
       None \<Rightarrow> pruned_of X (ids @ [i]) T s = {}
     | Some c \<Rightarrow> c \<in> ot_nonce ` pruned_of X (ids @ [i]) T s \<and>
         (\<forall>u \<in> pruned_of X (ids @ [i]) T s. ot_nonce u \<le> c)" for s
    proof (cases "s = ot_sender u")
      case False
      then show ?thesis using IH [of s] by (simp only: m pr hm.get_put if_False)
    next
      case s: True
      show ?thesis
      proof (cases "hm_get ?m s")
        case None
        then show ?thesis using IH [of s] s unfolding m pr hm.get_put by simp
      next
        case (Some c)
        then show ?thesis
          using IH [of s] s unfolding m pr hm.get_put by (auto simp: max_def)
      qed
    qed
    moreover have "hm_wf (fold (note_confirmed n) (ids @ [i]) [])"
      unfolding m using wfm by (rule hm.wf_put)
    ultimately show ?thesis by blast
  qed
qed

section \<open>The passes of \<open>prune\<close>\<close>

text \<open>Pass 2: the queues drop what is confirmed; the indexes still hold everything.\<close>

lemma prune_sender_fold:
  assumes "inner_inv X n T S" and "hm_wf cs"
    and "fold prune_sender cs (n, ss, hs) = (n', ss', hs')"
  shows "inner_inv X n' T (S \<union> set ss') \<and>
    queue_txs (by_sender n') = {t \<in> queue_txs (by_sender n). \<forall>c. hm_get cs (ot_sender t) = Some c \<longrightarrow> c < ot_nonce t} \<and>
    set hs' = set hs \<union> ot_hash ` {t \<in> queue_txs (by_sender n). \<exists>c. hm_get cs (ot_sender t) = Some c \<and> ot_nonce t \<le> c} \<and>
    set ss \<subseteq> set ss' \<and>
    (\<forall>s. hm_get (by_sender n') s = map_option (\<lambda>q. case hm_get cs s of None \<Rightarrow> q | Some c \<Rightarrow> sq_remove_confirmed c q)
       (hm_get (by_sender n) s))"
  using assms
proof (induction cs arbitrary: n ss hs S)
  case Nil
  then show ?case
    by (auto simp: inner_inv_def option.map_ident)
next
  case (Cons e cs)
  obtain s c where e: "e = (s, c)" by fastforce
  have s: "hm_get cs s = None" "hm_wf cs" using Cons.prems(2) by (auto simp: e map_of_eq_None_iff)
  have qok: "queues_ok (by_sender n)" using Cons.prems(1) by (simp add: inner_inv_def)
  show ?case
  proof (cases "hm_get (by_sender n) s")
    case None
    then have "prune_sender e (n, ss, hs) = (n, ss, hs)" by (simp add: e prune_sender_def)
    then have "fold prune_sender cs (n, ss, hs) = (n', ss', hs')" using Cons.prems(3) by simp
    note IH = Cons.IH [OF Cons.prems(1) s(2) this]
    have ne: "ot_sender t \<noteq> s" if "t \<in> queue_txs (by_sender n)" for t
      using that None queue_txs_iff [OF qok] by auto
    have eq: "{t \<in> queue_txs (by_sender n). \<forall>c. hm_get (e # cs) (ot_sender t) = Some c \<longrightarrow> c < ot_nonce t} =
        {t \<in> queue_txs (by_sender n). \<forall>c. hm_get cs (ot_sender t) = Some c \<longrightarrow> c < ot_nonce t}"
      "{t \<in> queue_txs (by_sender n). \<exists>c. hm_get (e # cs) (ot_sender t) = Some c \<and> ot_nonce t \<le> c} =
        {t \<in> queue_txs (by_sender n). \<exists>c. hm_get cs (ot_sender t) = Some c \<and> ot_nonce t \<le> c}"
      using ne by (auto simp: e)
    have "map_option (\<lambda>q. case hm_get (e # cs) s' of None \<Rightarrow> q | Some c \<Rightarrow> sq_remove_confirmed c q)
        (hm_get (by_sender n) s') =
      map_option (\<lambda>q. case hm_get cs s' of None \<Rightarrow> q | Some c \<Rightarrow> sq_remove_confirmed c q)
        (hm_get (by_sender n) s')" for s'
      using None by (auto simp: e)
    with IH eq show ?thesis by presburger
  next
    case (Some q)
    let ?q = "sq_remove_confirmed c q"
    let ?n = "n\<lparr>by_sender := hm_insert s ?q (by_sender n)\<rparr>"
    have q: "sq_wf q" "sq_sender q = s" using queues_okD [OF qok Some] by simp_all
    have q': "sq_wf ?q" "sq_sender ?q = s" using sq_remove_confirmed_spec [OF q(1)] q(2) by simp_all
    have txs: "set (sq_txs q) = {t \<in> queue_txs (by_sender n). ot_sender t = s}"
      using queue_txs_sender [OF qok Some] .
    have txs': "queue_txs (by_sender ?n) =
        {t \<in> queue_txs (by_sender n). ot_sender t = s \<longrightarrow> c < ot_nonce t}"
      using queue_txs_put [OF qok q'] sq_remove_confirmed_spec(2) [OF q(1), of c] txs by auto
    have "inner_inv X ?n T (insert s S)"
      using Cons.prems(1) queues_ok_put [OF qok q'] txs'
      by (auto simp: inner_inv_def hm.get_put)
    moreover have "prune_sender e (n, ss, hs) = (?n, ss @ [s], hs @ confirmed_hashes c q)"
      using Some by (simp add: e prune_sender_def)
    then have "fold prune_sender cs (?n, ss @ [s], hs @ confirmed_hashes c q) = (n', ss', hs')"
      using Cons.prems(3) by simp
    ultimately have IH: "inner_inv X n' T (insert s S \<union> set ss') \<and>
      queue_txs (by_sender n') = {t \<in> queue_txs (by_sender ?n). \<forall>c. hm_get cs (ot_sender t) = Some c \<longrightarrow> c < ot_nonce t} \<and>
      set hs' = set (hs @ confirmed_hashes c q) \<union> ot_hash ` {t \<in> queue_txs (by_sender ?n). \<exists>c. hm_get cs (ot_sender t) = Some c \<and> ot_nonce t \<le> c} \<and>
      set (ss @ [s]) \<subseteq> set ss' \<and>
      (\<forall>s. hm_get (by_sender n') s = map_option (\<lambda>q. case hm_get cs s of None \<Rightarrow> q | Some c \<Rightarrow> sq_remove_confirmed c q)
         (hm_get (by_sender ?n) s))"
      using s(2) by (intro Cons.IH)
    have "insert s S \<union> set ss' = S \<union> set ss'" using IH by auto
    moreover have "{t \<in> queue_txs (by_sender ?n). \<forall>c. hm_get cs (ot_sender t) = Some c \<longrightarrow> c < ot_nonce t} =
        {t \<in> queue_txs (by_sender n). \<forall>c. hm_get (e # cs) (ot_sender t) = Some c \<longrightarrow> c < ot_nonce t}"
      using s(1) unfolding txs' by (auto simp: e)
    moreover have "set (confirmed_hashes c q) = ot_hash ` {t \<in> queue_txs (by_sender n). ot_sender t = s \<and> ot_nonce t \<le> c}"
    proof -
      have "set (confirmed_hashes c q) = ot_hash ` {t \<in> set (sq_txs q). ot_nonce t \<le> c}"
        by (auto simp: confirmed_hashes_def sq_txs_def)
      then show ?thesis unfolding txs by (simp add: conj_assoc)
    qed
    moreover have "{t \<in> queue_txs (by_sender n). ot_sender t = s \<and> ot_nonce t \<le> c} \<union>
        {t \<in> queue_txs (by_sender ?n). \<exists>c. hm_get cs (ot_sender t) = Some c \<and> ot_nonce t \<le> c} =
        {t \<in> queue_txs (by_sender n). \<exists>c. hm_get (e # cs) (ot_sender t) = Some c \<and> ot_nonce t \<le> c}"
      using s(1) unfolding txs' by (auto simp: e)
    moreover have "map_option (\<lambda>q. case hm_get cs s' of None \<Rightarrow> q | Some c \<Rightarrow> sq_remove_confirmed c q)
         (hm_get (by_sender ?n) s') =
       map_option (\<lambda>q. case hm_get (e # cs) s' of None \<Rightarrow> q | Some c \<Rightarrow> sq_remove_confirmed c q)
         (hm_get (by_sender n) s')" for s'
      using s(1) Some by (auto simp: e hm.get_put)
    ultimately show ?thesis using IH by (simp add: image_Un [symmetric] Un_assoc)
  qed
qed

text \<open>Pass 4: only queues that became empty are dropped.\<close>

lemma drop_if_empty_fold:
  assumes "inner_inv X n T S"
  shows "inner_inv X (fold drop_if_empty ss n) T (S - set ss) \<and>
    queue_txs (by_sender (fold drop_if_empty ss n)) = queue_txs (by_sender n) \<and>
    (\<forall>s. hm_get (by_sender (fold drop_if_empty ss n)) s =
       (if s \<in> set ss \<and> (\<exists>q. hm_get (by_sender n) s = Some q \<and> sq_is_empty q) then None
        else hm_get (by_sender n) s))"
  using assms
proof (induction ss arbitrary: n S)
  case (Cons s ss)
  let ?n = "drop_if_empty s n"
  have qok: "queues_ok (by_sender n)" using Cons.prems by (simp add: inner_inv_def)
  have get: "hm_get (by_sender ?n) s' =
      (if s' = s \<and> (\<exists>q. hm_get (by_sender n) s = Some q \<and> sq_is_empty q) then None
       else hm_get (by_sender n) s')" for s'
    by (auto simp: drop_if_empty_def hm.get_remove split: option.splits)
  have qok': "queues_ok (by_sender ?n)"
    using qok queues_ok_remove [OF qok] by (simp add: drop_if_empty_def split: option.splits)
  have txs: "queue_txs (by_sender ?n) = queue_txs (by_sender n)"
    using queue_txs_iff [OF qok] queue_txs_iff [OF qok'] get
    by (auto simp: sq_is_empty_txs split: if_splits)
  have idx: "by_hash ?n = by_hash n" "by_id ?n = by_id n"
    by (simp_all add: drop_if_empty_def split: option.splits)
  have "inner_inv X ?n T (S - {s})"
    using Cons.prems qok' txs idx get by (auto simp: inner_inv_def split: if_splits)
  from Cons.IH [OF this] have IH: "inner_inv X (fold drop_if_empty ss ?n) T (S - {s} - set ss) \<and>
    queue_txs (by_sender (fold drop_if_empty ss ?n)) = queue_txs (by_sender ?n) \<and>
    (\<forall>s'. hm_get (by_sender (fold drop_if_empty ss ?n)) s' =
       (if s' \<in> set ss \<and> (\<exists>q. hm_get (by_sender ?n) s' = Some q \<and> sq_is_empty q) then None
        else hm_get (by_sender ?n) s'))" .
  moreover have "S - {s} - set ss = S - set (s # ss)" by auto
  ultimately show ?case using txs get by auto
qed simp

section \<open>What \<open>prune\<close> does\<close>

lemma prune_spec:
  fixes X :: externs and ids :: "TxId list" and p :: TransactionPool
  assumes wf: "pool_wf X (tp_inner p)"
  defines "T \<equiv> queue_txs (by_sender (tp_inner p))" and "n' \<equiv> tp_inner (prune X ids p)"
    and "conf \<equiv> fold (note_confirmed (tp_inner p)) ids []"
  shows "pool_wf X n'" and "tp_config (prune X ids p) = tp_config p"
    and "queue_txs (by_sender n') = {t \<in> T. \<forall>u \<in> pruned_of X ids T (ot_sender t). ot_nonce u < ot_nonce t}"
    and "hm_get (by_sender n') s =
      (case hm_get (by_sender (tp_inner p)) s of
         None \<Rightarrow> None
       | Some q \<Rightarrow>
           (case hm_get conf s of
              None \<Rightarrow> Some q
            | Some c \<Rightarrow>
                if sq_is_empty (sq_remove_confirmed c q) then None else Some (sq_remove_confirmed c q)))"
proof -
  let ?n = "tp_inner p"
  let ?R = "{t \<in> T. \<forall>u \<in> pruned_of X ids T (ot_sender t). ot_nonce u < ot_nonce t}"
  obtain n1 ss hs where f: "fold prune_sender conf (?n, [], []) = (n1, ss, hs)" by (metis prod_cases3)
  let ?n2 = "remove_all X hs n1"
  let ?n3 = "fold drop_if_empty ss ?n2"
  have n': "n' = update_counts ?n3" "tp_config (prune X ids p) = tp_config p"
    using f by (simp_all add: n'_def prune_def conf_def Let_def)
  have conf: "hm_wf conf" and
    conf_iff: "\<And>s. case hm_get conf s of None \<Rightarrow> pruned_of X ids T s = {}
     | Some c \<Rightarrow> c \<in> ot_nonce ` pruned_of X ids T s \<and> (\<forall>u \<in> pruned_of X ids T s. ot_nonce u \<le> c)"
    using confirmed_by_sender_spec [OF wf, of ids] unfolding T_def conf_def by blast+
  have keep: "(\<forall>c. hm_get conf (ot_sender t) = Some c \<longrightarrow> c < ot_nonce t) \<longleftrightarrow>
      (\<forall>u \<in> pruned_of X ids T (ot_sender t). ot_nonce u < ot_nonce t)" for t
    using conf_iff [of "ot_sender t"] by (auto split: option.splits)
  have inv0: "inner_inv X ?n T {}" using pool_wf_inv [OF wf] by (simp add: T_def)
  note pass2 = prune_sender_fold [OF inv0 conf f]
  have inv1: "inner_inv X n1 T (set ss)" and txs1: "queue_txs (by_sender n1) = ?R"
    and hs: "set hs = ot_hash ` (T - ?R)"
    and get1: "\<And>s. hm_get (by_sender n1) s = map_option (\<lambda>q. case hm_get conf s of None \<Rightarrow> q
      | Some c \<Rightarrow> sq_remove_confirmed c q) (hm_get (by_sender ?n) s)"
  proof -
    have "{t \<in> T. \<exists>c. hm_get conf (ot_sender t) = Some c \<and> ot_nonce t \<le> c} = T - ?R"
      using keep by (auto simp: not_less [symmetric])
    with pass2 show "inner_inv X n1 T (set ss)" "queue_txs (by_sender n1) = ?R" "set hs = ot_hash ` (T - ?R)"
      "\<And>s. hm_get (by_sender n1) s = map_option (\<lambda>q. case hm_get conf s of None \<Rightarrow> q
        | Some c \<Rightarrow> sq_remove_confirmed c q) (hm_get (by_sender ?n) s)"
      by (simp_all only: keep T_def [symmetric]) simp_all
  qed
  have inj: "ot_hash t \<in> set hs \<longleftrightarrow> t \<notin> ?R" if "t \<in> T" for t
    using that pool_wf_hash_inj [OF wf] unfolding hs T_def by blast
  have "{t \<in> T. ot_hash t \<notin> set hs} = ?R" "{t \<in> ?R. ot_hash t \<notin> set hs} = ?R" using inj by auto
  then have inv2: "inner_inv X ?n2 ?R (set ss)" and txs2: "queue_txs (by_sender ?n2) = ?R"
    using remove_all_spec(1,2) [OF inv1, of hs] txs1 by simp_all
  have inv3: "inner_inv X ?n3 ?R {}" and txs3: "queue_txs (by_sender ?n3) = ?R"
    using drop_if_empty_fold [OF inv2, of ss] txs2 by simp_all
  show "pool_wf X n'" unfolding n' using inv3 txs3 by (intro pool_wf_update_counts) simp
  show "tp_config (prune X ids p) = tp_config p" by (rule n'(2))
  show "queue_txs (by_sender n') = ?R" using txs3 by (simp add: n')
  have qok1: "queues_ok (by_sender n1)" and qok3: "queues_ok (by_sender ?n3)"
    using inv1 inv3 by (simp_all add: inner_inv_def)
  have frame: "\<exists>q. hm_get (by_sender n1) s = Some q \<and> sq_next_nonce q' = sq_next_nonce q"
    if "hm_get (by_sender ?n3) s = Some q'" for q' s
    using that drop_if_empty_fold [OF inv2, of ss] remove_all_spec(3) [OF inv1, of hs s q']
    by (auto split: if_splits)
  have "hm_get (by_sender ?n3) s = (case hm_get (by_sender n1) s of None \<Rightarrow> None
      | Some q \<Rightarrow> if sq_is_empty q then None else Some q)"
  proof (cases "hm_get (by_sender ?n3) s")
    case None
    have "sq_is_empty q" if q: "hm_get (by_sender n1) s = Some q" for q
    proof (rule ccontr)
      assume "\<not> sq_is_empty q"
      then obtain t where "t \<in> set (sq_txs q)" by (cases "sq_txs q") (auto simp: sq_is_empty_txs)
      then have "t \<in> queue_txs (by_sender ?n3)" "ot_sender t = s"
        using queue_txs_sender [OF qok1 q] txs1 txs3 by auto
      then show False using None queue_txs_iff [OF qok3] by auto
    qed
    then show ?thesis using None by (auto split: option.split)
  next
    case (Some q')
    then obtain q where q: "hm_get (by_sender n1) s = Some q" "sq_next_nonce q' = sq_next_nonce q"
      using frame by blast
    have "set (sq_txs q') = set (sq_txs q)"
      using queue_txs_sender [OF qok1 q(1)] queue_txs_sender [OF qok3 Some] txs1 txs3 by simp
    then have "q' = q"
      using queues_okD [OF qok1 q(1)] queues_okD [OF qok3 Some] q(2) by (intro sq_wf_canonical) auto
    moreover have "\<not> sq_is_empty q'" using inv3 Some by (simp add: inner_inv_def)
    ultimately show ?thesis using Some q(1) by simp
  qed
  then show "hm_get (by_sender n') s =
      (case hm_get (by_sender (tp_inner p)) s of
         None \<Rightarrow> None
       | Some q \<Rightarrow>
           (case hm_get conf s of
              None \<Rightarrow> Some q
            | Some c \<Rightarrow>
                if sq_is_empty (sq_remove_confirmed c q) then None else Some (sq_remove_confirmed c q)))"
    using inv0 unfolding n' get1 by (auto simp: inner_inv_def split: option.splits)
qed

end
