(* ===== verification/Txpool_Build.thy ===== *)
theory Txpool_Build
  imports Txpool_Prune
begin

text \<open>
  Building a batch. The loop of \<open>build\<close> walks one cursor per sender; the reference \<open>greedy\<close>
  repeatedly takes the best head among the senders' remaining transactions. The two agree, and
  the properties of a batch are proved on the reference.
\<close>

section \<open>The reference: a greedy merge of the senders' runs\<close>

definition heads :: "(address, OrderedTransaction list) hash_map \<Rightarrow> (address \<times> OrderedTransaction) list" where
  "heads rs = map (\<lambda>(s, l). (s, hd l)) (filter (\<lambda>(s, l). l \<noteq> []) rs)"

fun greedy :: "nat \<Rightarrow> (address, OrderedTransaction list) hash_map \<Rightarrow> OrderedTransaction list" where
  "greedy 0 rs = []"
| "greedy (Suc k) rs =
     (case min_by_key (\<lambda>e. ot_key (snd e)) (heads rs) of
        None \<Rightarrow> []
      | Some (s, t) \<Rightarrow>
          t # greedy k (case hm_get rs s of None \<Rightarrow> rs | Some l \<Rightarrow> hm_insert s (tl l) rs))"

text \<open>The runs belong to their senders and no transaction occurs twice.\<close>

definition run_of :: "(address, OrderedTransaction list) hash_map \<Rightarrow> address \<Rightarrow> OrderedTransaction list" where
  "run_of rs s = (case hm_get rs s of None \<Rightarrow> [] | Some l \<Rightarrow> l)"

definition runs_ok :: "(address, OrderedTransaction list) hash_map \<Rightarrow> bool" where
  "runs_ok rs \<longleftrightarrow> hm_wf rs \<and> (\<forall>s. \<forall>t \<in> set (run_of rs s). ot_sender t = s)"

lemma set_heads:
  "hm_wf rs \<Longrightarrow> set (heads rs) = {(s, t). \<exists>l. run_of rs s = t # l}"
proof -
  assume wf: "hm_wf rs"
  have "(s, t) \<in> set (heads rs) \<longleftrightarrow> (\<exists>l. (s, l) \<in> set rs \<and> l \<noteq> [] \<and> t = hd l)" for s t
    by (force simp: heads_def)
  moreover have "(s, l) \<in> set rs \<longleftrightarrow> hm_get rs s = Some l" for s l
    using map_of_eq_Some_iff [OF wf] by blast
  ultimately have "(s, t) \<in> set (heads rs) \<longleftrightarrow> (\<exists>l. run_of rs s = t # l)" for s t
    by (auto simp: run_of_def neq_Nil_conv split: option.splits)
  then show ?thesis by auto
qed

lemma heads_Nil: "hm_wf rs \<Longrightarrow> heads rs = [] \<longleftrightarrow> (\<forall>s. run_of rs s = [])"
proof -
  assume wf: "hm_wf rs"
  have "heads rs = [] \<longleftrightarrow> set (heads rs) = {}" by simp
  also have "\<dots> \<longleftrightarrow> (\<forall>s. run_of rs s = [])"
    unfolding set_heads [OF wf] by (auto simp: neq_Nil_conv) (meson list.exhaust)
  finally show ?thesis .
qed

text \<open>One step of the merge, as seen through \<open>run_of\<close>.\<close>

definition pop_run :: "address \<Rightarrow> (address, OrderedTransaction list) hash_map \<Rightarrow>
    (address, OrderedTransaction list) hash_map" where
  "pop_run s rs = (case hm_get rs s of None \<Rightarrow> rs | Some l \<Rightarrow> hm_insert s (tl l) rs)"

lemma run_of_pop: "run_of (pop_run s rs) s' = (if s' = s then tl (run_of rs s) else run_of rs s')"
  by (auto simp: run_of_def pop_run_def hm.get_put split: option.splits)

lemma runs_ok_pop: "runs_ok rs \<Longrightarrow> runs_ok (pop_run s rs)"
proof -
  have "set (tl l) \<subseteq> set l" for l :: "OrderedTransaction list" by (cases l) auto
  moreover have "hm_wf rs \<Longrightarrow> hm_wf (pop_run s rs)"
    by (auto simp: pop_run_def hm.wf_put split: option.splits)
  ultimately show "runs_ok rs \<Longrightarrow> runs_ok (pop_run s rs)"
    unfolding runs_ok_def run_of_pop by (auto split: if_splits)
qed

lemma greedy_step:
  assumes "runs_ok rs"
  obtains (Done) "\<forall>s. run_of rs s = []" "greedy (Suc k) rs = []"
  | (Pick) s t l where "run_of rs s = t # l" "ot_sender t = s"
      "\<forall>s' u l'. run_of rs s' = u # l' \<longrightarrow> ot_key t \<le> ot_key u"
      "greedy (Suc k) rs = t # greedy k (pop_run s rs)"
proof (cases "min_by_key (\<lambda>e. ot_key (snd e)) (heads rs)")
  case None
  then have "heads rs = []" by simp
  then have "\<forall>s. run_of rs s = []" using assms heads_Nil by (simp add: runs_ok_def)
  with None show ?thesis by (intro Done) simp_all
next
  case (Some e)
  obtain s t where e: "e = (s, t)" by fastforce
  have wf: "hm_wf rs" using assms by (simp add: runs_ok_def)
  have "(s, t) \<in> set (heads rs)" using min_by_key_Some(1) [OF Some] by (simp add: e)
  then obtain l where l: "run_of rs s = t # l" by (auto simp: set_heads [OF wf])
  moreover have "ot_key t \<le> ot_key u" if "run_of rs s' = u # l'" for s' u l'
    using min_by_key_Some(2) [OF Some, of "(s', u)"] that by (auto simp: set_heads [OF wf] e)
  moreover have "ot_sender t = s"
    using assms l by (auto simp: runs_ok_def dest: spec [of _ s])
  ultimately show ?thesis using Some by (intro Pick [of s t l]) (auto simp: e pop_run_def)
qed

lemma length_greedy: "length (greedy k rs) \<le> k"
  by (induction k arbitrary: rs) (auto split: option.splits)

text \<open>Each sender contributes a prefix of its run, in order.\<close>

lemma greedy_prefix:
  "runs_ok rs \<Longrightarrow> \<exists>l. run_of rs s = filter (\<lambda>t. ot_sender t = s) (greedy k rs) @ l"
proof (induction k arbitrary: rs)
  case (Suc k)
  show ?case
    using Suc.prems
  proof (cases rule: greedy_step [where k = k])
    case (Pick s' t l)
    from Suc.IH [OF runs_ok_pop [OF Suc.prems]] obtain l' where
      "run_of (pop_run s' rs) s = filter (\<lambda>t. ot_sender t = s) (greedy k (pop_run s' rs)) @ l'" by blast
    then show ?thesis using Pick by (auto simp: run_of_pop split: if_splits)
  qed simp
qed simp

text \<open>A batch with room left has taken everything.\<close>

lemma greedy_complete:
  "runs_ok rs \<Longrightarrow> length (greedy k rs) < k \<Longrightarrow> run_of rs s = filter (\<lambda>t. ot_sender t = s) (greedy k rs)"
proof (induction k arbitrary: rs)
  case (Suc k)
  show ?case
    using Suc.prems(1)
  proof (cases rule: greedy_step [where k = k])
    case (Pick s' t l)
    have "run_of (pop_run s' rs) s = filter (\<lambda>t. ot_sender t = s) (greedy k (pop_run s' rs))"
      using Suc.prems(2) Pick(4) by (intro Suc.IH runs_ok_pop Suc.prems(1)) simp
    then show ?thesis using Pick by (auto simp: run_of_pop split: if_splits)
  qed simp
qed simp

text \<open>
  Priority: whenever the batch takes a transaction, it is no worse than the next transaction
  of any sender at that moment; a transaction left out is never better than one taken
  unless an earlier nonce of its own sender held it back.
\<close>

lemma greedy_priority:
  "runs_ok rs \<Longrightarrow> greedy k rs = xs @ t # ys \<Longrightarrow>
     run_of rs s = filter (\<lambda>u. ot_sender u = s) xs @ u # l \<Longrightarrow> ot_key t \<le> ot_key u"
proof (induction k arbitrary: rs xs)
  case (Suc k)
  from Suc.prems(1) show ?case
  proof (cases rule: greedy_step [where k = k])
    case (Pick s' t' l')
    show ?thesis
    proof (cases xs)
      case Nil
      then show ?thesis using Pick Suc.prems by auto
    next
      case (Cons x zs)
      then have x: "x = t'" "greedy k (pop_run s' rs) = zs @ t # ys" using Pick Suc.prems(2) by auto
      have "run_of (pop_run s' rs) s = filter (\<lambda>u. ot_sender u = s) zs @ u # l"
        using Suc.prems(3) Pick(1,2) by (auto simp: run_of_pop Cons x(1))
      from Suc.IH [OF runs_ok_pop [OF Suc.prems(1)] x(2) this] show ?thesis .
    qed
  qed (use Suc.prems in simp)
qed simp

text \<open>The merge depends on the runs only, not on the order in which the map lists them.\<close>

lemma greedy_order_independent:
  assumes "runs_ok rs" "runs_ok rs'" "\<forall>s. run_of rs s = run_of rs' s"
    and "inj_on ot_key {t. \<exists>s. t \<in> set (run_of rs s)}"
  shows "greedy k rs = greedy k rs'"
  using assms
proof (induction k arbitrary: rs rs')
  case (Suc k)
  have wf: "hm_wf rs" "hm_wf rs'" using Suc.prems by (simp_all add: runs_ok_def)
  have "set (heads rs) = set (heads rs')" using Suc.prems(3) by (simp add: set_heads wf)
  moreover have "inj_on (\<lambda>e. ot_key (snd e)) (set (heads rs))"
  proof (rule inj_onI)
    fix a b assume ab: "a \<in> set (heads rs)" "b \<in> set (heads rs)" "ot_key (snd a) = ot_key (snd b)"
    obtain s t s' t' where e: "a = (s, t)" "b = (s', t')" by fastforce
    with ab obtain l l' where l: "run_of rs s = t # l" "run_of rs s' = t' # l'"
      by (auto simp: set_heads wf)
    then have "t \<in> {t. \<exists>s. t \<in> set (run_of rs s)}" "t' \<in> {t. \<exists>s. t \<in> set (run_of rs s)}"
      by (auto intro: exI [of _ s] exI [of _ s'])
    then have "t = t'" using inj_onD [OF Suc.prems(4)] ab(3) e by simp
    moreover have "ot_sender t = s" "ot_sender t' = s'"
      using Suc.prems(1) l by (auto simp: runs_ok_def dest: spec [of _ s] spec [of _ s'])
    ultimately show "a = b" using e by simp
  qed
  ultimately have m: "min_by_key (\<lambda>e. ot_key (snd e)) (heads rs) = min_by_key (\<lambda>e. ot_key (snd e)) (heads rs')"
    by (rule min_by_key_set_cong)
  have "greedy k (pop_run s rs) = greedy k (pop_run s rs')" for s
  proof (rule Suc.IH)
    show "inj_on ot_key {t. \<exists>s'. t \<in> set (run_of (pop_run s rs) s')}"
    proof (rule inj_on_subset [OF Suc.prems(4)])
      have "set (tl l) \<subseteq> set l" for l :: "OrderedTransaction list" by (cases l) auto
      then show "{t. \<exists>s'. t \<in> set (run_of (pop_run s rs) s')} \<subseteq> {t. \<exists>s. t \<in> set (run_of rs s)}"
        by (fastforce simp: run_of_pop split: if_splits)
    qed
  qed (use Suc.prems in \<open>simp_all add: runs_ok_pop run_of_pop\<close>)
  then show ?case by (simp add: m pop_run_def [symmetric] split: option.split)
qed simp

section \<open>The cursors of \<open>build\<close> implement the merge\<close>

definition remaining :: "externs \<Rightarrow> TxId list \<Rightarrow> BuildSenderState \<Rightarrow> OrderedTransaction list" where
  "remaining X excluded st =
     filter (\<lambda>t. ordered_tx_id X t \<notin> set excluded) (drop (bs_index st) (bs_txs st))"

definition cursor_ok :: "nat \<Rightarrow> BuildSenderState \<Rightarrow> bool" where
  "cursor_ok base st \<longleftrightarrow>
     map nn (bs_txs st) = [base..<base + length (bs_txs st)] \<and> base + length (bs_txs st) < 2 ^ 64 \<and>
     bs_index st \<le> length (bs_txs st) \<and> unat (bs_expected_nonce st) = base + bs_index st"

lemma cursor_nonce:
  assumes "cursor_ok base st" and "bs_index st < length (bs_txs st)"
  shows "ot_nonce (bs_txs st ! bs_index st) = bs_expected_nonce st"
proof -
  have "nn (bs_txs st ! bs_index st) = map nn (bs_txs st) ! bs_index st" using assms(2) by simp
  also have "\<dots> = base + bs_index st" using assms by (simp add: cursor_ok_def)
  finally show ?thesis using assms(1) by (simp add: cursor_ok_def word_unat_eq_iff)
qed

lemma cursor_ok_next:
  assumes "cursor_ok base st" and "bs_index st < length (bs_txs st)"
  shows "cursor_ok base (st\<lparr>bs_expected_nonce := saturating_add (bs_expected_nonce st) 1,
    bs_index := bs_index st + 1\<rparr>)"
  using assms by (auto simp: cursor_ok_def unat_saturating_add)

lemma next_candidate_spec:
  assumes "cursor_ok base st" and "next_candidate X excluded st = (st', c)"
  shows "cursor_ok base st' \<and> remaining X excluded st' = remaining X excluded st \<and>
    (case c of
       None \<Rightarrow> remaining X excluded st = []
     | Some t \<Rightarrow> cursor_ok base (consume st') \<and>
         remaining X excluded st = t # remaining X excluded (consume st'))"
  using assms
proof (induction X excluded st rule: next_candidate.induct)
  case (1 X excluded st)
  note step = "1.prems"(2) [unfolded next_candidate.simps [of X excluded st] Let_def]
  show ?case
  proof (cases "bs_index st < length (bs_txs st)")
    case False
    with step have "st' = st" "c = None" by simp_all
    with False "1.prems"(1) show ?thesis by (simp add: remaining_def)
  next
    case True
    let ?t = "bs_txs st ! bs_index st"
    note nonce = cursor_nonce [OF "1.prems"(1) True]
    have drop: "drop (bs_index st) (bs_txs st) = ?t # drop (bs_index st + 1) (bs_txs st)"
      using True by (simp add: Cons_nth_drop_Suc)
    note ok = cursor_ok_next [OF "1.prems"(1) True]
    show ?thesis
    proof (cases "ordered_tx_id X ?t \<in> set excluded")
      case ex: True
      let ?st = "st\<lparr>bs_expected_nonce := saturating_add (ot_nonce ?t) 1, bs_index := bs_index st + 1\<rparr>"
      have rem: "remaining X excluded ?st = remaining X excluded st"
        using ex by (simp add: remaining_def drop)
      have "next_candidate X excluded ?st = (st', c)" using step True nonce ex by simp
      moreover have "cursor_ok base ?st" using ok nonce by simp
      moreover have "\<not> ot_nonce ?t < bs_expected_nonce st" "\<not> bs_expected_nonce st < ot_nonce ?t"
        using nonce by simp_all
      ultimately show ?thesis using "1.IH"(2) [OF True refl _ _ ex] unfolding rem by blast
    next
      case False
      with step True nonce have res: "st' = st" "c = Some ?t" by auto
      have "remaining X excluded st = ?t # remaining X excluded (consume st)"
        using False by (simp add: remaining_def drop consume_def)
      with res ok "1.prems"(1) show ?thesis by (simp add: consume_def)
    qed
  qed
qed

definition runs :: "externs \<Rightarrow> TxId list \<Rightarrow> (address, BuildSenderState) hash_map \<Rightarrow>
    (address, OrderedTransaction list) hash_map" where
  "runs X excluded = map (\<lambda>(s, st). (s, remaining X excluded st))"

definition cursors_ok :: "(address, BuildSenderState) hash_map \<Rightarrow> bool" where
  "cursors_ok senders \<longleftrightarrow> hm_wf senders \<and> (\<forall>st \<in> snd ` set senders. \<exists>base. cursor_ok base st)"

lemma get_runs: "hm_get (runs X excluded senders) s = map_option (remaining X excluded) (hm_get senders s)"
  by (induction senders) (auto simp: runs_def)

lemma runs_insert:
  "runs X excluded (hm_insert s st senders) = hm_insert s (remaining X excluded st) (runs X excluded senders)"
  by (induction senders) (auto simp: runs_def)

lemma candidates_heads:
  assumes "\<forall>st \<in> snd ` set senders. \<exists>base. cursor_ok base st"
  shows "candidates X excluded senders = heads (runs X excluded senders)"
  using assms
proof (induction senders)
  case (Cons e senders)
  obtain s st where e: "e = (s, st)" by fastforce
  obtain st' c where c: "next_candidate X excluded st = (st', c)" by fastforce
  obtain base where "cursor_ok base st" using Cons.prems e by auto
  from next_candidate_spec [OF this c] Cons show ?case
    by (auto simp: candidates_def heads_def runs_def e c List.map_filter_simps split: option.splits)
qed (simp add: candidates_def heads_def runs_def List.map_filter_simps)

lemma cursor_ok_advance:
  "cursor_ok base st \<Longrightarrow> cursor_ok base (fst (next_candidate X excluded st)) \<and>
     remaining X excluded (fst (next_candidate X excluded st)) = remaining X excluded st"
  using next_candidate_spec [of base st X excluded] by (metis prod.collapse)

lemma cursors_ok_advance: "cursors_ok senders \<Longrightarrow> cursors_ok (advance_all X excluded senders)"
  unfolding cursors_ok_def
  by (auto simp: advance_all_def case_prod_unfold comp_def) (metis cursor_ok_advance imageI snd_conv)

lemma runs_advance:
  "cursors_ok senders \<Longrightarrow> runs X excluded (advance_all X excluded senders) = runs X excluded senders"
  using cursor_ok_advance by (fastforce simp: cursors_ok_def runs_def advance_all_def)

lemma snd_set_insert: "snd ` set (hm_insert k v m) \<subseteq> insert v (snd ` set m)"
  by (induction m) (auto split: if_splits)

lemma cursors_ok_insert:
  assumes "cursors_ok senders" "cursor_ok base st"
  shows "cursors_ok (hm_insert s st senders)"
proof -
  have "\<exists>base. cursor_ok base st'" if "st' \<in> snd ` set (hm_insert s st senders)" for st'
    using assms subsetD [OF snd_set_insert that] unfolding cursors_ok_def by blast
  moreover have "hm_wf (hm_insert s st senders)"
    using assms(1) by (intro hm.wf_put) (simp add: cursors_ok_def)
  ultimately show ?thesis unfolding cursors_ok_def by blast
qed

lemma build_loop_greedy:
  assumes "cursors_ok senders"
  shows "build_loop X max_txs excluded senders result =
    result @ map (ordered_to_tx X) (greedy (max_txs - length result) (runs X excluded senders))"
  using assms
proof (induction X max_txs excluded senders result rule: build_loop.induct)
  case (1 X max_txs excluded senders result)
  let ?rs = "runs X excluded senders"
  have cand: "candidates X excluded senders = heads ?rs"
    using candidates_heads "1.prems" by (simp add: cursors_ok_def)
  have min: "min_by (\<lambda>l r. ot_cmp (snd l) (snd r)) (heads ?rs) = min_by_key (\<lambda>e. ot_key (snd e)) (heads ?rs)"
    by (simp add: min_by_key_def ot_cmp_key)
  note unfold = build_loop.simps [of X max_txs excluded senders result, unfolded cand min]
  show ?case
  proof (cases "length result < max_txs")
    case False
    then show ?thesis by (simp add: unfold)
  next
    case True
    then obtain k where k: "max_txs - length result = Suc k" by (cases "max_txs - length result") auto
    show ?thesis
    proof (cases "min_by_key (\<lambda>e. ot_key (snd e)) (heads ?rs)")
      case None
      then show ?thesis using True by (simp add: unfold k)
    next
      case (Some e)
      obtain s t where e: "e = (s, t)" by fastforce
      let ?adv = "advance_all X excluded senders"
      have mem: "(s, t) \<in> set (candidates X excluded senders)"
        using min_by_key_Some(1) [OF Some] by (simp add: cand e)
      then obtain st0 where st0: "(s, st0) \<in> set senders" "snd (next_candidate X excluded st0) = Some t"
        by (auto simp: set_candidates)
      then have get0: "hm_get senders s = Some st0" using "1.prems" by (simp add: cursors_ok_def)
      obtain base where base: "cursor_ok base st0" using "1.prems" st0(1) by (force simp: cursors_ok_def)
      let ?st = "fst (next_candidate X excluded st0)"
      have get: "hm_get ?adv s = Some ?st" by (simp add: get_advance_all get0)
      have rem: "cursor_ok base (consume ?st)" "remaining X excluded st0 = t # remaining X excluded (consume ?st)"
        using next_candidate_spec [OF base, of X excluded ?st "Some t"] st0(2)
        by (simp_all add: prod_eq_iff)
      let ?senders = "hm_insert s (consume ?st) ?adv"
      have ok: "cursors_ok ?senders"
        using cursors_ok_advance [OF "1.prems"] rem(1) by (rule cursors_ok_insert)
      have runs: "runs X excluded ?senders = pop_run s ?rs"
        using get0 rem(2) by (simp add: runs_insert runs_advance [OF "1.prems"] pop_run_def get_runs)
      have "build_loop X max_txs excluded ?senders (result @ [ordered_to_tx X t]) =
          (result @ [ordered_to_tx X t]) @ map (ordered_to_tx X)
            (greedy (max_txs - length (result @ [ordered_to_tx X t])) (runs X excluded ?senders))"
        using "1.IH"(2) [OF True _ _ refl get ok] Some cand min e by simp
      moreover have "max_txs - length (result @ [ordered_to_tx X t]) = k" using k by simp
      ultimately show ?thesis
        using True Some e get by (simp add: unfold k runs pop_run_def)
    qed
  qed
qed

text \<open>The runs \<open>build\<close> starts from: every sender's pending transactions, excluded ones left out.\<close>

definition pool_runs :: "externs \<Rightarrow> TxId list \<Rightarrow> PoolInner \<Rightarrow> (address, OrderedTransaction list) hash_map" where
  "pool_runs X excluded n =
     map (\<lambda>(s, q). (s, filter (\<lambda>t. ordered_tx_id X t \<notin> set excluded) (sq_pending q)))
       (filter (\<lambda>(_, q). sq_pending q \<noteq> []) (by_sender n))"

lemma hm_wf_filter_map: "hm_wf m \<Longrightarrow> hm_wf (map (\<lambda>(k, v). (k, f v)) (filter P m))"
  by (simp add: case_prod_unfold comp_def distinct_map_filter)

lemma get_filter_map:
  "hm_wf m \<Longrightarrow> hm_get (map (\<lambda>(k, v). (k, f v)) (filter (\<lambda>(k, v). P v) m)) k =
     (case hm_get m k of None \<Rightarrow> None | Some v \<Rightarrow> if P v then Some (f v) else None)"
proof (induction m)
  case (Cons e m)
  obtain a b where e: "e = (a, b)" by fastforce
  have "hm_get m a = None" using Cons.prems by (simp add: map_of_eq_None_iff e)
  moreover have "hm_wf m" using Cons.prems by simp
  note Cons.IH [OF this]
  ultimately show ?case by (cases "k = a"; cases "P b") (simp_all add: e)
qed simp

lemma run_of_pool_runs:
  assumes "queues_ok (by_sender n)"
  shows "run_of (pool_runs X excluded n) s =
    (case hm_get (by_sender n) s of
       None \<Rightarrow> []
     | Some q \<Rightarrow> filter (\<lambda>t. ordered_tx_id X t \<notin> set excluded) (sq_pending q))"
proof -
  have "hm_wf (by_sender n)" using assms by (simp add: queues_ok_def)
  then show ?thesis
    unfolding run_of_def pool_runs_def
    by (subst get_filter_map) (auto split: option.split)
qed

lemma runs_ok_pool_runs:
  assumes "queues_ok (by_sender n)"
  shows "runs_ok (pool_runs X excluded n)"
proof -
  have "hm_wf (pool_runs X excluded n)"
    using assms unfolding pool_runs_def by (intro hm_wf_filter_map) (simp add: queues_ok_def)
  moreover have "ot_sender t = s" if "t \<in> set (run_of (pool_runs X excluded n) s)" for t s
  proof -
    from that obtain q where q: "hm_get (by_sender n) s = Some q" "t \<in> set (sq_pending q)"
      unfolding run_of_pool_runs [OF assms] by (cases "hm_get (by_sender n) s") auto
    then show ?thesis
      using queues_okD [OF assms q(1)] sq_wfD(5) [of q t] by (simp add: sq_txs_def)
  qed
  ultimately show ?thesis by (simp add: runs_ok_def)
qed

lemma cursors_ok_build:
  assumes "queues_ok (by_sender n)"
  shows "cursors_ok (build_senders n)"
proof -
  have "hm_wf (build_senders n)"
    using assms unfolding build_senders_def by (intro hm_wf_filter_map) (simp add: queues_ok_def)
  moreover have "cursor_ok (unat (sq_next_nonce q)) \<lparr>bs_txs = sq_pending q, bs_index = 0,
      bs_expected_nonce = sq_next_nonce q\<rparr>" if "(s, q) \<in> set (by_sender n)" for s q
  proof -
    have "sq_wf q" using that assms by (auto simp: queues_ok_set)
    then show ?thesis using sq_wfD(1,2) [of q] by (simp add: cursor_ok_def)
  qed
  ultimately show ?thesis unfolding cursors_ok_def build_senders_def by fastforce
qed

lemma build_greedy:
  assumes "queues_ok (by_sender (tp_inner p))"
  shows "build X max_txs excluded p =
    map (ordered_to_tx X) (greedy max_txs (pool_runs X excluded (tp_inner p)))"
proof -
  have "runs X excluded (build_senders (tp_inner p)) = pool_runs X excluded (tp_inner p)"
    by (simp add: runs_def build_senders_def pool_runs_def remaining_def case_prod_unfold comp_def)
  then show ?thesis
    using build_loop_greedy [OF cursors_ok_build [OF assms], of X max_txs excluded "[]"]
    by (simp add: build_def)
qed

end
