(* ===== verification/Txpool_Properties.thy ===== *)
theory Txpool_Properties
  imports Txpool_Build Mempool_Interface
begin

text \<open>
  The transaction pool as a whole: it implements the mempool interface, and the properties of
  its operations over every reachable pool.
\<close>

section \<open>The pool implements the mempool interface\<close>

lemma distinct_by_parts: "(\<And>s. distinct (filter (\<lambda>t. f t = s) xs)) \<Longrightarrow> distinct xs"
proof (induction xs)
  case (Cons x xs)
  have "distinct (filter (\<lambda>t. f t = s) xs)" for s
    using Cons.prems [of s] by (simp split: if_splits)
  moreover have "x \<notin> set xs" using Cons.prems [of "f x"] by simp
  ultimately show ?case using Cons.IH by simp
qed simp

lemma pool_wf_queues: "pool_wf X n \<Longrightarrow> queues_ok (by_sender n)"
  by (simp add: pool_wf_def inner_inv_def)

definition batch :: "externs \<Rightarrow> nat \<Rightarrow> TxId list \<Rightarrow> TransactionPool \<Rightarrow> OrderedTransaction list" where
  "batch X k ex p = greedy k (pool_runs X ex (tp_inner p))"

lemma batch_prefix:
  assumes "pool_wf X (tp_inner p)"
  shows "\<exists>l. (case hm_get (by_sender (tp_inner p)) s of
      None \<Rightarrow> [] | Some q \<Rightarrow> filter (\<lambda>t. ordered_tx_id X t \<notin> set ex) (sq_pending q)) =
    filter (\<lambda>t. ot_sender t = s) (batch X k ex p) @ l"
  using greedy_prefix [OF runs_ok_pool_runs [OF pool_wf_queues [OF assms]], of X ex s k]
  unfolding run_of_pool_runs [OF pool_wf_queues [OF assms]] batch_def .

lemma batch_mem:
  assumes wf: "pool_wf X (tp_inner p)" and t: "t \<in> set (batch X k ex p)"
  shows "t \<in> queue_txs (by_sender (tp_inner p))" and "ordered_tx_id X t \<notin> set ex"
proof -
  let ?q = "hm_get (by_sender (tp_inner p)) (ot_sender t)"
  let ?l = "case ?q of None \<Rightarrow> [] | Some q \<Rightarrow> filter (\<lambda>t. ordered_tx_id X t \<notin> set ex) (sq_pending q)"
  have "t \<in> set (filter (\<lambda>u. ot_sender u = ot_sender t) (batch X k ex p))" using t by simp
  then have "t \<in> set ?l" using batch_prefix [OF wf, where s = "ot_sender t" and ex = ex and k = k] by (metis Un_iff set_append)
  then obtain q where q: "?q = Some q" "t \<in> set (sq_pending q)" "ordered_tx_id X t \<notin> set ex"
    by (cases ?q) auto
  then show "t \<in> queue_txs (by_sender (tp_inner p))"
    using queue_txs_get [OF pool_wf_queues [OF wf] q(1)] by (simp add: sq_txs_def)
  show "ordered_tx_id X t \<notin> set ex" by (rule q(3))
qed

lemma batch_distinct:
  assumes wf: "pool_wf X (tp_inner p)"
  shows "distinct (map (ordered_tx_id X) (batch X k ex p))"
proof -
  have "distinct (filter (\<lambda>t. ot_sender t = s) (batch X k ex p))" for s
  proof -
    let ?q = "hm_get (by_sender (tp_inner p)) s"
    let ?l = "case ?q of None \<Rightarrow> [] | Some q \<Rightarrow> filter (\<lambda>t. ordered_tx_id X t \<notin> set ex) (sq_pending q)"
    have "distinct ?l"
      using queues_okD [OF pool_wf_queues [OF wf]] sq_wf_distinct
      by (cases ?q) (fastforce simp: sq_txs_def)+
    then show ?thesis using batch_prefix [OF wf, where s = s and ex = ex and k = k] by (metis distinct_append)
  qed
  then have "distinct (batch X k ex p)" by (rule distinct_by_parts)
  moreover have "inj_on (ordered_tx_id X) (set (batch X k ex p))"
    using batch_mem(1) [OF wf] pool_wf_id_inj [OF wf] by (auto simp: inj_on_def)
  ultimately show ?thesis by (simp add: distinct_map)
qed

lemma build_batch: "pool_wf X (tp_inner p) \<Longrightarrow> build X k ex p = map (ordered_to_tx X) (batch X k ex p)"
  by (simp add: build_greedy pool_wf_queues batch_def)

lemma tx_id_ordered: "tx_id X (ordered_to_tx X t) = ordered_tx_id X t"
  by (simp add: ordered_tx_id_def)

definition pool_content :: "externs \<Rightarrow> TransactionPool \<Rightarrow> TxId set" where
  "pool_content X p = ordered_tx_id X ` queue_txs (by_sender (tp_inner p))"

definition admissible :: "externs \<Rightarrow> u64 \<Rightarrow> Tx \<Rightarrow> bool" where
  "admissible X now tx \<longleftrightarrow>
     (case tx_to_ordered X now tx of None \<Rightarrow> True | Some t \<Rightarrow> ot_nonce t \<noteq> - 1)"

lemma add_wf:
  assumes "pool_wf X (tp_inner p)" "ot_nonce t \<noteq> - 1" "add X t p = (p', r)"
  shows "pool_wf X (tp_inner p')" and "tp_config p' = tp_config p"
  by (rule add_cases [OF assms]; simp add: assms(1))+

lemma mempool_insert_spec:
  assumes wf: "pool_wf X (tp_inner p)" and adm: "admissible X now tx"
    and ins: "mempool_insert X now tx p = (p', b)"
  shows "pool_wf X (tp_inner p')" and "tp_config p' = tp_config p"
    and "sender_limit_ok (tp_config p) (queue_txs (by_sender (tp_inner p))) \<Longrightarrow>
      sender_limit_ok (tp_config p) (queue_txs (by_sender (tp_inner p')))"
proof -
  have "pool_wf X (tp_inner p') \<and> tp_config p' = tp_config p \<and>
    (sender_limit_ok (tp_config p) (queue_txs (by_sender (tp_inner p))) \<longrightarrow>
      sender_limit_ok (tp_config p) (queue_txs (by_sender (tp_inner p'))))"
  proof (cases "tx_to_ordered X now tx")
    case None
    then have "p' = record_rejection ''decode_error'' p" using ins by (simp add: mempool_insert_def)
    then show ?thesis using wf by simp
  next
    case (Some t)
    obtain p1 r where add: "add X t p = (p1, r)" by fastforce
    have "ot_nonce t \<noteq> - 1" using adm Some by (simp add: admissible_def)
    note spec = add_wf [OF wf this add] add_sender_limit [OF wf this add]
    have "tp_inner p' = tp_inner p1 \<and> tp_config p' = tp_config p1"
      using ins Some add by (cases r) (auto simp: mempool_insert_def)
    then show ?thesis using spec by auto
  qed
  then show "pool_wf X (tp_inner p')" "tp_config p' = tp_config p"
    "sender_limit_ok (tp_config p) (queue_txs (by_sender (tp_inner p))) \<Longrightarrow>
      sender_limit_ok (tp_config p) (queue_txs (by_sender (tp_inner p')))"
    by blast+
qed

lemma prune_content:
  assumes "pool_wf X (tp_inner p)"
  shows "pool_content X (prune X ids p) \<subseteq> pool_content X p - set ids"
proof -
  have "ordered_tx_id X t \<notin> set ids" if "t \<in> queue_txs (by_sender (tp_inner (prune X ids p)))" for t
    using that prune_spec(3) [OF assms, of ids] by (auto simp: pruned_of_def)
  then show ?thesis using prune_spec(3) [OF assms, of ids] by (auto simp: pool_content_def)
qed

lemma pool_len_content:
  assumes "pool_wf X (tp_inner p)"
  shows "mempool_len p = card (pool_content X p)"
proof -
  let ?n = "tp_inner p"
  let ?all = "concat (map sq_txs (map snd (by_sender ?n)))"
  have "inj_on (ordered_tx_id X) (queue_txs (by_sender ?n))"
    using pool_wf_id_inj [OF assms] by (auto simp: inj_on_def)
  then have "card (pool_content X p) = card (set ?all)"
    unfolding pool_content_def by (subst card_image) (auto simp: queue_txs_def)
  also have "\<dots> = length ?all"
    by (intro distinct_card distinct_all_txs pool_wf_queues [OF assms])
  also have "\<dots> = length (all_pending ?n) + length (all_queued ?n)"
    by (simp add: all_pending_def all_queued_def length_concat sq_txs_def comp_def sum_list_addf)
  finally show ?thesis
    using pool_wf_size [OF assms] assms by (simp add: mempool_len_def pool_wf_def counts_ok_def)
qed

interpretation pool: mempool "tx_id X" "mempool_insert X now" "build X" "prune X" mempool_len
  "pool_content X" "\<lambda>p. pool_wf X (tp_inner p)" "admissible X now" for X now
proof unfold_locales
  fix p :: TransactionPool and k ex ids tx
  assume wf: "pool_wf X (tp_inner p)"
  show "pool_wf X (tp_inner (fst (mempool_insert X now tx p)))" if "admissible X now tx"
    using mempool_insert_spec(1) [OF wf that prod.collapse [symmetric]] .
  show "pool_wf X (tp_inner (prune X ids p))" using wf by (rule prune_spec)
  show "pool_content X (prune X ids p) \<subseteq> pool_content X p - set ids" using wf by (rule prune_content)
  show "length (build X k ex p) \<le> k" using length_greedy by (simp add: build_batch [OF wf] batch_def)
  show "distinct (map (tx_id X) (build X k ex p))"
    using batch_distinct [OF wf] by (simp add: build_batch [OF wf] comp_def tx_id_ordered)
  show "tx_id X tx \<in> pool_content X p - set ex" if "tx \<in> set (build X k ex p)"
    using that batch_mem [OF wf] by (auto simp: build_batch [OF wf] tx_id_ordered pool_content_def)
  show "mempool_len p = card (pool_content X p)" using wf by (rule pool_len_content)
qed

section \<open>Confirmation refines the queue operation\<close>

text \<open>A sender whose transactions are untouched keeps exactly its queue.\<close>

lemma same_queue:
  assumes ok: "queues_ok bs" "queues_ok bs'"
    and frame: "\<And>q'. hm_get bs' s = Some q' \<Longrightarrow> \<exists>q. hm_get bs s = Some q \<and> sq_next_nonce q' = sq_next_nonce q"
    and txs: "{t \<in> queue_txs bs'. ot_sender t = s} = {t \<in> queue_txs bs. ot_sender t = s}"
    and ne: "\<And>q. hm_get bs s = Some q \<Longrightarrow> \<not> sq_is_empty q"
  shows "hm_get bs' s = hm_get bs s"
proof (cases "hm_get bs s")
  case None
  then show ?thesis using frame by (cases "hm_get bs' s") auto
next
  case (Some q)
  then obtain t where t: "t \<in> set (sq_txs q)" using ne by (cases "sq_txs q") (auto simp: sq_is_empty_txs)
  then have "t \<in> queue_txs bs'" "ot_sender t = s" using txs queue_txs_sender [OF ok(1) Some] by auto
  then obtain q' where q': "hm_get bs' s = Some q'" using queue_txs_iff [OF ok(2)] by auto
  have "q' = q"
    using frame [OF q'] Some txs queue_txs_sender [OF ok(1) Some] queue_txs_sender [OF ok(2) q']
      queues_okD [OF ok(1) Some] queues_okD [OF ok(2) q']
    by (intro sq_wf_canonical) auto
  with q' Some show ?thesis by simp
qed

lemma remove_confirmed_get:
  assumes wf: "pool_wf X (tp_inner p)"
  shows "hm_get (by_sender (tp_inner (pool_remove_confirmed X s c p))) s' =
    (if s' = s then
       (case hm_get (by_sender (tp_inner p)) s of
          None \<Rightarrow> None
        | Some q \<Rightarrow>
            if sq_is_empty (sq_remove_confirmed c q) then None else Some (sq_remove_confirmed c q))
     else hm_get (by_sender (tp_inner p)) s')"
proof -
  let ?n = "tp_inner p"
  let ?hs = "case hm_get (by_sender ?n) s of None \<Rightarrow> [] | Some q \<Rightarrow> confirmed_hashes c q"
  define n1 where "n1 = remove_all X ?hs ?n"
  have qok: "queues_ok (by_sender ?n)" using wf by (rule pool_wf_queues)
  have ne: "\<not> sq_is_empty q" if "hm_get (by_sender ?n) s' = Some q" for s' q
    using that wf by (simp add: pool_wf_def inner_inv_def)
  have inv1: "inner_inv X n1 {t \<in> queue_txs (by_sender ?n). ot_hash t \<notin> set ?hs} {}"
    and txs1: "queue_txs (by_sender n1) = {t \<in> queue_txs (by_sender ?n). ot_hash t \<notin> set ?hs}"
    and frame: "\<And>s' q'. hm_get (by_sender n1) s' = Some q' \<Longrightarrow>
      \<exists>q. hm_get (by_sender ?n) s' = Some q \<and> sq_next_nonce q' = sq_next_nonce q"
    using remove_all_spec [OF pool_wf_inv [OF wf], of ?hs] by (auto simp: n1_def)
  have qok1: "queues_ok (by_sender n1)" using inv1 by (simp add: inner_inv_def)
  have res: "by_sender (tp_inner (pool_remove_confirmed X s c p)) =
      (case hm_get (by_sender n1) s of None \<Rightarrow> by_sender n1
       | Some q \<Rightarrow> store_queue s (sq_remove_confirmed c q) (by_sender n1))"
    unfolding pool_remove_confirmed_def Let_def n1_def store_queue_def by (simp split: option.split)
  show ?thesis
  proof (cases "s' = s")
    case False
    have "{t \<in> queue_txs (by_sender n1). ot_sender t = s'} = {t \<in> queue_txs (by_sender ?n). ot_sender t = s'}"
      unfolding txs1 using False confirmed_hashes_iff [OF wf, of s] by (auto split: option.splits)
    then have "hm_get (by_sender n1) s' = hm_get (by_sender ?n) s'"
      using qok qok1 frame ne by (intro same_queue) auto
    then show ?thesis using False by (simp add: res get_store_queue split: option.split)
  next
    case True
    show ?thesis
    proof (cases "hm_get (by_sender ?n) s")
      case None
      then have "hm_get (by_sender n1) s = None" using frame [of s] by (cases "hm_get (by_sender n1) s") auto
      then show ?thesis using None True by (simp add: res)
    next
      case (Some q)
      have q: "sq_wf q" "sq_sender q = s" using queues_okD [OF qok Some] by simp_all
      have txs: "{t \<in> queue_txs (by_sender n1). ot_sender t = s} = {t \<in> set (sq_txs q). c < ot_nonce t}"
        unfolding txs1 using confirmed_hashes_iff [OF wf Some] Some queue_txs_sender [OF qok Some]
        by (auto simp: not_le)
      show ?thesis
      proof (cases "hm_get (by_sender n1) s")
        case None
        then have "{t \<in> set (sq_txs q). c < ot_nonce t} = {}" unfolding txs [symmetric]
          using queue_txs_iff [OF qok1] by auto
        then have "sq_is_empty (sq_remove_confirmed c q)"
          by (simp add: sq_is_empty_txs sq_remove_confirmed_spec(2) [OF q(1)] filter_empty_conv)
        then show ?thesis using None Some True by (simp add: res)
      next
        case q1: (Some q1)
        have wf1: "sq_wf q1" "sq_sender q1 = s" using queues_okD [OF qok1 q1] by simp_all
        have nn: "sq_next_nonce q1 = sq_next_nonce q" using frame [OF q1] Some by simp
        have "set (sq_txs (sq_remove_confirmed c q1)) = set (sq_txs (sq_remove_confirmed c q))"
          using queue_txs_sender [OF qok1 q1] unfolding txs
          by (auto simp: sq_remove_confirmed_spec(2) [OF q(1)] sq_remove_confirmed_spec(2) [OF wf1(1)])
        then have "sq_remove_confirmed c q1 = sq_remove_confirmed c q"
          using q wf1 nn
          by (intro sq_wf_canonical)
            (simp_all add: sq_remove_confirmed_spec(1,3,4) [OF q(1)] sq_remove_confirmed_spec(1,3,4) [OF wf1(1)])
        then show ?thesis using Some True q1 by (simp add: res get_store_queue)
      qed
    qed
  qed
qed

section \<open>The life of a pool\<close>

inductive pool_reachable :: "externs \<Rightarrow> TransactionPool \<Rightarrow> bool" for X where
  new: "pool_reachable X (pool_new cfg)"
| new_events: "pool_reachable X (new_with_events cfg es)"
| metrics: "pool_reachable X p \<Longrightarrow> pool_reachable X (set_metrics m p)"
| add: "pool_reachable X p \<Longrightarrow> ot_nonce t \<noteq> - 1 \<Longrightarrow> add X t p = (p', r) \<Longrightarrow> pool_reachable X p'"
| insert: "pool_reachable X p \<Longrightarrow> admissible X now tx \<Longrightarrow> mempool_insert X now tx p = (p', b) \<Longrightarrow>
    pool_reachable X p'"
| remove: "pool_reachable X p \<Longrightarrow> remove_with_reason X h reason p = (p', t) \<Longrightarrow> pool_reachable X p'"
| confirm: "pool_reachable X p \<Longrightarrow> pool_reachable X (pool_remove_confirmed X s c p)"
| prune: "pool_reachable X p \<Longrightarrow> pool_reachable X (prune X ids p)"
| cleanup: "pool_reachable X p \<Longrightarrow> cleanup X now p = (p', k) \<Longrightarrow> pool_reachable X p'"
| clear: "pool_reachable X p \<Longrightarrow> pool_reachable X (clear p)"

text \<open>A pool with a single transaction, the state the concrete instances below start from.\<close>

definition single_pool :: "externs \<Rightarrow> PoolConfig \<Rightarrow> OrderedTransaction \<Rightarrow> TransactionPool" where
  "single_pool X cfg t =
     \<lparr>tp_inner =
        \<lparr>by_hash = [(ot_hash t, t)], by_id = [(ordered_tx_id X t, ot_hash t)],
         by_sender = [(ot_sender t, \<lparr>sq_sender = ot_sender t, sq_next_nonce = ot_nonce t,
                                     sq_pending = [t], sq_queued = []\<rparr>)],
         pending_count = 1, queued_count = 0\<rparr>,
      tp_config = cfg, tp_events = None, tp_metrics = None\<rparr>"

lemma add_to_empty:
  assumes "0 < max_pending_txs cfg"
  shows "add X t (pool_new cfg) = (single_pool X cfg t, Inr ())"
proof -
  have ins: "sq_insert t (sq_new (ot_sender t) (ot_nonce t)) =
      (\<lparr>sq_sender = ot_sender t, sq_next_nonce = ot_nonce t, sq_pending = [t], sq_queued = []\<rparr>, None)"
    using unat_u64_less [of "ot_nonce t"]
    by (simp add: sq_insert_def sq_new_def next_pending_nonce_def saturating_add_def promote_queued.simps)
  show ?thesis
    using assms
    by (simp add: add_def Let_def pool_new_def inner_new_def insertion_target_def sender_guard_def
        reject_underpriced_when_full_def insert_in_queue_def ins index_tx_def update_counts_def
        evict_pending_loop.simps evict_queued_loop.simps add_events_eq sync_metrics_def single_pool_def)
qed

lemma pool_wf_pool_new: "pool_wf X (tp_inner (pool_new cfg))"
  by (simp add: pool_new_def pool_wf_new)

lemma single_pool_wf: "ot_nonce t \<noteq> - 1 \<Longrightarrow> pool_wf X (tp_inner (single_pool X cfg t))"
  using add_wf(1) [OF pool_wf_pool_new _ add_to_empty [of "cfg\<lparr>max_pending_txs := 1\<rparr>" X t]]
  by (simp add: single_pool_def)

lemma ordered_tx_id_sample:
  "ordered_tx_id sample_externs (sample_tx h s n p) =
     sx_hash 1 (sx_write_slice [ucast n, ucast p, ucast (ucast s :: u256), ucast (ucast h :: address)])"
  by (simp add: ordered_tx_id_def tx_id_def write_tx_def ordered_to_tx_def tx_new_def sample_externs_def
      sx_encode_2718_def sample_tx_def ot_new_def)

section \<open>Corner cases of \<open>add\<close>\<close>

text \<open>
  Outside the invariant: at nonce \<open>u64::MAX\<close> the saturating \<open>next_pending_nonce\<close> stays where it is, so
  a second transaction of the same sender and nonce is classified as a replacement, which skips the limit per sender,
  and is appended to the pending run whatever its price.
\<close>

lemma max_nonce_duplicates:
  assumes "ot_nonce t = - 1" "ot_nonce u = - 1" "ot_sender u = ot_sender t" "ot_hash u \<noteq> ot_hash t"
    and "ordered_tx_id X u \<noteq> ordered_tx_id X t" "2 \<le> max_pending_txs cfg"
  shows "\<exists>p'. add X u (single_pool X cfg t) = (p', Inr ()) \<and> pending_for_sender (ot_sender t) p' = [t, u]"
proof -
  let ?q = "\<lparr>sq_sender = ot_sender t, sq_next_nonce = ot_nonce t, sq_pending = [t], sq_queued = []\<rparr>"
  have ins: "sq_insert u ?q = (?q\<lparr>sq_pending := [t, u]\<rparr>, None)"
    using assms(1,2)
    by (simp add: sq_insert_def next_pending_nonce_def saturating_add_def promote_queued.simps unat_minus_one_u64)
  show ?thesis
    using assms ins
    by (simp add: add_def Let_def single_pool_def insertion_target_def existing_nonce_tx_def sender_guard_def
        reject_underpriced_when_full_def insert_in_queue_def index_tx_def update_counts_def
        evict_pending_loop.simps evict_queued_loop.simps add_events_eq sync_metrics_def pending_for_sender_def)
qed

text \<open>
  A failed \<open>add\<close> can cost another sender a transaction. In the full pool below the new transaction closes the
  gap of its sender and promotes a queued one; the first eviction hits sender 1, the second the new
  transaction itself, which sends the promoted one back to the queue.
\<close>

definition crowded :: "externs \<Rightarrow> OrderedTransaction list \<Rightarrow> (address \<times> SenderQueue) list \<Rightarrow> PoolInner" where
  "crowded X ts qs =
     update_counts (\<lparr>by_hash = map (\<lambda>t. (ot_hash t, t)) ts, by_id = map (\<lambda>t. (ordered_tx_id X t, ot_hash t)) ts,
       by_sender = qs, pending_count = 0, queued_count = 0\<rparr>)"

definition queue_from :: "address \<Rightarrow> u64 \<Rightarrow> OrderedTransaction list \<Rightarrow> OrderedTransaction list \<Rightarrow> address \<times> SenderQueue" where
  "queue_from s n ps qs = (s, \<lparr>sq_sender = s, sq_next_nonce = n, sq_pending = ps, sq_queued = qs\<rparr>)"

definition tight_config :: PoolConfig where
  "tight_config = with_max_queued_txs 1 (with_max_pending_txs 2 pool_config_new)"

lemma tight_config_simps:
  "max_pending_txs tight_config = 2" "max_queued_txs tight_config = 1" "max_txs_per_sender tight_config = 256"
  by (simp_all add: tight_config_def with_max_queued_txs_def with_max_pending_txs_def pool_config_new_def)

definition full_inner :: "externs \<Rightarrow> PoolInner" where
  "full_inner X = crowded X [sample_tx 11 1 5 5, sample_tx 12 2 1 10, sample_tx 13 2 3 10]
     [queue_from 1 5 [sample_tx 11 1 5 5] [], queue_from 2 1 [sample_tx 12 2 1 10] [sample_tx 13 2 3 10]]"

definition full_pool :: "externs \<Rightarrow> TransactionPool" where
  "full_pool X = \<lparr>tp_inner = full_inner X, tp_config = tight_config, tp_events = None, tp_metrics = None\<rparr>"

lemma full_pool_evictions:
  fixes X defines "b \<equiv> sample_tx 12 2 1 10" and "d \<equiv> sample_tx 13 2 3 10" and "t \<equiv> sample_tx 14 2 2 6"
  assumes "inj (ordered_tx_id X)"
  shows "evict_pending_loop X 2 14 (crowded X [sample_tx 11 1 5 5, b, d, t]
      [queue_from 1 5 [sample_tx 11 1 5 5] [], queue_from 2 1 [b, t, d] []]) [] False =
    (crowded X [b, d] [queue_from 2 1 [b] [d]], [11, 14], True)"
proof -
  let ?a = "sample_tx 11 1 5 5"
  let ?n2 = "crowded X [?a, b, d, t] [queue_from 1 5 [?a] [], queue_from 2 1 [b, t, d] []]"
  let ?n3 = "crowded X [b, d, t] [queue_from 2 1 [b, t, d] []]" and ?n4 = "crowded X [b, d] [queue_from 2 1 [b] [d]]"
  have ids: "ordered_tx_id X u = ordered_tx_id X v \<longleftrightarrow> u = v" for u v using assms(4) by (simp add: inj_eq)
  have ev1: "evict_lowest_pending X ?n2 = (?n3, Some ?a)"
    by (simp add: evict_lowest_pending_def all_pending_def min_by_key_def eviction_key_def inner_remove_by_hash_def
        sq_remove_by_hash_def remove_nth_def sq_is_empty_def update_counts_def ids Let_def less_prod_def
        crowded_def queue_from_def b_def d_def t_def)
  have ev2: "evict_lowest_pending X ?n3 = (?n4, Some t)"
    by (simp add: evict_lowest_pending_def all_pending_def min_by_key_def eviction_key_def inner_remove_by_hash_def
        sq_remove_by_hash_def remove_nth_def sq_is_empty_def update_counts_def ids Let_def less_prod_def
        crowded_def queue_from_def b_def d_def t_def)
  have c: "pending_count ?n2 = 4" "pending_count ?n3 = 3" "pending_count ?n4 = 1"
    by (simp_all add: crowded_def queue_from_def update_counts_def)
  show ?thesis
    by (simp add: evict_pending_loop.simps [of X 2 14 ?n2] evict_pending_loop.simps [of X 2 14 ?n3]
        evict_pending_loop.simps [of X 2 14 ?n4] ev1 ev2 c) (simp add: t_def)
qed

lemma failed_add_evicts_other:
  fixes X defines "t \<equiv> sample_tx 14 2 2 6"
  assumes "inj (ordered_tx_id X)"
  shows "contains 11 (full_pool X) \<and>
    (\<exists>p'. add X t (full_pool X) = (p', Inl PoolFull) \<and> \<not> contains 11 p' \<and> pending_count (tp_inner p') = 1)"
proof -
  let ?a = "sample_tx 11 1 5 5" and ?b = "sample_tx 12 2 1 10" and ?d = "sample_tx 13 2 3 10"
  let ?n4 = "crowded X [?b, ?d] [queue_from 2 1 [?b] [?d]]" and ?q = "snd (queue_from 2 1 [?b] [?d])"
  have ids: "ordered_tx_id X u = ordered_tx_id X v \<longleftrightarrow> u = v" for u v using assms(2) by (simp add: inj_eq)
  have ins: "sq_insert t ?q = (snd (queue_from 2 1 [?b, t, ?d] []), None)"
    by (simp add: sq_insert_def next_pending_nonce_def saturating_add_def promote_queued.simps queue_from_def t_def)
  have idx: "r = Inr None" "index_tx X t n1 = crowded X [?a, ?b, ?d, t] [queue_from 1 5 [?a] [], queue_from 2 1 [?b, t, ?d] []]"
    if "insert_in_queue X t (full_inner X) = (n1, r)" for n1 r
    using that ins by (auto simp: insert_in_queue_def full_inner_def Let_def index_tx_def update_counts_def ids
        crowded_def queue_from_def t_def)
  have l2: "evict_queued_loop X 1 14 ?n4 [11, 14] True = (?n4, [11, 14], True)"
    by (simp add: evict_queued_loop.simps crowded_def queue_from_def update_counts_def)
  obtain n1 r where i: "insert_in_queue X t (full_inner X) = (n1, r)" by fastforce
  have new: "hm_get (by_hash (full_inner X)) 14 = None" "hm_get (by_id (full_inner X)) (ordered_tx_id X t) = None"
    "hm_get (by_sender (full_inner X)) 2 = Some ?q"
    by (simp_all add: full_inner_def crowded_def queue_from_def update_counts_def ids t_def)
  have tgt: "insertion_target (Some ?q) t = Pending"
    by (simp add: insertion_target_def existing_nonce_tx_def queue_from_def t_def)
  have ok: "sender_guard tight_config (Some ?q) t Pending = Inr ()"
    by (simp add: sender_guard_def sq_total_count_def tight_config_simps queue_from_def t_def)
  have price: "reject_underpriced_when_full tight_config (full_inner X) t Pending = Inr ()"
    by (simp add: reject_underpriced_when_full_def min_pending_price_def all_pending_def min_by_key_def Let_def
        full_inner_def tight_config_simps crowded_def queue_from_def update_counts_def t_def)
  have t: "ot_hash t = 14" "ot_sender t = 2" by (simp_all add: t_def)
  have "\<exists>p'. add X t (full_pool X) = (p', Inl PoolFull) \<and> tp_inner p' = ?n4"
    unfolding add_def full_pool_def Let_def
    by (simp only: TransactionPool.simps t new tgt ok price i idx [OF i] full_pool_evictions [OF assms(2), folded t_def]
        l2 tight_config_simps sum.case prod.case option.simps simp_thms if_True if_False)
      (simp add: add_events_eq)
  then show ?thesis
    by (auto simp: contains_def full_pool_def full_inner_def crowded_def update_counts_def queue_from_def)
qed

section \<open>Properties\<close>

text \<open>
  C1: in every pool reachable through its public operations, with every added transaction's nonce below
  \<open>u64::MAX\<close> (at that nonce the invariant can break), the hash
  index, the identifier index and the sender queues hold the same transactions, each queue is
  well formed and nonempty, the counters are exact, the size is their sum, and no sender has
  more than \<open>max(1, max_txs_per_sender)\<close> transactions.
\<close>

theorem pool_invariant:
  assumes "pool_reachable X p"
  shows "pool_wf X (tp_inner p) \<and> pool_len p = pending_count (tp_inner p) + queued_count (tp_inner p) \<and>
    sender_limit_ok (tp_config p) (queue_txs (by_sender (tp_inner p)))"
proof -
  have lim0: "sender_limit_ok cfg {}" for cfg by (simp add: sender_limit_ok_def)
  have new: "queue_txs (by_sender inner_new) = {}" by (simp add: inner_new_def queue_txs_def)
  have "pool_wf X (tp_inner p) \<and> sender_limit_ok (tp_config p) (queue_txs (by_sender (tp_inner p)))"
    using assms
  proof induction
    case (add p t p' r)
    then show ?case using add_wf [of X p t p' r] add_sender_limit [of X p t p' r] by simp
  next
    case (insert p now tx p' b)
    then show ?case using mempool_insert_spec [of X p now tx p' b] by simp
  next
    case (remove p h reason p' t)
    then show ?case
      using remove_with_reason_spec [of X p h reason p' t] by (auto intro: sender_limit_mono)
  next
    case (confirm p s c)
    then show ?case using remove_confirmed_spec [of X p s c] by (auto intro: sender_limit_mono)
  next
    case (prune p ids)
    then show ?case using prune_spec(1-3) [of X p ids] by (auto intro: sender_limit_mono)
  next
    case (cleanup p now p' k)
    then show ?case using cleanup_spec [of X p now p' k] by (auto intro: sender_limit_mono)
  qed (simp_all add: pool_wf_new pool_new_def new_with_events_def clear_spec new lim0)
  then show ?thesis using pool_wf_size by (auto simp: pool_len_def)
qed

theorem pool_invariant_witness:
  "let p = single_pool sample_externs pool_config_new (sample_tx 11 1 5 9)
   in pool_reachable sample_externs p \<and> pool_len p = 1 \<and>
      pool_len p = pending_count (tp_inner p) + queued_count (tp_inner p)"
proof -
  let ?p = "single_pool sample_externs pool_config_new (sample_tx 11 1 5 9)"
  have "pool_reachable sample_externs ?p"
    using add_to_empty [of pool_config_new sample_externs "sample_tx 11 1 5 9"]
    by (intro pool_reachable.add [OF pool_reachable.new]) (simp_all add: pool_config_new_def)
  with pool_invariant [OF this] show ?thesis by (simp add: single_pool_def pool_len_def)
qed


text \<open>Every transaction that left the pool is announced as evicted on the event channel.\<close>

definition evictions_announced :: "TransactionPool \<Rightarrow> TransactionPool \<Rightarrow> bool" where
  "evictions_announced p p' \<longleftrightarrow>
     (\<forall>es. tp_events p = Some es \<longrightarrow>
        (\<exists>new. tp_events p' = Some (es @ new) \<and>
           (\<forall>u \<in> queue_txs (by_sender (tp_inner p)) - queue_txs (by_sender (tp_inner p')).
              \<exists>reason. TxEvicted (ot_hash u) reason \<in> set new)))"

lemma add_announced:
  assumes "queue_txs (by_sender (tp_inner p')) = insert t (queue_txs (by_sender (tp_inner p)) -
      same_nonce t (queue_txs (by_sender (tp_inner p)))) - set evs"
    and "ot_hash ` same_nonce t (queue_txs (by_sender (tp_inner p))) = set_option rep"
    and "p' = sync_metrics (add_events t rep (map ot_hash evs) (t \<in> set evs) (p\<lparr>tp_inner := tp_inner p'\<rparr>))"
  shows "evictions_announced p p'"
  unfolding evictions_announced_def
proof (intro allI impI)
  fix es assume es: "tp_events p = Some es"
  let ?new = "map (\<lambda>h. TxEvicted h ''replaced'') (case rep of None \<Rightarrow> [] | Some h \<Rightarrow> [h]) @
      (if t \<in> set evs then [] else [tx_added_event t]) @ map (\<lambda>h. TxEvicted h ''evicted'') (map ot_hash evs)"
  have "tp_events p' = Some (es @ ?new)" by (subst assms(3)) (simp add: add_events_eq es)
  moreover have lost: "u \<in> set evs \<or> rep = Some (ot_hash u)" if "u \<in> queue_txs (by_sender (tp_inner p)) - queue_txs (by_sender (tp_inner p'))" for u
  proof (cases "u \<in> same_nonce t (queue_txs (by_sender (tp_inner p)))")
    case True
    then have "ot_hash u \<in> set_option rep" unfolding assms(2) [symmetric] by blast
    then show ?thesis by (cases rep) simp_all
  qed (use that assms(1) in auto)
  have "TxEvicted (ot_hash u) ''evicted'' \<in> set ?new \<or> TxEvicted (ot_hash u) ''replaced'' \<in> set ?new"
    if "u \<in> queue_txs (by_sender (tp_inner p)) - queue_txs (by_sender (tp_inner p'))" for u
    using lost [OF that] by auto
  ultimately show "\<exists>new. tp_events p' = Some (es @ new) \<and> (\<forall>u \<in> queue_txs (by_sender (tp_inner p)) - queue_txs (by_sender (tp_inner p')).
      \<exists>reason. TxEvicted (ot_hash u) reason \<in> set new)" by blast
qed

definition within_limits :: "TransactionPool \<Rightarrow> bool" where
  "within_limits p \<longleftrightarrow>
     pending_count (tp_inner p) \<le> max_pending_txs (tp_config p) \<and> queued_count (tp_inner p) \<le> max_queued_txs (tp_config p)"

text \<open>
  C31: adding a transaction (nonce below \<open>u64::MAX\<close>) to a well-formed pool has one of three
  outcomes. It fails and the pool is exactly as before. Or it fails with \<open>PoolFull\<close> because the new
  transaction itself was evicted again: then the pool holds a part of what it held before, possibly
  without transactions of other senders that were evicted on the way. Or it succeeds: then the pool holds the
  transaction, holds no other one of that sender and nonce, and otherwise holds a part of what it held before.
  In the last two cases the pool is well formed and within its two capacity limits, and every transaction that
  left it is announced as evicted to the subscribers.
\<close>

theorem add_outcome:
  assumes "pool_wf X (tp_inner p)" and "ot_nonce t \<noteq> - 1" and "add X t p = (p', r)"
  shows "(case r of
      Inl e \<Rightarrow> p' = p \<or>
        e = PoolFull \<and> queue_txs (by_sender (tp_inner p')) \<subseteq> queue_txs (by_sender (tp_inner p)) \<and>
        pool_get (ot_hash t) p' = None \<and> within_limits p' \<and> evictions_announced p p'
    | Inr _ \<Rightarrow> pool_get (ot_hash t) p' = Some t \<and> within_limits p' \<and> evictions_announced p p' \<and>
        (\<forall>u \<in> queue_txs (by_sender (tp_inner p')). u = t \<or>
           u \<in> queue_txs (by_sender (tp_inner p)) \<and>
           (ot_sender u = ot_sender t \<longrightarrow> ot_nonce u \<noteq> ot_nonce t))) \<and> pool_wf X (tp_inner p')"
  using assms
proof (cases rule: add_cases)
  case (Rejected e)
  then show ?thesis using assms(1) by simp
next
  case (Stored rep evs)
  let ?T = "queue_txs (by_sender (tp_inner p))"
  have mem: "hm_get (by_hash (tp_inner p')) (ot_hash t) = Some u \<longleftrightarrow>
      u \<in> queue_txs (by_sender (tp_inner p')) \<and> ot_hash u = ot_hash t" for u
    using pool_wf_get [OF Stored(3)] .
  have lim: "within_limits p'" using Stored(6,7,9) by (simp add: within_limits_def)
  have ann: "evictions_announced p p'" using Stored(4,11,12) by (rule add_announced)
  show ?thesis
  proof (cases "t \<in> set evs")
    case True
    then have T: "t \<notin> queue_txs (by_sender (tp_inner p'))" "queue_txs (by_sender (tp_inner p')) \<subseteq> ?T"
      by (auto simp: Stored(4))
    then have "hm_get (by_hash (tp_inner p')) (ot_hash t) \<noteq> Some u" for u
      using mem Stored(1) unfolding fresh_def by blast
    then have "pool_get (ot_hash t) p' = None" unfolding pool_get_def by blast
    then show ?thesis using Stored(3,8) True T(2) lim ann by simp
  next
    case False
    then have "t \<in> queue_txs (by_sender (tp_inner p'))" by (simp add: Stored(4))
    moreover have "u = t \<or> u \<in> ?T \<and> (ot_sender u = ot_sender t \<longrightarrow> ot_nonce u \<noteq> ot_nonce t)"
      if "u \<in> queue_txs (by_sender (tp_inner p'))" for u
      using that by (auto simp: Stored(4) same_nonce_def)
    ultimately show ?thesis using Stored(3,8) False mem lim ann by (simp add: pool_get_def)
  qed
qed

theorem add_outcome_witness:
  "let t = sample_tx 12 1 5 10
   in snd (add sample_externs t (pool_new pool_config_new)) = Inr () \<and>
      pool_get 12 (fst (add sample_externs t (pool_new pool_config_new))) = Some t"
proof -
  let ?t = "sample_tx 12 1 5 10"
  have "add sample_externs ?t (pool_new pool_config_new) =
      (single_pool sample_externs pool_config_new ?t, Inr ())"
    by (simp add: add_to_empty pool_config_new_def)
  with add_outcome [OF pool_wf_pool_new _ this] show ?thesis by simp
qed

text \<open>
  After every successful \<open>add\<close> the pool is within both capacity limits, whatever its state
  before: the eviction loops end and never stop short of the limits.
\<close>

theorem add_within_limits:
  assumes "pool_wf X (tp_inner p)" and "ot_nonce t \<noteq> - 1" and "add X t p = (p', Inr ())"
  shows "pending_count (tp_inner p') \<le> max_pending_txs (tp_config p') \<and>
    queued_count (tp_inner p') \<le> max_queued_txs (tp_config p')"
  using assms by (cases rule: add_cases) auto

theorem add_within_limits_witness:
  "let p = fst (add sample_externs (sample_tx 12 1 5 10) (pool_new (with_max_pending_txs 1 pool_config_new)))
   in pending_count (tp_inner p) \<le> 1 \<and> pool_len p = 1"
proof -
  let ?cfg = "with_max_pending_txs 1 pool_config_new" and ?t = "sample_tx 12 1 5 10"
  have add: "add sample_externs ?t (pool_new ?cfg) = (single_pool sample_externs ?cfg ?t, Inr ())"
    by (simp add: add_to_empty)
  from add_within_limits [OF pool_wf_pool_new _ add] add show ?thesis
    by (simp add: single_pool_def pool_len_def)
qed

text \<open>
  When the pool is over its pending limit the eviction takes out the pending transaction
  with the lowest price, the newest among equal prices, and nothing else.
\<close>

theorem evict_lowest_pending_minimal:
  assumes "pool_wf X n" and "pending_count n > 0" and "evict_lowest_pending X n = (n', r)"
  shows "\<exists>t. r = Some t \<and> t \<in> set (all_pending n) \<and>
    (\<forall>u \<in> set (all_pending n). ot_price t < ot_price u \<or>
       ot_price t = ot_price u \<and> ot_timestamp u \<le> ot_timestamp t) \<and>
    pool_wf X n' \<and> queue_txs (by_sender n') = queue_txs (by_sender n) - {t}"
  using assms(1,3)
proof (cases rule: evict_lowest_pending_cases)
  case None
  then show ?thesis using assms(1,2) by (simp add: pool_wf_def counts_ok_def)
next
  case (Some t)
  then show ?thesis by (intro exI [of _ t]) (auto simp: eviction_key_def less_eq_prod_def)
qed

theorem evict_lowest_pending_minimal_witness:
  "let n = tp_inner (single_pool sample_externs pool_config_new (sample_tx 11 1 5 9))
   in snd (evict_lowest_pending sample_externs n) = Some (sample_tx 11 1 5 9) \<and>
      queue_txs (by_sender (fst (evict_lowest_pending sample_externs n))) = {}"
proof -
  let ?n = "tp_inner (single_pool sample_externs pool_config_new (sample_tx 11 1 5 9))"
  have "pool_wf sample_externs ?n" by (simp add: single_pool_wf)
  from evict_lowest_pending_minimal [OF this _ prod.collapse [symmetric]]
  show ?thesis by (simp add: single_pool_def all_pending_def queue_txs_def sq_txs_def)
qed

text \<open>
  C32: pruning the identifiers of a finalized block removes, for each sender, exactly the
  transactions up to the highest pruned nonce of that sender and nothing of other senders; the
  pool stays well formed, and every remaining queue is \<open>remove_confirmed\<close> of the old one.
\<close>

theorem prune_refines_remove_confirmed:
  assumes "pool_wf X (tp_inner p)"
  shows "pool_wf X (tp_inner (prune X ids p)) \<and>
    queue_txs (by_sender (tp_inner (prune X ids p))) =
      {t \<in> queue_txs (by_sender (tp_inner p)).
         \<forall>u \<in> queue_txs (by_sender (tp_inner p)).
           ordered_tx_id X u \<in> set ids \<longrightarrow> ot_sender u = ot_sender t \<longrightarrow> ot_nonce u < ot_nonce t} \<and>
    (\<forall>s. hm_get (by_sender (tp_inner (prune X ids p))) s =
       (case hm_get (by_sender (tp_inner p)) s of
          None \<Rightarrow> None
        | Some q \<Rightarrow>
            (case hm_get (fold (note_confirmed (tp_inner p)) ids []) s of
               None \<Rightarrow> Some q
             | Some c \<Rightarrow>
                 if sq_is_empty (sq_remove_confirmed c q) then None
                 else Some (sq_remove_confirmed c q))))"
  using prune_spec [OF assms, of ids] by (auto simp: pruned_of_def)

theorem prune_refines_remove_confirmed_witness:
  "let X = sample_externs; t = sample_tx 11 1 5 9; p = single_pool X pool_config_new t
   in pool_wf X (tp_inner (prune X [ordered_tx_id X t] p)) \<and>
      queue_txs (by_sender (tp_inner (prune X [ordered_tx_id X t] p))) = {}"
proof -
  let ?X = sample_externs and ?t = "sample_tx 11 1 5 9"
  let ?p = "single_pool ?X pool_config_new ?t"
  have "pool_wf ?X (tp_inner ?p)" by (simp add: single_pool_wf)
  moreover have "queue_txs (by_sender (tp_inner ?p)) = {?t}"
    by (simp add: single_pool_def queue_txs_def sq_txs_def)
  ultimately show ?thesis
    using prune_refines_remove_confirmed [of ?X ?p "[ordered_tx_id ?X ?t]"] by (simp add: Let_def)
qed

text \<open>
  The two ways of confirming a transaction agree: pruning its identifier leaves every
  sender with the same queue as \<open>remove_confirmed\<close> with its sender and nonce.
\<close>

theorem prune_equiv_remove_confirmed:
  assumes "pool_wf X (tp_inner p)" and "t \<in> queue_txs (by_sender (tp_inner p))"
  shows "hm_get (by_sender (tp_inner (prune X [ordered_tx_id X t] p))) s =
    hm_get (by_sender (tp_inner (pool_remove_confirmed X (ot_sender t) (ot_nonce t) p))) s"
proof -
  have "fold (note_confirmed (tp_inner p)) [ordered_tx_id X t] [] = [(ot_sender t, ot_nonce t)]"
    using note_confirmed_hit [OF assms, of "[]"] by simp
  then show ?thesis
    unfolding prune_spec(4) [OF assms(1)] remove_confirmed_get [OF assms(1)]
    by (simp split: option.split)
qed

theorem prune_equiv_remove_confirmed_witness:
  "let X = sample_externs; t = sample_tx 11 1 5 9; p = single_pool X pool_config_new t
   in hm_get (by_sender (tp_inner (prune X [ordered_tx_id X t] p))) 1 =
      hm_get (by_sender (tp_inner (pool_remove_confirmed X 1 5 p))) 1"
proof -
  let ?X = sample_externs and ?t = "sample_tx 11 1 5 9"
  let ?p = "single_pool ?X pool_config_new ?t"
  have "pool_wf ?X (tp_inner ?p)" "?t \<in> queue_txs (by_sender (tp_inner ?p))"
    by (simp_all add: single_pool_wf) (simp add: single_pool_def queue_txs_def sq_txs_def)
  from prune_equiv_remove_confirmed [OF this, of 1] show ?thesis by simp
qed


text \<open>
  C10: \<open>build\<close> returns what the greedy reference picks: the cursor-per-sender loop of the code
  and the merge of the senders' pending runs (excluded transactions left out) by best head give
  the same transactions in the same order.
\<close>

theorem build_equiv_greedy:
  assumes "pool_wf X (tp_inner p)"
  shows "build X max_txs excluded p =
    map (ordered_to_tx X) (greedy max_txs (pool_runs X excluded (tp_inner p)))"
  using build_greedy [OF pool_wf_queues [OF assms]] .

theorem build_equiv_greedy_witness:
  "build sample_externs 5 [] (single_pool sample_externs pool_config_new (sample_tx 11 1 5 9)) =
     [tx_new [5, 9, 1, 11]]"
proof -
  let ?X = sample_externs and ?p = "single_pool sample_externs pool_config_new (sample_tx 11 1 5 9)"
  have "pool_wf ?X (tp_inner ?p)" by (simp add: single_pool_wf)
  moreover have "greedy 5 (pool_runs ?X [] (tp_inner ?p)) = [sample_tx 11 1 5 9]"
    by (simp add: pool_runs_def single_pool_def eval_nat_numeral heads_def min_by_key_def)
  moreover have "ordered_to_tx ?X (sample_tx 11 1 5 9) = tx_new [5, 9, 1, 11]"
    by (simp add: ordered_to_tx_def sample_externs_def sx_encode_2718_def sample_tx_def ot_new_def)
  ultimately show ?thesis using build_equiv_greedy [of ?X ?p 5 "[]"] by simp
qed

text \<open>
  C9: a built batch is executable and fresh. It has at most \<open>max_txs\<close> transactions, none of
  them excluded and none twice, and the transactions it takes from a sender are the first ones
  of that sender's pending run that are not excluded, in nonce order.
\<close>

theorem build_batch_executable:
  assumes "pool_wf X (tp_inner p)"
  shows "\<exists>ts. build X k ex p = map (ordered_to_tx X) ts \<and> length ts \<le> k \<and>
    distinct (map (ordered_tx_id X) ts) \<and> set (map (ordered_tx_id X) ts) \<inter> set ex = {} \<and>
    (\<forall>s. \<exists>l. (case hm_get (by_sender (tp_inner p)) s of
         None \<Rightarrow> []
       | Some q \<Rightarrow> filter (\<lambda>t. ordered_tx_id X t \<notin> set ex) (sq_pending q)) =
       filter (\<lambda>t. ot_sender t = s) ts @ l)"
  using build_batch [OF assms] batch_distinct [OF assms] batch_mem(2) [OF assms]
    batch_prefix [OF assms] length_greedy [of k]
  by (intro exI [of _ "batch X k ex p"]) (auto simp: batch_def)

theorem build_batch_executable_witness:
  "let X = sample_externs; p = single_pool X pool_config_new (sample_tx 11 1 5 9)
   in \<exists>ts. build X 5 [] p = map (ordered_to_tx X) ts \<and> length ts \<le> 5"
proof -
  have "pool_wf sample_externs (tp_inner (single_pool sample_externs pool_config_new (sample_tx 11 1 5 9)))"
    by (simp add: single_pool_wf)
  from build_batch_executable [OF this, of 5 "[]"] show ?thesis by (auto simp: Let_def)
qed

text \<open>
  C33: block building never idles: if the batch is shorter than \<open>max_txs\<close>, every pending
  transaction that is not excluded is in it.
\<close>

theorem build_complete:
  assumes "pool_wf X (tp_inner p)" and "length (build X k ex p) < k"
    and "hm_get (by_sender (tp_inner p)) s = Some q" and "t \<in> set (sq_pending q)"
    and "ordered_tx_id X t \<notin> set ex"
  shows "ordered_to_tx X t \<in> set (build X k ex p)"
proof -
  have "length (batch X k ex p) < k" using assms(2) build_batch [OF assms(1)] by simp
  then have "run_of (pool_runs X ex (tp_inner p)) s = filter (\<lambda>t. ot_sender t = s) (batch X k ex p)"
    unfolding batch_def
    by (rule greedy_complete [OF runs_ok_pool_runs [OF pool_wf_queues [OF assms(1)]]])
  then have "t \<in> set (batch X k ex p)"
    using assms(3-5) run_of_pool_runs [OF pool_wf_queues [OF assms(1)], of X ex s]
    by (auto simp: filter_eq_Cons_iff dest!: arg_cong [where f = set])
  then show ?thesis using build_batch [OF assms(1)] by simp
qed

theorem build_complete_witness:
  "let X = sample_externs; p = single_pool X pool_config_new (sample_tx 11 1 5 9)
   in ordered_to_tx X (sample_tx 11 1 5 9) \<in> set (build X 5 [] p)"
proof -
  let ?X = sample_externs and ?p = "single_pool sample_externs pool_config_new (sample_tx 11 1 5 9)"
  have wf: "pool_wf ?X (tp_inner ?p)" by (simp add: single_pool_wf)
  have "length (build ?X 5 [] ?p) < 5"
    using build_batch [OF wf, of 5 "[]"]
    by (simp add: batch_def pool_runs_def single_pool_def eval_nat_numeral heads_def min_by_key_def)
  from build_complete [OF wf this, of 1] show ?thesis by (simp add: single_pool_def)
qed

text \<open>
  The batch respects prices: at the moment a transaction is taken, no sender's next
  transaction has a higher price, or the same price and an older timestamp.
\<close>

theorem build_priority:
  assumes "pool_wf X (tp_inner p)"
    and "greedy k (pool_runs X ex (tp_inner p)) = xs @ t # ys"
    and "hm_get (by_sender (tp_inner p)) s = Some q"
    and "filter (\<lambda>u. ordered_tx_id X u \<notin> set ex) (sq_pending q) =
      filter (\<lambda>u. ot_sender u = s) xs @ u # l"
  shows "build X k ex p = map (ordered_to_tx X) (xs @ t # ys) \<and>
    (ot_price u < ot_price t \<or> ot_price u = ot_price t \<and> ot_timestamp t \<le> ot_timestamp u)"
proof -
  have "run_of (pool_runs X ex (tp_inner p)) s = filter (\<lambda>u. ot_sender u = s) xs @ u # l"
    using run_of_pool_runs [OF pool_wf_queues [OF assms(1)], of X ex s] assms(3,4) by simp
  from greedy_priority [OF runs_ok_pool_runs [OF pool_wf_queues [OF assms(1)]] assms(2) this]
  have "ot_key t \<le> ot_key u" .
  then show ?thesis
    using build_greedy [OF pool_wf_queues [OF assms(1)], of X k ex] assms(2)
    by (auto simp: ot_key_def less_eq_prod_def)
qed

theorem build_priority_witness:
  "let X = sample_externs; p = single_pool X pool_config_new (sample_tx 11 1 5 9)
   in build X 5 [] p = map (ordered_to_tx X) [sample_tx 11 1 5 9]"
proof -
  let ?X = sample_externs and ?p = "single_pool sample_externs pool_config_new (sample_tx 11 1 5 9)"
  have "pool_wf ?X (tp_inner ?p)" by (simp add: single_pool_wf)
  moreover have "greedy 5 (pool_runs ?X [] (tp_inner ?p)) = [] @ [sample_tx 11 1 5 9]"
    by (simp add: pool_runs_def single_pool_def eval_nat_numeral heads_def min_by_key_def)
  moreover have "hm_get (by_sender (tp_inner ?p)) 1 = Some \<lparr>sq_sender = 1, sq_next_nonce = 5,
      sq_pending = [sample_tx 11 1 5 9], sq_queued = []\<rparr>"
    by (simp add: single_pool_def)
  ultimately show ?thesis
    using build_priority [of ?X ?p 5 "[]" "[]" "sample_tx 11 1 5 9" "[]" 1 _ "sample_tx 11 1 5 9" "[]"]
    by (simp add: Let_def)
qed

text \<open>
  Every honest node builds the same batch from the same transactions: two pools whose
  senders have the same queues give the same batch, however their hash maps iterate.
\<close>

theorem build_order_independent:
  assumes "pool_wf X (tp_inner p)" and "pool_wf X (tp_inner p')"
    and "hm_get (by_sender (tp_inner p)) = hm_get (by_sender (tp_inner p'))"
  shows "build X k ex p = build X k ex p'"
proof -
  let ?rs = "pool_runs X ex (tp_inner p)" and ?rs' = "pool_runs X ex (tp_inner p')"
  have qok: "queues_ok (by_sender (tp_inner p))" "queues_ok (by_sender (tp_inner p'))"
    using assms pool_wf_queues by blast+
  have "inj_on ot_key {t. \<exists>s. t \<in> set (run_of ?rs s)}"
  proof (rule inj_on_subset)
    show "inj_on ot_key (queue_txs (by_sender (tp_inner p)))"
      using ot_key_hash pool_wf_hash_inj [OF assms(1)] by (intro inj_onI) blast
    show "{t. \<exists>s. t \<in> set (run_of ?rs s)} \<subseteq> queue_txs (by_sender (tp_inner p))"
    proof clarify
      fix t s assume "t \<in> set (run_of ?rs s)"
      then obtain q where "hm_get (by_sender (tp_inner p)) s = Some q" "t \<in> set (sq_pending q)"
        unfolding run_of_pool_runs [OF qok(1)] by (cases "hm_get (by_sender (tp_inner p)) s") auto
      then show "t \<in> queue_txs (by_sender (tp_inner p))"
        using queue_txs_get [OF qok(1)] by (simp add: sq_txs_def)
    qed
  qed
  moreover have "\<forall>s. run_of ?rs s = run_of ?rs' s"
    by (simp add: run_of_pool_runs [OF qok(1)] run_of_pool_runs [OF qok(2)] assms(3))
  ultimately have "greedy k ?rs = greedy k ?rs'"
    using runs_ok_pool_runs qok by (intro greedy_order_independent) auto
  then show ?thesis using build_greedy qok by simp
qed

theorem build_order_independent_witness:
  "let X = sample_externs; p = single_pool X pool_config_new (sample_tx 11 1 5 9);
       p' = single_pool X (with_max_pending_txs 1 pool_config_new) (sample_tx 11 1 5 9)
   in build X 5 [] p = build X 5 [] p'"
  using build_order_independent [OF single_pool_wf single_pool_wf,
      of "sample_tx 11 1 5 9" "sample_tx 11 1 5 9" sample_externs pool_config_new
        "with_max_pending_txs 1 pool_config_new" 5 "[]"]
  by (simp add: single_pool_def)

text \<open>
  Cleanup removes exactly the expired transactions, with the limit of the part of the queue
  each one is in, returns their number, and keeps the pool well formed.
\<close>

theorem cleanup_exact:
  assumes "pool_wf X (tp_inner p)" and "cleanup X now p = (p', k)"
  shows "pool_wf X (tp_inner p') \<and> k = card (expired_txs (tp_config p) now (tp_inner p)) \<and>
    queue_txs (by_sender (tp_inner p')) =
      queue_txs (by_sender (tp_inner p)) - expired_txs (tp_config p) now (tp_inner p)"
  using cleanup_spec [OF assms] by blast

theorem cleanup_exact_witness:
  "let p = single_pool sample_externs pool_config_new (sample_tx 11 1 5 9)
   in snd (cleanup sample_externs 5000 p) = 1 \<and>
      queue_txs (by_sender (tp_inner (fst (cleanup sample_externs 5000 p)))) = {}"
proof -
  let ?p = "single_pool sample_externs pool_config_new (sample_tx 11 1 5 9)"
  have "pool_wf sample_externs (tp_inner ?p)" by (simp add: single_pool_wf)
  moreover have "expired_txs (tp_config ?p) 5000 (tp_inner ?p) = {sample_tx 11 1 5 9}"
    by (auto simp: expired_txs_def single_pool_def all_pending_def all_queued_def pool_config_new_def
        saturating_sub_def)
  moreover have "queue_txs (by_sender (tp_inner ?p)) = {sample_tx 11 1 5 9}"
    by (simp add: single_pool_def queue_txs_def sq_txs_def)
  ultimately show ?thesis
    using cleanup_exact [OF _ prod.collapse [symmetric], of sample_externs ?p 5000] by simp
qed


text \<open>
  A transaction that offers no more than the pool's transaction of the same sender and
  nonce is refused with \<open>ReplacementUnderpriced\<close>, and the pool is unchanged.
\<close>

theorem underpriced_replacement_rejected:
  assumes wf: "pool_wf X (tp_inner p)" and max: "ot_nonce t \<noteq> - 1"
    and fresh: "fresh X t (queue_txs (by_sender (tp_inner p)))"
    and u: "u \<in> queue_txs (by_sender (tp_inner p))" "ot_sender u = ot_sender t" "ot_nonce u = ot_nonce t"
    and price: "ot_price t \<le> ot_price u"
  shows "add X t p = (p, Inl ReplacementUnderpriced)"
proof -
  let ?n = "tp_inner p"
  have qok: "queues_ok (by_sender ?n)" using wf by (rule pool_wf_queues)
  obtain q where q: "hm_get (by_sender ?n) (ot_sender t) = Some q" "u \<in> set (sq_txs q)"
    using u queue_txs_iff [OF qok] by auto
  have ge: "\<not> ot_nonce t < sq_next_nonce q"
    using sq_wf_nonces(3) [OF _ q(2)] queues_okD [OF qok q(1)] u(3) by auto
  have target: "insertion_target (Some q) t = Replacement"
    using q(2) u(3) by (auto simp: insertion_target_def existing_nonce_tx_def find_None_iff sq_txs_def)
  obtain n1 res where ins: "insert_in_queue X t ?n = (n1, res)" by fastforce
  have "res = Inl ReplacementUnderpriced \<and> n1 = ?n"
    using wf max fresh ins
  proof (cases rule: insert_in_queue_cases)
    case Inserted
    then have "ot_price u < ot_price t" using u by (auto simp: same_nonce_def)
    with price show ?thesis by simp
  qed simp
  then show ?thesis
    using fresh_iff [OF wf, of t] fresh q(1) ge target ins
    by (simp add: add_def Let_def sender_guard_def reject_underpriced_when_full_def)
qed

theorem underpriced_replacement_rejected_witness:
  "let p = single_pool sample_externs pool_config_new (sample_tx 11 1 5 9)
   in add sample_externs (sample_tx 12 1 5 9) p = (p, Inl ReplacementUnderpriced)"
proof -
  let ?p = "single_pool sample_externs pool_config_new (sample_tx 11 1 5 9)"
  have "pool_wf sample_externs (tp_inner ?p)" by (simp add: single_pool_wf)
  moreover have "queue_txs (by_sender (tp_inner ?p)) = {sample_tx 11 1 5 9}"
    by (simp add: single_pool_def queue_txs_def sq_txs_def)
  moreover have "fresh sample_externs (sample_tx 12 1 5 9) {sample_tx 11 1 5 9}"
    by (simp add: fresh_def ordered_tx_id_sample sx_hash_def sx_write_slice_def sx_write_usize.simps)
  ultimately show ?thesis
    using underpriced_replacement_rejected [of sample_externs ?p "sample_tx 12 1 5 9" "sample_tx 11 1 5 9"]
    by (simp add: Let_def)
qed

text \<open>
  One unit of price is enough to replace a transaction, whatever
  \<open>replacement_bump_percent\<close> is configured: nothing reads that setting.
\<close>

theorem replacement_ignores_bump:
  assumes "0 < max_pending_txs cfg" and "ot_nonce t \<noteq> - 1"
    and "ot_sender u = ot_sender t" and "ot_nonce u = ot_nonce t"
    and "ot_hash u \<noteq> ot_hash t" and "ordered_tx_id X u \<noteq> ordered_tx_id X t"
    and "ot_price u = ot_price t + 1" and "ot_price t \<noteq> - 1"
  shows "add X u (single_pool X (with_replacement_bump_percent b cfg) t) =
    (single_pool X (with_replacement_bump_percent b cfg) u, Inr ())"
proof -
  have price: "ot_price t < ot_price u" using assms(7,8) by (simp add: word_less_Suc)
  have nxt: "ot_nonce t < saturating_add (ot_nonce t) 1"
    using assms(2) by (rule less_saturating_Suc)
  have ins: "sq_insert u \<lparr>sq_sender = ot_sender t, sq_next_nonce = ot_nonce t, sq_pending = [t], sq_queued = []\<rparr> =
      (\<lparr>sq_sender = ot_sender t, sq_next_nonce = ot_nonce t, sq_pending = [u], sq_queued = []\<rparr>, Some t)"
    using nxt price assms(4) by (auto simp: sq_insert_def next_pending_nonce_def)
  have rem: "sq_remove_by_hash (ot_hash t) \<lparr>sq_sender = ot_sender t, sq_next_nonce = ot_nonce t,
      sq_pending = [u], sq_queued = []\<rparr> = (\<lparr>sq_sender = ot_sender t, sq_next_nonce = ot_nonce t,
      sq_pending = [u], sq_queued = []\<rparr>, None)"
    using assms(5) by (intro sq_remove_missing) (simp add: sq_txs_def)
  show ?thesis
    using assms(1,3-6)
    by (simp add: add_def Let_def single_pool_def insertion_target_def existing_nonce_tx_def sender_guard_def
        reject_underpriced_when_full_def insert_in_queue_def ins inner_remove_by_hash_def rem sq_is_empty_def
        index_tx_def update_counts_def evict_pending_loop.simps evict_queued_loop.simps add_events_eq
        sync_metrics_def)
qed

theorem replacement_ignores_bump_witness:
  "add sample_externs (sample_tx 12 1 5 10)
     (single_pool sample_externs (with_replacement_bump_percent 100 pool_config_new) (sample_tx 11 1 5 9)) =
   (single_pool sample_externs (with_replacement_bump_percent 100 pool_config_new) (sample_tx 12 1 5 10), Inr ())"
  by (rule replacement_ignores_bump) (simp_all add: pool_config_new_def ordered_tx_id_sample sx_hash_def sx_write_slice_def sx_write_usize.simps)

text \<open>
  The first transaction of a sender fixes the sender's nonce: it is pending whatever its
  nonce, and a transaction of the same sender with a lower nonce is then refused as
  \<open>NonceTooLow\<close>, although the account's own nonce was never looked at.
\<close>

theorem first_transaction_fixes_nonce:
  assumes "0 < max_pending_txs cfg" and "ot_nonce t \<noteq> - 1"
    and "ot_sender u = ot_sender t" and "ot_nonce u < ot_nonce t"
    and "ot_hash u \<noteq> ot_hash t" and "ordered_tx_id X u \<noteq> ordered_tx_id X t"
    and "add X t (pool_new cfg) = (p, r)"
  shows "r = Inr () \<and> pending_for_sender (ot_sender t) p = [t] \<and>
    next_nonce (ot_sender t) p = Some (ot_nonce t + 1) \<and>
    add X u p = (p, Inl (NonceTooLow (ot_nonce u) (ot_nonce t)))"
proof -
  have p: "p = single_pool X cfg t" "r = Inr ()" using assms(7) add_to_empty [OF assms(1)] by simp_all
  have "saturating_add (ot_nonce t) 1 = ot_nonce t + 1" using assms(2) by (rule saturating_Suc)
  then show ?thesis
    using assms(3-6)
    by (simp add: p single_pool_def pending_for_sender_def next_nonce_def next_pending_nonce_def
        add_def Let_def sender_guard_def)
qed

theorem first_transaction_fixes_nonce_witness:
  "snd (add sample_externs (sample_tx 12 1 4 10)
     (fst (add sample_externs (sample_tx 11 1 5 9) (pool_new pool_config_new)))) = Inl (NonceTooLow 4 5)"
  using first_transaction_fixes_nonce [OF _ _ _ _ _ _ prod.collapse [symmetric],
      of pool_config_new "sample_tx 11 1 5 9" "sample_tx 12 1 4 10" sample_externs]
  by (simp add: pool_config_new_def ordered_tx_id_sample sx_hash_def sx_write_slice_def sx_write_usize.simps)

end
