(* ===== verification/Qmdb_Changes.thy ===== *)
theory Qmdb_Changes
  imports Domain
begin

text \<open>
  Accumulated state changes (\<open>crates/storage/qmdb/src/changes.rs\<close>) and the roots computed from
  them (\<open>root.rs\<close>): merging two change sets, and the consensus root of a state transition.
\<close>

section \<open>Change sets\<close>

record AccountUpdate =
  au_created :: bool
  au_selfdestructed :: bool
  au_nonce :: u64
  au_balance :: u256
  au_code_hash :: b256
  au_code :: "bytes option"
  au_storage :: "(u256, u256) btree_map"

record ChangeSet =
  cs_accounts :: "(address, AccountUpdate) btree_map"

definition changes_new :: ChangeSet where
  "changes_new = \<lparr>cs_accounts = []\<rparr>"

definition changes_is_empty :: "ChangeSet \<Rightarrow> bool" where
  "changes_is_empty c \<longleftrightarrow> cs_accounts c = []"

definition changes_len :: "ChangeSet \<Rightarrow> nat" where
  "changes_len c = length (cs_accounts c)"

text \<open>\<open>AccountUpdate::merge\<close>, statement by statement.\<close>

definition merge_update :: "AccountUpdate \<Rightarrow> AccountUpdate \<Rightarrow> AccountUpdate" where
  "merge_update self other =
     (let s1 = (if au_created other then self\<lparr>au_storage := [], au_created := True\<rparr> else self);
          s2 = (if au_selfdestructed other then s1\<lparr>au_storage := []\<rparr> else s1);
          s3 = s2\<lparr>au_selfdestructed := au_selfdestructed other, au_nonce := au_nonce other,
                   au_balance := au_balance other\<rparr>;
          s4 = (if au_code_hash s3 \<noteq> au_code_hash other \<or> au_code other \<noteq> None
                then s3\<lparr>au_code := au_code other\<rparr> else s3);
          s5 = s4\<lparr>au_code_hash := au_code_hash other\<rparr>
      in if \<not> au_selfdestructed other
         then s5\<lparr>au_storage := fold (\<lambda>(k, v). bt_insert k v) (au_storage other) (au_storage s5)\<rparr>
         else s5)"

definition changes_insert :: "address \<Rightarrow> AccountUpdate \<Rightarrow> ChangeSet \<Rightarrow> ChangeSet" where
  "changes_insert a u c =
     (case bt_get (cs_accounts c) a of
        Some existing \<Rightarrow> c\<lparr>cs_accounts := bt_insert a (merge_update existing u) (cs_accounts c)\<rparr>
      | None \<Rightarrow> c\<lparr>cs_accounts := bt_insert a u (cs_accounts c)\<rparr>)"

text \<open>The body of the loop of \<open>ChangeSet::merge\<close> is the body of \<open>insert\<close>.\<close>

definition changes_merge :: "ChangeSet \<Rightarrow> ChangeSet \<Rightarrow> ChangeSet" where
  "changes_merge self other = fold (\<lambda>(a, u). changes_insert a u) (cs_accounts other) self"

definition update_wf :: "AccountUpdate \<Rightarrow> bool" where
  "update_wf u \<longleftrightarrow> bt_wf (au_storage u)"

definition changes_wf :: "ChangeSet \<Rightarrow> bool" where
  "changes_wf c \<longleftrightarrow> bt_wf (cs_accounts c) \<and> (\<forall>u \<in> snd ` set (cs_accounts c). update_wf u)"

text \<open>The update a change set has for an address.\<close>

abbreviation update_of :: "ChangeSet \<Rightarrow> address \<Rightarrow> AccountUpdate option" where
  "update_of c a \<equiv> bt_get (cs_accounts c) a"

lemma merge_update_simps [simp]:
  "au_created (merge_update a b) = (au_created a \<or> au_created b)"
  "au_selfdestructed (merge_update a b) = au_selfdestructed b"
  "au_nonce (merge_update a b) = au_nonce b"
  "au_balance (merge_update a b) = au_balance b"
  "au_code_hash (merge_update a b) = au_code_hash b"
  by (auto simp: merge_update_def Let_def)

lemma merge_update_code:
  "au_code (merge_update a b) =
     (if au_code_hash a = au_code_hash b \<and> au_code b = None then au_code a else au_code b)"
  by (auto simp: merge_update_def Let_def)

lemma merge_update_storage:
  assumes "update_wf b"
  shows "bt_get (au_storage (merge_update a b)) k =
    (if au_selfdestructed b then None
     else case bt_get (au_storage b) k of
            Some v \<Rightarrow> Some v
          | None \<Rightarrow> if au_created b then None else bt_get (au_storage a) k)"
  using assms
  by (auto simp: merge_update_def Let_def update_wf_def map_of_fold_bt_insert bt_wf_distinct split: option.split)

lemma update_wf_merge: "update_wf a \<Longrightarrow> update_wf (merge_update a b)"
  by (auto simp: merge_update_def Let_def update_wf_def intro: bt_wf_fold_insert)

lemma changes_insert_get [simp]:
  "update_of (changes_insert a u c) a' =
     (if a' = a then Some (case update_of c a of Some e \<Rightarrow> merge_update e u | None \<Rightarrow> u)
      else update_of c a')"
  by (simp add: changes_insert_def split: option.split)

lemma changes_merge_get:
  assumes "bt_wf (cs_accounts c')"
  shows "update_of (changes_merge c c') a =
    (case update_of c' a of
       None \<Rightarrow> update_of c a
     | Some u' \<Rightarrow> Some (case update_of c a of None \<Rightarrow> u' | Some u \<Rightarrow> merge_update u u'))"
proof -
  have "distinct (map fst es) \<Longrightarrow>
    update_of (fold (\<lambda>(a, u). changes_insert a u) es c) a =
    (case map_of es a of
       None \<Rightarrow> update_of c a
     | Some u' \<Rightarrow> Some (case update_of c a of None \<Rightarrow> u' | Some u \<Rightarrow> merge_update u u'))" for es
  proof (induction es arbitrary: c)
    case (Cons e es)
    obtain k u where e: "e = (k, u)" by (cases e)
    have none: "map_of es k = None" using Cons.prems e by (auto simp: map_of_eq_None_iff)
    have "distinct (map fst es)" using Cons.prems by simp
    from Cons.IH [OF this, of "changes_insert k u c"] none show ?case
      by (cases "a = k") (simp_all add: e split: option.split)
  qed simp
  from this [OF bt_wf_distinct [OF assms]] show ?thesis unfolding changes_merge_def .
qed

lemma changes_wf_put: "changes_wf c \<Longrightarrow> update_wf u \<Longrightarrow> changes_wf (c\<lparr>cs_accounts := bt_insert a u (cs_accounts c)\<rparr>)"
proof -
  assume c: "changes_wf c" and u: "update_wf u"
  have "set (bt_insert a u m) \<subseteq> insert (a, u) (set m)" for m :: "(address, AccountUpdate) btree_map"
    by (induction m) (auto split: ordering.splits)
  then show ?thesis using c u by (fastforce simp: changes_wf_def)
qed

lemma changes_wf_update: "changes_wf c \<Longrightarrow> update_of c a = Some u \<Longrightarrow> update_wf u"
  by (force simp: changes_wf_def dest!: map_of_SomeD)

lemma changes_wf_new [simp]: "changes_wf changes_new"
  by (simp add: changes_wf_def changes_new_def)

lemma changes_wf_insert: "changes_wf c \<Longrightarrow> update_wf u \<Longrightarrow> changes_wf (changes_insert a u c)"
  using changes_wf_update [of c a]
  by (auto simp: changes_insert_def split: option.split intro!: changes_wf_put update_wf_merge)

lemma changes_wf_merge:
  assumes "changes_wf c" and "changes_wf c'"
  shows "changes_wf (changes_merge c c')"
proof -
  have "changes_wf c \<Longrightarrow> \<forall>e \<in> set es. update_wf (snd e) \<Longrightarrow>
    changes_wf (fold (\<lambda>(a, u). changes_insert a u) es c)" for es
    by (induction es arbitrary: c) (auto simp: changes_wf_insert)
  from this [OF assms(1), of "cs_accounts c'"] show ?thesis
    using assms(2) by (simp add: changes_merge_def changes_wf_def [of c'])
qed

text \<open>
  A change set \<open>c\<close> follows \<open>b\<close> regularly when it recreates every account that \<open>b\<close> destroyed before
  it touches it again. Merging forgets that an account was destroyed, so it is only for such
  sequences that the merged change set stands for the two.
\<close>

definition update_follows :: "AccountUpdate \<Rightarrow> AccountUpdate \<Rightarrow> bool" where
  "update_follows u u' \<longleftrightarrow> (au_selfdestructed u \<longrightarrow> au_created u' \<or> au_selfdestructed u')"

definition follows :: "ChangeSet \<Rightarrow> ChangeSet \<Rightarrow> bool" where
  "follows b c \<longleftrightarrow>
     list_all (\<lambda>(a, u'). case update_of b a of None \<Rightarrow> True | Some u \<Rightarrow> update_follows u u') (cs_accounts c)"

lemma followsD: "follows b c \<Longrightarrow> update_of b a = Some u \<Longrightarrow> update_of c a = Some u' \<Longrightarrow> update_follows u u'"
  by (auto simp: follows_def list_all_iff dest!: map_of_SomeD [of "cs_accounts c"])

lemma changes_merge_new [simp]: "changes_merge c changes_new = c"
  by (simp add: changes_merge_def changes_new_def)

lemma changes_new_merge:
  assumes "changes_wf c"
  shows "changes_merge changes_new c = c"
proof -
  have "bt_wf (cs_accounts c)" using assms by (simp add: changes_wf_def)
  then have "map_of (cs_accounts (changes_merge changes_new c)) = map_of (cs_accounts c)"
    by (intro ext) (simp add: changes_merge_get changes_new_def split: option.split)
  then show ?thesis
    using assms changes_wf_merge [OF changes_wf_new assms]
    by (intro ChangeSet.equality bt_wf_ext) (auto simp: changes_wf_def)
qed

section \<open>Roots\<close>

text \<open>ASCII bytes of the two namespaces.\<close>

definition KORA_ROOT_NAMESPACE :: bytes where
  "KORA_ROOT_NAMESPACE = ascii ''_KORA_QMDB_ROOT''"

definition KORA_TRANSITION_ROOT_NAMESPACE :: bytes where
  "KORA_TRANSITION_ROOT_NAMESPACE = ascii ''_KORA_STATE_TRANSITION_ROOT''"

definition root_compute :: "externs \<Rightarrow> b256 \<Rightarrow> b256 \<Rightarrow> b256 \<Rightarrow> b256" where
  "root_compute X accounts_root storage_root code_root =
     ex_keccak256 X (KORA_ROOT_NAMESPACE @ to_be_bytes 32 accounts_root @ to_be_bytes 32 storage_root @
       to_be_bytes 32 code_root)"

text \<open>\<open>len() as u64\<close> followed by \<open>to_be_bytes\<close>.\<close>

definition len_bytes :: "nat \<Rightarrow> bytes" where
  "len_bytes n = to_be_bytes 8 (of_nat n :: u64)"

definition transition_code :: "bytes option \<Rightarrow> bytes" where
  "transition_code c =
     (case c of Some code \<Rightarrow> 1 # len_bytes (length code) @ code | None \<Rightarrow> [0])"

definition transition_slot :: "u256 \<times> u256 \<Rightarrow> bytes" where
  "transition_slot e = to_be_bytes 32 (fst e) @ to_be_bytes 32 (snd e)"

definition transition_account :: "address \<times> AccountUpdate \<Rightarrow> bytes" where
  "transition_account e =
     (let u = snd e
      in to_be_bytes 20 (fst e) @ [if au_created u then 1 else 0] @ [if au_selfdestructed u then 1 else 0] @
         to_be_bytes 8 (au_nonce u) @ to_be_bytes 32 (au_balance u) @ to_be_bytes 32 (au_code_hash u) @
         transition_code (au_code u) @ len_bytes (length (au_storage u)) @
         concat (map transition_slot (au_storage u)))"

text \<open>The buffer that is hashed.\<close>

definition transition_preimage :: "b256 \<Rightarrow> ChangeSet \<Rightarrow> bytes" where
  "transition_preimage parent_root changes =
     KORA_TRANSITION_ROOT_NAMESPACE @ to_be_bytes 32 parent_root @ len_bytes (length (cs_accounts changes)) @
     concat (map transition_account (cs_accounts changes))"

definition root_transition :: "externs \<Rightarrow> b256 \<Rightarrow> ChangeSet \<Rightarrow> b256" where
  "root_transition X parent_root changes =
     (if changes_is_empty changes then parent_root else ex_keccak256 X (transition_preimage parent_root changes))"

text \<open>
  The preimage determines the parent root and the changes. Each part is self-delimiting, so two
  equal concatenations have equal first parts.
\<close>

lemma be_bytes_inj [simp]:
  "8 * n = LENGTH('a) \<Longrightarrow> to_be_bytes n (x :: 'a::len word) = to_be_bytes n y \<longleftrightarrow> x = y"
  by (metis from_to_be_bytes)

lemma len_bytes_cancel:
  assumes "m < 2 ^ 64" "n < 2 ^ 64"
  shows "len_bytes m @ r = len_bytes n @ s \<longleftrightarrow> m = n \<and> r = s"
proof -
  have "m = n" if "(of_nat m :: u64) = of_nat n"
    using arg_cong [where f = unat, OF that] assms by (simp add: unat_of_nat)
  then show ?thesis by (auto simp: len_bytes_def)
qed

lemma concat_cancel:
  assumes "\<And>x y r s. x \<in> set xs \<Longrightarrow> y \<in> set ys \<Longrightarrow> f x @ r = f y @ s \<Longrightarrow> x = y \<and> r = s"
    and "length xs = length ys" and "concat (map f xs) @ r = concat (map f ys) @ s"
  shows "xs = ys \<and> r = s"
  using assms
proof (induction xs arbitrary: ys)
  case (Cons x xs)
  then obtain y ys' where ys: "ys = y # ys'" by (cases ys) auto
  have "x = y \<and> concat (map f xs) @ r = concat (map f ys') @ s"
    using Cons.prems by (intro Cons.prems(1)) (auto simp: ys)
  moreover have "a = b \<and> t = u" if "a \<in> set xs" "b \<in> set ys'" "f a @ t = f b @ u" for a b t u
    using that by (intro Cons.prems(1)) (auto simp: ys)
  then have "xs = ys' \<and> r = s" if "concat (map f xs) @ r = concat (map f ys') @ s"
    using Cons.prems(2) that by (intro Cons.IH) (auto simp: ys)
  ultimately show ?case by (simp add: ys)
qed simp

definition update_encodable :: "AccountUpdate \<Rightarrow> bool" where
  "update_encodable u \<longleftrightarrow> length (au_storage u) < 2 ^ 64 \<and>
     (case au_code u of None \<Rightarrow> True | Some c \<Rightarrow> length c < 2 ^ 64)"

definition changes_encodable :: "ChangeSet \<Rightarrow> bool" where
  "changes_encodable c \<longleftrightarrow> length (cs_accounts c) < 2 ^ 64 \<and>
     (\<forall>e \<in> set (cs_accounts c). update_encodable (snd e))"

lemma transition_code_cancel:
  assumes "case c of None \<Rightarrow> True | Some b \<Rightarrow> length b < 2 ^ 64"
    and "case d of None \<Rightarrow> True | Some b \<Rightarrow> length b < 2 ^ 64"
    and "transition_code c @ r = transition_code d @ s"
  shows "c = d \<and> r = s"
  using assms
  by (auto simp: transition_code_def len_bytes_cancel append_eq_append_conv split: option.splits)

lemma transition_slot_cancel: "transition_slot e @ r = transition_slot f @ s \<Longrightarrow> e = f \<and> r = s"
  by (auto simp: transition_slot_def prod_eq_iff)

lemma transition_account_cancel:
  assumes "update_encodable (snd e)" "update_encodable (snd f)"
    and "transition_account e @ r = transition_account f @ s"
  shows "e = f \<and> r = s"
proof -
  let ?u = "snd e" and ?v = "snd f"
  have heads: "fst e = fst f" "au_created ?u = au_created ?v" "au_selfdestructed ?u = au_selfdestructed ?v"
      "au_nonce ?u = au_nonce ?v" "au_balance ?u = au_balance ?v" "au_code_hash ?u = au_code_hash ?v"
    and rest: "transition_code (au_code ?u) @ len_bytes (length (au_storage ?u)) @
        concat (map transition_slot (au_storage ?u)) @ r =
      transition_code (au_code ?v) @ len_bytes (length (au_storage ?v)) @
        concat (map transition_slot (au_storage ?v)) @ s"
    using assms(3) by (auto simp: transition_account_def Let_def split: if_splits)
  from transition_code_cancel [OF _ _ rest] assms(1,2)
  have code: "au_code ?u = au_code ?v"
    and slots: "length (au_storage ?u) = length (au_storage ?v)"
      "concat (map transition_slot (au_storage ?u)) @ r = concat (map transition_slot (au_storage ?v)) @ s"
    by (auto simp: update_encodable_def len_bytes_cancel)
  from concat_cancel [OF _ slots] transition_slot_cancel
  have "au_storage ?u = au_storage ?v \<and> r = s" by blast
  then show ?thesis using heads code by (simp add: prod_eq_iff)
qed

lemma transition_preimage_inj:
  assumes "changes_encodable c" "changes_encodable c'"
    and "transition_preimage p c = transition_preimage p' c'"
  shows "p = p' \<and> c = c'"
proof -
  have p: "p = p'" and len: "length (cs_accounts c) = length (cs_accounts c')"
    and accs: "concat (map transition_account (cs_accounts c)) @ [] =
      concat (map transition_account (cs_accounts c')) @ []"
    using assms by (auto simp: transition_preimage_def len_bytes_cancel changes_encodable_def)
  from concat_cancel [OF _ len accs] transition_account_cancel assms(1,2)
  have "cs_accounts c = cs_accounts c'" unfolding changes_encodable_def by blast
  with p show ?thesis by simp
qed

section \<open>Properties\<close>

text \<open>
  C24: the consensus root of a state transition binds the parent root and every change: two
  non-empty transitions with the same root, each with code and tables shorter than 2 to the 64,
  are the same, or the two buffers that were hashed are different and collide under keccak-256.
\<close>

theorem transition_root_binding:
  assumes "changes_encodable c" and "changes_encodable c'"
    and "\<not> changes_is_empty c" and "\<not> changes_is_empty c'"
    and "root_transition X p c = root_transition X p' c'"
  shows "(p = p' \<and> c = c') \<or>
    (transition_preimage p c \<noteq> transition_preimage p' c' \<and>
     ex_keccak256 X (transition_preimage p c) = ex_keccak256 X (transition_preimage p' c'))"
  using transition_preimage_inj [OF assms(1,2), of p p'] assms(3-5) by (auto simp: root_transition_def)

definition sample_transition :: "u64 \<Rightarrow> ChangeSet" where
  "sample_transition n =
     \<lparr>cs_accounts = [(7, \<lparr>au_created = True, au_selfdestructed = False, au_nonce = n, au_balance = 5, au_code_hash = 0,
       au_code = Some [1], au_storage = [(1, 2)]\<rparr>)]\<rparr>"

text \<open>Under a hash that maps everything to zero, two transitions that differ in a nonce exhibit their collision.\<close>

theorem transition_root_binding_witness:
  "root_transition (sample_externs\<lparr>ex_keccak256 := \<lambda>_. 0\<rparr>) 3 (sample_transition 1) =
     root_transition (sample_externs\<lparr>ex_keccak256 := \<lambda>_. 0\<rparr>) 3 (sample_transition 2) \<and>
   transition_preimage 3 (sample_transition 1) \<noteq> transition_preimage 3 (sample_transition 2)"
proof -
  let ?X = "sample_externs\<lparr>ex_keccak256 := \<lambda>_. 0\<rparr>"
  have enc: "changes_encodable (sample_transition n)" "\<not> changes_is_empty (sample_transition n)" for n
    by (simp_all add: sample_transition_def changes_encodable_def update_encodable_def changes_is_empty_def)
  have eq: "root_transition ?X 3 (sample_transition 1) = root_transition ?X 3 (sample_transition 2)"
    by (simp add: root_transition_def enc(2))
  have "sample_transition 1 \<noteq> sample_transition 2" by (simp add: sample_transition_def)
  with transition_root_binding [OF enc(1) enc(1) enc(2) enc(2) eq] eq show ?thesis by blast
qed

end
