(* ===== verification/State_Db.thy ===== *)
theory State_Db
  imports Qmdb_Changes
begin

text \<open>
  The state database traits (\<open>crates/storage/traits\<close>) as a record of their operations over a
  handle type, and the overlay (\<open>crates/storage/overlay\<close>) that layers a change set over any
  implementation of them. An overlay is itself an implementation.
\<close>

section \<open>The traits\<close>

datatype StateDbError =
    AccountNotFound address
  | CodeNotFound b256
  | Storage string
  | LockPoisoned
  | RootComputation string

text \<open>\<open>Display\<close>, from the \<open>#[error(...)]\<close> attributes.\<close>

fun state_db_error_string :: "externs \<Rightarrow> StateDbError \<Rightarrow> string" where
  "state_db_error_string X (AccountNotFound a) = ''account not found: '' @ ex_display_address X a"
| "state_db_error_string X (CodeNotFound h) = ''code not found: '' @ ex_display_b256 X h"
| "state_db_error_string X (Storage s) = ''storage error: '' @ s"
| "state_db_error_string X LockPoisoned = ''lock poisoned''"
| "state_db_error_string X (RootComputation s) = ''root computation failed: '' @ s"

record 'b state_db =
  sd_nonce :: "'b \<Rightarrow> address \<Rightarrow> StateDbError + u64"
  sd_balance :: "'b \<Rightarrow> address \<Rightarrow> StateDbError + u256"
  sd_code_hash :: "'b \<Rightarrow> address \<Rightarrow> StateDbError + b256"
  sd_code :: "'b \<Rightarrow> b256 \<Rightarrow> StateDbError + bytes"
  sd_storage :: "'b \<Rightarrow> address \<Rightarrow> u256 \<Rightarrow> StateDbError + u256"
  sd_take_commit_failure :: "'b \<Rightarrow> 'b \<times> bool"
  sd_commit :: "ChangeSet \<Rightarrow> 'b \<Rightarrow> 'b \<times> (StateDbError + b256)"
  sd_compute_root :: "ChangeSet \<Rightarrow> 'b \<Rightarrow> 'b \<times> (StateDbError + b256)"
  sd_merge_changes :: "ChangeSet \<Rightarrow> ChangeSet \<Rightarrow> ChangeSet"
  sd_state_root :: "'b \<Rightarrow> StateDbError + b256"

definition account_exists :: "'b state_db \<Rightarrow> 'b \<Rightarrow> address \<Rightarrow> StateDbError + bool" where
  "account_exists D s a =
     (case sd_nonce D s a of
        Inr nonce \<Rightarrow>
          if nonce > 0 then Inr True
          else (case sd_balance D s a of Inl e \<Rightarrow> Inl e | Inr b \<Rightarrow> Inr (b \<noteq> 0))
      | Inl (AccountNotFound _) \<Rightarrow> Inr False
      | Inl e \<Rightarrow> Inl e)"

section \<open>The overlay\<close>

record 'b OverlayState =
  ov_base :: 'b
  ov_changes :: ChangeSet

definition overlay_new :: "'b \<Rightarrow> ChangeSet \<Rightarrow> 'b OverlayState" where
  "overlay_new base changes = \<lparr>ov_base = base, ov_changes = changes\<rparr>"

definition overlay_change_len :: "'b OverlayState \<Rightarrow> nat" where
  "overlay_change_len ov = changes_len (ov_changes ov)"

definition overlay_changes_is_empty :: "'b OverlayState \<Rightarrow> bool" where
  "overlay_changes_is_empty ov = changes_is_empty (ov_changes ov)"

definition overlay_merge_changes :: "'b OverlayState \<Rightarrow> ChangeSet \<Rightarrow> ChangeSet" where
  "overlay_merge_changes ov newer = changes_merge (ov_changes ov) newer"

definition overlay_nonce :: "'b state_db \<Rightarrow> 'b OverlayState \<Rightarrow> address \<Rightarrow> StateDbError + u64" where
  "overlay_nonce D ov a =
     (case update_of (ov_changes ov) a of
        Some update \<Rightarrow> Inr (au_nonce update)
      | None \<Rightarrow> sd_nonce D (ov_base ov) a)"

definition overlay_balance :: "'b state_db \<Rightarrow> 'b OverlayState \<Rightarrow> address \<Rightarrow> StateDbError + u256" where
  "overlay_balance D ov a =
     (case update_of (ov_changes ov) a of
        Some update \<Rightarrow> Inr (au_balance update)
      | None \<Rightarrow> sd_balance D (ov_base ov) a)"

definition overlay_code_hash :: "'b state_db \<Rightarrow> 'b OverlayState \<Rightarrow> address \<Rightarrow> StateDbError + b256" where
  "overlay_code_hash D ov a =
     (case update_of (ov_changes ov) a of
        Some update \<Rightarrow> Inr (au_code_hash update)
      | None \<Rightarrow> sd_code_hash D (ov_base ov) a)"

text \<open>The loop over the updates in address order, which stops at the first with the code.\<close>

fun find_code :: "b256 \<Rightarrow> (address, AccountUpdate) btree_map \<Rightarrow> bytes option" where
  "find_code h [] = None"
| "find_code h ((a, update) # rest) =
     (if au_code_hash update = h
      then (case au_code update of Some code \<Rightarrow> Some code | None \<Rightarrow> find_code h rest)
      else find_code h rest)"

definition overlay_code :: "'b state_db \<Rightarrow> 'b OverlayState \<Rightarrow> b256 \<Rightarrow> StateDbError + bytes" where
  "overlay_code D ov h =
     (case find_code h (cs_accounts (ov_changes ov)) of
        Some code \<Rightarrow> Inr code
      | None \<Rightarrow> sd_code D (ov_base ov) h)"

definition overlay_storage ::
    "'b state_db \<Rightarrow> 'b OverlayState \<Rightarrow> address \<Rightarrow> u256 \<Rightarrow> StateDbError + u256" where
  "overlay_storage D ov a slot =
     (case update_of (ov_changes ov) a of
        None \<Rightarrow> sd_storage D (ov_base ov) a slot
      | Some update \<Rightarrow>
          if au_selfdestructed update then Inr 0
          else (case bt_get (au_storage update) slot of
                  Some v \<Rightarrow> Inr v
                | None \<Rightarrow>
                    if au_created update then Inr 0 else sd_storage D (ov_base ov) a slot))"

definition overlay_commit ::
    "'b state_db \<Rightarrow> ChangeSet \<Rightarrow> 'b OverlayState \<Rightarrow> 'b OverlayState \<times> (StateDbError + b256)" where
  "overlay_commit D changes ov =
     (case sd_commit D (changes_merge (ov_changes ov) changes) (ov_base ov) of
        (base, r) \<Rightarrow> (ov\<lparr>ov_base := base\<rparr>, r))"

definition overlay_compute_root ::
    "'b state_db \<Rightarrow> ChangeSet \<Rightarrow> 'b OverlayState \<Rightarrow> 'b OverlayState \<times> (StateDbError + b256)" where
  "overlay_compute_root D changes ov =
     (case sd_compute_root D (changes_merge (ov_changes ov) changes) (ov_base ov) of
        (base, r) \<Rightarrow> (ov\<lparr>ov_base := base\<rparr>, r))"

text \<open>\<open>take_commit_failure\<close> keeps its default in the overlay.\<close>

definition overlay_db :: "'b state_db \<Rightarrow> 'b OverlayState state_db" where
  "overlay_db D =
     \<lparr>sd_nonce = overlay_nonce D, sd_balance = overlay_balance D, sd_code_hash = overlay_code_hash D,
      sd_code = overlay_code D, sd_storage = overlay_storage D,
      sd_take_commit_failure = (\<lambda>ov. (ov, False)),
      sd_commit = overlay_commit D, sd_compute_root = overlay_compute_root D,
      sd_merge_changes = sd_merge_changes D, sd_state_root = (\<lambda>ov. sd_state_root D (ov_base ov))\<rparr>"

lemmas overlay_reads =
  overlay_nonce_def overlay_balance_def overlay_code_hash_def overlay_storage_def

section \<open>Stacked overlays\<close>

text \<open>Reads that two databases answer alike: everything but code, which is looked up by hash.\<close>

definition same_reads :: "'b state_db \<Rightarrow> 'b \<Rightarrow> 'c state_db \<Rightarrow> 'c \<Rightarrow> address \<Rightarrow> bool" where
  "same_reads D s E t a \<longleftrightarrow>
     sd_nonce D s a = sd_nonce E t a \<and> sd_balance D s a = sd_balance E t a \<and>
     sd_code_hash D s a = sd_code_hash E t a \<and> sd_storage D s a = sd_storage E t a"

lemma overlay_empty: "same_reads (overlay_db D) (overlay_new s changes_new) D s a"
  by (simp add: same_reads_def overlay_db_def overlay_reads overlay_new_def changes_new_def fun_eq_iff)

text \<open>
  An overlay that already contains a change set reads the same whether or not its base has
  absorbed that change set.
\<close>

definition covers :: "ChangeSet \<Rightarrow> ChangeSet \<Rightarrow> address \<Rightarrow> bool" where
  "covers c d a \<longleftrightarrow>
     (\<forall>u. update_of c a = Some u \<longrightarrow>
        (\<exists>w. update_of d a = Some w \<and>
           (au_selfdestructed w \<or> au_created w \<or>
            (\<not> au_created u \<and> (\<forall>k. bt_get (au_storage w) k = None \<longrightarrow> bt_get (au_storage u) k = None)))))"

lemma covers_refl: "covers c c a"
  by (auto simp: covers_def)

lemma covers_merge:
  assumes "covers c d a" and "changes_wf x" and "follows d x"
  shows "covers c (changes_merge d x) a"
proof -
  have bt: "bt_wf (cs_accounts x)" using assms(2) by (simp add: changes_wf_def)
  note get = changes_merge_get [OF bt, of d a]
  show ?thesis
  proof (cases "update_of x a")
    case None
    then show ?thesis using assms(1) by (simp add: covers_def get)
  next
    case (Some ux)
    have wf: "update_wf ux" using changes_wf_update [OF assms(2) Some] .
    show ?thesis unfolding covers_def
    proof (intro allI impI)
      fix u assume u: "update_of c a = Some u"
      with assms(1) obtain w where w: "update_of d a = Some w" and
        c: "au_selfdestructed w \<or> au_created w \<or>
          (\<not> au_created u \<and> (\<forall>k. bt_get (au_storage w) k = None \<longrightarrow> bt_get (au_storage u) k = None))"
        unfolding covers_def by blast
      have "update_follows w ux" using followsD [OF assms(3) w Some] .
      with c have "au_selfdestructed (merge_update w ux) \<or> au_created (merge_update w ux) \<or>
          (\<not> au_created u \<and> (\<forall>k. bt_get (au_storage (merge_update w ux)) k = None \<longrightarrow> bt_get (au_storage u) k = None))"
        by (auto simp: update_follows_def merge_update_storage [OF wf] split: option.splits)
      then show "\<exists>w'. update_of (changes_merge d x) a = Some w' \<and>
          (au_selfdestructed w' \<or> au_created w' \<or>
           (\<not> au_created u \<and> (\<forall>k. bt_get (au_storage w') k = None \<longrightarrow> bt_get (au_storage u) k = None)))"
        using w Some by (simp add: get)
    qed
  qed
qed

lemma overlay_absorbs:
  assumes "covers c d a" and "\<forall>u. update_of c a = Some u \<longrightarrow> \<not> au_selfdestructed u"
  shows "same_reads (overlay_db (overlay_db D)) (overlay_new (overlay_new s c) d) (overlay_db D) (overlay_new s d) a"
proof (cases "update_of c a")
  case None
  then show ?thesis
    by (simp add: same_reads_def overlay_db_def overlay_reads overlay_new_def fun_eq_iff
        cong: option.case_cong if_cong)
next
  case (Some u)
  then obtain w where w: "update_of d a = Some w" and
    c: "au_selfdestructed w \<or> au_created w \<or>
      (\<not> au_created u \<and> (\<forall>k. bt_get (au_storage w) k = None \<longrightarrow> bt_get (au_storage u) k = None))"
    using assms(1) unfolding covers_def by blast
  have "\<not> au_selfdestructed u" using assms(2) Some by blast
  then show ?thesis using c
    by (auto simp: same_reads_def overlay_db_def overlay_reads overlay_new_def fun_eq_iff w Some split: option.split)
qed

lemma overlay_same_base:
  assumes "same_reads D s E t a"
  shows "same_reads (overlay_db D) (overlay_new s c) (overlay_db E) (overlay_new t c) a"
  using assms
  by (simp add: same_reads_def overlay_db_def overlay_reads overlay_new_def fun_eq_iff cong: option.case_cong if_cong)

lemma same_reads_sym: "same_reads D s E t a \<Longrightarrow> same_reads E t D s a"
  by (simp add: same_reads_def)

lemma same_reads_trans: "same_reads D s E t a \<Longrightarrow> same_reads E t F u a \<Longrightarrow> same_reads D s F u a"
  by (simp add: same_reads_def)

text \<open>A database with a single account, for concrete instances.\<close>

definition sample_db :: "unit state_db" where
  "sample_db =
     \<lparr>sd_nonce = (\<lambda>_ a. if a = 7 then Inr 1 else Inl (AccountNotFound a)),
      sd_balance = (\<lambda>_ a. if a = 7 then Inr 100 else Inl (AccountNotFound a)),
      sd_code_hash = (\<lambda>_ a. if a = 7 then Inr 0 else Inl (AccountNotFound a)),
      sd_code = (\<lambda>_ h. Inl (CodeNotFound h)), sd_storage = (\<lambda>_ a k. Inr (if a = 7 \<and> k = 3 then 9 else 0)),
      sd_take_commit_failure = (\<lambda>s. (s, False)), sd_commit = (\<lambda>_ s. (s, Inr 0)),
      sd_compute_root = (\<lambda>_ s. (s, Inr 0)), sd_merge_changes = changes_merge,
      sd_state_root = (\<lambda>_. Inr 0)\<rparr>"

text \<open>
  C25: a stack of two overlays reads nonce, balance, code hash and storage like one overlay with the
  merged changes, whenever the newer change set creates or destroys again every account that it touches and
  the older one destroyed. Without that condition the two differ; reads of code by its hash are not covered.
\<close>

theorem overlay_stack_merge:
  assumes "changes_wf c" and "changes_wf c'" and "follows c c'"
  shows "same_reads (overlay_db (overlay_db D)) (overlay_new (overlay_new s c) c')
    (overlay_db D) (overlay_new s (overlay_merge_changes (overlay_new s c) c')) a"
proof -
  have bt: "bt_wf (cs_accounts c')" using assms(2) by (simp add: changes_wf_def)
  note get = changes_merge_get [OF bt, of c a]
  show ?thesis
  proof (cases "update_of c' a")
    case None
    then show ?thesis
      by (cases "update_of c a")
        (simp_all add: same_reads_def overlay_db_def overlay_reads overlay_new_def overlay_merge_changes_def
          get fun_eq_iff cong: option.case_cong if_cong)
  next
    case u': (Some u')
    have wf: "update_wf u'" using changes_wf_update [OF assms(2) u'] .
    show ?thesis
    proof (cases "update_of c a")
      case None
      then show ?thesis
        by (simp add: same_reads_def overlay_db_def overlay_reads overlay_new_def overlay_merge_changes_def
            get u' fun_eq_iff cong: option.case_cong if_cong)
    next
      case (Some u)
      have "update_follows u u'" using followsD [OF assms(3) Some u'] .
      then show ?thesis
        by (auto simp: same_reads_def overlay_db_def overlay_reads overlay_new_def overlay_merge_changes_def
            get u' Some fun_eq_iff merge_update_storage [OF wf] update_follows_def split: option.split)
    qed
  qed
qed

theorem overlay_stack_merge_witness:
  "let u = \<lparr>au_created = False, au_selfdestructed = False, au_nonce = 1, au_balance = 5, au_code_hash = 0,
            au_code = None, au_storage = [(1, 2)]\<rparr>;
       c = \<lparr>cs_accounts = [(7, u)]\<rparr>; c' = \<lparr>cs_accounts = [(7, u\<lparr>au_nonce := 2, au_storage := [(3, 4)]\<rparr>)]\<rparr>
   in same_reads (overlay_db (overlay_db sample_db)) (overlay_new (overlay_new () c) c')
        (overlay_db sample_db) (overlay_new () (overlay_merge_changes (overlay_new () c) c')) 7"
  unfolding Let_def
  by (rule overlay_stack_merge) (simp_all add: changes_wf_def update_wf_def follows_def update_follows_def)

text \<open>
  Without that condition the merged changes lose a destruction: when the older change set
  destroys an account and the newer one touches it without creating it, the stack reads zero in
  every slot while the merged change set reads the storage from before the destruction.
\<close>

theorem merge_forgets_destruction:
  assumes "changes_wf c'" and "update_of c a = Some u" and "update_of c' a = Some u'"
    and "au_selfdestructed u" and "\<not> au_created u" and "bt_get (au_storage u) slot = None"
    and "\<not> au_selfdestructed u'" and "\<not> au_created u'" and "bt_get (au_storage u') slot = None"
  shows "overlay_storage (overlay_db D) (overlay_new (overlay_new s c) c') a slot = Inr 0 \<and>
    overlay_storage D (overlay_new s (overlay_merge_changes (overlay_new s c) c')) a slot =
      sd_storage D s a slot"
proof -
  have "bt_wf (cs_accounts c')" "update_wf u'"
    using assms(1) changes_wf_update [OF assms(1,3)] by (simp_all add: changes_wf_def)
  then show ?thesis
    using assms
    by (simp add: overlay_storage_def overlay_db_def overlay_new_def overlay_merge_changes_def
        changes_merge_get merge_update_storage)
qed

theorem merge_forgets_destruction_witness:
  "let u = \<lparr>au_created = False, au_selfdestructed = True, au_nonce = 0, au_balance = 0, au_code_hash = 0,
            au_code = None, au_storage = []\<rparr>;
       c = \<lparr>cs_accounts = [(7, u)]\<rparr>;
       c' = \<lparr>cs_accounts = [(7, u\<lparr>au_selfdestructed := False, au_balance := 1\<rparr>)]\<rparr>
   in overlay_storage (overlay_db sample_db) (overlay_new (overlay_new () c) c') 7 3 = Inr 0 \<and>
      overlay_storage sample_db (overlay_new () (overlay_merge_changes (overlay_new () c) c')) 7 3 = Inr 9"
proof -
  let ?u = "\<lparr>au_created = False, au_selfdestructed = True, au_nonce = 0, au_balance = 0, au_code_hash = 0,
            au_code = None, au_storage = []\<rparr>"
  let ?c = "\<lparr>cs_accounts = [(7, ?u)]\<rparr>"
  let ?c' = "\<lparr>cs_accounts = [(7, ?u\<lparr>au_selfdestructed := False, au_balance := 1\<rparr>)]\<rparr>"
  have "sd_storage sample_db () 7 3 = Inr 9" by (simp add: sample_db_def)
  with merge_forgets_destruction [of ?c' ?c 7 ?u _ 3 sample_db "()"] show ?thesis
    by (simp add: changes_wf_def update_wf_def Let_def)
qed

end
