(* ===== verification/Txpool_Validator.thy ===== *)
theory Txpool_Validator
  imports Txpool_Pool State_Db
begin

text \<open>
  Admission checks of \<open>crates/node/txpool/src/validator.rs\<close>: the checks a raw transaction passes
  against the configuration, the chain state and the pool before it becomes a validated
  transaction.
\<close>

section \<open>Gas and cost\<close>

definition TX_BASE_GAS :: u64 where "TX_BASE_GAS = 21000"
definition TX_DATA_ZERO_GAS :: u64 where "TX_DATA_ZERO_GAS = 4"
definition TX_DATA_NON_ZERO_GAS :: u64 where "TX_DATA_NON_ZERO_GAS = 16"
definition TX_CREATE_GAS :: u64 where "TX_CREATE_GAS = 32000"
definition TX_ACCESS_LIST_ADDRESS_GAS :: u64 where "TX_ACCESS_LIST_ADDRESS_GAS = 2400"
definition TX_ACCESS_LIST_STORAGE_KEY_GAS :: u64 where "TX_ACCESS_LIST_STORAGE_KEY_GAS = 1900"

lemmas gas_constants =
  TX_BASE_GAS_def TX_DATA_ZERO_GAS_def TX_DATA_NON_ZERO_GAS_def TX_CREATE_GAS_def
  TX_ACCESS_LIST_ADDRESS_GAS_def TX_ACCESS_LIST_STORAGE_KEY_GAS_def

definition access_list_gas_cost :: "access_list \<Rightarrow> u64" where
  "access_list_gas_cost al =
     fold (\<lambda>item gas. gas + TX_ACCESS_LIST_ADDRESS_GAS +
       of_nat (length (snd item)) * TX_ACCESS_LIST_STORAGE_KEY_GAS) al 0"

fun envelope_access_list_gas :: "TxEnvelope \<Rightarrow> u64" where
  "envelope_access_list_gas (Legacy c s p) = 0"
| "envelope_access_list_gas (Eip2930 c s p al) = access_list_gas_cost al"
| "envelope_access_list_gas (Eip1559 c s p al) = access_list_gas_cost al"
| "envelope_access_list_gas (Eip4844 c s p al) = access_list_gas_cost al"
| "envelope_access_list_gas (Eip7702 c s p al) = access_list_gas_cost al"

definition intrinsic_gas :: "TxEnvelope \<Rightarrow> u64" where
  "intrinsic_gas e =
     (let gas = TX_BASE_GAS;
          gas = fold (\<lambda>byte gas. if byte = 0 then gas + TX_DATA_ZERO_GAS else gas + TX_DATA_NON_ZERO_GAS)
                  (tc_input (env_common e)) gas;
          gas = (if tc_to (env_common e) = None then gas + TX_CREATE_GAS else gas)
      in gas + envelope_access_list_gas e)"

text \<open>The operators of \<open>U256\<close> wrap.\<close>

definition max_tx_cost :: "TxEnvelope \<Rightarrow> u256" where
  "max_tx_cost e =
     ucast (tc_gas_limit (env_common e)) * ucast (effective_gas_price e) + tc_value (env_common e)"

section \<open>Validation\<close>

record ValidatedTransaction =
  vt_hash :: b256
  vt_sender :: address
  vt_nonce :: u64
  vt_gas_limit :: u64
  vt_effective_gas_price :: u128
  vt_max_cost :: u256
  vt_envelope :: TxEnvelope
  vt_raw :: Tx

record 's TransactionValidator =
  tv_chain_id :: u64
  tv_state :: 's
  tv_config :: PoolConfig
  tv_pool :: "TransactionPool option"

definition validator_new :: "u64 \<Rightarrow> 's \<Rightarrow> PoolConfig \<Rightarrow> 's TransactionValidator" where
  "validator_new chain_id state config =
     \<lparr>tv_chain_id = chain_id, tv_state = state, tv_config = config, tv_pool = None\<rparr>"

definition with_pool :: "TransactionPool \<Rightarrow> 's TransactionValidator \<Rightarrow> 's TransactionValidator" where
  "with_pool pool v = v\<lparr>tv_pool := Some pool\<rparr>"

text \<open>The checks from the nonce on, with the sender already recovered.\<close>

definition validate_state :: "externs \<Rightarrow> 's state_db \<Rightarrow> 's TransactionValidator \<Rightarrow> address \<Rightarrow> b256 \<Rightarrow>
    TxEnvelope \<Rightarrow> Tx \<Rightarrow> TxPoolError + ValidatedTransaction" where
  "validate_state X D v sender h envelope tx =
     (let nonce = tc_nonce (env_common envelope)
      in case sd_nonce D (tv_state v) sender of
           Inl e \<Rightarrow> Inl (StateError (state_db_error_string X e))
         | Inr state_nonce \<Rightarrow>
             if nonce < state_nonce then Inl (NonceTooLow nonce state_nonce)
             else if nonce > saturating_add state_nonce (of_nat (max_txs_per_sender (tv_config v)))
             then Inl (NonceGap nonce state_nonce)
             else if (case tv_pool v of None \<Rightarrow> False | Some pool \<Rightarrow> has_nonce sender nonce pool)
             then Inl (NonceAlreadyInPool sender nonce)
             else
               (let max_cost = max_tx_cost envelope
                in case sd_balance D (tv_state v) sender of
                     Inl e \<Rightarrow> Inl (StateError (state_db_error_string X e))
                   | Inr balance \<Rightarrow>
                       if balance < max_cost then Inl (InsufficientBalance max_cost balance)
                       else Inr \<lparr>vt_hash = h, vt_sender = sender, vt_nonce = nonce,
                                 vt_gas_limit = tc_gas_limit (env_common envelope),
                                 vt_effective_gas_price = effective_gas_price envelope,
                                 vt_max_cost = max_cost, vt_envelope = envelope, vt_raw = tx\<rparr>))"

definition validate ::
    "externs \<Rightarrow> 's state_db \<Rightarrow> 's TransactionValidator \<Rightarrow> Tx \<Rightarrow> TxPoolError + ValidatedTransaction" where
  "validate X D v tx =
     (if length (tx_bytes tx) > max_tx_size (tv_config v)
      then Inl (TxTooLarge (length (tx_bytes tx)) (max_tx_size (tv_config v)))
      else case ex_decode_2718 X (tx_bytes tx) of
             Inl e \<Rightarrow> Inl (DecodeError e)
           | Inr envelope \<Rightarrow>
               (let tx_chain_id = (case tc_chain_id (env_common envelope) of
                                     Some c \<Rightarrow> c | None \<Rightarrow> tv_chain_id v)
                in if tx_chain_id \<noteq> tv_chain_id v
                   then Inl (InvalidChainId tx_chain_id (tv_chain_id v))
                   else case recover_sender_and_hash X envelope of
                          Inl e \<Rightarrow> Inl e
                        | Inr (sender, h) \<Rightarrow>
                            if effective_gas_price envelope < min_gas_price (tv_config v)
                            then Inl (GasPriceTooLow (effective_gas_price envelope) (min_gas_price (tv_config v)))
                            else if tc_gas_limit (env_common envelope) < intrinsic_gas envelope
                            then Inl (IntrinsicGasTooLow (tc_gas_limit (env_common envelope))
                                        (intrinsic_gas envelope))
                            else validate_state X D v sender h envelope tx))"

definition into_ordered :: "ValidatedTransaction \<Rightarrow> u64 \<Rightarrow> OrderedTransaction" where
  "into_ordered vt timestamp =
     ot_new (vt_hash vt) (vt_sender vt) (vt_nonce vt) (vt_effective_gas_price vt) timestamp (vt_envelope vt)"

section \<open>Exact arithmetic\<close>

lemma fold_add_word:
  "fold (\<lambda>x acc. acc + f x) xs (a :: 'a::len word) = a + sum_list (map f xs)"
  by (induction xs arbitrary: a) (simp_all add: add.assoc)

lemma sum_list_of_nat: "sum_list (map (\<lambda>x. of_nat (f x)) xs) = (of_nat (sum_list (map f xs)) :: 'a::len word)"
  by (induction xs) simp_all

text \<open>The gas of the yellow paper, in unbounded arithmetic.\<close>

definition data_gas_nat :: "bytes \<Rightarrow> nat" where
  "data_gas_nat input = sum_list (map (\<lambda>b. if b = 0 then 4 else 16) input)"

definition access_gas_nat :: "access_list \<Rightarrow> nat" where
  "access_gas_nat al = sum_list (map (\<lambda>item. 2400 + 1900 * length (snd item)) al)"

fun envelope_access_list :: "TxEnvelope \<Rightarrow> access_list" where
  "envelope_access_list (Legacy c s p) = []"
| "envelope_access_list (Eip2930 c s p al) = al"
| "envelope_access_list (Eip1559 c s p al) = al"
| "envelope_access_list (Eip4844 c s p al) = al"
| "envelope_access_list (Eip7702 c s p al) = al"

definition intrinsic_gas_nat :: "TxEnvelope \<Rightarrow> nat" where
  "intrinsic_gas_nat e =
     21000 + data_gas_nat (tc_input (env_common e)) +
     (if tc_to (env_common e) = None then 32000 else 0) + access_gas_nat (envelope_access_list e)"

definition cost_nat :: "TxEnvelope \<Rightarrow> nat" where
  "cost_nat e = unat (tc_gas_limit (env_common e)) * unat (effective_gas_price e) +
     unat (tc_value (env_common e))"

lemma mod_wrap_less: "a < M \<Longrightarrow> v < M \<Longrightarrow> M \<le> a + v \<Longrightarrow> (a + v) mod M < a" for a v M :: nat
  by (simp add: mod_if) arith

lemma access_list_gas_of_nat: "access_list_gas_cost al = of_nat (access_gas_nat al)"
proof -
  have "access_list_gas_cost al =
      fold (\<lambda>item gas. gas + (of_nat (2400 + 1900 * length (snd item)) :: u64)) al 0"
    unfolding access_list_gas_cost_def gas_constants
    by (intro fold_cong refl ext) (simp add: algebra_simps)
  then show ?thesis by (simp add: fold_add_word sum_list_of_nat access_gas_nat_def del: of_nat_add)
qed

lemma envelope_access_list_gas_of_nat:
  "envelope_access_list_gas e = of_nat (access_gas_nat (envelope_access_list e))"
  by (cases e) (simp_all add: access_list_gas_of_nat access_gas_nat_def)

lemma intrinsic_gas_of_nat: "intrinsic_gas e = of_nat (intrinsic_gas_nat e)"
proof -
  have "fold (\<lambda>byte gas. if byte = 0 then gas + TX_DATA_ZERO_GAS else gas + TX_DATA_NON_ZERO_GAS) input
      TX_BASE_GAS = fold (\<lambda>byte gas. gas + (of_nat (if byte = 0 then 4 else 16) :: u64)) input 21000" for input :: bytes
    unfolding gas_constants by (intro fold_cong refl ext) simp
  also have "\<dots> input = of_nat (21000 + data_gas_nat input)" for input
    unfolding fold_add_word data_gas_nat_def sum_list_of_nat by simp
  finally show ?thesis
    by (simp add: intrinsic_gas_def intrinsic_gas_nat_def Let_def envelope_access_list_gas_of_nat
        TX_CREATE_GAS_def)
qed

section \<open>Properties\<close>

text \<open>The decision of \<open>validate\<close>, over the machine arithmetic of the code.\<close>

lemma validate_iff:
  "validate X D v tx = Inr vt \<longleftrightarrow>
    length (tx_bytes tx) \<le> max_tx_size (tv_config v) \<and>
    ex_decode_2718 X (tx_bytes tx) = Inr (vt_envelope vt) \<and>
    tc_chain_id (env_common (vt_envelope vt)) \<in> {None, Some (tv_chain_id v)} \<and>
    recover_sender_and_hash X (vt_envelope vt) = Inr (vt_sender vt, vt_hash vt) \<and>
    min_gas_price (tv_config v) \<le> effective_gas_price (vt_envelope vt) \<and>
    intrinsic_gas (vt_envelope vt) \<le> tc_gas_limit (env_common (vt_envelope vt)) \<and>
    (\<exists>n. sd_nonce D (tv_state v) (vt_sender vt) = Inr n \<and> n \<le> vt_nonce vt \<and>
       vt_nonce vt \<le> saturating_add n (of_nat (max_txs_per_sender (tv_config v)))) \<and>
    \<not> (\<exists>pool. tv_pool v = Some pool \<and> has_nonce (vt_sender vt) (vt_nonce vt) pool) \<and>
    (\<exists>b. sd_balance D (tv_state v) (vt_sender vt) = Inr b \<and> vt_max_cost vt \<le> b) \<and>
    vt = \<lparr>vt_hash = vt_hash vt, vt_sender = vt_sender vt, vt_nonce = tc_nonce (env_common (vt_envelope vt)),
          vt_gas_limit = tc_gas_limit (env_common (vt_envelope vt)),
          vt_effective_gas_price = effective_gas_price (vt_envelope vt),
          vt_max_cost = max_tx_cost (vt_envelope vt), vt_envelope = vt_envelope vt, vt_raw = tx\<rparr>"
  (is "?l \<longleftrightarrow> ?r")
proof
  assume ?l
  then show ?r
    unfolding validate_def validate_state_def Let_def
    by (auto simp: not_less split: if_splits sum.splits prod.splits option.splits)
next
  assume ?r
  then obtain n b where n: "sd_nonce D (tv_state v) (vt_sender vt) = Inr n"
    and b: "sd_balance D (tv_state v) (vt_sender vt) = Inr b" by blast
  from \<open>?r\<close> have "vt_nonce vt = tc_nonce (env_common (vt_envelope vt))"
    "vt_max_cost vt = max_tx_cost (vt_envelope vt)"
    by (metis ValidatedTransaction.select_convs(3), metis ValidatedTransaction.select_convs(6))
  with \<open>?r\<close> n b show ?l
    unfolding validate_def validate_state_def Let_def
    by (auto simp: not_less split: option.split)
qed

text \<open>
  The gas computed in 64-bit arithmetic is the intrinsic gas, as long as that gas itself
  fits in 64 bits.
\<close>

theorem intrinsic_gas_exact:
  assumes "intrinsic_gas_nat e < 2 ^ 64"
  shows "unat (intrinsic_gas e) = intrinsic_gas_nat e"
  using assms by (simp add: intrinsic_gas_of_nat unat_of_nat)

theorem intrinsic_gas_exact_witness:
  "unat (intrinsic_gas (Eip1559 \<lparr>tc_chain_id = Some 1, tc_nonce = 0, tc_gas_limit = 100000, tc_to = None,
       tc_value = 0, tc_input = [0, 1, 2]\<rparr> \<lparr>sig_r = 1, sig_s = 1, sig_v = False\<rparr> 5 [(7, [1, 2])])) = 59236"
  using intrinsic_gas_exact [of "Eip1559 \<lparr>tc_chain_id = Some 1, tc_nonce = 0, tc_gas_limit = 100000,
       tc_to = None, tc_value = 0, tc_input = [0, 1, 2]\<rparr> \<lparr>sig_r = 1, sig_s = 1, sig_v = False\<rparr> 5 [(7, [1, 2])]"]
  by (simp add: intrinsic_gas_nat_def data_gas_nat_def access_gas_nat_def)

text \<open>
  The cost that is compared with the balance is the true cost modulo \<open>2^256\<close>: when gas and
  value together exceed \<open>2^256\<close> the comparison is with less than the gas alone.
\<close>

theorem max_tx_cost_wraps:
  "unat (max_tx_cost e) = cost_nat e mod 2 ^ 256 \<and>
    (2 ^ 256 \<le> cost_nat e \<longrightarrow>
       unat (max_tx_cost e) < unat (tc_gas_limit (env_common e)) * unat (effective_gas_price e))"
proof -
  let ?g = "unat (tc_gas_limit (env_common e))" and ?p = "unat (effective_gas_price e)"
    and ?v = "unat (tc_value (env_common e))"
  have cost: "unat (max_tx_cost e) = (?g * ?p + ?v) mod 2 ^ 256"
    by (simp add: max_tx_cost_def unat_word_ariths unsigned_ucast_eq take_bit_eq_mod mod_simps)
  have "?g < 2 ^ 64" "?p < 2 ^ 128" "?v < 2 ^ 256"
    using unsigned_less [where w = "tc_gas_limit (env_common e)"]
      unsigned_less [where w = "effective_gas_price e"] unsigned_less [where w = "tc_value (env_common e)"]
    by simp_all
  moreover from this have "?g * ?p < 2 ^ 64 * 2 ^ 128" by (intro mult_strict_mono) simp_all
  ultimately have "?g * ?p < 2 ^ 256" "?v < 2 ^ 256" by simp_all
  then have "(?g * ?p + ?v) mod 2 ^ 256 < ?g * ?p" if "2 ^ 256 \<le> ?g * ?p + ?v"
    using that by (rule mod_wrap_less)
  with cost show ?thesis unfolding cost_nat_def by simp
qed

theorem max_tx_cost_wraps_witness:
  "let e = Legacy \<lparr>tc_chain_id = Some 1, tc_nonce = 0, tc_gas_limit = 21000, tc_to = Some 1, tc_value = - 1,
             tc_input = []\<rparr> \<lparr>sig_r = 1, sig_s = 1, sig_v = False\<rparr> 1
   in unat (max_tx_cost e) < 21000"
  using max_tx_cost_wraps [of "Legacy \<lparr>tc_chain_id = Some 1, tc_nonce = 0, tc_gas_limit = 21000,
      tc_to = Some 1, tc_value = - 1, tc_input = []\<rparr> \<lparr>sig_r = 1, sig_s = 1, sig_v = False\<rparr> 1"]
  by (simp add: cost_nat_def unsigned_minus_1_eq_mask mask_eq_exp_minus_1)

text \<open>The nonce window in unbounded arithmetic.\<close>

lemma nonce_window:
  fixes n k :: u64
  assumes "m < 2 ^ 64"
  shows "k \<le> saturating_add n (of_nat m) \<longleftrightarrow> unat k \<le> unat n + m"
  using assms unat_u64_less [of k] by (auto simp: word_le_nat_alt unat_saturating_add unat_of_nat)

text \<open>
  The Ethereum admission rule, with unbounded gas and cost: the envelope pays its intrinsic gas, its sender can pay gas
  and value, its nonce lies in the window above the nonce of the account.
\<close>

definition admission_ok :: "externs \<Rightarrow> 's state_db \<Rightarrow> 's TransactionValidator \<Rightarrow> TxEnvelope \<Rightarrow> address \<Rightarrow> bool" where
  "admission_ok X D v e sender \<longleftrightarrow>
     tc_chain_id (env_common e) \<in> {None, Some (tv_chain_id v)} \<and>
     min_gas_price (tv_config v) \<le> effective_gas_price e \<and>
     intrinsic_gas_nat e \<le> unat (tc_gas_limit (env_common e)) \<and>
     (\<exists>n. sd_nonce D (tv_state v) sender = Inr n \<and> unat n \<le> unat (tc_nonce (env_common e)) \<and>
        unat (tc_nonce (env_common e)) \<le> unat n + max_txs_per_sender (tv_config v)) \<and>
     (case tv_pool v of None \<Rightarrow> True | Some pool \<Rightarrow> \<not> has_nonce sender (tc_nonce (env_common e)) pool) \<and>
     (\<exists>b. sd_balance D (tv_state v) sender = Inr b \<and> cost_nat e \<le> unat b)"

text \<open>
  C30: a transaction is accepted exactly when its bytes are within the size limit, it decodes, its
  signature recovers, and it is admission_ok: chain, minimum price, nonce window, no pooled transaction
  of the nonce, and, in exact arithmetic, the intrinsic gas (base, data, creation and access list) is
  within the gas limit and the balance covers gas limit times price plus value. The hypotheses are
  that the intrinsic gas of the envelope fits 64 bits, its cost 256 bits, and the per-sender limit 64 bits.
\<close>

theorem validate_exact:
  assumes "ex_decode_2718 X (tx_bytes tx) = Inr e"
    and "intrinsic_gas_nat e < 2 ^ 64" and "cost_nat e < 2 ^ 256" and "max_txs_per_sender (tv_config v) < 2 ^ 64"
  shows "(\<exists>vt. validate X D v tx = Inr vt) \<longleftrightarrow>
    length (tx_bytes tx) \<le> max_tx_size (tv_config v) \<and>
    (\<exists>sender h. recover_sender_and_hash X e = Inr (sender, h) \<and> admission_ok X D v e sender)"
proof -
  let ?vt = "\<lambda>sender h. \<lparr>vt_hash = h, vt_sender = sender, vt_nonce = tc_nonce (env_common e),
      vt_gas_limit = tc_gas_limit (env_common e), vt_effective_gas_price = effective_gas_price e,
      vt_max_cost = max_tx_cost e, vt_envelope = e, vt_raw = tx\<rparr>"
  have gas: "unat (intrinsic_gas e) = intrinsic_gas_nat e" by (rule intrinsic_gas_exact [OF assms(2)])
  have cost: "unat (max_tx_cost e) = cost_nat e" using max_tx_cost_wraps [of e] assms(3) by simp
  have adm: "validate X D v tx = Inr (?vt sender h) \<longleftrightarrow> length (tx_bytes tx) \<le> max_tx_size (tv_config v) \<and>
      recover_sender_and_hash X e = Inr (sender, h) \<and> admission_ok X D v e sender" for sender h
    unfolding validate_iff admission_ok_def nonce_window [OF assms(4)]
    by (auto simp: assms(1) gas cost word_le_nat_alt split: option.split)
  have "vt = ?vt (vt_sender vt) (vt_hash vt)" if "validate X D v tx = Inr vt" for vt
  proof -
    have env: "vt_envelope vt = e" using that assms(1) by (simp add: validate_iff)
    show ?thesis using that unfolding validate_iff env by metis
  qed
  with adm show ?thesis by metis
qed

definition funded_db :: "unit state_db" where
  "funded_db = sample_db\<lparr>sd_nonce := \<lambda>s a. Inr 4, sd_balance := \<lambda>s a. Inr 50000000000000\<rparr>"

definition transfer_envelope :: TxEnvelope where
  "transfer_envelope =
     Legacy \<lparr>tc_chain_id = Some 1, tc_nonce = 5, tc_gas_limit = 21000, tc_to = Some 1, tc_value = 1000, tc_input = []\<rparr>
       \<lparr>sig_r = 1, sig_s = 1, sig_v = False\<rparr> 1000000000"

definition transfer_externs :: externs where
  "transfer_externs = sample_externs\<lparr>ex_decode_2718 := \<lambda>_. Inr transfer_envelope\<rparr>"

theorem validate_exact_witness:
  "(\<exists>vt. validate transfer_externs funded_db (validator_new 1 () pool_config_new) \<lparr>tx_bytes = [1]\<rparr> = Inr vt)"
proof -
  have rec: "\<exists>sender h. recover_sender_and_hash transfer_externs transfer_envelope = Inr (sender, h)"
    by (simp add: recover_sender_and_hash_def transfer_externs_def sample_externs_def Let_def)
  have cost: "intrinsic_gas_nat transfer_envelope = 21000" "cost_nat transfer_envelope = 21000000001000"
    by (simp_all add: intrinsic_gas_nat_def data_gas_nat_def access_gas_nat_def cost_nat_def transfer_envelope_def)
  have dec: "ex_decode_2718 transfer_externs (tx_bytes \<lparr>tx_bytes = [1]\<rparr>) = Inr transfer_envelope"
    by (simp add: transfer_externs_def)
  have adm: "admission_ok transfer_externs funded_db (validator_new 1 () pool_config_new) transfer_envelope a" for a
    unfolding admission_ok_def cost
    by (simp add: transfer_envelope_def validator_new_def pool_config_new_def funded_db_def)
  show ?thesis
    using validate_exact [OF dec, of "validator_new 1 () pool_config_new" funded_db] rec adm
    by (simp add: cost validator_new_def pool_config_new_def)
qed

end
