(* ===== verification/Qmdb_Store.thy ===== *)
theory Qmdb_Store
  imports State_Db
begin

text \<open>
  The authenticated store of \<open>crates/storage/qmdb\<close>: key and value encodings, batches, the store
  over three partitions with its commit sequence markers, and the contract of a partition
  (\<open>traits.rs\<close>) as the locale \<open>qmdb_partition\<close>.
\<close>

section \<open>Encodings\<close>

record StorageKey =
  sk_address :: address
  sk_generation :: u64
  sk_slot :: u256

definition storage_key_new :: "address \<Rightarrow> u64 \<Rightarrow> u256 \<Rightarrow> StorageKey" where
  "storage_key_new a g slot = \<lparr>sk_address = a, sk_generation = g, sk_slot = slot\<rparr>"

definition storage_key_to_bytes :: "StorageKey \<Rightarrow> bytes" where
  "storage_key_to_bytes k =
     to_be_bytes 20 (sk_address k) @ to_be_bytes 8 (sk_generation k) @ to_be_bytes 32 (sk_slot k)"

definition storage_key_from_bytes :: "bytes \<Rightarrow> StorageKey" where
  "storage_key_from_bytes b =
     \<lparr>sk_address = from_be_bytes (take 20 b), sk_generation = from_be_bytes (take 8 (drop 20 b)),
      sk_slot = from_be_bytes (take 32 (drop 28 b))\<rparr>"

definition account_encode :: "u64 \<Rightarrow> u256 \<Rightarrow> b256 \<Rightarrow> u64 \<Rightarrow> bytes" where
  "account_encode nonce balance code_hash generation =
     to_be_bytes 8 nonce @ to_be_bytes 32 balance @ to_be_bytes 32 code_hash @ to_be_bytes 8 generation"

definition account_decode :: "bytes \<Rightarrow> (u64 \<times> u256 \<times> b256 \<times> u64) option" where
  "account_decode b =
     (if length b < 80 then None
      else Some (from_be_bytes (take 8 b), from_be_bytes (take 32 (drop 8 b)),
                 from_be_bytes (take 32 (drop 40 b)), from_be_bytes (take 8 (drop 72 b))))"

lemma storage_key_roundtrip [simp]: "storage_key_from_bytes (storage_key_to_bytes k) = k"
  by (simp add: storage_key_from_bytes_def storage_key_to_bytes_def from_to_be_bytes)

lemma storage_key_inj: "storage_key_to_bytes k = storage_key_to_bytes k' \<longleftrightarrow> k = k'"
  by (metis storage_key_roundtrip)

lemma account_roundtrip [simp]: "account_decode (account_encode n b h g) = Some (n, b, h, g)"
  by (simp add: account_decode_def account_encode_def from_to_be_bytes)

lemma length_account_encode [simp]: "length (account_encode n b h g) = 80"
  by (simp add: account_encode_def)

section \<open>Batches\<close>

record StoreBatches =
  sb_accounts :: "(address \<times> bytes option) list"
  sb_storage :: "(StorageKey \<times> u256 option) list"
  sb_code :: "(b256 \<times> bytes option) list"

definition batches_new :: StoreBatches where
  "batches_new = \<lparr>sb_accounts = [], sb_storage = [], sb_code = []\<rparr>"

definition batches_is_empty :: "StoreBatches \<Rightarrow> bool" where
  "batches_is_empty b \<longleftrightarrow> sb_accounts b = [] \<and> sb_storage b = [] \<and> sb_code b = []"

definition batches_len :: "StoreBatches \<Rightarrow> nat" where
  "batches_len b = length (sb_accounts b) + length (sb_storage b) + length (sb_code b)"

section \<open>Errors\<close>

datatype QmdbError =
    QmdbStorage string
  | StoreUnavailable
  | QmdbDecodeError
  | QmdbCodeNotFound b256
  | InconsistentPartitions string

fun qmdb_error_string :: "externs \<Rightarrow> QmdbError \<Rightarrow> string" where
  "qmdb_error_string X (QmdbStorage s) = ''storage error: '' @ s"
| "qmdb_error_string X StoreUnavailable = ''stores unavailable''"
| "qmdb_error_string X QmdbDecodeError = ''account decode failed''"
| "qmdb_error_string X (QmdbCodeNotFound h) = ''code not found: '' @ ex_display_b256 X h"
| "qmdb_error_string X (InconsistentPartitions s) = ''inconsistent partitions: '' @ s"

section \<open>Partitions\<close>

text \<open>
  The traits \<open>QmdbGettable\<close> and \<open>QmdbBatchable\<close> of one partition, whose errors the store only
  prints.
\<close>

record ('s, 'k, 'v) qmdb_ops =
  qo_get :: "'s \<Rightarrow> 'k \<Rightarrow> string + 'v option"
  qo_write_batch :: "('k \<times> 'v option) list \<Rightarrow> 's \<Rightarrow> 's \<times> (string + unit)"

record ('a, 's, 'c) store_ops =
  so_accounts :: "('a, address, bytes) qmdb_ops"
  so_storage :: "('s, StorageKey, u256) qmdb_ops"
  so_code :: "('c, b256, bytes) qmdb_ops"

text \<open>What a batch does to the content of a partition: \<open>None\<close> deletes, later writes win.\<close>

definition apply_ops :: "('k \<times> 'v option) list \<Rightarrow> ('k \<Rightarrow> 'v option) \<Rightarrow> 'k \<Rightarrow> 'v option" where
  "apply_ops ops m = fold (\<lambda>(k, v) m. m(k := v)) ops m"

lemma apply_ops_append [simp]: "apply_ops (xs @ ys) m = apply_ops ys (apply_ops xs m)"
  by (simp add: apply_ops_def)

lemma apply_ops_simps [simp]:
  "apply_ops [] m = m" "apply_ops ((k, v) # ops) m = apply_ops ops (m(k := v))"
  by (simp_all add: apply_ops_def)

lemma apply_ops_other: "k \<notin> fst ` set ops \<Longrightarrow> apply_ops ops m k = m k"
  by (induction ops arbitrary: m) auto

lemma apply_ops_distinct:
  "distinct (map fst ops) \<Longrightarrow> (k, v) \<in> set ops \<Longrightarrow> apply_ops ops m k = v"
proof (induction ops arbitrary: m)
  case (Cons e ops)
  then show ?case by (cases e) (force simp: apply_ops_other)
qed simp

text \<open>
  The contract of a partition: reads return its content, and a batch that is reported as
  written has been applied to it.
\<close>

locale qmdb_partition =
  fixes get :: "'s \<Rightarrow> 'k \<Rightarrow> string + 'v option"
    and write_batch :: "('k \<times> 'v option) list \<Rightarrow> 's \<Rightarrow> 's \<times> (string + unit)"
    and content :: "'s \<Rightarrow> 'k \<Rightarrow> 'v option"
    and ready :: "'s \<Rightarrow> bool"
  assumes get_content: "ready s \<Longrightarrow> get s k = Inr (content s k)"
    and write_ready: "ready s \<Longrightarrow> write_batch ops s = (s', Inr ()) \<Longrightarrow> ready s'"
    and write_content: "ready s \<Longrightarrow> write_batch ops s = (s', Inr ()) \<Longrightarrow>
      content s' = apply_ops ops (content s)"
begin

lemma get_written:
  "ready s \<Longrightarrow> write_batch ops s = (s', Inr ()) \<Longrightarrow> get s' k = Inr (apply_ops ops (content s) k)"
  by (simp add: get_content write_ready write_content)

lemma get_last_written:
  "ready s \<Longrightarrow> write_batch (ops @ [(k, v)]) s = (s', Inr ()) \<Longrightarrow> get s' k = Inr v"
  by (simp add: get_written)

lemma get_unwritten:
  "ready s \<Longrightarrow> write_batch ops s = (s', Inr ()) \<Longrightarrow> k \<notin> fst ` set ops \<Longrightarrow> get s' k = get s k"
  by (simp add: get_written get_content apply_ops_other)

end

section \<open>The store\<close>

record ('a, 's, 'c) Stores =
  st_accounts :: 'a
  st_storage :: 's
  st_code :: 'c

record ('a, 's, 'c) QmdbStore =
  qs_stores :: "('a, 's, 'c) Stores option"
  qs_commit_seq :: u64

definition qmdb_new :: "'a \<Rightarrow> 's \<Rightarrow> 'c \<Rightarrow> ('a, 's, 'c) QmdbStore" where
  "qmdb_new accounts storage code =
     \<lparr>qs_stores = Some \<lparr>st_accounts = accounts, st_storage = storage, st_code = code\<rparr>, qs_commit_seq = 0\<rparr>"

definition set_commit_seq :: "u64 \<Rightarrow> ('a, 's, 'c) QmdbStore \<Rightarrow> ('a, 's, 'c) QmdbStore" where
  "set_commit_seq seq q = q\<lparr>qs_commit_seq := seq\<rparr>"

definition stores :: "('a, 's, 'c) QmdbStore \<Rightarrow> QmdbError + ('a, 's, 'c) Stores" where
  "stores q = (case qs_stores q of None \<Rightarrow> Inl StoreUnavailable | Some st \<Rightarrow> Inr st)"

definition take_stores ::
    "('a, 's, 'c) QmdbStore \<Rightarrow> ('a, 's, 'c) QmdbStore \<times> (QmdbError + ('a, 's, 'c) Stores)" where
  "take_stores q = (q\<lparr>qs_stores := None\<rparr>, stores q)"

definition restore_stores ::
    "('a, 's, 'c) Stores \<Rightarrow> ('a, 's, 'c) QmdbStore \<Rightarrow> ('a, 's, 'c) QmdbStore" where
  "restore_stores st q = q\<lparr>qs_stores := Some st\<rparr>"

definition get_account :: "('a, 's, 'c) store_ops \<Rightarrow> ('a, 's, 'c) QmdbStore \<Rightarrow> address \<Rightarrow>
    QmdbError + (u64 \<times> u256 \<times> b256 \<times> u64) option" where
  "get_account Q q a =
     (case stores q of
        Inl e \<Rightarrow> Inl e
      | Inr st \<Rightarrow>
          (case qo_get (so_accounts Q) (st_accounts st) a of
             Inr (Some b) \<Rightarrow>
               (case account_decode b of None \<Rightarrow> Inl QmdbDecodeError | Some acc \<Rightarrow> Inr (Some acc))
           | Inr None \<Rightarrow> Inr None
           | Inl e \<Rightarrow> Inl (QmdbStorage e)))"

definition get_storage :: "('a, 's, 'c) store_ops \<Rightarrow> ('a, 's, 'c) QmdbStore \<Rightarrow> StorageKey \<Rightarrow>
    QmdbError + u256 option" where
  "get_storage Q q k =
     (case stores q of
        Inl e \<Rightarrow> Inl e
      | Inr st \<Rightarrow>
          (case qo_get (so_storage Q) (st_storage st) k of Inl e \<Rightarrow> Inl (QmdbStorage e) | Inr v \<Rightarrow> Inr v))"

definition get_code :: "('a, 's, 'c) store_ops \<Rightarrow> ('a, 's, 'c) QmdbStore \<Rightarrow> b256 \<Rightarrow>
    QmdbError + bytes option" where
  "get_code Q q h =
     (case stores q of
        Inl e \<Rightarrow> Inl e
      | Inr st \<Rightarrow>
          (case qo_get (so_code Q) (st_code st) h of Inl e \<Rightarrow> Inl (QmdbStorage e) | Inr v \<Rightarrow> Inr v))"

text \<open>One iteration of the loop of \<open>build_batches\<close>, with the generation read before it.\<close>

definition slot_op :: "address \<Rightarrow> u64 \<Rightarrow> u256 \<times> u256 \<Rightarrow> StorageKey \<times> u256 option" where
  "slot_op a new_gen e =
     (storage_key_new a new_gen (fst e), if snd e = 0 then None else Some (snd e))"

definition add_update :: "address \<Rightarrow> AccountUpdate \<Rightarrow> u64 \<Rightarrow> StoreBatches \<Rightarrow> StoreBatches" where
  "add_update a update current_gen b =
     (let new_gen = (if au_created update \<or> au_selfdestructed update then saturating_add current_gen 1
                     else current_gen);
          b1 = (if au_selfdestructed update then b\<lparr>sb_accounts := sb_accounts b @ [(a, None)]\<rparr>
                else
                  (let encoded = account_encode (au_nonce update) (au_balance update) (au_code_hash update) new_gen;
                       b1 = b\<lparr>sb_accounts := sb_accounts b @ [(a, Some encoded)]\<rparr>
                   in case au_code update of
                        Some code \<Rightarrow> b1\<lparr>sb_code := sb_code b1 @ [(au_code_hash update, Some code)]\<rparr>
                      | None \<Rightarrow> b1))
      in b1\<lparr>sb_storage := sb_storage b1 @ map (slot_op a new_gen) (au_storage update)\<rparr>)"

fun build_batches_loop :: "('a, address, bytes) qmdb_ops \<Rightarrow> 'a \<Rightarrow> (address \<times> AccountUpdate) list \<Rightarrow>
    StoreBatches \<Rightarrow> QmdbError + StoreBatches" where
  "build_batches_loop A accounts [] b = Inr b"
| "build_batches_loop A accounts ((a, update) # rest) b =
     (case qo_get A accounts a of
        Inl e \<Rightarrow> Inl (QmdbStorage e)
      | Inr found \<Rightarrow>
          (let current_gen = (case found of
                 Some bytes \<Rightarrow> (case account_decode bytes of Some (_, _, _, g) \<Rightarrow> g | None \<Rightarrow> 0)
               | None \<Rightarrow> 0)
           in build_batches_loop A accounts rest (add_update a update current_gen b)))"

definition build_batches :: "('a, 's, 'c) store_ops \<Rightarrow> ('a, 's, 'c) QmdbStore \<Rightarrow> ChangeSet \<Rightarrow>
    QmdbError + StoreBatches" where
  "build_batches Q q changes =
     (case stores q of
        Inl e \<Rightarrow> Inl e
      | Inr st \<Rightarrow> build_batches_loop (so_accounts Q) (st_accounts st) (cs_accounts changes) batches_new)"

subsection \<open>Commit sequence markers\<close>

definition COMMIT_SEQ_ACCOUNT_KEY :: address where
  "COMMIT_SEQ_ACCOUNT_KEY = - 2"

definition COMMIT_SEQ_STORAGE_KEY :: StorageKey where
  "COMMIT_SEQ_STORAGE_KEY = storage_key_new COMMIT_SEQ_ACCOUNT_KEY (- 1) (- 1)"

definition COMMIT_SEQ_CODE_KEY :: b256 where
  "COMMIT_SEQ_CODE_KEY = - 2"

definition encode_commit_seq_account :: "u64 \<Rightarrow> bytes" where
  "encode_commit_seq_account seq = account_encode seq 0 0 0"

definition decode_commit_seq_account :: "bytes \<Rightarrow> u64 option" where
  "decode_commit_seq_account b = map_option fst (account_decode b)"

definition encode_commit_seq_code :: "u64 \<Rightarrow> bytes" where
  "encode_commit_seq_code seq = to_be_bytes 8 seq"

definition decode_commit_seq_code :: "bytes \<Rightarrow> u64 option" where
  "decode_commit_seq_code b = (if length b < 8 then None else Some (from_be_bytes (take 8 b)))"

text \<open>\<open>U256::into_limbs\<close>, least significant first.\<close>

definition limb :: "nat \<Rightarrow> u256 \<Rightarrow> u64" where
  "limb i v = ucast (drop_bit (64 * i) v)"

definition decode_commit_seq_storage :: "u256 \<Rightarrow> u64 option" where
  "decode_commit_seq_storage v =
     (if limb 1 v = 0 \<and> limb 2 v = 0 \<and> limb 3 v = 0 then Some (limb 0 v) else None)"

record PartitionCommitSeqs =
  pcs_accounts :: "u64 option"
  pcs_storage :: "u64 option"
  pcs_code :: "u64 option"

definition is_consistent :: "PartitionCommitSeqs \<Rightarrow> bool" where
  "is_consistent s =
     (case (pcs_accounts s, pcs_storage s, pcs_code s) of
        (None, None, None) \<Rightarrow> True
      | (Some a, Some t, Some c) \<Rightarrow> a = t \<and> t = c
      | _ \<Rightarrow> False)"

text \<open>Only the presence of the message matters to the code; its text is fixed up to the numbers.\<close>

definition inconsistency_message :: "(u64 \<Rightarrow> string) \<Rightarrow> PartitionCommitSeqs \<Rightarrow> string option" where
  "inconsistency_message show_u64 s =
     (let shown = (\<lambda>v. case v of None \<Rightarrow> ''none'' | Some n \<Rightarrow> show_u64 n)
      in if is_consistent s then None
         else Some (''QMDB partition commit sequences are inconsistent: accounts='' @ shown (pcs_accounts s) @
                    '', storage='' @ shown (pcs_storage s) @ '', code='' @ shown (pcs_code s) @
                    ''. A partial cross-partition commit was detected. The node cannot safely start without state recovery (see issue #88).''))"

definition read_partition_commit_seqs ::
    "('a, 's, 'c) store_ops \<Rightarrow> ('a, 's, 'c) QmdbStore \<Rightarrow> QmdbError + PartitionCommitSeqs" where
  "read_partition_commit_seqs Q q =
     (case stores q of
        Inl e \<Rightarrow> Inl e
      | Inr st \<Rightarrow>
          (case qo_get (so_accounts Q) (st_accounts st) COMMIT_SEQ_ACCOUNT_KEY of
             Inl e \<Rightarrow> Inl (QmdbStorage e)
           | Inr av \<Rightarrow>
               (case qo_get (so_storage Q) (st_storage st) COMMIT_SEQ_STORAGE_KEY of
                  Inl e \<Rightarrow> Inl (QmdbStorage e)
                | Inr sv \<Rightarrow>
                    (case qo_get (so_code Q) (st_code st) COMMIT_SEQ_CODE_KEY of
                       Inl e \<Rightarrow> Inl (QmdbStorage e)
                     | Inr cv \<Rightarrow>
                         Inr \<lparr>pcs_accounts = Option.bind av decode_commit_seq_account,
                              pcs_storage = Option.bind sv decode_commit_seq_storage,
                              pcs_code = Option.bind cv decode_commit_seq_code\<rparr>))))"

subsection \<open>Applying batches\<close>

definition account_ops :: "u64 \<Rightarrow> StoreBatches \<Rightarrow> (address \<times> bytes option) list" where
  "account_ops seq b = sb_accounts b @ [(COMMIT_SEQ_ACCOUNT_KEY, Some (encode_commit_seq_account seq))]"

definition storage_ops :: "u64 \<Rightarrow> StoreBatches \<Rightarrow> (StorageKey \<times> u256 option) list" where
  "storage_ops seq b = sb_storage b @ [(COMMIT_SEQ_STORAGE_KEY, Some (ucast seq))]"

definition code_ops :: "u64 \<Rightarrow> StoreBatches \<Rightarrow> (b256 \<times> bytes option) list" where
  "code_ops seq b = sb_code b @ [(COMMIT_SEQ_CODE_KEY, Some (encode_commit_seq_code seq))]"

text \<open>The three partitions are written one after the other; each failure returns at once.\<close>

definition apply_batches :: "('a, 's, 'c) store_ops \<Rightarrow> StoreBatches \<Rightarrow> ('a, 's, 'c) QmdbStore \<Rightarrow>
    ('a, 's, 'c) QmdbStore \<times> (QmdbError + unit)" where
  "apply_batches Q b q =
     (let next_seq = saturating_add (qs_commit_seq q) 1
      in case qs_stores q of
           None \<Rightarrow> (q, Inl StoreUnavailable)
         | Some st \<Rightarrow>
             (case qo_write_batch (so_accounts Q) (account_ops next_seq b) (st_accounts st) of
                (a, Inl e) \<Rightarrow> (q\<lparr>qs_stores := Some (st\<lparr>st_accounts := a\<rparr>)\<rparr>, Inl (QmdbStorage e))
              | (a, Inr _) \<Rightarrow>
                  (case qo_write_batch (so_storage Q) (storage_ops next_seq b) (st_storage st) of
                     (s, Inl e) \<Rightarrow>
                       (q\<lparr>qs_stores := Some (st\<lparr>st_accounts := a, st_storage := s\<rparr>)\<rparr>, Inl (QmdbStorage e))
                   | (s, Inr _) \<Rightarrow>
                       (case qo_write_batch (so_code Q) (code_ops next_seq b) (st_code st) of
                          (c, Inl e) \<Rightarrow>
                            (q\<lparr>qs_stores := Some (st\<lparr>st_accounts := a, st_storage := s, st_code := c\<rparr>)\<rparr>,
                             Inl (QmdbStorage e))
                        | (c, Inr _) \<Rightarrow>
                            (q\<lparr>qs_stores := Some (st\<lparr>st_accounts := a, st_storage := s, st_code := c\<rparr>),
                               qs_commit_seq := next_seq\<rparr>, Inr ())))))"

definition qmdb_commit_changes :: "('a, 's, 'c) store_ops \<Rightarrow> ChangeSet \<Rightarrow> ('a, 's, 'c) QmdbStore \<Rightarrow>
    ('a, 's, 'c) QmdbStore \<times> (QmdbError + unit)" where
  "qmdb_commit_changes Q changes q =
     (if changes_is_empty changes then (q, Inr ())
      else case build_batches Q q changes of
             Inl e \<Rightarrow> (q, Inl e)
           | Inr b \<Rightarrow> apply_batches Q b q)"

section \<open>What the batches contain\<close>

definition current_gen :: "(address \<Rightarrow> bytes option) \<Rightarrow> address \<Rightarrow> u64" where
  "current_gen m a =
     (case m a of
        Some bytes \<Rightarrow> (case account_decode bytes of Some (_, _, _, g) \<Rightarrow> g | None \<Rightarrow> 0)
      | None \<Rightarrow> 0)"

definition new_gen :: "(address \<Rightarrow> bytes option) \<Rightarrow> address \<Rightarrow> AccountUpdate \<Rightarrow> u64" where
  "new_gen m a u =
     (if au_created u \<or> au_selfdestructed u then saturating_add (current_gen m a) 1 else current_gen m a)"

definition account_op :: "(address \<Rightarrow> bytes option) \<Rightarrow> address \<times> AccountUpdate \<Rightarrow> address \<times> bytes option" where
  "account_op m e =
     (fst e, if au_selfdestructed (snd e) then None
             else Some (account_encode (au_nonce (snd e)) (au_balance (snd e)) (au_code_hash (snd e))
                          (new_gen m (fst e) (snd e))))"

definition code_op :: "address \<times> AccountUpdate \<Rightarrow> (b256 \<times> bytes option) list" where
  "code_op e =
     (if au_selfdestructed (snd e) then []
      else case au_code (snd e) of Some code \<Rightarrow> [(au_code_hash (snd e), Some code)] | None \<Rightarrow> [])"

definition slot_ops :: "(address \<Rightarrow> bytes option) \<Rightarrow> address \<times> AccountUpdate \<Rightarrow> (StorageKey \<times> u256 option) list" where
  "slot_ops m e = map (slot_op (fst e) (new_gen m (fst e) (snd e))) (au_storage (snd e))"

lemma build_batches_loop_spec:
  assumes "\<And>a. qo_get A s a = Inr (m a)"
  shows "build_batches_loop A s es b =
    Inr \<lparr>sb_accounts = sb_accounts b @ map (account_op m) es,
         sb_storage = sb_storage b @ concat (map (slot_ops m) es),
         sb_code = sb_code b @ concat (map code_op es)\<rparr>"
proof (induction es arbitrary: b)
  case (Cons e es)
  obtain a u where e: "e = (a, u)" by (cases e)
  have "add_update a u (current_gen m a) b =
      \<lparr>sb_accounts = sb_accounts b @ [account_op m e], sb_storage = sb_storage b @ slot_ops m e,
       sb_code = sb_code b @ code_op e\<rparr>"
    by (auto simp: add_update_def Let_def e account_op_def slot_ops_def code_op_def new_gen_def
        intro!: StoreBatches.equality split: option.split)
  then show ?case
    using Cons.IH by (simp add: e assms current_gen_def [symmetric])
qed simp

section \<open>Markers\<close>

lemma limb_ucast:
  "limb 0 (ucast (x :: u64)) = x" "0 < i \<Longrightarrow> i < 4 \<Longrightarrow> limb i (ucast (x :: u64)) = 0"
proof -
  show "limb 0 (ucast x) = x"
    unfolding limb_def by (rule bit_word_eqI) (simp add: bit_ucast_iff bit_drop_bit_eq)
  assume i: "0 < i" "i < 4"
  have "drop_bit (64 * i) (ucast x :: u256) = 0"
  proof (rule bit_word_eqI)
    fix n assume "n < LENGTH(256)"
    have "\<not> bit x (64 * i + n)" using i by (intro impossible_bit) simp
    then show "bit (drop_bit (64 * i) (ucast x :: u256)) n \<longleftrightarrow> bit (0 :: u256) n"
      by (simp add: bit_drop_bit_eq bit_ucast_iff)
  qed
  then show "limb i (ucast x) = 0" by (simp add: limb_def)
qed

lemma decode_markers [simp]:
  "decode_commit_seq_account (encode_commit_seq_account n) = Some n"
  "decode_commit_seq_code (encode_commit_seq_code n) = Some n"
  "decode_commit_seq_storage (ucast n) = Some n"
  by (simp_all add: decode_commit_seq_account_def encode_commit_seq_account_def decode_commit_seq_code_def
      encode_commit_seq_code_def decode_commit_seq_storage_def limb_ucast from_to_be_bytes)

end
