(* ===== verification/Qmdb_Handle.thy ===== *)
theory Qmdb_Handle
  imports Qmdb_Store
begin

text \<open>
  The shared handle on a store (\<open>crates/storage/handlers\<close>): genesis and commits, its
  implementation of the state database traits, and its implementation of the EVM database
  traits. The locks are taken for a whole operation, so an operation is a function on the
  handle's state.
\<close>

section \<open>The handle\<close>

datatype HandleError =
    HandleQmdb QmdbError
  | HandleLockPoisoned
  | HandleCodeNotFound b256
  | BlockHashNotFound u64
  | HandleRootComputation string

fun handle_error_string :: "(u64 \<Rightarrow> string) \<Rightarrow> externs \<Rightarrow> HandleError \<Rightarrow> string" where
  "handle_error_string show_u64 X (HandleQmdb e) = ''qmdb error: '' @ qmdb_error_string X e"
| "handle_error_string show_u64 X HandleLockPoisoned = ''lock poisoned''"
| "handle_error_string show_u64 X (HandleCodeNotFound h) = ''code not found: '' @ ex_display_b256 X h"
| "handle_error_string show_u64 X (BlockHashNotFound n) = ''block hash not found: '' @ show_u64 n"
| "handle_error_string show_u64 X (HandleRootComputation s) = ''root computation error: '' @ s"

text \<open>The trait \<open>RootProvider\<close>.\<close>

record 'r root_provider =
  rp_state_root :: "'r \<Rightarrow> HandleError + b256"
  rp_compute_root :: "ChangeSet \<Rightarrow> 'r \<Rightarrow> 'r \<times> (HandleError + b256)"
  rp_commit_and_get_root :: "'r \<Rightarrow> 'r \<times> (HandleError + b256)"

record ('a, 's, 'c, 'r) QmdbHandle =
  qh_inner :: "('a, 's, 'c) QmdbStore"
  qh_root_provider :: "'r option"
  qh_commit_failed :: bool

definition handle_new :: "'a \<Rightarrow> 's \<Rightarrow> 'c \<Rightarrow> ('a, 's, 'c, 'r) QmdbHandle" where
  "handle_new accounts storage code =
     \<lparr>qh_inner = qmdb_new accounts storage code, qh_root_provider = None, qh_commit_failed = False\<rparr>"

definition from_store :: "('a, 's, 'c) QmdbStore \<Rightarrow> ('a, 's, 'c, 'r) QmdbHandle" where
  "from_store store = \<lparr>qh_inner = store, qh_root_provider = None, qh_commit_failed = False\<rparr>"

definition with_root_provider :: "'r \<Rightarrow> ('a, 's, 'c, 'r) QmdbHandle \<Rightarrow> ('a, 's, 'c, 'r) QmdbHandle" where
  "with_root_provider provider h = h\<lparr>qh_root_provider := Some provider\<rparr>"

definition take_commit_failure :: "('a, 's, 'c, 'r) QmdbHandle \<Rightarrow> ('a, 's, 'c, 'r) QmdbHandle \<times> bool" where
  "take_commit_failure h = (h\<lparr>qh_commit_failed := False\<rparr>, qh_commit_failed h)"

definition mark_commit_failed :: "('a, 's, 'c, 'r) QmdbHandle \<Rightarrow> ('a, 's, 'c, 'r) QmdbHandle" where
  "mark_commit_failed h = h\<lparr>qh_commit_failed := True\<rparr>"

definition handle_commit :: "('a, 's, 'c) store_ops \<Rightarrow> ChangeSet \<Rightarrow> ('a, 's, 'c, 'r) QmdbHandle \<Rightarrow>
    ('a, 's, 'c, 'r) QmdbHandle \<times> (HandleError + unit)" where
  "handle_commit Q changes h =
     (case qmdb_commit_changes Q changes (qh_inner h) of
        (q, r) \<Rightarrow>
          (h\<lparr>qh_inner := q\<rparr>, (case r of Inl e \<Rightarrow> Inl (HandleQmdb e) | Inr _ \<Rightarrow> Inr ())))"

definition KECCAK256_EMPTY :: "externs \<Rightarrow> b256" where
  "KECCAK256_EMPTY X = ex_keccak256 X []"

definition genesis_changes :: "externs \<Rightarrow> (address \<times> u256) list \<Rightarrow> ChangeSet" where
  "genesis_changes X allocs =
     fold (\<lambda>(address, balance) c.
       c\<lparr>cs_accounts := bt_insert address
           \<lparr>au_created = True, au_selfdestructed = False, au_nonce = 0, au_balance = balance,
            au_code_hash = KECCAK256_EMPTY X, au_code = None, au_storage = []\<rparr> (cs_accounts c)\<rparr>)
       allocs changes_new"

definition init_genesis :: "externs \<Rightarrow> ('a, 's, 'c) store_ops \<Rightarrow> (address \<times> u256) list \<Rightarrow>
    ('a, 's, 'c, 'r) QmdbHandle \<Rightarrow> ('a, 's, 'c, 'r) QmdbHandle \<times> (HandleError + unit)" where
  "init_genesis X Q allocs h = handle_commit Q (genesis_changes X allocs) h"

section \<open>State database\<close>

definition account_field :: "externs \<Rightarrow> ('a, 's, 'c) store_ops \<Rightarrow> (u64 \<times> u256 \<times> b256 \<times> u64 \<Rightarrow> 'f) \<Rightarrow>
    ('a, 's, 'c, 'r) QmdbHandle \<Rightarrow> address \<Rightarrow> StateDbError + 'f" where
  "account_field X Q f h a =
     (case get_account Q (qh_inner h) a of
        Inl e \<Rightarrow> Inl (Storage (qmdb_error_string X e))
      | Inr (Some acc) \<Rightarrow> Inr (f acc)
      | Inr None \<Rightarrow> Inl (AccountNotFound a))"

definition qh_nonce :: "externs \<Rightarrow> ('a, 's, 'c) store_ops \<Rightarrow> ('a, 's, 'c, 'r) QmdbHandle \<Rightarrow> address \<Rightarrow>
    StateDbError + u64" where
  "qh_nonce X Q h a = account_field X Q (\<lambda>(nonce, _, _, _). nonce) h a"

definition qh_balance :: "externs \<Rightarrow> ('a, 's, 'c) store_ops \<Rightarrow> ('a, 's, 'c, 'r) QmdbHandle \<Rightarrow> address \<Rightarrow>
    StateDbError + u256" where
  "qh_balance X Q h a = account_field X Q (\<lambda>(_, balance, _, _). balance) h a"

definition qh_code_hash :: "externs \<Rightarrow> ('a, 's, 'c) store_ops \<Rightarrow> ('a, 's, 'c, 'r) QmdbHandle \<Rightarrow> address \<Rightarrow>
    StateDbError + b256" where
  "qh_code_hash X Q h a = account_field X Q (\<lambda>(_, _, code_hash, _). code_hash) h a"

definition qh_code :: "externs \<Rightarrow> ('a, 's, 'c) store_ops \<Rightarrow> ('a, 's, 'c, 'r) QmdbHandle \<Rightarrow> b256 \<Rightarrow>
    StateDbError + bytes" where
  "qh_code X Q h code_hash =
     (if code_hash = KECCAK256_EMPTY X \<or> code_hash = 0 then Inr []
      else case get_code Q (qh_inner h) code_hash of
             Inl e \<Rightarrow> Inl (Storage (qmdb_error_string X e))
           | Inr None \<Rightarrow> Inl (CodeNotFound code_hash)
           | Inr (Some bytes) \<Rightarrow> Inr bytes)"

definition qh_storage :: "externs \<Rightarrow> ('a, 's, 'c) store_ops \<Rightarrow> ('a, 's, 'c, 'r) QmdbHandle \<Rightarrow> address \<Rightarrow>
    u256 \<Rightarrow> StateDbError + u256" where
  "qh_storage X Q h a slot =
     (case get_account Q (qh_inner h) a of
        Inl e \<Rightarrow> Inl (Storage (qmdb_error_string X e))
      | Inr None \<Rightarrow> Inr 0
      | Inr (Some (_, _, _, generation)) \<Rightarrow>
          (case get_storage Q (qh_inner h) (storage_key_new a generation slot) of
             Inl e \<Rightarrow> Inl (Storage (qmdb_error_string X e))
           | Inr v \<Rightarrow> Inr (case v of None \<Rightarrow> 0 | Some x \<Rightarrow> x)))"

definition qh_commit :: "(u64 \<Rightarrow> string) \<Rightarrow> externs \<Rightarrow> ('a, 's, 'c) store_ops \<Rightarrow> 'r root_provider \<Rightarrow> ChangeSet \<Rightarrow>
    ('a, 's, 'c, 'r) QmdbHandle \<Rightarrow> ('a, 's, 'c, 'r) QmdbHandle \<times> (StateDbError + b256)" where
  "qh_commit show_u64 X Q R changes h =
     (case qmdb_commit_changes Q changes (qh_inner h) of
        (q, Inl e) \<Rightarrow> (h\<lparr>qh_inner := q\<rparr>, Inl (Storage (qmdb_error_string X e)))
      | (q, Inr _) \<Rightarrow>
          (let h1 = h\<lparr>qh_inner := q\<rparr>
           in case qh_root_provider h1 of
                None \<Rightarrow> (h1, Inr 0)
              | Some provider \<Rightarrow>
                  (case rp_commit_and_get_root R provider of
                     (provider', r) \<Rightarrow>
                       (h1\<lparr>qh_root_provider := Some provider'\<rparr>,
                        (case r of Inl e \<Rightarrow> Inl (RootComputation (handle_error_string show_u64 X e)) | Inr x \<Rightarrow> Inr x)))))"

definition qh_compute_root :: "(u64 \<Rightarrow> string) \<Rightarrow> externs \<Rightarrow> 'r root_provider \<Rightarrow> ChangeSet \<Rightarrow>
    ('a, 's, 'c, 'r) QmdbHandle \<Rightarrow> ('a, 's, 'c, 'r) QmdbHandle \<times> (StateDbError + b256)" where
  "qh_compute_root show_u64 X R changes h =
     (case qh_root_provider h of
        None \<Rightarrow> (h, Inr (root_compute X 0 0 0))
      | Some provider \<Rightarrow>
          (case rp_compute_root R changes provider of
             (provider', r) \<Rightarrow>
               (h\<lparr>qh_root_provider := Some provider'\<rparr>,
                (case r of Inl e \<Rightarrow> Inl (RootComputation (handle_error_string show_u64 X e)) | Inr x \<Rightarrow> Inr x))))"

definition qh_merge_changes :: "ChangeSet \<Rightarrow> ChangeSet \<Rightarrow> ChangeSet" where
  "qh_merge_changes older newer = changes_merge older newer"

definition qh_state_root :: "(u64 \<Rightarrow> string) \<Rightarrow> externs \<Rightarrow> 'r root_provider \<Rightarrow>
    ('a, 's, 'c, 'r) QmdbHandle \<Rightarrow> StateDbError + b256" where
  "qh_state_root show_u64 X R h =
     (case qh_root_provider h of
        None \<Rightarrow> Inr 0
      | Some provider \<Rightarrow>
          (case rp_state_root R provider of
             Inl e \<Rightarrow> Inl (RootComputation (handle_error_string show_u64 X e))
           | Inr x \<Rightarrow> Inr x))"

definition qmdb_state_db :: "(u64 \<Rightarrow> string) \<Rightarrow> externs \<Rightarrow> ('a, 's, 'c) store_ops \<Rightarrow> 'r root_provider \<Rightarrow>
    ('a, 's, 'c, 'r) QmdbHandle state_db" where
  "qmdb_state_db show_u64 X Q R =
     \<lparr>sd_nonce = qh_nonce X Q, sd_balance = qh_balance X Q, sd_code_hash = qh_code_hash X Q,
      sd_code = qh_code X Q, sd_storage = qh_storage X Q, sd_take_commit_failure = take_commit_failure,
      sd_commit = qh_commit show_u64 X Q R, sd_compute_root = qh_compute_root show_u64 X R,
      sd_merge_changes = qh_merge_changes, sd_state_root = qh_state_root show_u64 X R\<rparr>"

section \<open>EVM database\<close>

record AccountInfo =
  ai_nonce :: u64
  ai_balance :: u256
  ai_code_hash :: b256
  ai_code :: "bytes option"

text \<open>\<open>revm::bytecode::Bytecode\<close>: the default, or raw bytes that are still to be analysed.\<close>

datatype Bytecode = BytecodeDefault | BytecodeRaw bytes

definition basic_ref :: "('a, 's, 'c) store_ops \<Rightarrow> ('a, 's, 'c, 'r) QmdbHandle \<Rightarrow> address \<Rightarrow>
    HandleError + AccountInfo option" where
  "basic_ref Q h a =
     (case get_account Q (qh_inner h) a of
        Inl e \<Rightarrow> Inl (HandleQmdb e)
      | Inr (Some (nonce, balance, code_hash, _)) \<Rightarrow>
          Inr (Some \<lparr>ai_nonce = nonce, ai_balance = balance, ai_code_hash = code_hash, ai_code = None\<rparr>)
      | Inr None \<Rightarrow> Inr None)"

definition code_by_hash_ref :: "externs \<Rightarrow> ('a, 's, 'c) store_ops \<Rightarrow> ('a, 's, 'c, 'r) QmdbHandle \<Rightarrow> b256 \<Rightarrow>
    HandleError + Bytecode" where
  "code_by_hash_ref X Q h code_hash =
     (if code_hash = KECCAK256_EMPTY X \<or> code_hash = 0 then Inr BytecodeDefault
      else case get_code Q (qh_inner h) code_hash of
             Inl e \<Rightarrow> Inl (HandleQmdb e)
           | Inr None \<Rightarrow> Inl (HandleCodeNotFound code_hash)
           | Inr (Some bytes) \<Rightarrow> Inr (BytecodeRaw bytes))"

definition storage_ref :: "('a, 's, 'c) store_ops \<Rightarrow> ('a, 's, 'c, 'r) QmdbHandle \<Rightarrow> address \<Rightarrow> u256 \<Rightarrow>
    HandleError + u256" where
  "storage_ref Q h a index =
     (case get_account Q (qh_inner h) a of
        Inl e \<Rightarrow> Inl (HandleQmdb e)
      | Inr None \<Rightarrow> Inr 0
      | Inr (Some (_, _, _, generation)) \<Rightarrow>
          (case get_storage Q (qh_inner h) (storage_key_new a generation index) of
             Inl e \<Rightarrow> Inl (HandleQmdb e)
           | Inr v \<Rightarrow> Inr (case v of None \<Rightarrow> 0 | Some x \<Rightarrow> x)))"

definition block_hash_ref :: "('a, 's, 'c, 'r) QmdbHandle \<Rightarrow> u64 \<Rightarrow> HandleError + b256" where
  "block_hash_ref h number = Inl (BlockHashNotFound number)"

text \<open>\<open>revm::state::Account\<close>, with what the commit reads of it.\<close>

record EvmStorageSlot =
  es_original :: u256
  es_present :: u256

record evm_account =
  ea_info :: AccountInfo
  ea_touched :: bool
  ea_created :: bool
  ea_selfdestructed :: bool
  ea_storage :: "(u256, EvmStorageSlot) hash_map"

definition evm_update :: "evm_account \<Rightarrow> AccountUpdate" where
  "evm_update account =
     \<lparr>au_created = ea_created account, au_selfdestructed = ea_selfdestructed account,
      au_nonce = ai_nonce (ea_info account), au_balance = ai_balance (ea_info account),
      au_code_hash = ai_code_hash (ea_info account), au_code = ai_code (ea_info account),
      au_storage = fold (\<lambda>(k, v). bt_insert k v)
        (map (\<lambda>(k, v). (k, es_present v))
          (filter (\<lambda>(k, v). es_original v \<noteq> es_present v) (ea_storage account))) []\<rparr>"

definition evm_changes :: "(address, evm_account) hash_map \<Rightarrow> ChangeSet" where
  "evm_changes changes =
     fold (\<lambda>(address, account) c.
       if \<not> ea_touched account then c
       else c\<lparr>cs_accounts := bt_insert address (evm_update account) (cs_accounts c)\<rparr>)
       changes changes_new"

definition evm_commit :: "('a, 's, 'c) store_ops \<Rightarrow> (address, evm_account) hash_map \<Rightarrow>
    ('a, 's, 'c, 'r) QmdbHandle \<Rightarrow> ('a, 's, 'c, 'r) QmdbHandle" where
  "evm_commit Q changes h =
     (case handle_commit Q (evm_changes changes) h of
        (h1, Inl _) \<Rightarrow> mark_commit_failed h1
      | (h1, Inr _) \<Rightarrow> h1)"

lemma evm_commit_failure:
  "snd (take_commit_failure (evm_commit Q changes h)) \<longleftrightarrow>
     qh_commit_failed h \<or> (\<exists>e. snd (handle_commit Q (evm_changes changes) h) = Inl e)"
  by (auto simp: take_commit_failure_def evm_commit_def mark_commit_failed_def handle_commit_def
      split: prod.split sum.split)

end
