(* ===== verification/Qmdb_Commit.thy ===== *)
theory Qmdb_Commit
  imports Qmdb_Handle
begin

text \<open>
  What a commit does, over any three partitions that keep the partition contract: the content
  after a commit, its agreement with the overlay, and the commit sequence markers at every
  point at which the node can stop.
\<close>

section \<open>Batches as maps\<close>

lemma storage_key_new_simps [simp]:
  "sk_address (storage_key_new a g k) = a" "sk_generation (storage_key_new a g k) = g"
  "sk_slot (storage_key_new a g k) = k"
  by (simp_all add: storage_key_new_def)

lemma apply_ops_map_of:
  "distinct (map fst ops) \<Longrightarrow> apply_ops ops m k = (case map_of ops k of Some v \<Rightarrow> v | None \<Rightarrow> m k)"
proof (induction ops arbitrary: m)
  case (Cons e ops)
  obtain k' v where e: "e = (k', v)" by (cases e)
  have "k' \<notin> fst ` set ops" "distinct (map fst ops)" using Cons.prems e by auto
  then show ?case
    by (cases "k = k'") (simp_all add: e apply_ops_other Cons.IH cong: option.case_cong)
qed simp

lemma map_of_account_ops:
  "map_of (map (account_op m) es) a = map_option (\<lambda>u. snd (account_op m (a, u))) (map_of es a)"
  by (induction es) (auto simp: account_op_def)

lemma fst_account_op [simp]: "fst (account_op m e) = fst e"
  by (simp add: account_op_def)

lemma map_of_slot_ops:
  "map_of (map (slot_op a g) ss) k =
     (if sk_address k = a \<and> sk_generation k = g
      then map_option (\<lambda>v. if v = 0 then None else Some v) (map_of ss (sk_slot k)) else None)"
  by (induction ss) (auto simp: slot_op_def storage_key_new_def)

lemma map_of_storage_ops:
  assumes "distinct (map fst es)"
  shows "map_of (concat (map (slot_ops m) es)) k =
    (case map_of es (sk_address k) of
       None \<Rightarrow> None
     | Some u \<Rightarrow>
         if sk_generation k = new_gen m (sk_address k) u
         then map_option (\<lambda>v. if v = 0 then None else Some v) (map_of (au_storage u) (sk_slot k)) else None)"
  using assms
proof (induction es)
  case (Cons e es)
  obtain a u where e: "e = (a, u)" by (cases e)
  have "map_of es a = None" using Cons.prems e by (auto simp: map_of_eq_None_iff)
  with Cons show ?case
    by (cases "sk_address k = a")
      (auto simp: e slot_ops_def map_of_slot_ops map_add_def split: option.split)
qed simp

lemma distinct_storage_ops:
  assumes "distinct (map fst es)" and "\<forall>e \<in> set es. distinct (map fst (au_storage (snd e)))"
  shows "distinct (map fst (concat (map (slot_ops m) es)))"
  using assms
proof (induction es)
  case (Cons e es)
  have "distinct (map fst (slot_ops m e))"
    using Cons.prems(2)
    by (simp add: slot_ops_def slot_op_def storage_key_new_def distinct_map inj_on_def)
  moreover have "fst ` set (slot_ops m e) \<inter> fst ` set (concat (map (slot_ops m) es)) = {}"
  proof -
    have addr: "sk_address k = fst e" if "k \<in> fst ` set (slot_ops m e)" for k e
      using that by (auto simp: slot_ops_def slot_op_def)
    have "k \<notin> fst ` set (slot_ops m e')" if "k \<in> fst ` set (slot_ops m e)" "e' \<in> set es" for k e'
      using addr [OF that(1)] addr [of k e'] that(2) Cons.prems(1) by auto
    then show ?thesis by auto
  qed
  ultimately show ?case using Cons by simp
qed simp

section \<open>Freshness of generations\<close>

text \<open>
  The storage of an account is under its current generation or an older one. Under this
  condition a new generation starts empty.
\<close>

definition store_fresh :: "(address \<Rightarrow> bytes option) \<Rightarrow> (StorageKey \<Rightarrow> u256 option) \<Rightarrow> address \<Rightarrow> bool" where
  "store_fresh acc sto a \<longleftrightarrow>
     (\<forall>b. acc a = Some b \<longrightarrow> length b = 80) \<and>
     (\<forall>g k. sto (storage_key_new a g k) \<noteq> None \<longrightarrow> acc a \<noteq> None \<and> g \<le> current_gen acc a)"

lemma le_saturating_Suc: "g \<le> saturating_add g 1" for g :: u64
proof -
  have "unat g \<le> min (unat g + 1) (2 ^ 64 - 1)" using unat_u64_less [of g] by linarith
  then show ?thesis by (simp add: word_le_nat_alt unat_saturating_add)
qed

lemma account_decode_80: "length b = 80 \<Longrightarrow> account_decode b \<noteq> None"
  by (simp add: account_decode_def)

section \<open>Commits over three partitions\<close>

locale qmdb_stores =
  accounts: qmdb_partition "qo_get (so_accounts Q)" "qo_write_batch (so_accounts Q)" acc aready +
  storage: qmdb_partition "qo_get (so_storage Q)" "qo_write_batch (so_storage Q)" sto sready +
  code: qmdb_partition "qo_get (so_code Q)" "qo_write_batch (so_code Q)" cod cready
  for Q :: "('a, 's, 'c) store_ops"
    and acc :: "'a \<Rightarrow> address \<Rightarrow> bytes option" and aready :: "'a \<Rightarrow> bool"
    and sto :: "'s \<Rightarrow> StorageKey \<Rightarrow> u256 option" and sready :: "'s \<Rightarrow> bool"
    and cod :: "'c \<Rightarrow> b256 \<Rightarrow> bytes option" and cready :: "'c \<Rightarrow> bool"
begin

lemma get_account_ready:
  assumes "qs_stores q = Some st" "aready (st_accounts st)"
  shows "get_account Q q a =
    (case acc (st_accounts st) a of
       None \<Rightarrow> Inr None
     | Some b \<Rightarrow> (case account_decode b of None \<Rightarrow> Inl QmdbDecodeError | Some r \<Rightarrow> Inr (Some r)))"
  using assms by (simp add: get_account_def stores_def accounts.get_content split: option.split)

lemma get_storage_ready:
  assumes "qs_stores q = Some st" "sready (st_storage st)"
  shows "get_storage Q q k = Inr (sto (st_storage st) k)"
  using assms by (simp add: get_storage_def stores_def storage.get_content)

lemma build_batches_ready:
  assumes "qs_stores q = Some st" "aready (st_accounts st)"
  shows "build_batches Q q c =
    Inr \<lparr>sb_accounts = map (account_op (acc (st_accounts st))) (cs_accounts c),
         sb_storage = concat (map (slot_ops (acc (st_accounts st))) (cs_accounts c)),
         sb_code = concat (map code_op (cs_accounts c))\<rparr>"
  using assms
  by (simp add: build_batches_def stores_def batches_new_def
      build_batches_loop_spec [OF accounts.get_content [OF assms(2)]])

lemma apply_batches_cases:
  assumes "qs_stores q = Some st" "aready (st_accounts st)" "sready (st_storage st)" "cready (st_code st)"
    and "apply_batches Q b q = (q', Inr ())"
  obtains st' where "qs_stores q' = Some st'" "aready (st_accounts st')" "sready (st_storage st')"
    "cready (st_code st')" "qs_commit_seq q' = saturating_add (qs_commit_seq q) 1"
    "acc (st_accounts st') = apply_ops (account_ops (qs_commit_seq q') b) (acc (st_accounts st))"
    "sto (st_storage st') = apply_ops (storage_ops (qs_commit_seq q') b) (sto (st_storage st))"
    "cod (st_code st') = apply_ops (code_ops (qs_commit_seq q') b) (cod (st_code st))"
proof -
  let ?n = "saturating_add (qs_commit_seq q) 1"
  from assms(1,5) obtain a s c where
      w: "qo_write_batch (so_accounts Q) (account_ops ?n b) (st_accounts st) = (a, Inr ())"
        "qo_write_batch (so_storage Q) (storage_ops ?n b) (st_storage st) = (s, Inr ())"
        "qo_write_batch (so_code Q) (code_ops ?n b) (st_code st) = (c, Inr ())"
    and q': "q' = q\<lparr>qs_stores := Some (st\<lparr>st_accounts := a, st_storage := s, st_code := c\<rparr>),
      qs_commit_seq := ?n\<rparr>"
    by (auto simp: apply_batches_def Let_def split: prod.splits sum.splits)
  show ?thesis
    using assms(2-4) w
    by (intro that [of "st\<lparr>st_accounts := a, st_storage := s, st_code := c\<rparr>"])
      (simp_all add: q' accounts.write_ready storage.write_ready code.write_ready
        accounts.write_content storage.write_content code.write_content)
qed

text \<open>The content of the account and storage partitions after a commit.\<close>

lemma commit_content:
  assumes ready: "qs_stores q = Some st" "aready (st_accounts st)" "sready (st_storage st)" "cready (st_code st)"
    and wf: "changes_wf c" and com: "qmdb_commit_changes Q c q = (q', Inr ())"
  obtains st' where "qs_stores q' = Some st'" "aready (st_accounts st')" "sready (st_storage st')"
    "cready (st_code st')"
    "\<And>a. a \<noteq> COMMIT_SEQ_ACCOUNT_KEY \<Longrightarrow> acc (st_accounts st') a =
      (case update_of c a of
         None \<Rightarrow> acc (st_accounts st) a
       | Some u \<Rightarrow> snd (account_op (acc (st_accounts st)) (a, u)))"
    "\<And>a g k. a \<noteq> COMMIT_SEQ_ACCOUNT_KEY \<Longrightarrow> sto (st_storage st') (storage_key_new a g k) =
      (case update_of c a of
         None \<Rightarrow> sto (st_storage st) (storage_key_new a g k)
       | Some u \<Rightarrow>
           (case bt_get (au_storage u) k of
              None \<Rightarrow> sto (st_storage st) (storage_key_new a g k)
            | Some v \<Rightarrow>
                if g = new_gen (acc (st_accounts st)) a u then if v = 0 then None else Some v
                else sto (st_storage st) (storage_key_new a g k)))"
proof (cases "changes_is_empty c")
  case True
  then have "q' = q" "cs_accounts c = []" using com by (simp_all add: qmdb_commit_changes_def changes_is_empty_def)
  with ready show ?thesis by (intro that [of st]) simp_all
next
  case False
  let ?es = "cs_accounts c" and ?m = "acc (st_accounts st)"
  have dist: "distinct (map fst ?es)" "\<forall>e \<in> set ?es. distinct (map fst (au_storage (snd e)))"
    using wf by (auto simp: changes_wf_def update_wf_def bt_wf_distinct)
  have app: "apply_batches Q \<lparr>sb_accounts = map (account_op ?m) ?es,
      sb_storage = concat (map (slot_ops ?m) ?es), sb_code = concat (map code_op ?es)\<rparr> q = (q', Inr ())"
    using com False by (simp add: qmdb_commit_changes_def build_batches_ready [OF ready(1,2)])
  from ready app show ?thesis
  proof (rule apply_batches_cases)
    fix st'
    assume st': "qs_stores q' = Some st'" "aready (st_accounts st')" "sready (st_storage st')" "cready (st_code st')"
      and "acc (st_accounts st') = apply_ops (account_ops (qs_commit_seq q')
        \<lparr>sb_accounts = map (account_op ?m) ?es, sb_storage = concat (map (slot_ops ?m) ?es),
         sb_code = concat (map code_op ?es)\<rparr>) ?m"
      and "sto (st_storage st') = apply_ops (storage_ops (qs_commit_seq q')
        \<lparr>sb_accounts = map (account_op ?m) ?es, sb_storage = concat (map (slot_ops ?m) ?es),
         sb_code = concat (map code_op ?es)\<rparr>) (sto (st_storage st))"
    then have a: "acc (st_accounts st') = (apply_ops (map (account_op ?m) ?es) ?m)
        (COMMIT_SEQ_ACCOUNT_KEY \<mapsto> encode_commit_seq_account (qs_commit_seq q'))"
      and s: "sto (st_storage st') = (apply_ops (concat (map (slot_ops ?m) ?es)) (sto (st_storage st)))
        (COMMIT_SEQ_STORAGE_KEY \<mapsto> ucast (qs_commit_seq q'))"
      by (simp_all add: account_ops_def storage_ops_def)
    show ?thesis
    proof (rule that [OF st'])
      fix x assume x: "x \<noteq> COMMIT_SEQ_ACCOUNT_KEY"
      have "distinct (map fst (map (account_op ?m) ?es))" using dist(1) by (simp add: comp_def)
      from apply_ops_map_of [OF this] x
      show "acc (st_accounts st') x = (case update_of c x of None \<Rightarrow> ?m x | Some u \<Rightarrow> snd (account_op ?m (x, u)))"
        by (simp add: a map_of_account_ops split: option.split)
      fix g k
      have "storage_key_new x g k \<noteq> COMMIT_SEQ_STORAGE_KEY"
        using x by (auto simp: COMMIT_SEQ_STORAGE_KEY_def storage_key_new_def)
      then show "sto (st_storage st') (storage_key_new x g k) =
          (case update_of c x of
             None \<Rightarrow> sto (st_storage st) (storage_key_new x g k)
           | Some u \<Rightarrow>
               (case bt_get (au_storage u) k of
                  None \<Rightarrow> sto (st_storage st) (storage_key_new x g k)
                | Some v \<Rightarrow>
                    if g = new_gen ?m x u then if v = 0 then None else Some v
                    else sto (st_storage st) (storage_key_new x g k)))"
        unfolding s
        by (simp add: apply_ops_map_of [OF distinct_storage_ops [OF dist]] map_of_storage_ops [OF dist(1)]
            split: option.split)
    qed
  qed
qed

lemma handle_commit_inner:
  assumes "handle_commit Q c h = (h', Inr ())"
  shows "qmdb_commit_changes Q c (qh_inner h) = (qh_inner h', Inr ())"
  using assms by (auto simp: handle_commit_def split: prod.splits sum.splits)

text \<open>Reads of the handle in terms of the content.\<close>

lemma qh_storage_ready:
  assumes "qs_stores (qh_inner h) = Some st" "aready (st_accounts st)" "sready (st_storage st)"
    and "\<forall>b. acc (st_accounts st) a = Some b \<longrightarrow> length b = 80"
  shows "qh_storage X Q h a k =
    Inr (if acc (st_accounts st) a = None then 0
         else case sto (st_storage st) (storage_key_new a (current_gen (acc (st_accounts st)) a) k) of
                None \<Rightarrow> 0 | Some v \<Rightarrow> v)"
proof (cases "acc (st_accounts st) a")
  case None
  then show ?thesis using assms by (simp add: qh_storage_def get_account_ready)
next
  case (Some b)
  then obtain n bal ch g where "account_decode b = Some (n, bal, ch, g)"
    using assms(4) account_decode_80 [of b] by (metis option.exhaust prod_cases4)
  with Some assms show ?thesis
    by (simp add: qh_storage_def get_account_ready get_storage_ready current_gen_def)
qed

lemma current_gen_update:
  "acc s a = snd (account_op m (a, u)) \<Longrightarrow> \<not> au_selfdestructed u \<Longrightarrow> current_gen (acc s) a = new_gen m a u"
  by (simp add: current_gen_def account_op_def)

lemma commit_overlay:
  assumes ready: "qs_stores (qh_inner h) = Some st" "aready (st_accounts st)" "sready (st_storage st)" "cready (st_code st)"
    and wf: "changes_wf c" and fresh: "store_fresh (acc (st_accounts st)) (sto (st_storage st)) a"
    and a: "a \<noteq> COMMIT_SEQ_ACCOUNT_KEY" "current_gen (acc (st_accounts st)) a \<noteq> - 1"
    and alive: "\<forall>u. update_of c a = Some u \<longrightarrow> \<not> au_selfdestructed u"
    and com: "handle_commit Q c h = (h', Inr ())"
  shows "same_reads (qmdb_state_db sh X Q R) h' (overlay_db (qmdb_state_db sh X Q R)) (overlay_new h c) a"
proof -
  let ?m = "acc (st_accounts st)" and ?s = "sto (st_storage st)"
  from ready wf handle_commit_inner [OF com] obtain st' where
      st': "qs_stores (qh_inner h') = Some st'" "aready (st_accounts st')" "sready (st_storage st')"
    and acc': "acc (st_accounts st') a = (case update_of c a of
        None \<Rightarrow> ?m a | Some u \<Rightarrow> snd (account_op ?m (a, u)))"
    and sto': "\<And>g k. sto (st_storage st') (storage_key_new a g k) =
      (case update_of c a of
         None \<Rightarrow> ?s (storage_key_new a g k)
       | Some u \<Rightarrow>
           (case bt_get (au_storage u) k of
              None \<Rightarrow> ?s (storage_key_new a g k)
            | Some v \<Rightarrow>
                if g = new_gen ?m a u then if v = 0 then None else Some v
                else ?s (storage_key_new a g k)))"
    by (rule commit_content) (use a in blast)
  have len: "\<forall>b. ?m a = Some b \<longrightarrow> length b = 80" using fresh by (simp add: store_fresh_def)
  have none: "?s (storage_key_new a g k) = None" if "?m a = None \<or> current_gen ?m a < g" for g k
  proof (rule ccontr)
    assume "?s (storage_key_new a g k) \<noteq> None"
    then have "?m a \<noteq> None \<and> g \<le> current_gen ?m a" using fresh unfolding store_fresh_def by blast
    with that show False by auto
  qed
  show ?thesis
  proof (cases "update_of c a")
    case None
    then have "acc (st_accounts st') a = ?m a" "current_gen (acc (st_accounts st')) a = current_gen ?m a"
      using acc' by (simp_all add: current_gen_def)
    then show ?thesis
      using None sto' len
      by (auto simp: same_reads_def overlay_db_def overlay_reads overlay_new_def qmdb_state_db_def fun_eq_iff
          qh_nonce_def qh_balance_def qh_code_hash_def account_field_def get_account_ready [OF st'(1,2)]
          get_account_ready [OF ready(1,2)] qh_storage_ready [OF st'] qh_storage_ready [OF ready(1,2,3)])
  next
    case (Some u)
    have sd: "\<not> au_selfdestructed u" using alive Some by simp
    have rec: "acc (st_accounts st') a = Some (account_encode (au_nonce u) (au_balance u) (au_code_hash u) (new_gen ?m a u))"
      using acc' Some sd by (simp add: account_op_def)
    then have gen: "current_gen (acc (st_accounts st')) a = new_gen ?m a u" by (simp add: current_gen_def)
    have "qh_storage X Q h' a k = overlay_storage (qmdb_state_db sh X Q R) (overlay_new h c) a k" for k
    proof (cases "bt_get (au_storage u) k")
      case v: (Some v)
      then show ?thesis
        using rec gen sto' Some sd
        by (simp add: qh_storage_ready [OF st'] overlay_storage_def overlay_new_def)
    next
      case v: None
      have "current_gen ?m a < new_gen ?m a u" if "au_created u"
        using that a(2) by (simp add: new_gen_def less_saturating_Suc)
      moreover have "new_gen ?m a u = current_gen ?m a" if "\<not> au_created u"
        using that sd by (simp add: new_gen_def)
      ultimately show ?thesis
        using v rec gen sto' Some sd none len
        by (simp add: qh_storage_ready [OF st'] qh_storage_ready [OF ready(1,2,3)] overlay_storage_def
            overlay_new_def qmdb_state_db_def)
    qed
    then show ?thesis
      using Some rec
      by (simp add: same_reads_def overlay_db_def overlay_nonce_def overlay_balance_def overlay_code_hash_def
          overlay_new_def qmdb_state_db_def fun_eq_iff qh_nonce_def qh_balance_def qh_code_hash_def
          account_field_def get_account_ready [OF st'(1,2)])
  qed
qed

lemma commit_fresh:
  assumes ready: "qs_stores q = Some st" "aready (st_accounts st)" "sready (st_storage st)" "cready (st_code st)"
    and wf: "changes_wf c" and fresh: "store_fresh (acc (st_accounts st)) (sto (st_storage st)) a"
    and a: "a \<noteq> COMMIT_SEQ_ACCOUNT_KEY"
    and alive: "\<forall>u. update_of c a = Some u \<longrightarrow> \<not> au_selfdestructed u"
    and com: "qmdb_commit_changes Q c q = (q', Inr ())"
  obtains st' where "qs_stores q' = Some st'" "aready (st_accounts st')" "sready (st_storage st')"
    "cready (st_code st')" "store_fresh (acc (st_accounts st')) (sto (st_storage st')) a"
proof -
  let ?m = "acc (st_accounts st)" and ?s = "sto (st_storage st)"
  from ready wf com obtain st' where
      st': "qs_stores q' = Some st'" "aready (st_accounts st')" "sready (st_storage st')" "cready (st_code st')"
    and acc': "acc (st_accounts st') a = (case update_of c a of
        None \<Rightarrow> ?m a | Some u \<Rightarrow> snd (account_op ?m (a, u)))"
    and sto': "\<And>g k. sto (st_storage st') (storage_key_new a g k) =
      (case update_of c a of
         None \<Rightarrow> ?s (storage_key_new a g k)
       | Some u \<Rightarrow>
           (case bt_get (au_storage u) k of
              None \<Rightarrow> ?s (storage_key_new a g k)
            | Some v \<Rightarrow>
                if g = new_gen ?m a u then if v = 0 then None else Some v
                else ?s (storage_key_new a g k)))"
    by (rule commit_content) (use a in blast)
  have "store_fresh (acc (st_accounts st')) (sto (st_storage st')) a"
  proof (cases "update_of c a")
    case None
    then show ?thesis using fresh acc' sto' by (simp add: store_fresh_def current_gen_def)
  next
    case (Some u)
    have gen: "current_gen (acc (st_accounts st')) a = new_gen ?m a u"
      and len: "\<exists>b. acc (st_accounts st') a = Some b \<and> length b = 80"
      using acc' Some alive by (simp_all add: account_op_def current_gen_def)
    have "current_gen ?m a \<le> new_gen ?m a u"
      by (simp add: new_gen_def le_saturating_Suc)
    then have old: "g \<le> new_gen ?m a u" if "?s (storage_key_new a g k) \<noteq> None" for g k
      using that fresh unfolding store_fresh_def by (meson order_trans)
    have "g \<le> new_gen ?m a u" if "sto (st_storage st') (storage_key_new a g k) \<noteq> None" for g k
    proof (cases "bt_get (au_storage u) k = None \<or> g \<noteq> new_gen ?m a u")
      case True
      then have "?s (storage_key_new a g k) \<noteq> None" using that sto' [of g k] Some
        by (cases "bt_get (au_storage u) k") auto
      then show ?thesis by (rule old)
    qed simp
    then show ?thesis using gen len by (auto simp: store_fresh_def)
  qed
  with st' show ?thesis by (rule that)
qed

lemma destroyed_storage:
  assumes ready: "qs_stores (qh_inner h) = Some st" "aready (st_accounts st)" "sready (st_storage st)" "cready (st_code st)"
    and wf: "changes_wf c" "changes_wf c'" and a: "a \<noteq> COMMIT_SEQ_ACCOUNT_KEY"
    and slot: "sto (st_storage st) (storage_key_new a 1 k) = Some v"
    and u: "update_of c a = Some u" "au_selfdestructed u" "bt_get (au_storage u) k = None"
    and u': "update_of c' a = Some u'" "au_created u'" "\<not> au_selfdestructed u'" "bt_get (au_storage u') k = None"
    and com: "handle_commit Q c h = (h1, Inr ())" "handle_commit Q c' h1 = (h2, Inr ())"
  shows "qh_storage X Q h2 a k = Inr v"
proof -
  from ready wf(1) handle_commit_inner [OF com(1)] obtain st1 where
      st1: "qs_stores (qh_inner h1) = Some st1" "aready (st_accounts st1)" "sready (st_storage st1)" "cready (st_code st1)"
    and acc1: "acc (st_accounts st1) a = None" and sto1: "sto (st_storage st1) (storage_key_new a 1 k) = Some v"
    by (rule commit_content) (use a u slot in \<open>simp add: account_op_def\<close>)
  have gen: "new_gen (acc (st_accounts st1)) a u' = 1"
    using acc1 u'(2) by (simp add: new_gen_def current_gen_def saturating_add_def)
  from st1 wf(2) handle_commit_inner [OF com(2)] obtain st2 where
      st2: "qs_stores (qh_inner h2) = Some st2" "aready (st_accounts st2)" "sready (st_storage st2)"
    and acc2: "acc (st_accounts st2) a =
        Some (account_encode (au_nonce u') (au_balance u') (au_code_hash u') 1)"
    and sto2: "sto (st_storage st2) (storage_key_new a 1 k) = Some v"
    by (rule commit_content) (use a u' sto1 gen in \<open>simp add: account_op_def\<close>)
  show ?thesis
    using acc2 sto2 by (simp add: qh_storage_ready [OF st2] current_gen_def)
qed

end

section \<open>Interrupted commits\<close>

text \<open>
  A node that stops during a commit: from one write on, no write reaches its partition any more. The operations under
  which only the first \<open>n\<close> partitions, in the order accounts, storage, code, can still be written:
\<close>

definition stopped_ops :: "('s, 'k, 'v) qmdb_ops \<Rightarrow> ('s, 'k, 'v) qmdb_ops" where
  "stopped_ops Q = Q\<lparr>qo_write_batch := \<lambda>_ s. (s, Inl ''stopped'')\<rparr>"

definition cut_ops :: "nat \<Rightarrow> ('a, 's, 'c) store_ops \<Rightarrow> ('a, 's, 'c) store_ops" where
  "cut_ops n Q =
     \<lparr>so_accounts = (if n \<ge> 1 then so_accounts Q else stopped_ops (so_accounts Q)),
      so_storage = (if n \<ge> 2 then so_storage Q else stopped_ops (so_storage Q)),
      so_code = (if n \<ge> 3 then so_code Q else stopped_ops (so_code Q))\<rparr>"

text \<open>What is on disk after a commit under these operations.\<close>

definition interrupted :: "('a, 's, 'c) store_ops \<Rightarrow> u64 \<Rightarrow> StoreBatches \<Rightarrow> nat \<Rightarrow> ('a, 's, 'c) Stores \<Rightarrow>
    ('a, 's, 'c) Stores" where
  "interrupted Q seq b n st =
     \<lparr>st_accounts = (if n \<ge> 1 then fst (qo_write_batch (so_accounts Q) (account_ops seq b) (st_accounts st))
                     else st_accounts st),
      st_storage = (if n \<ge> 2 then fst (qo_write_batch (so_storage Q) (storage_ops seq b) (st_storage st))
                    else st_storage st),
      st_code = (if n \<ge> 3 then fst (qo_write_batch (so_code Q) (code_ops seq b) (st_code st))
                 else st_code st)\<rparr>"

lemma build_loop_cong: "qo_get A = qo_get A' \<Longrightarrow> build_batches_loop A s es b = build_batches_loop A' s es b"
  by (induction es arbitrary: b) (auto simp: Let_def split: sum.split)

lemma build_batches_cut: "build_batches (cut_ops n Q) q c = build_batches Q q c"
proof -
  have "qo_get (so_accounts (cut_ops n Q)) = qo_get (so_accounts Q)" by (simp add: cut_ops_def stopped_ops_def)
  from build_loop_cong [OF this] show ?thesis by (simp add: build_batches_def split: sum.split)
qed

lemma apply_batches_cut:
  assumes "qs_stores q = Some st" and "apply_batches Q b q = (q', Inr ())"
  defines "seq \<equiv> saturating_add (qs_commit_seq q) 1"
  shows "snd (qo_write_batch (so_accounts Q) (account_ops seq b) (st_accounts st)) = Inr ()"
    and "snd (qo_write_batch (so_storage Q) (storage_ops seq b) (st_storage st)) = Inr ()"
    and "snd (qo_write_batch (so_code Q) (code_ops seq b) (st_code st)) = Inr ()"
    and "qs_stores (fst (apply_batches (cut_ops n Q) b q)) = Some (interrupted Q seq b n st)"
proof -
  from assms obtain a s c where
    w: "qo_write_batch (so_accounts Q) (account_ops seq b) (st_accounts st) = (a, Inr ())"
      "qo_write_batch (so_storage Q) (storage_ops seq b) (st_storage st) = (s, Inr ())"
      "qo_write_batch (so_code Q) (code_ops seq b) (st_code st) = (c, Inr ())"
    by (auto simp: apply_batches_def Let_def split: prod.splits sum.splits)
  then show "snd (qo_write_batch (so_accounts Q) (account_ops seq b) (st_accounts st)) = Inr ()"
    "snd (qo_write_batch (so_storage Q) (storage_ops seq b) (st_storage st)) = Inr ()"
    "snd (qo_write_batch (so_code Q) (code_ops seq b) (st_code st)) = Inr ()" by simp_all
  consider "n = 0" | "n = 1" | "n = 2" | "n \<ge> 3" by linarith
  then show "qs_stores (fst (apply_batches (cut_ops n Q) b q)) = Some (interrupted Q seq b n st)"
    by cases (use w assms(1) in \<open>simp_all add: apply_batches_def Let_def seq_def [symmetric] cut_ops_def stopped_ops_def interrupted_def\<close>)
qed

context qmdb_stores
begin

lemma read_seqs_ready:
  assumes "qs_stores q = Some st" "aready (st_accounts st)" "sready (st_storage st)" "cready (st_code st)"
  shows "read_partition_commit_seqs Q q =
    Inr \<lparr>pcs_accounts = Option.bind (acc (st_accounts st) COMMIT_SEQ_ACCOUNT_KEY) decode_commit_seq_account,
         pcs_storage = Option.bind (sto (st_storage st) COMMIT_SEQ_STORAGE_KEY) decode_commit_seq_storage,
         pcs_code = Option.bind (cod (st_code st) COMMIT_SEQ_CODE_KEY) decode_commit_seq_code\<rparr>"
  using assms
  by (simp add: read_partition_commit_seqs_def stores_def accounts.get_content storage.get_content
      code.get_content)

lemma commit_markers:
  assumes ready: "qs_stores q = Some st" "aready (st_accounts st)" "sready (st_storage st)" "cready (st_code st)"
    and app: "apply_batches Q b q = (q', Inr ())"
  shows "read_partition_commit_seqs Q q' =
      Inr \<lparr>pcs_accounts = Some (qs_commit_seq q'), pcs_storage = Some (qs_commit_seq q'),
           pcs_code = Some (qs_commit_seq q')\<rparr>"
    and "qs_commit_seq q' = saturating_add (qs_commit_seq q) 1"
proof -
  from ready app obtain st' where st': "qs_stores q' = Some st'" "aready (st_accounts st')"
      "sready (st_storage st')" "cready (st_code st')"
    and seq: "qs_commit_seq q' = saturating_add (qs_commit_seq q) 1"
    and "acc (st_accounts st') = apply_ops (account_ops (qs_commit_seq q') b) (acc (st_accounts st))"
      "sto (st_storage st') = apply_ops (storage_ops (qs_commit_seq q') b) (sto (st_storage st))"
      "cod (st_code st') = apply_ops (code_ops (qs_commit_seq q') b) (cod (st_code st))"
    by (rule apply_batches_cases)
  then show "read_partition_commit_seqs Q q' =
      Inr \<lparr>pcs_accounts = Some (qs_commit_seq q'), pcs_storage = Some (qs_commit_seq q'),
           pcs_code = Some (qs_commit_seq q')\<rparr>"
    by (simp add: read_seqs_ready [OF st'] account_ops_def storage_ops_def code_ops_def)
  show "qs_commit_seq q' = saturating_add (qs_commit_seq q) 1" by (rule seq)
qed

lemma interrupted_seqs:
  assumes ready: "qs_stores q = Some st" "aready (st_accounts st)" "sready (st_storage st)" "cready (st_code st)"
    and before: "read_partition_commit_seqs Q q = Inr s0" "is_consistent s0"
      "pcs_accounts s0 = None \<or> pcs_accounts s0 = Some (qs_commit_seq q)"
    and seq: "qs_commit_seq q \<noteq> - 1" "seq = saturating_add (qs_commit_seq q) 1"
    and ok: "snd (qo_write_batch (so_accounts Q) (account_ops seq b) (st_accounts st)) = Inr ()"
      "snd (qo_write_batch (so_storage Q) (storage_ops seq b) (st_storage st)) = Inr ()"
      "snd (qo_write_batch (so_code Q) (code_ops seq b) (st_code st)) = Inr ()"
    and q': "qs_stores q' = Some (interrupted Q seq b n st)"
  shows "\<exists>s. read_partition_commit_seqs Q q' = Inr s \<and> (is_consistent s \<longleftrightarrow> n = 0 \<or> n \<ge> 3) \<and>
    (n \<ge> 3 \<longrightarrow> s = \<lparr>pcs_accounts = Some seq, pcs_storage = Some seq, pcs_code = Some seq\<rparr>)"
proof -
  let ?A = "fst (qo_write_batch (so_accounts Q) (account_ops seq b) (st_accounts st))"
  let ?S = "fst (qo_write_batch (so_storage Q) (storage_ops seq b) (st_storage st))"
  let ?C = "fst (qo_write_batch (so_code Q) (code_ops seq b) (st_code st))"
  have w: "qo_write_batch (so_accounts Q) (account_ops seq b) (st_accounts st) = (?A, Inr ())"
      "qo_write_batch (so_storage Q) (storage_ops seq b) (st_storage st) = (?S, Inr ())"
      "qo_write_batch (so_code Q) (code_ops seq b) (st_code st) = (?C, Inr ())"
    using ok by (simp_all add: prod_eq_iff)
  have r: "aready ?A" "sready ?S" "cready ?C"
    using accounts.write_ready [OF ready(2) w(1)] storage.write_ready [OF ready(3) w(2)]
      code.write_ready [OF ready(4) w(3)] .
  have m: "acc ?A COMMIT_SEQ_ACCOUNT_KEY = Some (encode_commit_seq_account seq)"
      "sto ?S COMMIT_SEQ_STORAGE_KEY = Some (ucast seq)"
      "cod ?C COMMIT_SEQ_CODE_KEY = Some (encode_commit_seq_code seq)"
    using accounts.write_content [OF ready(2) w(1)] storage.write_content [OF ready(3) w(2)]
      code.write_content [OF ready(4) w(3)]
    by (simp_all add: account_ops_def storage_ops_def code_ops_def)
  have ne: "seq \<noteq> qs_commit_seq q" using less_saturating_Suc [OF seq(1)] seq(2) by auto
  let ?st = "interrupted Q seq b n st"
  have rdy: "aready (st_accounts ?st)" "sready (st_storage ?st)" "cready (st_code ?st)"
    using ready r by (simp_all add: interrupted_def)
  note now = read_seqs_ready [OF q' rdy]
  consider "n = 0" | "n = 1" | "n = 2" | "n \<ge> 3" by linarith
  then show ?thesis
    using before ne m
    by cases (auto simp: now read_seqs_ready [OF ready] interrupted_def is_consistent_def split: option.splits)
qed

end

end
