(* ===== verification/Qmdb_Backend.thy ===== *)
theory Qmdb_Backend
  imports Qmdb_Commit
begin

text \<open>
  The partitions on disk (\<open>crates/storage/backend\<close>) and the ledger service over them
  (\<open>crates/storage/qmdb-ledger\<close>). The authenticated database of \<open>commonware_storage\<close> is the
  record \<open>commonware_db\<close>, with what it documents in \<open>commonware_db_ok\<close>; the partitions over it
  keep the partition contract, so the facts of \<open>Qmdb_Commit\<close> hold for them.
\<close>

section \<open>Errors\<close>

datatype BackendError =
    BackendStorage string
  | BackendConfig string
  | NotInitialized
  | BackendPartition string
  | BackendRootComputation string
  | BackendInconsistentPartitions string

fun backend_error_string :: "BackendError \<Rightarrow> string" where
  "backend_error_string (BackendStorage s) = ''storage error: '' @ s"
| "backend_error_string (BackendConfig s) = ''configuration error: '' @ s"
| "backend_error_string NotInitialized = ''database not initialized''"
| "backend_error_string (BackendPartition s) = ''partition error: '' @ s"
| "backend_error_string (BackendRootComputation s) = ''root computation failed: '' @ s"
| "backend_error_string (BackendInconsistentPartitions s) = ''inconsistent partitions: '' @ s"

section \<open>The database of the library\<close>

text \<open>
  A batch is the list of its writes. \<open>db_merkleize\<close> prepares it against the current state,
  \<open>db_apply_batch\<close> applies it, \<open>db_commit\<close> makes it durable.
\<close>

record ('d, 'm, 'v) commonware_db =
  db_get :: "'d \<Rightarrow> bytes \<Rightarrow> string + 'v option"
  db_merkleize :: "'d \<Rightarrow> (bytes \<times> 'v option) list \<Rightarrow> string + 'm"
  db_apply_batch :: "'m \<Rightarrow> 'd \<Rightarrow> 'd \<times> (string + unit)"
  db_commit :: "'d \<Rightarrow> 'd \<times> (string + unit)"
  db_root :: "'d \<Rightarrow> b256"

definition db_content :: "('d, 'm, 'v) commonware_db \<Rightarrow> 'd \<Rightarrow> bytes \<Rightarrow> 'v option" where
  "db_content DB d k = (case db_get DB d k of Inr v \<Rightarrow> v | Inl _ \<Rightarrow> None)"

definition commonware_db_ok :: "('d, 'm, 'v) commonware_db \<Rightarrow> bool" where
  "commonware_db_ok DB \<longleftrightarrow>
     (\<forall>d k. db_get DB d k = Inr (db_content DB d k)) \<and>
     (\<forall>d ops m d'. db_merkleize DB d ops = Inr m \<longrightarrow> db_apply_batch DB m d = (d', Inr ()) \<longrightarrow>
        db_content DB d' = apply_ops ops (db_content DB d)) \<and>
     (\<forall>d d'. db_commit DB d = (d', Inr ()) \<longrightarrow> db_content DB d' = db_content DB d)"

section \<open>Store slots\<close>

type_synonym 'd StoreSlot = "'d option"

definition slot_get :: "'d StoreSlot \<Rightarrow> BackendError + 'd" where
  "slot_get s = (case s of None \<Rightarrow> Inl NotInitialized | Some d \<Rightarrow> Inr d)"

definition slot_take :: "'d StoreSlot \<Rightarrow> 'd StoreSlot \<times> (BackendError + 'd)" where
  "slot_take s = (None, slot_get s)"

definition slot_restore :: "'d \<Rightarrow> 'd StoreSlot \<Rightarrow> 'd StoreSlot" where
  "slot_restore d s = Some d"

definition slot_into_inner :: "'d StoreSlot \<Rightarrow> BackendError + 'd" where
  "slot_into_inner s = slot_get s"

section \<open>Partitions\<close>

text \<open>
  The three stores differ in their keys only. A write takes the database out of its slot and
  puts it back when the batch is merkleized, applied and committed; a failure leaves the slot
  empty.
\<close>

definition partition_get :: "('k \<Rightarrow> bytes) \<Rightarrow> ('d, 'm, 'v) commonware_db \<Rightarrow> 'd StoreSlot \<Rightarrow> 'k \<Rightarrow>
    BackendError + 'v option" where
  "partition_get key DB s k =
     (case slot_get s of
        Inl e \<Rightarrow> Inl e
      | Inr d \<Rightarrow> (case db_get DB d (key k) of Inl e \<Rightarrow> Inl (BackendStorage e) | Inr v \<Rightarrow> Inr v))"

definition partition_write_batch :: "('k \<Rightarrow> bytes) \<Rightarrow> ('d, 'm, 'v) commonware_db \<Rightarrow>
    ('k \<times> 'v option) list \<Rightarrow> 'd StoreSlot \<Rightarrow> 'd StoreSlot \<times> (BackendError + unit)" where
  "partition_write_batch key DB ops s =
     (case slot_take s of
        (s1, Inl e) \<Rightarrow> (s1, Inl e)
      | (s1, Inr d) \<Rightarrow>
          (case db_merkleize DB d (map (\<lambda>(k, v). (key k, v)) ops) of
             Inl e \<Rightarrow> (s1, Inl (BackendStorage e))
           | Inr m \<Rightarrow>
               (case db_apply_batch DB m d of
                  (d1, Inl e) \<Rightarrow> (s1, Inl (BackendStorage e))
                | (d1, Inr _) \<Rightarrow>
                    (case db_commit DB d1 of
                       (d2, Inl e) \<Rightarrow> (s1, Inl (BackendStorage e))
                     | (d2, Inr _) \<Rightarrow> (slot_restore d2 s1, Inr ())))))"

definition partition_root :: "('d, 'm, 'v) commonware_db \<Rightarrow> 'd StoreSlot \<Rightarrow> BackendError + b256" where
  "partition_root DB s = (case slot_get s of Inl e \<Rightarrow> Inl e | Inr d \<Rightarrow> Inr (db_root DB d))"

definition account_key :: "address \<Rightarrow> bytes" where
  "account_key a = to_be_bytes 20 a"

definition code_key :: "b256 \<Rightarrow> bytes" where
  "code_key h = to_be_bytes 32 h"

definition string_err :: "('e \<Rightarrow> string) \<Rightarrow> 'e + 'a \<Rightarrow> string + 'a" where
  "string_err f r = (case r of Inl e \<Rightarrow> Inl (f e) | Inr x \<Rightarrow> Inr x)"

definition account_store_ops :: "('d, 'm, bytes) commonware_db \<Rightarrow> ('d StoreSlot, address, bytes) qmdb_ops" where
  "account_store_ops DB =
     \<lparr>qo_get = (\<lambda>s k. string_err backend_error_string (partition_get account_key DB s k)),
      qo_write_batch = (\<lambda>ops s. map_prod id (string_err backend_error_string)
                         (partition_write_batch account_key DB ops s))\<rparr>"

definition storage_store_ops :: "('d, 'm, u256) commonware_db \<Rightarrow> ('d StoreSlot, StorageKey, u256) qmdb_ops" where
  "storage_store_ops DB =
     \<lparr>qo_get = (\<lambda>s k. string_err backend_error_string (partition_get storage_key_to_bytes DB s k)),
      qo_write_batch = (\<lambda>ops s. map_prod id (string_err backend_error_string)
                         (partition_write_batch storage_key_to_bytes DB ops s))\<rparr>"

definition code_store_ops :: "('d, 'm, bytes) commonware_db \<Rightarrow> ('d StoreSlot, b256, bytes) qmdb_ops" where
  "code_store_ops DB =
     \<lparr>qo_get = (\<lambda>s k. string_err backend_error_string (partition_get code_key DB s k)),
      qo_write_batch = (\<lambda>ops s. map_prod id (string_err backend_error_string)
                         (partition_write_batch code_key DB ops s))\<rparr>"

text \<open>The databases of the three partitions, and how each is opened from the disk \<open>'w\<close>.\<close>

record ('w, 'ad, 'am, 'sd, 'sm, 'cd, 'cm) backend_dbs =
  bd_accounts :: "('ad, 'am, bytes) commonware_db"
  bd_storage :: "('sd, 'sm, u256) commonware_db"
  bd_code :: "('cd, 'cm, bytes) commonware_db"
  bd_init_accounts :: "'w \<Rightarrow> string \<Rightarrow> string + 'ad"
  bd_init_storage :: "'w \<Rightarrow> string \<Rightarrow> string + 'sd"
  bd_init_code :: "'w \<Rightarrow> string \<Rightarrow> string + 'cd"

definition backend_ops :: "('w, 'ad, 'am, 'sd, 'sm, 'cd, 'cm) backend_dbs \<Rightarrow>
    ('ad StoreSlot, 'sd StoreSlot, 'cd StoreSlot) store_ops" where
  "backend_ops B =
     \<lparr>so_accounts = account_store_ops (bd_accounts B), so_storage = storage_store_ops (bd_storage B),
      so_code = code_store_ops (bd_code B)\<rparr>"

text \<open>Stores opened for computing a root only: no slot, and batches are applied but not committed.\<close>

definition dirty_get :: "('k \<Rightarrow> bytes) \<Rightarrow> ('d, 'm, 'v) commonware_db \<Rightarrow> 'd \<Rightarrow> 'k \<Rightarrow> BackendError + 'v option" where
  "dirty_get key DB d k =
     (case db_get DB d (key k) of Inl e \<Rightarrow> Inl (BackendStorage e) | Inr v \<Rightarrow> Inr v)"

definition dirty_write_batch :: "('k \<Rightarrow> bytes) \<Rightarrow> ('d, 'm, 'v) commonware_db \<Rightarrow>
    ('k \<times> 'v option) list \<Rightarrow> 'd \<Rightarrow> 'd \<times> (BackendError + unit)" where
  "dirty_write_batch key DB ops d =
     (case db_merkleize DB d (map (\<lambda>(k, v). (key k, v)) ops) of
        Inl e \<Rightarrow> (d, Inl (BackendStorage e))
      | Inr m \<Rightarrow>
          (case db_apply_batch DB m d of
             (d1, Inl e) \<Rightarrow> (d1, Inl (BackendStorage e))
           | (d1, Inr _) \<Rightarrow> (d1, Inr ())))"

definition dirty_store_ops :: "('k \<Rightarrow> bytes) \<Rightarrow> ('d, 'm, 'v) commonware_db \<Rightarrow> ('d, 'k, 'v) qmdb_ops" where
  "dirty_store_ops key DB =
     \<lparr>qo_get = (\<lambda>s k. string_err backend_error_string (dirty_get key DB s k)),
      qo_write_batch = (\<lambda>ops s. map_prod id (string_err backend_error_string) (dirty_write_batch key DB ops s))\<rparr>"

definition dirty_ops :: "('w, 'ad, 'am, 'sd, 'sm, 'cd, 'cm) backend_dbs \<Rightarrow> ('ad, 'sd, 'cd) store_ops" where
  "dirty_ops B =
     \<lparr>so_accounts = dirty_store_ops account_key (bd_accounts B),
      so_storage = dirty_store_ops storage_key_to_bytes (bd_storage B),
      so_code = dirty_store_ops code_key (bd_code B)\<rparr>"

section \<open>The partitions keep the contract\<close>

definition slot_content :: "('k \<Rightarrow> bytes) \<Rightarrow> ('d, 'm, 'v) commonware_db \<Rightarrow> 'd StoreSlot \<Rightarrow> 'k \<Rightarrow> 'v option" where
  "slot_content key DB s k = (case s of None \<Rightarrow> None | Some d \<Rightarrow> db_content DB d (key k))"

definition slot_ready :: "('d, 'm, 'v) commonware_db \<Rightarrow> 'd StoreSlot \<Rightarrow> bool" where
  "slot_ready DB s \<longleftrightarrow> commonware_db_ok DB \<and> s \<noteq> None"

lemma key_inj:
  "inj account_key" "inj storage_key_to_bytes" "inj code_key"
  by (auto intro!: injI simp: account_key_def code_key_def storage_key_inj)

lemma apply_ops_keys:
  assumes "inj f"
  shows "apply_ops (map (\<lambda>(k, v). (f k, v)) ops) m (f k) = apply_ops ops (m \<circ> f) k"
proof (induction ops arbitrary: m)
  case (Cons e ops)
  obtain k' v where e: "e = (k', v)" by (cases e)
  have "m(f k' := v) \<circ> f = (m \<circ> f)(k' := v)" using assms by (auto simp: inj_def)
  then have "apply_ops (map (\<lambda>(k, v). (f k, v)) ops) (m(f k' := v)) (f k) = apply_ops ops ((m \<circ> f)(k' := v)) k"
    by (simp only: Cons.IH)
  then show ?case by (simp only: e list.map prod.case apply_ops_simps)
qed simp

lemma slot_content_Some: "slot_content key DB (Some d) = db_content DB d \<circ> key"
  by (simp add: slot_content_def fun_eq_iff)

lemma partition_write_content:
  assumes "inj key" "slot_ready DB s" "partition_write_batch key DB ops s = (s', Inr ())"
  shows "slot_ready DB s'" and "slot_content key DB s' = apply_ops ops (slot_content key DB s)"
proof -
  have ok: "commonware_db_ok DB" using assms(2) by (simp add: slot_ready_def)
  obtain d where d: "s = Some d" using assms(2) by (auto simp: slot_ready_def)
  let ?ops = "map (\<lambda>(k, v). (key k, v)) ops"
  obtain m d1 d2 where "db_merkleize DB d ?ops = Inr m" "db_apply_batch DB m d = (d1, Inr ())"
      "db_commit DB d1 = (d2, Inr ())" and s': "s' = Some d2"
    using assms(3)
    by (auto simp: partition_write_batch_def slot_take_def slot_get_def slot_restore_def d
        split: sum.splits prod.splits)
  then have "db_content DB d2 = apply_ops ?ops (db_content DB d)"
    using ok unfolding commonware_db_ok_def by metis
  then show "slot_content key DB s' = apply_ops ops (slot_content key DB s)"
    by (intro ext) (simp add: slot_content_Some s' d apply_ops_keys [OF assms(1)])
  show "slot_ready DB s'" using ok s' by (simp add: slot_ready_def)
qed

lemma partition_get_content:
  "slot_ready DB s \<Longrightarrow> partition_get key DB s k = Inr (slot_content key DB s k)"
  by (auto simp: partition_get_def slot_get_def slot_ready_def slot_content_def commonware_db_ok_def)

lemma string_err_Inr [simp]: "string_err f r = Inr x \<longleftrightarrow> r = Inr x"
  by (auto simp: string_err_def split: sum.splits)

lemma map_prod_string_err: "map_prod id (string_err f) p = (s, Inr x) \<longleftrightarrow> p = (s, Inr x)"
  by (cases p) auto

lemma slot_partition:
  assumes "inj key"
  shows "qmdb_partition (\<lambda>s k. string_err backend_error_string (partition_get key DB s k))
    (\<lambda>ops s. map_prod id (string_err backend_error_string) (partition_write_batch key DB ops s))
    (slot_content key DB) (slot_ready DB)"
  by unfold_locales
    (auto simp: partition_get_content map_prod_string_err dest: partition_write_content [OF assms])

interpretation backend: qmdb_stores "backend_ops B"
  "slot_content account_key (bd_accounts B)" "slot_ready (bd_accounts B)"
  "slot_content storage_key_to_bytes (bd_storage B)" "slot_ready (bd_storage B)"
  "slot_content code_key (bd_code B)" "slot_ready (bd_code B)" for B
  by (simp add: qmdb_stores_def backend_ops_def account_store_ops_def storage_store_ops_def
      code_store_ops_def slot_partition key_inj)

lemma dirty_partition:
  assumes "inj key"
  shows "qmdb_partition (\<lambda>s k. string_err backend_error_string (dirty_get key DB s k))
    (\<lambda>ops s. map_prod id (string_err backend_error_string) (dirty_write_batch key DB ops s))
    (\<lambda>d k. db_content DB d (key k)) (\<lambda>_. commonware_db_ok DB)"
proof unfold_locales
  fix d d' ops and k :: 'a
  assume ok: "commonware_db_ok DB"
  then show "string_err backend_error_string (dirty_get key DB d k) = Inr (db_content DB d (key k))"
    by (simp add: dirty_get_def commonware_db_ok_def)
  assume "map_prod id (string_err backend_error_string) (dirty_write_batch key DB ops d) = (d', Inr ())"
  then obtain m where "db_merkleize DB d (map (\<lambda>(k, v). (key k, v)) ops) = Inr m"
      "db_apply_batch DB m d = (d', Inr ())"
    by (auto simp: map_prod_string_err dirty_write_batch_def split: sum.splits prod.splits)
  then have "db_content DB d' = apply_ops (map (\<lambda>(k, v). (key k, v)) ops) (db_content DB d)"
    using ok unfolding commonware_db_ok_def by blast
  then show "(\<lambda>k. db_content DB d' (key k)) = apply_ops ops (\<lambda>k. db_content DB d (key k))"
    by (intro ext) (simp add: apply_ops_keys [OF assms] comp_def)
qed

interpretation dirty: qmdb_stores "dirty_ops B"
  "\<lambda>d k. db_content (bd_accounts B) d (account_key k)" "\<lambda>_. commonware_db_ok (bd_accounts B)"
  "\<lambda>d k. db_content (bd_storage B) d (storage_key_to_bytes k)" "\<lambda>_. commonware_db_ok (bd_storage B)"
  "\<lambda>d k. db_content (bd_code B) d (code_key k)" "\<lambda>_. commonware_db_ok (bd_code B)" for B
  by (simp add: qmdb_stores_def dirty_ops_def dirty_store_ops_def dirty_partition key_inj)

section \<open>Opening and verifying the backend\<close>

definition open_stores :: "('w, 'ad, 'am, 'sd, 'sm, 'cd, 'cm) backend_dbs \<Rightarrow> 'w \<Rightarrow> string \<Rightarrow>
    BackendError + ('ad StoreSlot, 'sd StoreSlot, 'cd StoreSlot) Stores" where
  "open_stores B w prefix =
     (case bd_init_accounts B w (prefix @ ''-accounts'') of
        Inl e \<Rightarrow> Inl (BackendStorage (backend_error_string (BackendStorage e)))
      | Inr accounts \<Rightarrow>
          (case bd_init_storage B w (prefix @ ''-storage'') of
             Inl e \<Rightarrow> Inl (BackendStorage (backend_error_string (BackendStorage e)))
           | Inr storage \<Rightarrow>
               (case bd_init_code B w (prefix @ ''-code'') of
                  Inl e \<Rightarrow> Inl (BackendStorage (backend_error_string (BackendStorage e)))
                | Inr code \<Rightarrow>
                    Inr \<lparr>st_accounts = Some accounts, st_storage = Some storage, st_code = Some code\<rparr>)))"

definition open_dirty_stores :: "('w, 'ad, 'am, 'sd, 'sm, 'cd, 'cm) backend_dbs \<Rightarrow> 'w \<Rightarrow> string \<Rightarrow>
    BackendError + ('ad, 'sd, 'cd) Stores" where
  "open_dirty_stores B w prefix =
     (case open_stores B w prefix of
        Inl e \<Rightarrow> Inl e
      | Inr st \<Rightarrow>
          (case slot_into_inner (st_accounts st) of
             Inl e \<Rightarrow> Inl e
           | Inr a \<Rightarrow>
               (case slot_into_inner (st_storage st) of
                  Inl e \<Rightarrow> Inl e
                | Inr s \<Rightarrow>
                    (case slot_into_inner (st_code st) of
                       Inl e \<Rightarrow> Inl e
                     | Inr c \<Rightarrow> Inr \<lparr>st_accounts = a, st_storage = s, st_code = c\<rparr>))))"

definition backend_read_seqs :: "('w, 'ad, 'am, 'sd, 'sm, 'cd, 'cm) backend_dbs \<Rightarrow>
    ('ad StoreSlot, 'sd StoreSlot, 'cd StoreSlot) Stores \<Rightarrow> BackendError + PartitionCommitSeqs" where
  "backend_read_seqs B st =
     (case partition_get account_key (bd_accounts B) (st_accounts st) COMMIT_SEQ_ACCOUNT_KEY of
        Inl e \<Rightarrow> Inl (BackendStorage (backend_error_string e))
      | Inr av \<Rightarrow>
          (case partition_get storage_key_to_bytes (bd_storage B) (st_storage st) COMMIT_SEQ_STORAGE_KEY of
             Inl e \<Rightarrow> Inl (BackendStorage (backend_error_string e))
           | Inr sv \<Rightarrow>
               (case partition_get code_key (bd_code B) (st_code st) COMMIT_SEQ_CODE_KEY of
                  Inl e \<Rightarrow> Inl (BackendStorage (backend_error_string e))
                | Inr cv \<Rightarrow>
                    Inr \<lparr>pcs_accounts = Option.bind av (\<lambda>b. map_option fst (account_decode b)),
                         pcs_storage = Option.bind sv decode_commit_seq_storage,
                         pcs_code = Option.bind cv (\<lambda>b. if length b \<ge> 8 then Some (from_be_bytes (take 8 b)) else None)\<rparr>)))"

definition verify_partition_consistency :: "(u64 \<Rightarrow> string) \<Rightarrow> ('w, 'ad, 'am, 'sd, 'sm, 'cd, 'cm) backend_dbs \<Rightarrow>
    ('ad StoreSlot, 'sd StoreSlot, 'cd StoreSlot) Stores \<Rightarrow> BackendError + PartitionCommitSeqs" where
  "verify_partition_consistency show_u64 B st =
     (case backend_read_seqs B st of
        Inl e \<Rightarrow> Inl e
      | Inr seqs \<Rightarrow>
          (case inconsistency_message show_u64 seqs of
             Some msg \<Rightarrow> Inl (BackendInconsistentPartitions msg)
           | None \<Rightarrow> Inr seqs))"

definition state_root_from_roots :: "externs \<Rightarrow> b256 \<Rightarrow> b256 \<Rightarrow> b256 \<Rightarrow> b256" where
  "state_root_from_roots X accounts storage code = root_compute X accounts storage code"

definition state_root_from_stores :: "externs \<Rightarrow> ('w, 'ad, 'am, 'sd, 'sm, 'cd, 'cm) backend_dbs \<Rightarrow>
    ('ad StoreSlot, 'sd StoreSlot, 'cd StoreSlot) Stores \<Rightarrow> BackendError + b256" where
  "state_root_from_stores X B st =
     (case partition_root (bd_accounts B) (st_accounts st) of
        Inl e \<Rightarrow> Inl e
      | Inr a \<Rightarrow>
          (case partition_root (bd_storage B) (st_storage st) of
             Inl e \<Rightarrow> Inl e
           | Inr s \<Rightarrow>
               (case partition_root (bd_code B) (st_code st) of
                  Inl e \<Rightarrow> Inl e
                | Inr c \<Rightarrow> Inr (state_root_from_roots X a s c))))"

section \<open>The root provider\<close>

text \<open>It opens the partitions again for every root; its state is the disk and the prefix.\<close>

definition provider_state_root :: "externs \<Rightarrow> ('w, 'ad, 'am, 'sd, 'sm, 'cd, 'cm) backend_dbs \<Rightarrow>
    'w \<times> string \<Rightarrow> HandleError + b256" where
  "provider_state_root X B r =
     (case open_stores B (fst r) (snd r) of
        Inl e \<Rightarrow> Inl (HandleRootComputation (backend_error_string e))
      | Inr st \<Rightarrow>
          (case state_root_from_stores X B st of
             Inl e \<Rightarrow> Inl (HandleRootComputation (backend_error_string e))
           | Inr root \<Rightarrow> Inr root))"

definition provider_compute_root :: "externs \<Rightarrow> ('w, 'ad, 'am, 'sd, 'sm, 'cd, 'cm) backend_dbs \<Rightarrow> ChangeSet \<Rightarrow>
    'w \<times> string \<Rightarrow> ('w \<times> string) \<times> (HandleError + b256)" where
  "provider_compute_root X B changes r =
     (if changes_is_empty changes then (r, provider_state_root X B r)
      else case open_dirty_stores B (fst r) (snd r) of
             Inl e \<Rightarrow> (r, Inl (HandleRootComputation (backend_error_string e)))
           | Inr st \<Rightarrow>
               (case qmdb_commit_changes (dirty_ops B) changes
                       (qmdb_new (st_accounts st) (st_storage st) (st_code st)) of
                  (q, Inl e) \<Rightarrow> (r, Inl (HandleRootComputation (qmdb_error_string X e)))
                | (q, Inr _) \<Rightarrow>
                    (case snd (take_stores q) of
                       Inl e \<Rightarrow> (r, Inl (HandleRootComputation (qmdb_error_string X e)))
                     | Inr st' \<Rightarrow>
                         (r, Inr (state_root_from_roots X (db_root (bd_accounts B) (st_accounts st'))
                                    (db_root (bd_storage B) (st_storage st'))
                                    (db_root (bd_code B) (st_code st')))))))"

definition provider_commit_and_get_root :: "externs \<Rightarrow> ('w, 'ad, 'am, 'sd, 'sm, 'cd, 'cm) backend_dbs \<Rightarrow>
    'w \<times> string \<Rightarrow> ('w \<times> string) \<times> (HandleError + b256)" where
  "provider_commit_and_get_root X B r = (r, provider_state_root X B r)"

definition commonware_root_provider :: "externs \<Rightarrow> ('w, 'ad, 'am, 'sd, 'sm, 'cd, 'cm) backend_dbs \<Rightarrow>
    ('w \<times> string) root_provider" where
  "commonware_root_provider X B =
     \<lparr>rp_state_root = provider_state_root X B, rp_compute_root = provider_compute_root X B,
      rp_commit_and_get_root = provider_commit_and_get_root X B\<rparr>"

section \<open>The ledger service\<close>

type_synonym ('w, 'ad, 'sd, 'cd) QmdbState =
  "('ad StoreSlot, 'sd StoreSlot, 'cd StoreSlot, 'w \<times> string) QmdbHandle"

record ('w, 'ad, 'sd, 'cd) QmdbLedger =
  ql_handle :: "('w, 'ad, 'sd, 'cd) QmdbState"

datatype QmdbLedgerError =
    LedgerBackend BackendError
  | LedgerHandler HandleError
  | LedgerStateDb StateDbError
  | MissingRuntime

definition init_with_genesis :: "(u64 \<Rightarrow> string) \<Rightarrow> externs \<Rightarrow> ('w, 'ad, 'am, 'sd, 'sm, 'cd, 'cm) backend_dbs \<Rightarrow>
    'w \<Rightarrow> string \<Rightarrow> (address \<times> u256) list \<Rightarrow> bool \<Rightarrow> QmdbLedgerError + ('w, 'ad, 'sd, 'cd) QmdbLedger" where
  "init_with_genesis show_u64 X B w prefix genesis_alloc apply_genesis =
     (case open_stores B w prefix of
        Inl e \<Rightarrow> Inl (LedgerBackend e)
      | Inr st \<Rightarrow>
          (case verify_partition_consistency show_u64 B st of
             Inl e \<Rightarrow> Inl (LedgerBackend e)
           | Inr seqs \<Rightarrow>
               (let starting_seq = (case pcs_accounts seqs of None \<Rightarrow> 0 | Some n \<Rightarrow> n);
                    store = set_commit_seq starting_seq (qmdb_new (st_accounts st) (st_storage st) (st_code st));
                    handle = with_root_provider (w, prefix) (from_store store)
                in if apply_genesis
                   then (case init_genesis X (backend_ops B) genesis_alloc handle of
                           (h, Inl e) \<Rightarrow> Inl (LedgerHandler e)
                         | (h, Inr _) \<Rightarrow> Inr \<lparr>ql_handle = h\<rparr>)
                   else Inr \<lparr>ql_handle = handle\<rparr>)))"

definition ledger_init :: "(u64 \<Rightarrow> string) \<Rightarrow> externs \<Rightarrow> ('w, 'ad, 'am, 'sd, 'sm, 'cd, 'cm) backend_dbs \<Rightarrow>
    'w \<Rightarrow> string \<Rightarrow> (address \<times> u256) list \<Rightarrow> QmdbLedgerError + ('w, 'ad, 'sd, 'cd) QmdbLedger" where
  "ledger_init show_u64 X B w prefix genesis_alloc =
     init_with_genesis show_u64 X B w prefix genesis_alloc True"

definition ledger_compute_root :: "(u64 \<Rightarrow> string) \<Rightarrow> externs \<Rightarrow> ('w, 'ad, 'am, 'sd, 'sm, 'cd, 'cm) backend_dbs \<Rightarrow>
    ChangeSet \<Rightarrow> ('w, 'ad, 'sd, 'cd) QmdbLedger \<Rightarrow> ('w, 'ad, 'sd, 'cd) QmdbLedger \<times> (QmdbLedgerError + b256)" where
  "ledger_compute_root show_u64 X B changes l =
     (case qh_compute_root show_u64 X (commonware_root_provider X B) changes (ql_handle l) of
        (h, r) \<Rightarrow>
          (l\<lparr>ql_handle := h\<rparr>, (case r of Inl e \<Rightarrow> Inl (LedgerStateDb e) | Inr root \<Rightarrow> Inr root)))"

definition ledger_commit_changes :: "externs \<Rightarrow> ('w, 'ad, 'am, 'sd, 'sm, 'cd, 'cm) backend_dbs \<Rightarrow>
    ChangeSet \<Rightarrow> ('w, 'ad, 'sd, 'cd) QmdbLedger \<Rightarrow> ('w, 'ad, 'sd, 'cd) QmdbLedger \<times> (QmdbLedgerError + b256)" where
  "ledger_commit_changes X B changes l =
     (let h = ql_handle l
      in case qmdb_commit_changes (backend_ops B) changes (qh_inner h) of
           (q, Inl e) \<Rightarrow> (l\<lparr>ql_handle := h\<lparr>qh_inner := q\<rparr>\<rparr>, Inl (LedgerStateDb (Storage (qmdb_error_string X e))))
         | (q, Inr _) \<Rightarrow>
             (l\<lparr>ql_handle := h\<lparr>qh_inner := q\<rparr>\<rparr>,
              (case stores q of
                 Inl e \<Rightarrow> Inl (LedgerStateDb (Storage (qmdb_error_string X e)))
               | Inr st \<Rightarrow>
                   (case state_root_from_stores X B st of
                      Inl e \<Rightarrow> Inl (LedgerBackend e)
                    | Inr root \<Rightarrow> Inr root))))"

definition ledger_root :: "(u64 \<Rightarrow> string) \<Rightarrow> externs \<Rightarrow> ('w, 'ad, 'am, 'sd, 'sm, 'cd, 'cm) backend_dbs \<Rightarrow>
    ('w, 'ad, 'sd, 'cd) QmdbLedger \<Rightarrow> QmdbLedgerError + b256" where
  "ledger_root show_u64 X B l =
     (case qh_state_root show_u64 X (commonware_root_provider X B) (ql_handle l) of
        Inl e \<Rightarrow> Inl (LedgerStateDb e)
      | Inr root \<Rightarrow> Inr root)"

text \<open>The two readers of the markers agree.\<close>

lemma backend_read_seqs_store:
  "(case backend_read_seqs B st of Inl _ \<Rightarrow> None | Inr s \<Rightarrow> Some s) =
   (case read_partition_commit_seqs (backend_ops B) \<lparr>qs_stores = Some st, qs_commit_seq = n\<rparr> of
      Inl _ \<Rightarrow> None | Inr s \<Rightarrow> Some s)"
proof -
  have "(\<lambda>b. if 8 \<le> length b then Some (from_be_bytes (take 8 b)) else None) = decode_commit_seq_code"
    by (auto simp: decode_commit_seq_code_def fun_eq_iff)
  moreover have "(\<lambda>b. map_option fst (account_decode b)) = decode_commit_seq_account"
    by (auto simp: decode_commit_seq_account_def fun_eq_iff)
  ultimately show ?thesis
    by (simp add: backend_read_seqs_def read_partition_commit_seqs_def stores_def backend_ops_def
        account_store_ops_def storage_store_ops_def code_store_ops_def string_err_def split: sum.split)
qed

lemma verify_consistent_iff:
  assumes "read_partition_commit_seqs (backend_ops B) \<lparr>qs_stores = Some st, qs_commit_seq = n\<rparr> = Inr s"
  shows "verify_partition_consistency sh B st =
    (if is_consistent s then Inr s
     else Inl (BackendInconsistentPartitions (the (inconsistency_message sh s))))"
proof -
  have "backend_read_seqs B st = Inr s"
    using backend_read_seqs_store [of B st n] assms by (simp split: sum.splits)
  then show ?thesis by (simp add: verify_partition_consistency_def inconsistency_message_def Let_def)
qed

section \<open>A concrete backend\<close>

text \<open>Databases that are maps in memory, opened from a disk that holds the three maps.\<close>

definition map_db :: "(bytes \<Rightarrow> 'v option, (bytes \<times> 'v option) list, 'v) commonware_db" where
  "map_db =
     \<lparr>db_get = (\<lambda>d k. Inr (d k)), db_merkleize = (\<lambda>d ops. Inr ops),
      db_apply_batch = (\<lambda>ops d. (apply_ops ops d, Inr ())), db_commit = (\<lambda>d. (d, Inr ())), db_root = (\<lambda>d. 0)\<rparr>"

lemma map_db_ok: "commonware_db_ok map_db"
  by (simp add: commonware_db_ok_def db_content_def [abs_def] map_db_def)

type_synonym sample_disk = "(bytes \<Rightarrow> bytes option) \<times> (bytes \<Rightarrow> u256 option) \<times> (bytes \<Rightarrow> bytes option)"

definition sample_backend :: "(sample_disk, bytes \<Rightarrow> bytes option, (bytes \<times> bytes option) list,
    bytes \<Rightarrow> u256 option, (bytes \<times> u256 option) list, bytes \<Rightarrow> bytes option, (bytes \<times> bytes option) list) backend_dbs" where
  "sample_backend =
     \<lparr>bd_accounts = map_db, bd_storage = map_db, bd_code = map_db,
      bd_init_accounts = (\<lambda>w _. Inr (fst w)), bd_init_storage = (\<lambda>w _. Inr (fst (snd w))),
      bd_init_code = (\<lambda>w _. Inr (snd (snd w)))\<rparr>"

end
