(* ===== verification/Qmdb_Properties.thy ===== *)
theory Qmdb_Properties
  imports Qmdb_Backend
begin

text \<open>
  Properties of the storage stack on the real partitions: agreement of committed state with the
  overlay that execution saw, detection of interrupted commits, fail-stop behaviour, and two
  places where the code departs from its documentation.
\<close>

definition backend_ready :: "('w, 'ad, 'am, 'sd, 'sm, 'cd, 'cm) backend_dbs \<Rightarrow>
    ('ad StoreSlot, 'sd StoreSlot, 'cd StoreSlot) Stores \<Rightarrow> bool" where
  "backend_ready B st \<longleftrightarrow>
     slot_ready (bd_accounts B) (st_accounts st) \<and> slot_ready (bd_storage B) (st_storage st) \<and>
     slot_ready (bd_code B) (st_code st)"

abbreviation accounts_of :: "('w, 'ad, 'am, 'sd, 'sm, 'cd, 'cm) backend_dbs \<Rightarrow>
    ('ad StoreSlot, 'sd StoreSlot, 'cd StoreSlot) Stores \<Rightarrow> address \<Rightarrow> bytes option" where
  "accounts_of B st \<equiv> slot_content account_key (bd_accounts B) (st_accounts st)"

abbreviation storage_of :: "('w, 'ad, 'am, 'sd, 'sm, 'cd, 'cm) backend_dbs \<Rightarrow>
    ('ad StoreSlot, 'sd StoreSlot, 'cd StoreSlot) Stores \<Rightarrow> StorageKey \<Rightarrow> u256 option" where
  "storage_of B st \<equiv> slot_content storage_key_to_bytes (bd_storage B) (st_storage st)"

text \<open>The empty partitions and a handle on them, for concrete instances.\<close>

definition empty_stores :: "((bytes \<Rightarrow> bytes option) StoreSlot, (bytes \<Rightarrow> u256 option) StoreSlot,
    (bytes \<Rightarrow> bytes option) StoreSlot) Stores" where
  "empty_stores = \<lparr>st_accounts = Some Map.empty, st_storage = Some Map.empty, st_code = Some Map.empty\<rparr>"

lemma empty_stores_ready: "backend_ready sample_backend empty_stores"
  by (simp add: backend_ready_def slot_ready_def empty_stores_def sample_backend_def map_db_ok)

lemma sample_write_ok:
  "snd (qo_write_batch (so_accounts (backend_ops sample_backend)) ops1 (Some d1)) = Inr ()"
  "snd (qo_write_batch (so_storage (backend_ops sample_backend)) ops2 (Some d2)) = Inr ()"
  "snd (qo_write_batch (so_code (backend_ops sample_backend)) ops3 (Some d3)) = Inr ()"
  by (simp_all add: backend_ops_def account_store_ops_def storage_store_ops_def code_store_ops_def
      partition_write_batch_def slot_take_def slot_get_def slot_restore_def sample_backend_def map_db_def string_err_def)

lemma sample_write_some:
  "\<exists>d. fst (qo_write_batch (so_accounts (backend_ops sample_backend)) ops1 (Some d1)) = Some d"
  "\<exists>d. fst (qo_write_batch (so_storage (backend_ops sample_backend)) ops2 (Some d2)) = Some d"
  "\<exists>d. fst (qo_write_batch (so_code (backend_ops sample_backend)) ops3 (Some d3)) = Some d"
  by (simp_all add: backend_ops_def account_store_ops_def storage_store_ops_def code_store_ops_def
      partition_write_batch_def slot_take_def slot_get_def slot_restore_def sample_backend_def map_db_def string_err_def)

lemma sample_get:
  "qo_get (so_accounts (backend_ops sample_backend)) (Some d) a = Inr (d (account_key a))"
  by (simp add: backend_ops_def account_store_ops_def partition_get_def slot_get_def sample_backend_def
      map_db_def string_err_def)

lemma sample_commit_ok:
  assumes "qs_stores q = Some \<lparr>st_accounts = Some d1, st_storage = Some d2, st_code = Some d3\<rparr>"
  shows "\<exists>q'. qmdb_commit_changes (backend_ops sample_backend) c q = (q', Inr ()) \<and>
    (\<exists>e1 e2 e3. qs_stores q' = Some \<lparr>st_accounts = Some e1, st_storage = Some e2, st_code = Some e3\<rparr>)"
proof -
  let ?Q = "backend_ops sample_backend"
  have "\<exists>b. build_batches ?Q q c = Inr b"
    using assms
    by (simp add: build_batches_def stores_def build_batches_loop_spec
        [where A = "so_accounts ?Q" and s = "Some d1" and m = "\<lambda>a. d1 (account_key a)", OF sample_get])
  then obtain b where b: "build_batches ?Q q c = Inr b" by blast
  let ?n = "saturating_add (qs_commit_seq q) 1"
  obtain e1 where e1: "qo_write_batch (so_accounts ?Q) (account_ops ?n b) (Some d1) = (Some e1, Inr ())"
    using sample_write_some(1) [of "account_ops ?n b" d1] by (auto simp: prod_eq_iff sample_write_ok)
  obtain e2 where e2: "qo_write_batch (so_storage ?Q) (storage_ops ?n b) (Some d2) = (Some e2, Inr ())"
    using sample_write_some(2) [of "storage_ops ?n b" d2] by (auto simp: prod_eq_iff sample_write_ok)
  obtain e3 where e3: "qo_write_batch (so_code ?Q) (code_ops ?n b) (Some d3) = (Some e3, Inr ())"
    using sample_write_some(3) [of "code_ops ?n b" d3] by (auto simp: prod_eq_iff sample_write_ok)
  show ?thesis
    using assms by (simp add: qmdb_commit_changes_def b apply_batches_def e1 e2 e3)
qed

lemma sample_handle_commit_ok:
  assumes "qs_stores (qh_inner h) = Some \<lparr>st_accounts = Some d1, st_storage = Some d2, st_code = Some d3\<rparr>"
  shows "\<exists>h' e1 e2 e3. handle_commit (backend_ops sample_backend) c h = (h', Inr ()) \<and>
    qs_stores (qh_inner h') = Some \<lparr>st_accounts = Some e1, st_storage = Some e2, st_code = Some e3\<rparr>"
  using sample_commit_ok [OF assms, of c] by (auto simp: handle_commit_def)

lemma sample_dirty_commit_ok:
  "\<exists>q'. qmdb_commit_changes (dirty_ops sample_backend) c (qmdb_new d1 d2 d3) = (q', Inr ())"
proof -
  let ?Q = "dirty_ops sample_backend"
  have get: "qo_get (so_accounts ?Q) d1 a = Inr (d1 (account_key a))" for a
    by (simp add: dirty_ops_def dirty_store_ops_def dirty_get_def sample_backend_def map_db_def string_err_def)
  have "\<exists>b. build_batches ?Q (qmdb_new d1 d2 d3) c = Inr b"
    by (simp add: build_batches_def stores_def qmdb_new_def build_batches_loop_spec
        [where A = "so_accounts ?Q" and s = d1 and m = "\<lambda>a. d1 (account_key a)", OF get])
  then obtain b where b: "build_batches ?Q (qmdb_new d1 d2 d3) c = Inr b" by blast
  have "\<exists>q'. apply_batches ?Q b (qmdb_new d1 d2 d3) = (q', Inr ())"
    by (simp add: apply_batches_def Let_def qmdb_new_def dirty_ops_def dirty_store_ops_def dirty_write_batch_def
        sample_backend_def map_db_def string_err_def)
  then show ?thesis by (simp add: qmdb_commit_changes_def b)
qed

section \<open>Properties\<close>

text \<open>
  C6: committed state is the state that was executed: after a change set is committed, the
  nonce, balance, code hash and every storage slot of an account read from the partitions are
  those of the overlay of the change set over the state before. This holds for every account the
  change set does not destroy whose generation can still be raised, except the address that holds the
  commit marker, when no storage is left under a generation the account has not
  reached, and the account keeps that freshness. Reads of code by its hash are not covered.
\<close>

theorem commit_refines_overlay:
  assumes "qs_stores (qh_inner h) = Some st" and "backend_ready B st" and "changes_wf c"
    and "store_fresh (accounts_of B st) (storage_of B st) a"
    and "a \<noteq> COMMIT_SEQ_ACCOUNT_KEY" and "current_gen (accounts_of B st) a \<noteq> - 1"
    and "\<forall>u. update_of c a = Some u \<longrightarrow> \<not> au_selfdestructed u"
    and "handle_commit (backend_ops B) c h = (h', Inr ())"
  shows "same_reads (qmdb_state_db sh X (backend_ops B) R) h'
      (overlay_db (qmdb_state_db sh X (backend_ops B) R)) (overlay_new h c) a \<and>
    (\<exists>st'. qs_stores (qh_inner h') = Some st' \<and> backend_ready B st' \<and>
       store_fresh (accounts_of B st') (storage_of B st') a)"
proof -
  have ready: "slot_ready (bd_accounts B) (st_accounts st)" "slot_ready (bd_storage B) (st_storage st)"
      "slot_ready (bd_code B) (st_code st)"
    using assms(2) by (simp_all add: backend_ready_def)
  note overlay = backend.commit_overlay [OF assms(1) ready assms(3-8)]
  obtain st' where "qs_stores (qh_inner h') = Some st'" "slot_ready (bd_accounts B) (st_accounts st')"
      "slot_ready (bd_storage B) (st_storage st')" "slot_ready (bd_code B) (st_code st')"
      "store_fresh (accounts_of B st') (storage_of B st') a"
    by (rule backend.commit_fresh [OF assms(1) ready assms(3-5,7) backend.handle_commit_inner [OF assms(8)]])
  then show ?thesis using overlay by (auto simp: backend_ready_def)
qed

theorem commit_refines_overlay_witness:
  "\<exists>h' :: ((bytes \<Rightarrow> bytes option) StoreSlot, (bytes \<Rightarrow> u256 option) StoreSlot,
        (bytes \<Rightarrow> bytes option) StoreSlot, unit) QmdbHandle.
     let u = \<lparr>au_created = True, au_selfdestructed = False, au_nonce = 1, au_balance = 5, au_code_hash = 0,
              au_code = None, au_storage = [(1, 2)]\<rparr>;
         c = \<lparr>cs_accounts = [(7, u)]\<rparr>; h = from_store \<lparr>qs_stores = Some empty_stores, qs_commit_seq = 0\<rparr>
     in handle_commit (backend_ops sample_backend) c h = (h', Inr ()) \<and>
        qh_storage sample_externs (backend_ops sample_backend) h' 7 1 = Inr 2"
proof -
  let ?u = "\<lparr>au_created = True, au_selfdestructed = False, au_nonce = 1, au_balance = 5, au_code_hash = 0,
            au_code = None, au_storage = [(1, 2)]\<rparr>"
  let ?c = "\<lparr>cs_accounts = [(7, ?u)]\<rparr>"
  let ?h = "from_store \<lparr>qs_stores = Some empty_stores, qs_commit_seq = 0\<rparr> ::
    ((bytes \<Rightarrow> bytes option) StoreSlot, (bytes \<Rightarrow> u256 option) StoreSlot, (bytes \<Rightarrow> bytes option) StoreSlot, unit) QmdbHandle"
  have st: "qs_stores (qh_inner ?h) = Some empty_stores" by (simp add: from_store_def)
  obtain h' where com: "handle_commit (backend_ops sample_backend) ?c ?h = (h', Inr ())"
    using sample_handle_commit_ok [OF st [unfolded empty_stores_def], of ?c] by (auto simp: empty_stores_def)
  have empty: "accounts_of sample_backend empty_stores = Map.empty"
      "storage_of sample_backend empty_stores = Map.empty"
    by (simp_all add: slot_content_def empty_stores_def sample_backend_def map_db_def db_content_def fun_eq_iff)
  have "changes_wf ?c" by (simp add: changes_wf_def update_wf_def)
  moreover have "(7 :: address) \<noteq> COMMIT_SEQ_ACCOUNT_KEY" by (simp add: COMMIT_SEQ_ACCOUNT_KEY_def)
  ultimately have "same_reads (qmdb_state_db (\<lambda>_. []) sample_externs (backend_ops sample_backend) undefined) h'
      (overlay_db (qmdb_state_db (\<lambda>_. []) sample_externs (backend_ops sample_backend) undefined)) (overlay_new ?h ?c) 7"
    using commit_refines_overlay [OF st empty_stores_ready, where c = ?c and a = 7 and h' = h']
    by (simp add: empty store_fresh_def current_gen_def com)
  then have "qh_storage sample_externs (backend_ops sample_backend) h' 7 1 = Inr 2"
    by (simp add: same_reads_def qmdb_state_db_def overlay_db_def overlay_storage_def overlay_new_def fun_eq_iff)
  with com show ?thesis by (auto simp: Let_def)
qed

text \<open>
  C7: a node that stops between the writes of a commit is recognised at the next start. From
  consistent markers, run a commit that would succeed, but let the writes reach the disk only up to
  some partition: with the first one or two written the partitions are refused with
  \<open>InconsistentPartitions\<close>, and with none or all three written they are accepted, in the last
  case at the next sequence number.
\<close>

theorem interrupted_commit_detected:
  assumes "qs_stores q = Some st" and "backend_ready B st"
    and "read_partition_commit_seqs (backend_ops B) q = Inr s0" and "is_consistent s0"
    and "pcs_accounts s0 = None \<or> pcs_accounts s0 = Some (qs_commit_seq q)" and "qs_commit_seq q \<noteq> - 1"
    and "\<not> changes_is_empty c" and "qmdb_commit_changes (backend_ops B) c q = (q'', Inr ())"
  shows "\<exists>disk. qs_stores (fst (qmdb_commit_changes (cut_ops n (backend_ops B)) c q)) = Some disk \<and>
    (if n = 0 then verify_partition_consistency sh B disk = Inr s0
     else if n \<le> 2 then \<exists>msg. verify_partition_consistency sh B disk = Inl (BackendInconsistentPartitions msg)
     else let seq = Some (qs_commit_seq q + 1)
          in verify_partition_consistency sh B disk = Inr \<lparr>pcs_accounts = seq, pcs_storage = seq, pcs_code = seq\<rparr>)"
proof -
  define seq where "seq = saturating_add (qs_commit_seq q) 1"
  obtain b where b: "build_batches (backend_ops B) q c = Inr b" "apply_batches (backend_ops B) b q = (q'', Inr ())"
    using assms(7,8) by (auto simp: qmdb_commit_changes_def split: sum.splits)
  note cut = apply_batches_cut [OF assms(1) b(2), folded seq_def]
  let ?disk = "interrupted (backend_ops B) seq b n st"
  let ?q' = "\<lparr>qs_stores = Some ?disk, qs_commit_seq = qs_commit_seq q\<rparr>"
  have ready: "slot_ready (bd_accounts B) (st_accounts st)" "slot_ready (bd_storage B) (st_storage st)"
      "slot_ready (bd_code B) (st_code st)"
    using assms(2) by (simp_all add: backend_ready_def)
  obtain s where s: "read_partition_commit_seqs (backend_ops B) ?q' = Inr s"
      "is_consistent s \<longleftrightarrow> n = 0 \<or> n \<ge> 3"
      "n \<ge> 3 \<longrightarrow> s = \<lparr>pcs_accounts = Some seq, pcs_storage = Some seq, pcs_code = Some seq\<rparr>"
    using backend.interrupted_seqs [OF assms(1) ready assms(3-6) seq_def cut(1-3), of ?q' n] by auto
  have "s = s0" if "n = 0"
  proof -
    have "?disk = st" using that by (simp add: interrupted_def)
    then have "read_partition_commit_seqs (backend_ops B) ?q' = read_partition_commit_seqs (backend_ops B) q"
      using assms(1) by (simp add: read_partition_commit_seqs_def stores_def)
    then show ?thesis using s(1) assms(3) by simp
  qed
  moreover have "qs_stores (fst (qmdb_commit_changes (cut_ops n (backend_ops B)) c q)) = Some ?disk"
    using cut(4) assms(7) by (simp add: qmdb_commit_changes_def build_batches_cut b(1))
  moreover have "seq = qs_commit_seq q + 1" using assms(6) by (simp add: seq_def saturating_Suc)
  ultimately show ?thesis
    using s(2,3) verify_consistent_iff [OF s(1), of sh] by (cases "n = 0"; cases "n \<le> 2") (simp_all add: Let_def)
qed

theorem interrupted_commit_detected_witness:
  "\<exists>disk msg. qs_stores (fst (qmdb_commit_changes (cut_ops 1 (backend_ops sample_backend)) (sample_transition 1)
       \<lparr>qs_stores = Some empty_stores, qs_commit_seq = 0\<rparr>)) = Some disk \<and>
     verify_partition_consistency (\<lambda>_. []) sample_backend disk = Inl (BackendInconsistentPartitions msg)"
proof -
  let ?q = "\<lparr>qs_stores = Some empty_stores, qs_commit_seq = 0\<rparr>"
  have "read_partition_commit_seqs (backend_ops sample_backend) ?q =
      Inr \<lparr>pcs_accounts = None, pcs_storage = None, pcs_code = None\<rparr>"
    by (simp add: read_partition_commit_seqs_def stores_def backend_ops_def account_store_ops_def
        storage_store_ops_def code_store_ops_def partition_get_def slot_get_def sample_backend_def map_db_def
        string_err_def empty_stores_def)
  note hyp = interrupted_commit_detected [OF _ empty_stores_ready this]
  obtain q'' where "qmdb_commit_changes (backend_ops sample_backend) (sample_transition 1) ?q = (q'', Inr ())"
    using sample_commit_ok [of ?q] by (auto simp: empty_stores_def)
  with hyp [of "sample_transition 1" q'' 1 "\<lambda>_. []"] show ?thesis
    by (auto simp: is_consistent_def changes_is_empty_def sample_transition_def)
qed

text \<open>Commits one after the other, with their results.\<close>

fun commit_run :: "('a, 's, 'c) store_ops \<Rightarrow> ChangeSet list \<Rightarrow> ('a, 's, 'c) QmdbStore \<Rightarrow> (QmdbError + unit) list" where
  "commit_run Q [] q = []"
| "commit_run Q (c # cs) q =
     (case qmdb_commit_changes Q c q of (q', r) \<Rightarrow> r # commit_run Q cs q')"

text \<open>Some partition has lost its database.\<close>

definition slot_lost :: "('ad StoreSlot, 'sd StoreSlot, 'cd StoreSlot) QmdbStore \<Rightarrow> bool" where
  "slot_lost q \<longleftrightarrow> (\<exists>st. qs_stores q = Some st \<and> (st_accounts st = None \<or> st_storage st = None \<or> st_code st = None))"

lemma partition_write_lost:
  "fst (partition_write_batch key DB ops s) = None \<longleftrightarrow> isl (snd (partition_write_batch key DB ops s))"
  "isl (snd (partition_write_batch key DB ops None))"
  by (auto simp: partition_write_batch_def slot_take_def slot_get_def slot_restore_def split: option.splits sum.splits prod.splits)

lemma isl_string_err [simp]: "isl (string_err f r) \<longleftrightarrow> isl r"
  by (cases r) (simp_all add: string_err_def)

lemma backend_write_lost:
  "fst (qo_write_batch (so_accounts (backend_ops B)) aops a) = None \<longleftrightarrow> isl (snd (qo_write_batch (so_accounts (backend_ops B)) aops a))"
  "fst (qo_write_batch (so_storage (backend_ops B)) sops s) = None \<longleftrightarrow> isl (snd (qo_write_batch (so_storage (backend_ops B)) sops s))"
  "fst (qo_write_batch (so_code (backend_ops B)) cops c) = None \<longleftrightarrow> isl (snd (qo_write_batch (so_code (backend_ops B)) cops c))"
  "isl (snd (qo_write_batch (so_accounts (backend_ops B)) aops None))"
  "isl (snd (qo_write_batch (so_storage (backend_ops B)) sops None))"
  "isl (snd (qo_write_batch (so_code (backend_ops B)) cops None))"
  by (simp_all add: backend_ops_def account_store_ops_def storage_store_ops_def code_store_ops_def partition_write_lost)

text \<open>A write that fails loses the database of its partition, and with a lost one no write of a commit succeeds.\<close>

lemma apply_batches_lost:
  assumes "qs_stores q = Some st" and "apply_batches (backend_ops B) b q = (q', r)"
  shows "isl r \<longleftrightarrow> slot_lost q'" and "slot_lost q \<Longrightarrow> slot_lost q'"
proof -
  let ?n = "saturating_add (qs_commit_seq q) 1" and ?Q = "backend_ops B"
  obtain a ra where a: "qo_write_batch (so_accounts ?Q) (account_ops ?n b) (st_accounts st) = (a, ra)" by fastforce
  obtain s rs where s: "qo_write_batch (so_storage ?Q) (storage_ops ?n b) (st_storage st) = (s, rs)" by fastforce
  obtain c rc where c: "qo_write_batch (so_code ?Q) (code_ops ?n b) (st_code st) = (c, rc)" by fastforce
  have la: "a = None \<longleftrightarrow> isl ra" "st_accounts st = None \<Longrightarrow> isl ra"
    using backend_write_lost(1,4) [where B = B and aops = "account_ops ?n b"] a by (metis fst_conv snd_conv)+
  have ls: "s = None \<longleftrightarrow> isl rs" "st_storage st = None \<Longrightarrow> isl rs"
    using backend_write_lost(2,5) [where B = B and sops = "storage_ops ?n b"] s by (metis fst_conv snd_conv)+
  have lc: "c = None \<longleftrightarrow> isl rc" "st_code st = None \<Longrightarrow> isl rc"
    using backend_write_lost(3,6) [where B = B and cops = "code_ops ?n b"] c by (metis fst_conv snd_conv)+
  show "isl r \<longleftrightarrow> slot_lost q'" and "slot_lost q \<Longrightarrow> slot_lost q'"
    using assms la ls lc
    by (cases ra; cases rs; cases rc; auto simp: apply_batches_def Let_def a s c slot_lost_def)+
qed

lemma commit_lost:
  assumes "slot_lost q" and "qmdb_commit_changes (backend_ops B) c q = (q', r)"
  shows "slot_lost q'" and "isl r \<longleftrightarrow> \<not> changes_is_empty c"
proof -
  obtain st where st: "qs_stores q = Some st" using assms(1) by (auto simp: slot_lost_def)
  show "slot_lost q'" "isl r \<longleftrightarrow> \<not> changes_is_empty c"
    using assms apply_batches_lost [OF st, of B] by (fastforce simp: qmdb_commit_changes_def split: if_splits sum.splits)+
qed

lemma commit_run_lost:
  "slot_lost q \<Longrightarrow> i < length cs \<Longrightarrow> isl (commit_run (backend_ops B) cs q ! i) \<longleftrightarrow> \<not> changes_is_empty (cs ! i)"
proof (induction cs arbitrary: q i)
  case (Cons c cs)
  obtain q' r where step: "qmdb_commit_changes (backend_ops B) c q = (q', r)" by fastforce
  from commit_lost [OF Cons.prems(1) step] Cons show ?case by (cases i) (simp_all add: step)
qed simp


text \<open>The code database of the sample backend refuses to commit.\<close>

definition full_disk :: "(sample_disk, bytes \<Rightarrow> bytes option, (bytes \<times> bytes option) list, bytes \<Rightarrow> u256 option,
    (bytes \<times> u256 option) list, bytes \<Rightarrow> bytes option, (bytes \<times> bytes option) list) backend_dbs" where
  "full_disk = sample_backend\<lparr>bd_code := map_db\<lparr>db_commit := \<lambda>d. (d, Inl ''disk full'')\<rparr>\<rparr>"


text \<open>
  C40: storage survives a self-destruct: the deletion of the account record forgets its
  generation, so an account with storage at generation 1 that is destroyed and then created again
  has generation 1 again and reads the slots it had before.
\<close>

theorem destroyed_storage_returns:
  assumes "qs_stores (qh_inner h) = Some st" and "backend_ready B st" and "changes_wf c" and "changes_wf c'"
    and "a \<noteq> COMMIT_SEQ_ACCOUNT_KEY" and "storage_of B st (storage_key_new a 1 k) = Some v"
    and "update_of c a = Some u" and "au_selfdestructed u" and "bt_get (au_storage u) k = None"
    and "update_of c' a = Some u'" and "au_created u'" and "\<not> au_selfdestructed u'"
    and "bt_get (au_storage u') k = None"
    and "handle_commit (backend_ops B) c h = (h1, Inr ())" and "handle_commit (backend_ops B) c' h1 = (h2, Inr ())"
  shows "qh_storage X (backend_ops B) h2 a k = Inr v"
proof -
  have ready: "slot_ready (bd_accounts B) (st_accounts st)" "slot_ready (bd_storage B) (st_storage st)"
      "slot_ready (bd_code B) (st_code st)"
    using assms(2) by (simp_all add: backend_ready_def)
  show ?thesis by (rule backend.destroyed_storage [OF assms(1) ready assms(3-15)])
qed

theorem destroyed_storage_returns_witness:
  "\<exists>h1 h2 :: ((bytes \<Rightarrow> bytes option) StoreSlot, (bytes \<Rightarrow> u256 option) StoreSlot,
        (bytes \<Rightarrow> bytes option) StoreSlot, unit) QmdbHandle.
     let u = \<lparr>au_created = False, au_selfdestructed = True, au_nonce = 0, au_balance = 0, au_code_hash = 0,
              au_code = None, au_storage = []\<rparr>;
         c = \<lparr>cs_accounts = [(7, u)]\<rparr>;
         c' = \<lparr>cs_accounts = [(7, u\<lparr>au_created := True, au_selfdestructed := False\<rparr>)]\<rparr>;
         st = empty_stores\<lparr>st_storage := Some [storage_key_to_bytes (storage_key_new 7 1 3) \<mapsto> 9]\<rparr>;
         h = from_store \<lparr>qs_stores = Some st, qs_commit_seq = 0\<rparr>
     in handle_commit (backend_ops sample_backend) c h = (h1, Inr ()) \<and>
        handle_commit (backend_ops sample_backend) c' h1 = (h2, Inr ()) \<and>
        qh_storage sample_externs (backend_ops sample_backend) h2 7 3 = Inr 9"
proof -
  let ?u = "\<lparr>au_created = False, au_selfdestructed = True, au_nonce = 0, au_balance = 0, au_code_hash = 0,
            au_code = None, au_storage = []\<rparr>"
  let ?c = "\<lparr>cs_accounts = [(7, ?u)]\<rparr>"
  let ?c' = "\<lparr>cs_accounts = [(7, ?u\<lparr>au_created := True, au_selfdestructed := False\<rparr>)]\<rparr>"
  let ?st = "empty_stores\<lparr>st_storage := Some [storage_key_to_bytes (storage_key_new 7 1 3) \<mapsto> 9]\<rparr>"
  let ?h = "from_store \<lparr>qs_stores = Some ?st, qs_commit_seq = 0\<rparr> ::
    ((bytes \<Rightarrow> bytes option) StoreSlot, (bytes \<Rightarrow> u256 option) StoreSlot, (bytes \<Rightarrow> bytes option) StoreSlot, unit) QmdbHandle"
  have st: "qs_stores (qh_inner ?h) = Some ?st" by (simp add: from_store_def)
  then have st': "qs_stores (qh_inner ?h) = Some \<lparr>st_accounts = Some Map.empty,
      st_storage = Some [storage_key_to_bytes (storage_key_new 7 1 3) \<mapsto> 9], st_code = Some Map.empty\<rparr>"
    by (simp add: empty_stores_def)
  have rdy: "backend_ready sample_backend ?st"
    using empty_stores_ready by (simp add: backend_ready_def slot_ready_def empty_stores_def)
  obtain h1 e1 e2 e3 where h1: "handle_commit (backend_ops sample_backend) ?c ?h = (h1, Inr ())"
      "qs_stores (qh_inner h1) = Some \<lparr>st_accounts = Some e1, st_storage = Some e2, st_code = Some e3\<rparr>"
    using sample_handle_commit_ok [OF st', of ?c] by blast
  obtain h2 where h2: "handle_commit (backend_ops sample_backend) ?c' h1 = (h2, Inr ())"
    using sample_handle_commit_ok [OF h1(2), of ?c'] by blast
  have "storage_of sample_backend ?st (storage_key_new 7 1 3) = Some 9"
    by (simp add: slot_content_def sample_backend_def map_db_def db_content_def)
  moreover have "changes_wf ?c" "changes_wf ?c'" by (simp_all add: changes_wf_def update_wf_def)
  moreover have "(7 :: address) \<noteq> COMMIT_SEQ_ACCOUNT_KEY" by (simp add: COMMIT_SEQ_ACCOUNT_KEY_def)
  ultimately have "qh_storage sample_externs (backend_ops sample_backend) h2 7 3 = Inr 9"
    using h1(1) h2
    by (intro destroyed_storage_returns [OF st rdy, where c = ?c and c' = ?c' and ?h1.0 = h1
        and u = ?u and u' = "?u\<lparr>au_created := True, au_selfdestructed := False\<rparr>"]) simp_all
  with h1(1) h2 show ?thesis by (auto simp: Let_def)
qed

text \<open>
  \<open>compute_root\<close> is not the root a commit produces: it works on a store whose sequence starts
  at 0, so the partitions it takes the root of carry the marker 1, while the committed partitions
  carry the next number of the handle's sequence.
\<close>

theorem compute_root_other_marker:
  assumes "commonware_db_ok (bd_accounts B)" and "commonware_db_ok (bd_storage B)" and "commonware_db_ok (bd_code B)"
    and "\<not> changes_is_empty c" and "qs_commit_seq q \<noteq> 0" and "qs_commit_seq q \<noteq> - 1"
    and "qs_stores q = Some \<lparr>st_accounts = Some a, st_storage = Some s, st_code = Some d\<rparr>"
    and "qmdb_commit_changes (dirty_ops B) c (qmdb_new a s d) = (q1, Inr ())"
    and "qmdb_commit_changes (backend_ops B) c q = (q2, Inr ())"
  shows "\<exists>m1 m2. read_partition_commit_seqs (dirty_ops B) q1 = Inr m1 \<and>
    read_partition_commit_seqs (backend_ops B) q2 = Inr m2 \<and>
    pcs_accounts m1 = Some 1 \<and> pcs_accounts m2 = Some (qs_commit_seq q + 1) \<and> m1 \<noteq> m2"
proof -
  let ?st = "\<lparr>st_accounts = Some a, st_storage = Some s, st_code = Some d\<rparr>"
  have ready: "slot_ready (bd_accounts B) (st_accounts ?st)" "slot_ready (bd_storage B) (st_storage ?st)"
      "slot_ready (bd_code B) (st_code ?st)"
    using assms(1-3) by (simp_all add: slot_ready_def)
  obtain b2 where "apply_batches (backend_ops B) b2 q = (q2, Inr ())"
    using assms(4,9) by (auto simp: qmdb_commit_changes_def split: sum.splits)
  note m2 = backend.commit_markers [OF assms(7) ready this]
  let ?q0 = "qmdb_new a s d"
  have q0: "qs_stores ?q0 = Some \<lparr>st_accounts = a, st_storage = s, st_code = d\<rparr>" "qs_commit_seq ?q0 = 0"
    by (simp_all add: qmdb_new_def)
  obtain b1 where "apply_batches (dirty_ops B) b1 ?q0 = (q1, Inr ())"
    using assms(4,8) by (auto simp: qmdb_commit_changes_def split: sum.splits)
  note m1 = dirty.commit_markers [OF q0(1) assms(1-3) this]
  have "saturating_add (qs_commit_seq q) 1 = qs_commit_seq q + 1" using assms(6) by (rule saturating_Suc)
  moreover have "saturating_add 0 1 = (1 :: u64)" by (simp add: saturating_add_def)
  ultimately show ?thesis using m1 m2 assms(5) q0(2) by simp
qed

theorem compute_root_other_marker_witness:
  "\<exists>q1 q2 m1 m2.
     qmdb_commit_changes (dirty_ops sample_backend) \<lparr>cs_accounts = [(7, \<lparr>au_created = True,
       au_selfdestructed = False, au_nonce = 1, au_balance = 5, au_code_hash = 0, au_code = None,
       au_storage = []\<rparr>)]\<rparr> (qmdb_new Map.empty Map.empty Map.empty) = (q1, Inr ()) \<and>
     qmdb_commit_changes (backend_ops sample_backend) \<lparr>cs_accounts = [(7, \<lparr>au_created = True,
       au_selfdestructed = False, au_nonce = 1, au_balance = 5, au_code_hash = 0, au_code = None,
       au_storage = []\<rparr>)]\<rparr> \<lparr>qs_stores = Some empty_stores, qs_commit_seq = 5\<rparr> = (q2, Inr ()) \<and>
     read_partition_commit_seqs (dirty_ops sample_backend) q1 = Inr m1 \<and>
     read_partition_commit_seqs (backend_ops sample_backend) q2 = Inr m2 \<and>
     pcs_accounts m1 = Some 1 \<and> pcs_accounts m2 = Some 6"
proof -
  let ?c = "\<lparr>cs_accounts = [(7, \<lparr>au_created = True, au_selfdestructed = False, au_nonce = 1, au_balance = 5,
       au_code_hash = 0, au_code = None, au_storage = []\<rparr>)]\<rparr>"
  let ?q = "\<lparr>qs_stores = Some empty_stores, qs_commit_seq = 5\<rparr>"
  have st: "qs_stores ?q = Some \<lparr>st_accounts = Some Map.empty, st_storage = Some Map.empty, st_code = Some Map.empty\<rparr>"
    by (simp add: empty_stores_def)
  obtain q1 where q1: "qmdb_commit_changes (dirty_ops sample_backend) ?c (qmdb_new Map.empty Map.empty Map.empty) = (q1, Inr ())"
    using sample_dirty_commit_ok by blast
  obtain q2 where q2: "qmdb_commit_changes (backend_ops sample_backend) ?c ?q = (q2, Inr ())"
    using sample_commit_ok [OF st] by blast
  have ok: "commonware_db_ok (bd_accounts sample_backend)" "commonware_db_ok (bd_storage sample_backend)"
      "commonware_db_ok (bd_code sample_backend)"
    by (simp_all add: sample_backend_def map_db_ok)
  have "\<exists>m1 m2. read_partition_commit_seqs (dirty_ops sample_backend) q1 = Inr m1 \<and>
      read_partition_commit_seqs (backend_ops sample_backend) q2 = Inr m2 \<and>
      pcs_accounts m1 = Some 1 \<and> pcs_accounts m2 = Some (qs_commit_seq ?q + 1) \<and> m1 \<noteq> m2"
    by (rule compute_root_other_marker [OF ok _ _ _ st q1 q2]) (simp_all add: changes_is_empty_def)
  with q1 q2 show ?thesis by auto
qed

end
