(* ===== verification/Snapshot_Store.thy ===== *)
theory Snapshot_Store
  imports State_Db
begin

text \<open>
  The in-memory snapshot store and seed tracker of \<open>crates/node/consensus/src/components\<close>: the
  walk from a block to its last persisted ancestor, the merged changes along it, the markers of
  commits in flight and the bounded retention of persisted snapshots.
\<close>

section \<open>Snapshots\<close>

datatype ConsensusError =
    ParentNotFound ConsensusDigest
  | SnapshotNotFound ConsensusDigest
  | Execution string
  | ConsensusStateDb StateDbError
  | Validation string
  | StateRootMismatch StateRoot StateRoot
  | TimestampOverflow u64

text \<open>A \<open>BTreeSet\<close> of which only membership is read is the list of its elements.\<close>

record 's Snapshot =
  sn_parent :: "ConsensusDigest option"
  sn_state :: 's
  sn_state_root :: StateRoot
  sn_changes :: ChangeSet
  sn_tx_ids :: "TxId list"

definition snapshot_new ::
    "ConsensusDigest option \<Rightarrow> 's \<Rightarrow> StateRoot \<Rightarrow> ChangeSet \<Rightarrow> TxId list \<Rightarrow> 's Snapshot" where
  "snapshot_new parent state root changes ids =
     \<lparr>sn_parent = parent, sn_state = state, sn_state_root = root, sn_changes = changes, sn_tx_ids = ids\<rparr>"

section \<open>The store\<close>

record 's InMemorySnapshotStore =
  ss_snapshots :: "(ConsensusDigest, 's Snapshot) btree_map"
  ss_persisted :: "ConsensusDigest list"
  ss_persisting :: "ConsensusDigest list"
  ss_persisted_order :: "ConsensusDigest list"
  ss_max_persisted_retained :: nat

definition with_max_persisted_retained :: "nat \<Rightarrow> 's InMemorySnapshotStore" where
  "with_max_persisted_retained m =
     \<lparr>ss_snapshots = [], ss_persisted = [], ss_persisting = [], ss_persisted_order = [],
      ss_max_persisted_retained = m\<rparr>"

definition DEFAULT_MAX_PERSISTED_RETAINED :: nat where
  "DEFAULT_MAX_PERSISTED_RETAINED = 256"

definition snapshot_store_new :: "'s InMemorySnapshotStore" where
  "snapshot_store_new = with_max_persisted_retained DEFAULT_MAX_PERSISTED_RETAINED"

definition ss_len :: "'s InMemorySnapshotStore \<Rightarrow> nat" where
  "ss_len ss = length (ss_snapshots ss)"

definition ss_is_empty :: "'s InMemorySnapshotStore \<Rightarrow> bool" where
  "ss_is_empty ss \<longleftrightarrow> ss_snapshots ss = []"

definition persisted_count :: "'s InMemorySnapshotStore \<Rightarrow> nat" where
  "persisted_count ss = length (ss_persisted ss)"

definition unpersisted_count :: "'s InMemorySnapshotStore \<Rightarrow> nat" where
  "unpersisted_count ss = length (filter (\<lambda>d. d \<notin> set (ss_persisted ss)) (map fst (ss_snapshots ss)))"

definition ss_get :: "'s InMemorySnapshotStore \<Rightarrow> ConsensusDigest \<Rightarrow> 's Snapshot option" where
  "ss_get ss d = bt_get (ss_snapshots ss) d"

definition ss_insert ::
    "ConsensusDigest \<Rightarrow> 's Snapshot \<Rightarrow> 's InMemorySnapshotStore \<Rightarrow> 's InMemorySnapshotStore" where
  "ss_insert d s ss = ss\<lparr>ss_snapshots := bt_insert d s (ss_snapshots ss)\<rparr>"

definition is_persisted :: "'s InMemorySnapshotStore \<Rightarrow> ConsensusDigest \<Rightarrow> bool" where
  "is_persisted ss d \<longleftrightarrow> d \<in> set (ss_persisted ss)"

definition mark_one_persisted :: "ConsensusDigest \<Rightarrow> 's InMemorySnapshotStore \<Rightarrow> 's InMemorySnapshotStore" where
  "mark_one_persisted d ss =
     (if d \<in> set (ss_persisted ss) then ss
      else ss\<lparr>ss_persisted := d # ss_persisted ss, ss_persisted_order := ss_persisted_order ss @ [d]\<rparr>)"

definition mark_persisted :: "ConsensusDigest list \<Rightarrow> 's InMemorySnapshotStore \<Rightarrow> 's InMemorySnapshotStore" where
  "mark_persisted ds ss = fold mark_one_persisted ds ss"

definition can_persist_chain :: "'s InMemorySnapshotStore \<Rightarrow> ConsensusDigest list \<Rightarrow> bool" where
  "can_persist_chain ss chain \<longleftrightarrow>
     list_all (\<lambda>d. d \<notin> set (ss_persisted ss) \<and> d \<notin> set (ss_persisting ss)) chain"

definition mark_persisting_chain ::
    "ConsensusDigest list \<Rightarrow> 's InMemorySnapshotStore \<Rightarrow> 's InMemorySnapshotStore" where
  "mark_persisting_chain chain ss = ss\<lparr>ss_persisting := fold List.insert chain (ss_persisting ss)\<rparr>"

definition clear_persisting_chain ::
    "ConsensusDigest list \<Rightarrow> 's InMemorySnapshotStore \<Rightarrow> 's InMemorySnapshotStore" where
  "clear_persisting_chain chain ss = ss\<lparr>ss_persisting := fold removeAll chain (ss_persisting ss)\<rparr>"

text \<open>The eviction loop, over the order queue.\<close>

fun evict_loop :: "nat \<Rightarrow> ConsensusDigest list \<Rightarrow> (ConsensusDigest, 's Snapshot) btree_map \<Rightarrow>
    ConsensusDigest list \<Rightarrow> nat \<Rightarrow> (ConsensusDigest, 's Snapshot) btree_map \<times> ConsensusDigest list \<times> nat" where
  "evict_loop m persisted snapshots [] evicted = (snapshots, [], evicted)"
| "evict_loop m persisted snapshots (oldest # order) evicted =
     (if length (oldest # order) > m
      then if oldest \<in> set persisted \<and> bt_get snapshots oldest \<noteq> None
           then evict_loop m persisted (bt_remove oldest snapshots) order (evicted + 1)
           else evict_loop m persisted snapshots order evicted
      else (snapshots, oldest # order, evicted))"

definition evict_persisted :: "'s InMemorySnapshotStore \<Rightarrow> 's InMemorySnapshotStore \<times> nat" where
  "evict_persisted ss =
     (if length (ss_persisted_order ss) \<le> ss_max_persisted_retained ss then (ss, 0)
      else case evict_loop (ss_max_persisted_retained ss) (ss_persisted ss) (ss_snapshots ss)
                  (ss_persisted_order ss) 0 of
             (snapshots, order, evicted) \<Rightarrow>
               (ss\<lparr>ss_snapshots := snapshots, ss_persisted_order := order\<rparr>, evicted))"

section \<open>Walking to the last persisted ancestor\<close>

text \<open>
  The \<open>while let\<close> loop shared by \<open>merged_changes\<close>, \<open>changes_for_persist\<close> and
  \<open>collect_pending_tx_ids\<close>. It follows parent links that come from outside, so it may not end:
  \<open>None\<close> is a loop that never returns.
\<close>

partial_function (option) walk_chain :: "(ConsensusDigest \<Rightarrow> bool) \<Rightarrow> (ConsensusDigest \<Rightarrow> 's Snapshot option) \<Rightarrow>
    ConsensusDigest option \<Rightarrow> (ConsensusDigest \<times> 's Snapshot) list \<Rightarrow>
    (ConsensusError + (ConsensusDigest \<times> 's Snapshot) list) option" where
  "walk_chain persisted get current acc =
     (case current of
        None \<Rightarrow> Some (Inr acc)
      | Some d \<Rightarrow>
          if persisted d then Some (Inr acc)
          else case get d of
                 None \<Rightarrow> Some (Inl (SnapshotNotFound d))
               | Some s \<Rightarrow> walk_chain persisted get (sn_parent s) (acc @ [(d, s)]))"

definition merge_all :: "ChangeSet list \<Rightarrow> ChangeSet" where
  "merge_all cs = fold (\<lambda>changes merged. changes_merge merged changes) cs changes_new"

definition merged_changes :: "'s InMemorySnapshotStore \<Rightarrow> ConsensusDigest \<Rightarrow> ChangeSet \<Rightarrow>
    (ConsensusError + ChangeSet) option" where
  "merged_changes ss parent new_changes =
     (case walk_chain (is_persisted ss) (ss_get ss) (Some parent) [] of
        None \<Rightarrow> None
      | Some (Inl e) \<Rightarrow> Some (Inl e)
      | Some (Inr chain) \<Rightarrow>
          Some (Inr (changes_merge (merge_all (rev (map (\<lambda>(d, s). sn_changes s) chain))) new_changes)))"

definition changes_for_persist :: "'s InMemorySnapshotStore \<Rightarrow> ConsensusDigest \<Rightarrow>
    (ConsensusError + ConsensusDigest list \<times> ChangeSet) option" where
  "changes_for_persist ss digest =
     (case walk_chain (is_persisted ss) (ss_get ss) (Some digest) [] of
        None \<Rightarrow> None
      | Some (Inl e) \<Rightarrow> Some (Inl e)
      | Some (Inr chain) \<Rightarrow>
          Some (Inr (rev (map fst chain), merge_all (rev (map (\<lambda>(d, s). sn_changes s) chain)))))"

section \<open>Seeds\<close>

type_synonym InMemorySeedTracker = "(ConsensusDigest, b256) btree_map"

definition seed_tracker_new :: "ConsensusDigest \<Rightarrow> InMemorySeedTracker" where
  "seed_tracker_new genesis_digest = bt_insert genesis_digest 0 []"

definition seed_tracker_empty :: InMemorySeedTracker where
  "seed_tracker_empty = []"

definition seed_get :: "InMemorySeedTracker \<Rightarrow> ConsensusDigest \<Rightarrow> b256 option" where
  "seed_get st d = bt_get st d"

definition seed_insert :: "ConsensusDigest \<Rightarrow> b256 \<Rightarrow> InMemorySeedTracker \<Rightarrow> InMemorySeedTracker" where
  "seed_insert d seed st = bt_insert d seed st"

section \<open>Chains\<close>

text \<open>The path from a digest to its last persisted ancestor (not included), newest first.\<close>

inductive chain_from :: "(ConsensusDigest \<Rightarrow> bool) \<Rightarrow> (ConsensusDigest \<Rightarrow> 's Snapshot option) \<Rightarrow>
    ConsensusDigest option \<Rightarrow> (ConsensusDigest \<times> 's Snapshot) list \<Rightarrow> bool"
  for persisted get where
  root: "chain_from persisted get None []"
| boundary: "persisted d \<Longrightarrow> chain_from persisted get (Some d) []"
| link: "\<not> persisted d \<Longrightarrow> get d = Some s \<Longrightarrow> chain_from persisted get (sn_parent s) ch \<Longrightarrow>
    chain_from persisted get (Some d) ((d, s) # ch)"

inductive_cases chain_from_NoneE: "chain_from p g None ch"
inductive_cases chain_from_SomeE: "chain_from p g (Some d) ch"

lemma chain_from_unique: "chain_from p g cur ch \<Longrightarrow> chain_from p g cur ch' \<Longrightarrow> ch = ch'"
proof (induction arbitrary: ch' rule: chain_from.induct)
  case root
  then show ?case by (rule chain_from_NoneE) simp
next
  case (boundary d)
  from boundary(2) show ?case by (rule chain_from_SomeE) (simp_all add: boundary(1))
next
  case (link d s ch)
  from link(5) show ?case
  proof (rule chain_from_SomeE)
    fix s' ch2
    assume *: "ch' = (d, s') # ch2" "g d = Some s'" "chain_from p g (sn_parent s') ch2"
    from *(2) link(2) have "s' = s" by simp
    with * link.IH show "(d, s) # ch = ch'" by simp
  qed (use link(1) in simp)
qed

lemma walk_chain_complete: "chain_from p g cur ch \<Longrightarrow> walk_chain p g cur acc = Some (Inr (acc @ ch))"
  by (induction arbitrary: acc rule: chain_from.induct) (simp_all add: walk_chain.simps)

lemma walk_chain_sound:
  assumes "walk_chain p g cur acc = Some res" "res = Inr r"
  shows "\<exists>ch. chain_from p g cur ch \<and> r = acc @ ch"
  using assms
proof (induction p g cur acc res arbitrary: r rule: walk_chain.raw_induct [rotated, consumes 1, case_names unfold])
  case (unfold walk p g cur acc res)
  show ?case
  proof (cases cur)
    case None
    then have "r = acc @ []" using unfold(2,3) by simp
    then show ?thesis using chain_from.root None by blast
  next
    case (Some d)
    show ?thesis
    proof (cases "p d")
      case True
      then have "r = acc @ []" using unfold(2,3) Some by simp
      then show ?thesis using chain_from.boundary [of p d g] True Some by blast
    next
      case False
      then obtain s where s: "g d = Some s" using unfold(2,3) Some by (auto split: option.splits)
      then have "walk p g (sn_parent s) (acc @ [(d, s)]) = Some res" using unfold(2) Some False by simp
      from unfold(1) [OF this unfold(3)] obtain ch where "chain_from p g (sn_parent s) ch" "r = (acc @ [(d, s)]) @ ch"
        by blast
      then have "chain_from p g cur ((d, s) # ch) \<and> r = acc @ ((d, s) # ch)"
        using chain_from.link [of p d g s ch] False s Some by simp
      then show ?thesis by blast
    qed
  qed
qed

lemma walk_chain_iff: "walk_chain p g cur [] = Some (Inr ch) \<longleftrightarrow> chain_from p g cur ch"
  using walk_chain_sound [of p g cur "[]" "Inr ch" ch] walk_chain_complete [of p g cur ch "[]"] by auto

text \<open>The parent links are well founded: following them never returns to a block already seen.\<close>

definition parent_links :: "(ConsensusDigest \<Rightarrow> 's Snapshot option) \<Rightarrow> (ConsensusDigest \<times> ConsensusDigest) set" where
  "parent_links get = {(p, d). \<exists>s. get d = Some s \<and> sn_parent s = Some p}"

lemma walk_chain_returns:
  assumes "wf (parent_links g)"
  shows "\<exists>r. walk_chain p g cur acc = Some r"
proof (cases cur)
  case None
  then show ?thesis by (simp add: walk_chain.simps)
next
  case (Some d)
  from assms have "\<exists>r. walk_chain p g (Some d) acc = Some r"
  proof (induction d arbitrary: acc rule: wf_induct_rule)
    case (less d)
    show ?case
    proof (cases "g d")
      case None
      then show ?thesis by (subst walk_chain.simps) simp
    next
      case s: (Some s)
      have "\<exists>r. walk_chain p g (sn_parent s) (acc @ [(d, s)]) = Some r"
      proof (cases "sn_parent s")
        case None
        then show ?thesis by (simp add: walk_chain.simps)
      next
        case (Some q)
        then have "(q, d) \<in> parent_links g" using s by (auto simp: parent_links_def)
        from less [OF this] show ?thesis using Some by simp
      qed
      then show ?thesis using s by (subst walk_chain.simps) simp
    qed
  qed
  then show ?thesis using Some by simp
qed

lemma walk_chain_error:
  assumes "walk_chain p g cur acc = Some res" "res = Inl e"
  shows "\<exists>d. e = SnapshotNotFound d \<and> g d = None \<and> \<not> p d"
  using assms
proof (induction p g cur acc res rule: walk_chain.raw_induct [rotated, consumes 1, case_names unfold])
  case (unfold walk p g cur acc res)
  then show ?case by (auto split: option.splits if_splits)
qed

lemma chain_from_members:
  "chain_from p g cur ch \<Longrightarrow> (d, s) \<in> set ch \<Longrightarrow> g d = Some s \<and> \<not> p d"
  by (induction rule: chain_from.induct) auto

lemma chain_from_suffix:
  "chain_from p g cur ch \<Longrightarrow> (d, s) \<in> set ch \<Longrightarrow> \<exists>us vs. ch = us @ (d, s) # vs \<and> chain_from p g (Some d) ((d, s) # vs)"
proof (induction rule: chain_from.induct)
  case (link e t ch)
  show ?case
  proof (cases "(d, s) = (e, t)")
    case True
    then have "(e, t) # ch = [] @ (d, s) # ch \<and> chain_from p g (Some d) ((d, s) # ch)"
      using chain_from.link link(1-3) by auto
    then show ?thesis by blast
  next
    case False
    then obtain us vs where *: "ch = us @ (d, s) # vs" "chain_from p g (Some d) ((d, s) # vs)"
      using link by auto
    then have "(e, t) # ch = ((e, t) # us) @ (d, s) # vs" by simp
    with * show ?thesis by blast
  qed
qed simp_all

lemma chain_from_distinct: "chain_from p g cur ch \<Longrightarrow> distinct (map fst ch)"
proof (induction rule: chain_from.induct)
  case (link d s ch)
  have "d \<notin> set (map fst ch)"
  proof
    assume "d \<in> set (map fst ch)"
    then obtain t where t: "(d, t) \<in> set ch" by auto
    then have "t = s" using chain_from_members [OF link(3) t] link(2) by simp
    with t obtain us vs where *: "ch = us @ (d, s) # vs" "chain_from p g (Some d) ((d, s) # vs)"
      using chain_from_suffix [OF link(3)] by blast
    have "chain_from p g (Some d) ((d, s) # ch)" using link(1-3) by (rule chain_from.link)
    from chain_from_unique [OF this *(2)] *(1) show False by (simp add: append_eq_Cons_conv)
  qed
  with link.IH show ?case by simp
qed simp_all

section \<open>Store operations\<close>

lemma ss_get_insert [simp]: "ss_get (ss_insert d s ss) d' = (if d' = d then Some s else ss_get ss d')"
  by (simp add: ss_get_def ss_insert_def)

lemma ss_insert_fields [simp]:
  "ss_persisted (ss_insert d s ss) = ss_persisted ss"
  "ss_persisting (ss_insert d s ss) = ss_persisting ss"
  "ss_persisted_order (ss_insert d s ss) = ss_persisted_order ss"
  "ss_max_persisted_retained (ss_insert d s ss) = ss_max_persisted_retained ss"
  by (simp_all add: ss_insert_def)

lemma set_fold_list_insert [simp]: "set (fold List.insert xs ys) = set xs \<union> set ys"
  by (induction xs arbitrary: ys) auto

lemma set_fold_removeAll [simp]: "set (fold removeAll xs ys) = set ys - set xs"
  by (induction xs arbitrary: ys) auto

lemma marks_fields [simp]:
  "ss_snapshots (mark_persisting_chain ds ss) = ss_snapshots ss"
  "ss_persisted (mark_persisting_chain ds ss) = ss_persisted ss"
  "ss_persisted_order (mark_persisting_chain ds ss) = ss_persisted_order ss"
  "ss_max_persisted_retained (mark_persisting_chain ds ss) = ss_max_persisted_retained ss"
  "set (ss_persisting (mark_persisting_chain ds ss)) = set ds \<union> set (ss_persisting ss)"
  "ss_snapshots (clear_persisting_chain ds ss) = ss_snapshots ss"
  "ss_persisted (clear_persisting_chain ds ss) = ss_persisted ss"
  "ss_persisted_order (clear_persisting_chain ds ss) = ss_persisted_order ss"
  "ss_max_persisted_retained (clear_persisting_chain ds ss) = ss_max_persisted_retained ss"
  "set (ss_persisting (clear_persisting_chain ds ss)) = set (ss_persisting ss) - set ds"
  by (simp_all add: mark_persisting_chain_def clear_persisting_chain_def)

lemma mark_persisted_fields [simp]:
  "ss_snapshots (mark_persisted ds ss) = ss_snapshots ss"
  "ss_persisting (mark_persisted ds ss) = ss_persisting ss"
  "ss_max_persisted_retained (mark_persisted ds ss) = ss_max_persisted_retained ss"
  "set (ss_persisted (mark_persisted ds ss)) = set ds \<union> set (ss_persisted ss)"
  by (induction ds arbitrary: ss) (auto simp: mark_persisted_def mark_one_persisted_def)

lemma ss_get_marks [simp]:
  "ss_get (mark_persisting_chain ds ss) = ss_get ss"
  "ss_get (clear_persisting_chain ds ss) = ss_get ss"
  "ss_get (mark_persisted ds ss) = ss_get ss"
  by (simp_all add: fun_eq_iff ss_get_def)

text \<open>
  The store's invariant: unique keys, the order queue holds persisted digests without repetition,
  and every stored snapshot that is persisted is still in the queue.
\<close>

definition ss_wf :: "'s InMemorySnapshotStore \<Rightarrow> bool" where
  "ss_wf ss \<longleftrightarrow> bt_wf (ss_snapshots ss) \<and> distinct (ss_persisted_order ss) \<and>
     set (ss_persisted_order ss) \<subseteq> set (ss_persisted ss) \<and>
     (\<forall>d. is_persisted ss d \<and> ss_get ss d \<noteq> None \<longrightarrow> d \<in> set (ss_persisted_order ss))"

lemma ss_wf_new: "ss_wf (with_max_persisted_retained m)"
  by (simp add: ss_wf_def with_max_persisted_retained_def is_persisted_def)

lemma ss_wf_insert: "ss_wf ss \<Longrightarrow> is_persisted ss d \<Longrightarrow> d \<in> set (ss_persisted_order ss) \<Longrightarrow> ss_wf (ss_insert d s ss)"
  unfolding ss_wf_def is_persisted_def by (auto simp: ss_insert_def ss_get_def)

lemma ss_wf_insert_unpersisted: "ss_wf ss \<Longrightarrow> \<not> is_persisted ss d \<Longrightarrow> ss_wf (ss_insert d s ss)"
  unfolding ss_wf_def is_persisted_def by (auto simp: ss_insert_def ss_get_def)

lemma ss_wf_mark_one: "ss_wf ss \<Longrightarrow> ss_wf (mark_one_persisted d ss)"
  unfolding ss_wf_def is_persisted_def mark_one_persisted_def by (auto simp: ss_get_def)

lemma ss_wf_mark_persisted: "ss_wf ss \<Longrightarrow> ss_wf (mark_persisted ds ss)"
  by (induction ds arbitrary: ss) (auto simp: mark_persisted_def ss_wf_mark_one)

lemma ss_wf_marks:
  "ss_wf (mark_persisting_chain ds ss) = ss_wf ss" "ss_wf (clear_persisting_chain ds ss) = ss_wf ss"
  by (simp_all add: ss_wf_def is_persisted_def)

lemma evict_loop_spec:
  "evict_loop m P S order n = (S', order', n') \<Longrightarrow> bt_wf S \<Longrightarrow>
   \<exists>gone. order = gone @ order' \<and> length order' \<le> m \<and> bt_wf S' \<and> (length gone = length order - m) \<and>
     (\<forall>d. bt_get S' d = (if d \<in> set gone \<and> d \<in> set P then None else bt_get S d))"
proof (induction m P S order n rule: evict_loop.induct)
  case (1 m P S n)
  then show ?case by auto
next
  case (2 m P S oldest order n)
  show ?case
  proof (cases "length (oldest # order) > m")
    case False
    then show ?thesis using 2(3,4) by auto
  next
    case True
    show ?thesis
    proof (cases "oldest \<in> set P \<and> bt_get S oldest \<noteq> None")
      case c: True
      have "evict_loop m P (bt_remove oldest S) order (n + 1) = (S', order', n')" using 2(3) True c by simp
      from 2(1) [OF True c this] 2(4) obtain gone where
        "order = gone @ order'" "length order' \<le> m" "bt_wf S'" "length gone = length order - m"
        and g: "\<forall>d. bt_get S' d = (if d \<in> set gone \<and> d \<in> set P then None else bt_get (bt_remove oldest S) d)"
        by blast
      then show ?thesis using True c 2(4) by (intro exI [of _ "oldest # gone"]) (auto simp: delete_conv')
    next
      case c: False
      have "evict_loop m P S order n = (S', order', n')" using 2(3) True c by auto
      from 2(2) [OF True c this 2(4)] obtain gone where
        "order = gone @ order'" "length order' \<le> m" "bt_wf S'" "length gone = length order - m"
        and g: "\<forall>d. bt_get S' d = (if d \<in> set gone \<and> d \<in> set P then None else bt_get S d)"
        by blast
      then show ?thesis using True c by (intro exI [of _ "oldest # gone"]) auto
    qed
  qed
qed

lemma evict_persisted_keeps:
  assumes "bt_wf (ss_snapshots ss)"
  shows "bt_wf (ss_snapshots (fst (evict_persisted ss)))"
    and "ss_persisted (fst (evict_persisted ss)) = ss_persisted ss"
    and "ss_persisting (fst (evict_persisted ss)) = ss_persisting ss"
    and "\<not> is_persisted ss d \<Longrightarrow> ss_get (fst (evict_persisted ss)) d = ss_get ss d"
proof -
  obtain S' o' k where e: "evict_loop (ss_max_persisted_retained ss) (ss_persisted ss) (ss_snapshots ss)
      (ss_persisted_order ss) 0 = (S', o', k)" by (metis prod_cases3)
  from evict_loop_spec [OF e assms] show "bt_wf (ss_snapshots (fst (evict_persisted ss)))"
    "\<not> is_persisted ss d \<Longrightarrow> ss_get (fst (evict_persisted ss)) d = ss_get ss d"
    using assms by (auto simp: evict_persisted_def e is_persisted_def ss_get_def)
  show "ss_persisted (fst (evict_persisted ss)) = ss_persisted ss"
    "ss_persisting (fst (evict_persisted ss)) = ss_persisting ss"
    by (simp_all add: evict_persisted_def e)
qed

lemma evict_persisted_spec:
  assumes "ss_wf ss" "evict_persisted ss = (ss', n)"
  shows "\<exists>gone. ss_persisted_order ss = gone @ ss_persisted_order ss' \<and>
      length (ss_persisted_order ss') \<le> ss_max_persisted_retained ss \<and>
      length gone = length (ss_persisted_order ss) - ss_max_persisted_retained ss \<and>
      (\<forall>d. ss_get ss' d = (if d \<in> set gone then None else ss_get ss d)) \<and>
      ss_persisted ss' = ss_persisted ss \<and> ss_persisting ss' = ss_persisting ss \<and>
      ss_max_persisted_retained ss' = ss_max_persisted_retained ss \<and> ss_wf ss'"
proof (cases "length (ss_persisted_order ss) \<le> ss_max_persisted_retained ss")
  case True
  then show ?thesis using assms by (simp add: evict_persisted_def)
next
  case False
  obtain S' o' k where e: "evict_loop (ss_max_persisted_retained ss) (ss_persisted ss) (ss_snapshots ss)
      (ss_persisted_order ss) 0 = (S', o', k)" by (metis prod_cases3)
  have ss': "ss' = ss\<lparr>ss_snapshots := S', ss_persisted_order := o'\<rparr>"
    using assms(2) False e by (simp add: evict_persisted_def)
  from assms(1) have wf: "bt_wf (ss_snapshots ss)" "distinct (ss_persisted_order ss)"
    "set (ss_persisted_order ss) \<subseteq> set (ss_persisted ss)" by (simp_all add: ss_wf_def)
  from evict_loop_spec [OF e wf(1)] obtain gone where g: "ss_persisted_order ss = gone @ o'"
    "length o' \<le> ss_max_persisted_retained ss" "bt_wf S'"
    "length gone = length (ss_persisted_order ss) - ss_max_persisted_retained ss"
    "\<forall>d. bt_get S' d = (if d \<in> set gone \<and> d \<in> set (ss_persisted ss) then None else bt_get (ss_snapshots ss) d)"
    by blast
  have get: "\<forall>d. ss_get ss' d = (if d \<in> set gone then None else ss_get ss d)"
    using g(1,5) wf(3) by (auto simp: ss' ss_get_def)
  have "ss_wf ss'" using assms(1) g(1,3) get wf(2,3)
    unfolding ss_wf_def is_persisted_def by (auto simp: ss')
  then show ?thesis using g get by (intro exI [of _ gone]) (simp add: ss')
qed

section \<open>What the store promises\<close>

text \<open>
  An oldest-first list of digests that ends in \<open>d\<close>: each is stored and not persisted, each is the
  child of the one before, and the first sits on a persisted block or has no parent.
\<close>

definition unpersisted_path :: "'s InMemorySnapshotStore \<Rightarrow> ConsensusDigest \<Rightarrow> ConsensusDigest list \<Rightarrow> bool" where
  "unpersisted_path ss d chain \<longleftrightarrow>
     distinct chain \<and> (chain = [] \<longleftrightarrow> is_persisted ss d) \<and> (chain \<noteq> [] \<longrightarrow> last chain = d) \<and>
     (\<forall>i < length chain. \<not> is_persisted ss (chain ! i) \<and>
        (\<exists>s. ss_get ss (chain ! i) = Some s \<and>
           (if i = 0 then (case sn_parent s of None \<Rightarrow> True | Some q \<Rightarrow> is_persisted ss q)
            else sn_parent s = Some (chain ! (i - 1)))))"

lemma chain_from_empty: "chain_from p g (Some d) ch \<Longrightarrow> (ch = [] \<longleftrightarrow> p d)"
  by (erule chain_from_SomeE) simp_all

lemma chain_from_links:
  "chain_from p g cur ch \<Longrightarrow> i < length ch \<Longrightarrow>
   \<not> p (fst (ch ! i)) \<and> g (fst (ch ! i)) = Some (snd (ch ! i)) \<and>
   (if Suc i = length ch then (case sn_parent (snd (ch ! i)) of None \<Rightarrow> True | Some q \<Rightarrow> p q)
    else sn_parent (snd (ch ! i)) = Some (fst (ch ! Suc i)))"
proof (induction arbitrary: i rule: chain_from.induct)
  case (link d s ch)
  show ?case
  proof (cases i)
    case 0
    from link(3) show ?thesis using 0 link(1,2) by (cases rule: chain_from.cases) auto
  next
    case (Suc j)
    then have "j < length ch" "(Suc i = length ((d, s) # ch)) = (Suc j = length ch)" using link.prems by simp_all
    then show ?thesis using link.IH [of j] unfolding Suc nth_Cons_Suc by simp
  qed
qed simp_all

lemma chain_from_head: "chain_from p g (Some d) (e # ch) \<Longrightarrow> fst e = d"
  by (erule chain_from_SomeE) simp_all

lemma chain_from_path:
  assumes "chain_from (is_persisted ss) (ss_get ss) (Some d) ch"
  shows "unpersisted_path ss d (rev (map fst ch))"
proof -
  have "(\<forall>i < length ch. \<not> is_persisted ss (rev (map fst ch) ! i) \<and>
        (\<exists>s. ss_get ss (rev (map fst ch) ! i) = Some s \<and>
           (if i = 0 then (case sn_parent s of None \<Rightarrow> True | Some q \<Rightarrow> is_persisted ss q)
            else sn_parent s = Some (rev (map fst ch) ! (i - 1)))))" (is "\<forall>i < _. ?P i")
  proof (intro allI impI)
    fix i assume i: "i < length ch"
    define j where "j = length ch - Suc i"
    have j: "j < length ch" "rev (map fst ch) ! i = fst (ch ! j)" "(Suc j = length ch) = (i = 0)"
      "i \<noteq> 0 \<longrightarrow> rev (map fst ch) ! (i - 1) = fst (ch ! Suc j)"
      using i by (auto simp: j_def rev_nth Suc_diff_Suc)
    from chain_from_links [OF assms j(1)] show "?P i" using j by auto
  qed
  moreover have "ch \<noteq> [] \<longrightarrow> last (rev (map fst ch)) = d"
    using assms chain_from_head by (cases ch) (auto simp: last_rev)
  ultimately show ?thesis
    using chain_from_distinct [OF assms] chain_from_empty [OF assms] by (simp add: unpersisted_path_def)
qed

lemma chain_from_changes:
  assumes "chain_from p g cur ch"
  shows "rev (map (\<lambda>(d, s). sn_changes s) ch) = map (\<lambda>d. sn_changes (the (g d))) (rev (map fst ch))"
  using chain_from_members [OF assms] by (auto simp: rev_map)

text \<open>
  C26: when the parent links of the store are well founded, the walk of
  \<open>changes_for_persist\<close> returns. Either it names a snapshot that is missing, or it returns the
  whole path from the last persisted ancestor to the block, oldest first, without repetition, and
  the changes of exactly those blocks merged in that order.
\<close>

theorem changes_for_persist_path:
  assumes "wf (parent_links (ss_get ss))"
  shows "\<exists>r. changes_for_persist ss d = Some r \<and>
    (case r of
       Inl e \<Rightarrow> \<exists>x. e = SnapshotNotFound x \<and> ss_get ss x = None \<and> \<not> is_persisted ss x
     | Inr (chain, changes) \<Rightarrow>
         unpersisted_path ss d chain \<and>
         changes = merge_all (map (\<lambda>x. sn_changes (the (ss_get ss x))) chain))"
proof -
  obtain r where r: "walk_chain (is_persisted ss) (ss_get ss) (Some d) [] = Some r"
    using walk_chain_returns [OF assms] by blast
  show ?thesis
  proof (cases r)
    case (Inl e)
    from walk_chain_error [OF r Inl] show ?thesis using r Inl by (auto simp: changes_for_persist_def)
  next
    case (Inr ch)
    then have ch: "chain_from (is_persisted ss) (ss_get ss) (Some d) ch" using r by (simp add: walk_chain_iff)
    from chain_from_path [OF this] chain_from_changes [OF this] show ?thesis
      using r Inr by (simp add: changes_for_persist_def)
  qed
qed

text \<open>Two unpersisted blocks over a persisted one.\<close>

definition sample_snapshots :: "'s \<Rightarrow> 's InMemorySnapshotStore" where
  "sample_snapshots st = mark_persisted [1]
     (ss_insert 3 (snapshot_new (Some 2) st 30 changes_new [])
       (ss_insert 2 (snapshot_new (Some 1) st 20 changes_new [7])
         (ss_insert 1 (snapshot_new None st 10 changes_new []) (with_max_persisted_retained 1))))"

lemma sample_snapshots_get:
  "ss_get (sample_snapshots st) d =
     (if d = 3 then Some (snapshot_new (Some 2) st 30 changes_new [])
      else if d = 2 then Some (snapshot_new (Some 1) st 20 changes_new [7])
      else if d = 1 then Some (snapshot_new None st 10 changes_new []) else None)"
  by (simp add: sample_snapshots_def) (simp add: ss_get_def with_max_persisted_retained_def)

lemma sample_snapshots_wf: "wf (parent_links (ss_get (sample_snapshots st)))"
proof (rule wf_subset [OF wf_measure])
  show "parent_links (ss_get (sample_snapshots st)) \<subseteq> measure unat"
    by (auto simp: parent_links_def sample_snapshots_get snapshot_new_def split: if_splits)
qed

lemma sample_snapshots_persist:
  "changes_for_persist (sample_snapshots st) 3 = Some (Inr ([2, 3], merge_all [changes_new, changes_new]))"
  by (simp add: changes_for_persist_def walk_chain.simps sample_snapshots_get is_persisted_def snapshot_new_def)
    (simp add: sample_snapshots_def with_max_persisted_retained_def)

theorem changes_for_persist_path_witness:
  "changes_for_persist (sample_snapshots ()) 3 = Some (Inr ([2, 3], merge_all [changes_new, changes_new])) \<and>
   unpersisted_path (sample_snapshots ()) 3 [2, 3]"
  using changes_for_persist_path [OF sample_snapshots_wf, of "()" 3] sample_snapshots_persist [of "()"] by auto

lemma merged_changes_eq:
  "merged_changes ss parent new =
     map_option (map_sum id (\<lambda>(chain, changes). changes_merge changes new)) (changes_for_persist ss parent)"
  by (simp add: merged_changes_def changes_for_persist_def split: option.split sum.split)

text \<open>
  C27: marking a chain as persisted and evicting leaves at most the configured number of
  persisted snapshots in memory. What goes are the oldest persisted ones; no snapshot that is not
  persisted is lost, and every digest keeps its persisted marker.
\<close>

theorem eviction_retains:
  assumes "ss_wf ss" and "evict_persisted (mark_persisted chain ss) = (ss', n)"
  shows "card {d. is_persisted ss' d \<and> ss_get ss' d \<noteq> None} \<le> ss_max_persisted_retained ss \<and>
    (\<forall>d. is_persisted ss' d \<longleftrightarrow> d \<in> set chain \<or> is_persisted ss d) \<and>
    (\<forall>d. is_persisted ss' d \<or> ss_get ss' d = ss_get ss d) \<and>
    (\<exists>gone. ss_persisted_order (mark_persisted chain ss) = gone @ ss_persisted_order ss' \<and>
      (\<forall>d. ss_get ss' d = (if d \<in> set gone then None else ss_get ss d))) \<and>
    ss_wf ss'"
proof -
  have wf: "ss_wf (mark_persisted chain ss)" using assms(1) by (rule ss_wf_mark_persisted)
  from evict_persisted_spec [OF wf assms(2)] obtain gone where
    g: "ss_persisted_order (mark_persisted chain ss) = gone @ ss_persisted_order ss'"
    "length (ss_persisted_order ss') \<le> ss_max_persisted_retained ss"
    "\<forall>d. ss_get ss' d = (if d \<in> set gone then None else ss_get ss d)"
    "ss_persisted ss' = ss_persisted (mark_persisted chain ss)" "ss_wf ss'"
    by auto
  have "{d. is_persisted ss' d \<and> ss_get ss' d \<noteq> None} \<subseteq> set (ss_persisted_order ss')"
    using g(5) by (auto simp: ss_wf_def)
  then have "card {d. is_persisted ss' d \<and> ss_get ss' d \<noteq> None} \<le> card (set (ss_persisted_order ss'))"
    by (rule card_mono [rotated]) simp
  then have card: "card {d. is_persisted ss' d \<and> ss_get ss' d \<noteq> None} \<le> ss_max_persisted_retained ss"
    using card_length [of "ss_persisted_order ss'"] g(2) by linarith
  have pers: "\<forall>d. is_persisted ss' d \<longleftrightarrow> d \<in> set chain \<or> is_persisted ss d"
    using g(4) by (simp add: is_persisted_def)
  have "set gone \<subseteq> set (ss_persisted (mark_persisted chain ss))"
    using wf g(1) by (auto simp: ss_wf_def)
  then have "\<forall>d. is_persisted ss' d \<or> ss_get ss' d = ss_get ss d"
    using g(3,4) by (auto simp: is_persisted_def)
  with card pers g(1,3,5) show ?thesis by blast
qed

lemma sample_snapshots_ss_wf: "ss_wf (sample_snapshots st)"
  unfolding sample_snapshots_def
  by (intro ss_wf_mark_persisted ss_wf_insert_unpersisted ss_wf_new)
    (simp_all add: is_persisted_def with_max_persisted_retained_def)

theorem eviction_retains_witness:
  "ss_get (fst (evict_persisted (mark_persisted [2] (sample_snapshots ())))) 1 = None \<and>
   ss_get (fst (evict_persisted (mark_persisted [2] (sample_snapshots ())))) 2 \<noteq> None \<and>
   ss_wf (fst (evict_persisted (mark_persisted [2] (sample_snapshots ()))))"
proof -
  define ss' where "ss' = fst (evict_persisted (mark_persisted [2] (sample_snapshots ())))"
  have e: "evict_persisted (mark_persisted [2] (sample_snapshots ())) = (ss', snd (evict_persisted (mark_persisted [2] (sample_snapshots ()))))"
    by (simp add: ss'_def)
  have ord: "ss_persisted_order (mark_persisted [2] (sample_snapshots ())) = [1, 2]" "ss_persisted_order ss' = [2]"
    by (simp_all add: ss'_def sample_snapshots_def mark_persisted_def mark_one_persisted_def evict_persisted_def
        with_max_persisted_retained_def)
  from eviction_retains [OF sample_snapshots_ss_wf e] obtain gone where
    "[1, 2] = gone @ [2]" and g: "\<forall>d. ss_get ss' d = (if d \<in> set gone then None else ss_get (sample_snapshots ()) d)"
    and wf: "ss_wf ss'"
    unfolding ord by blast
  then have "gone = [1]" by (simp add: append_eq_Cons_conv Cons_eq_append_conv)
  with g wf show ?thesis unfolding ss'_def [symmetric] by (simp add: sample_snapshots_get)
qed

end
