(* ===== verification/Ledger.thy ===== *)
theory Ledger
  imports Snapshot_Store Qmdb_Properties Txpool_Properties
begin

text \<open>
  The node ledger of \<open>crates/node/ledger\<close>: pool, snapshots, seeds and storage behind one lock,
  the service that publishes its events, and the live state that answers queries. A snapshot's
  overlay holds the shared storage handle, so in the model its base is \<open>()\<close> and a read
  resolves it against the handle of the moment.
\<close>

section \<open>State\<close>

type_synonym LedgerSnapshot = "unit OverlayState Snapshot"

type_synonym LedgerMempool = TransactionPool

datatype LedgerError =
    LedgerQmdb QmdbLedgerError
  | LedgerConsensus ConsensusError
  | LedgerState StateDbError

text \<open>\<open>LedgerView\<close> with the \<open>LedgerState\<close> behind its mutex.\<close>

record ('w, 'ad, 'sd, 'cd) LedgerView =
  lv_mempool :: LedgerMempool
  lv_snapshots :: "unit OverlayState InMemorySnapshotStore"
  lv_head :: ConsensusDigest
  lv_seeds :: InMemorySeedTracker
  lv_qmdb :: "('w, 'ad, 'sd, 'cd) QmdbLedger"
  lv_genesis_block :: Block

definition fresh_overlay :: "unit OverlayState" where
  "fresh_overlay = overlay_new () changes_new"

definition overlay_at :: "('w, 'ad, 'sd, 'cd) LedgerView \<Rightarrow> unit OverlayState \<Rightarrow>
    ('w, 'ad, 'sd, 'cd) QmdbState OverlayState" where
  "overlay_at v ov = overlay_new (ql_handle (lv_qmdb v)) (ov_changes ov)"

definition block_tx_ids :: "externs \<Rightarrow> Tx list \<Rightarrow> TxId list" where
  "block_tx_ids X txs = map (tx_id X) txs"

section \<open>Initialisation\<close>

definition genesis_block_of :: "StateRoot \<Rightarrow> u64 \<Rightarrow> Block" where
  "genesis_block_of genesis_root genesis_timestamp = block_new 0 0 genesis_timestamp 0 genesis_root []"

definition init_with_config_and_genesis_options :: "(u64 \<Rightarrow> string) \<Rightarrow> externs \<Rightarrow>
    ('w, 'ad, 'am, 'sd, 'sm, 'cd, 'cm) backend_dbs \<Rightarrow> 'w \<Rightarrow> string \<Rightarrow> (address \<times> u256) list \<Rightarrow> bool \<Rightarrow> u64 \<Rightarrow>
    LedgerError + ('w, 'ad, 'sd, 'cd) LedgerView" where
  "init_with_config_and_genesis_options show_u64 X B w config genesis_alloc apply_genesis genesis_timestamp =
     (case init_with_genesis show_u64 X B w config genesis_alloc apply_genesis of
        Inl e \<Rightarrow> Inl (LedgerQmdb e)
      | Inr qmdb \<Rightarrow>
          (case ledger_root show_u64 X B qmdb of
             Inl e \<Rightarrow> Inl (LedgerQmdb e)
           | Inr genesis_root \<Rightarrow>
               (let genesis_block = genesis_block_of genesis_root genesis_timestamp;
                    genesis_digest = block_commitment X genesis_block;
                    genesis_snapshot = snapshot_new None fresh_overlay (blk_state_root genesis_block) changes_new [];
                    snapshots = mark_persisted [genesis_digest]
                      (ss_insert genesis_digest genesis_snapshot snapshot_store_new)
                in Inr \<lparr>lv_mempool = pool_new pool_config_new, lv_snapshots = snapshots, lv_head = genesis_digest,
                        lv_seeds = seed_tracker_new genesis_digest, lv_qmdb = qmdb,
                        lv_genesis_block = genesis_block\<rparr>)))"

section \<open>Queries and insertions\<close>

definition lv_submit_tx :: "externs \<Rightarrow> u64 \<Rightarrow> Tx \<Rightarrow> ('w, 'ad, 'sd, 'cd) LedgerView \<Rightarrow>
    ('w, 'ad, 'sd, 'cd) LedgerView \<times> bool" where
  "lv_submit_tx X now tx v =
     (case mempool_insert X now tx (lv_mempool v) of (pool, inserted) \<Rightarrow> (v\<lparr>lv_mempool := pool\<rparr>, inserted))"

definition latest_state :: "('w, 'ad, 'sd, 'cd) LedgerView \<Rightarrow> ('w, 'ad, 'sd, 'cd) QmdbState OverlayState" where
  "latest_state v =
     (case ss_get (lv_snapshots v) (lv_head v) of
        Some snapshot \<Rightarrow> overlay_at v (sn_state snapshot)
      | None \<Rightarrow> overlay_new (ql_handle (lv_qmdb v)) changes_new)"

definition ledger_db :: "(u64 \<Rightarrow> string) \<Rightarrow> externs \<Rightarrow> ('w, 'ad, 'am, 'sd, 'sm, 'cd, 'cm) backend_dbs \<Rightarrow>
    ('w, 'ad, 'sd, 'cd) QmdbState state_db" where
  "ledger_db show_u64 X B = qmdb_state_db show_u64 X (backend_ops B) (commonware_root_provider X B)"

definition query_balance :: "(u64 \<Rightarrow> string) \<Rightarrow> externs \<Rightarrow> ('w, 'ad, 'am, 'sd, 'sm, 'cd, 'cm) backend_dbs \<Rightarrow>
    ConsensusDigest \<Rightarrow> address \<Rightarrow> ('w, 'ad, 'sd, 'cd) LedgerView \<Rightarrow> u256 option" where
  "query_balance show_u64 X B digest a v =
     (case ss_get (lv_snapshots v) digest of
        None \<Rightarrow> None
      | Some snapshot \<Rightarrow>
          (case overlay_balance (ledger_db show_u64 X B) (overlay_at v (sn_state snapshot)) a of
             Inl _ \<Rightarrow> None | Inr b \<Rightarrow> Some b))"

definition query_state_root :: "ConsensusDigest \<Rightarrow> ('w, 'ad, 'sd, 'cd) LedgerView \<Rightarrow> StateRoot option" where
  "query_state_root digest v = map_option sn_state_root (ss_get (lv_snapshots v) digest)"

definition query_seed :: "ConsensusDigest \<Rightarrow> ('w, 'ad, 'sd, 'cd) LedgerView \<Rightarrow> b256 option" where
  "query_seed digest v = seed_get (lv_seeds v) digest"

definition seed_for_parent :: "ConsensusDigest \<Rightarrow> ('w, 'ad, 'sd, 'cd) LedgerView \<Rightarrow> b256 option" where
  "seed_for_parent parent v = seed_get (lv_seeds v) parent"

definition lv_set_seed :: "ConsensusDigest \<Rightarrow> b256 \<Rightarrow> ('w, 'ad, 'sd, 'cd) LedgerView \<Rightarrow>
    ('w, 'ad, 'sd, 'cd) LedgerView" where
  "lv_set_seed digest seed_hash v = v\<lparr>lv_seeds := seed_insert digest seed_hash (lv_seeds v)\<rparr>"

definition parent_snapshot :: "ConsensusDigest \<Rightarrow> ('w, 'ad, 'sd, 'cd) LedgerView \<Rightarrow> LedgerSnapshot option" where
  "parent_snapshot parent v = ss_get (lv_snapshots v) parent"

definition insert_snapshot :: "externs \<Rightarrow> ConsensusDigest \<Rightarrow> ConsensusDigest \<Rightarrow> unit OverlayState \<Rightarrow> StateRoot \<Rightarrow>
    ChangeSet \<Rightarrow> Tx list \<Rightarrow> ('w, 'ad, 'sd, 'cd) LedgerView \<Rightarrow> ('w, 'ad, 'sd, 'cd) LedgerView" where
  "insert_snapshot X digest parent state root qmdb_changes txs v =
     v\<lparr>lv_snapshots := ss_insert digest (snapshot_new (Some parent) state root qmdb_changes (block_tx_ids X txs))
          (lv_snapshots v),
       lv_head := digest\<rparr>"

definition cache_snapshot :: "ConsensusDigest \<Rightarrow> LedgerSnapshot \<Rightarrow> ('w, 'ad, 'sd, 'cd) LedgerView \<Rightarrow>
    ('w, 'ad, 'sd, 'cd) LedgerView" where
  "cache_snapshot digest snapshot v =
     v\<lparr>lv_snapshots := ss_insert digest snapshot (lv_snapshots v), lv_head := digest\<rparr>"

definition restore_persisted_snapshot :: "externs \<Rightarrow> Block \<Rightarrow> ('w, 'ad, 'sd, 'cd) LedgerView \<Rightarrow>
    ('w, 'ad, 'sd, 'cd) LedgerView" where
  "restore_persisted_snapshot X block v =
     (let digest = block_commitment X block;
          snapshot = snapshot_new (Some (block_parent_digest X block)) fresh_overlay (blk_state_root block)
            changes_new (block_tx_ids X (blk_txs block))
      in v\<lparr>lv_snapshots := mark_persisted [digest] (ss_insert digest snapshot (lv_snapshots v)),
           lv_head := digest\<rparr>)"

text \<open>
  The waiting loop looks at the ledger, then sleeps until a snapshot arrives or the deadline has
  passed: the list is the ledger at the instants of its looks.
\<close>

fun wait_for_snapshot :: "ConsensusDigest \<Rightarrow> ('w, 'ad, 'sd, 'cd) LedgerView list \<Rightarrow> LedgerSnapshot option" where
  "wait_for_snapshot parent [] = None"
| "wait_for_snapshot parent (v # vs) =
     (case parent_snapshot parent v of Some snap \<Rightarrow> Some snap | None \<Rightarrow> wait_for_snapshot parent vs)"

definition proposal_components :: "('w, 'ad, 'sd, 'cd) LedgerView \<Rightarrow>
    unit OverlayState \<times> LedgerMempool \<times> unit OverlayState InMemorySnapshotStore" where
  "proposal_components v = (fresh_overlay, lv_mempool v, lv_snapshots v)"

definition compute_root_from_store :: "externs \<Rightarrow> ConsensusDigest \<Rightarrow> ChangeSet \<Rightarrow> ('w, 'ad, 'sd, 'cd) LedgerView \<Rightarrow>
    LedgerError + StateRoot" where
  "compute_root_from_store X parent changes v =
     (case ss_get (lv_snapshots v) parent of
        None \<Rightarrow> Inl (LedgerConsensus (SnapshotNotFound parent))
      | Some s \<Rightarrow> Inr (root_transition X (sn_state_root s) changes))"

section \<open>Persistence\<close>

text \<open>The first critical section: \<open>Inr None\<close> returns \<open>Ok(false)\<close>.\<close>

definition persist_begin :: "ConsensusDigest \<Rightarrow> ('w, 'ad, 'sd, 'cd) LedgerView \<Rightarrow>
    (('w, 'ad, 'sd, 'cd) LedgerView \<times> (LedgerError + (ConsensusDigest list \<times> ChangeSet) option)) option" where
  "persist_begin digest v =
     (case changes_for_persist (lv_snapshots v) digest of
        None \<Rightarrow> None
      | Some (Inl e) \<Rightarrow> Some (v, Inl (LedgerConsensus e))
      | Some (Inr (chain, changes)) \<Rightarrow>
          if chain = [] then Some (v, Inr None)
          else if \<not> can_persist_chain (lv_snapshots v) chain then Some (v, Inr None)
          else Some (v\<lparr>lv_snapshots := mark_persisting_chain chain (lv_snapshots v)\<rparr>, Inr (Some (chain, changes))))"

fun compact_chain :: "ConsensusDigest list \<Rightarrow> unit OverlayState InMemorySnapshotStore \<Rightarrow>
    unit OverlayState InMemorySnapshotStore \<times> (ConsensusError + unit)" where
  "compact_chain [] ss = (ss, Inr ())"
| "compact_chain (digest # chain) ss =
     (case ss_get ss digest of
        None \<Rightarrow> (ss, Inl (SnapshotNotFound digest))
      | Some snapshot \<Rightarrow>
          compact_chain chain
            (ss_insert digest
              (snapshot_new (sn_parent snapshot) fresh_overlay (sn_state_root snapshot) changes_new (sn_tx_ids snapshot))
              ss))"

text \<open>The second critical section, with the result of the commit that ran between the two.\<close>

definition persist_finish :: "ConsensusDigest list \<Rightarrow> QmdbLedgerError + b256 \<Rightarrow> ('w, 'ad, 'sd, 'cd) LedgerView \<Rightarrow>
    ('w, 'ad, 'sd, 'cd) LedgerView \<times> (LedgerError + unit)" where
  "persist_finish chain result v =
     (let ss = clear_persisting_chain chain (lv_snapshots v)
      in case result of
           Inl err \<Rightarrow> (v\<lparr>lv_snapshots := ss\<rparr>, Inl (LedgerQmdb err))
         | Inr _ \<Rightarrow>
             (case compact_chain chain ss of
                (ss1, Inl e) \<Rightarrow> (v\<lparr>lv_snapshots := ss1\<rparr>, Inl (LedgerConsensus e))
              | (ss1, Inr _) \<Rightarrow>
                  (v\<lparr>lv_snapshots := fst (evict_persisted (mark_persisted chain ss1))\<rparr>, Inr ())))"

definition lv_persist_snapshot :: "externs \<Rightarrow> ('w, 'ad, 'am, 'sd, 'sm, 'cd, 'cm) backend_dbs \<Rightarrow> ConsensusDigest \<Rightarrow>
    ('w, 'ad, 'sd, 'cd) LedgerView \<Rightarrow> (('w, 'ad, 'sd, 'cd) LedgerView \<times> (LedgerError + bool)) option" where
  "lv_persist_snapshot X B digest v =
     (case persist_begin digest v of
        None \<Rightarrow> None
      | Some (v1, Inl e) \<Rightarrow> Some (v1, Inl e)
      | Some (v1, Inr None) \<Rightarrow> Some (v1, Inr False)
      | Some (v1, Inr (Some (chain, changes))) \<Rightarrow>
          (case ledger_commit_changes X B changes (lv_qmdb v1) of
             (qmdb, result) \<Rightarrow>
               (case persist_finish chain result (v1\<lparr>lv_qmdb := qmdb\<rparr>) of
                  (v2, Inl e) \<Rightarrow> Some (v2, Inl e)
                | (v2, Inr _) \<Rightarrow> Some (v2, Inr True))))"

section \<open>Pruning\<close>

definition lv_prune_mempool :: "externs \<Rightarrow> Tx list \<Rightarrow> ('w, 'ad, 'sd, 'cd) LedgerView \<Rightarrow>
    ('w, 'ad, 'sd, 'cd) LedgerView" where
  "lv_prune_mempool X txs v = v\<lparr>lv_mempool := prune X (map (tx_id X) txs) (lv_mempool v)\<rparr>"

definition prune_stale_sender :: "externs \<Rightarrow> ('w, 'ad, 'am, 'sd, 'sm, 'cd, 'cm) backend_dbs \<Rightarrow>
    ('w, 'ad, 'sd, 'cd) QmdbState \<Rightarrow> address \<Rightarrow> LedgerMempool \<Rightarrow> LedgerMempool" where
  "prune_stale_sender X B h sender pool =
     (case qh_nonce X (backend_ops B) h sender of
        Inl _ \<Rightarrow> pool
      | Inr finalized_nonce \<Rightarrow>
          if finalized_nonce > 0 then pool_remove_confirmed X sender (finalized_nonce - 1) pool else pool)"

definition lv_prune_stale_nonces :: "externs \<Rightarrow> ('w, 'ad, 'am, 'sd, 'sm, 'cd, 'cm) backend_dbs \<Rightarrow>
    ('w, 'ad, 'sd, 'cd) LedgerView \<Rightarrow> ('w, 'ad, 'sd, 'cd) LedgerView" where
  "lv_prune_stale_nonces X B v =
     (let senders = pool_senders (lv_mempool v)
      in if senders = [] then v
         else v\<lparr>lv_mempool := fold (prune_stale_sender X B (ql_handle (lv_qmdb v))) senders (lv_mempool v)\<rparr>)"

definition is_snapshot_persisted :: "ConsensusDigest \<Rightarrow> ('w, 'ad, 'sd, 'cd) LedgerView \<Rightarrow> bool" where
  "is_snapshot_persisted digest v = is_persisted (lv_snapshots v) digest"

definition snapshot_store_stats :: "('w, 'ad, 'sd, 'cd) LedgerView \<Rightarrow> nat \<times> nat" where
  "snapshot_store_stats v = (ss_len (lv_snapshots v), unpersisted_count (lv_snapshots v))"

section \<open>The service\<close>

record ('w, 'ad, 'sd, 'cd) LedgerService =
  svc_view :: "('w, 'ad, 'sd, 'cd) LedgerView"
  svc_events :: LedgerEvents

definition service_new :: "('w, 'ad, 'sd, 'cd) LedgerView \<Rightarrow> ('w, 'ad, 'sd, 'cd) LedgerService" where
  "service_new view = \<lparr>svc_view = view, svc_events = ledger_events_new\<rparr>"

definition service_publish :: "LedgerEvent \<Rightarrow> ('w, 'ad, 'sd, 'cd) LedgerService \<Rightarrow> ('w, 'ad, 'sd, 'cd) LedgerService" where
  "service_publish event svc = svc\<lparr>svc_events := publish event (svc_events svc)\<rparr>"

definition service_subscribe :: "('w, 'ad, 'sd, 'cd) LedgerService \<Rightarrow> ('w, 'ad, 'sd, 'cd) LedgerService" where
  "service_subscribe svc = svc\<lparr>svc_events := subscribe (svc_events svc)\<rparr>"

definition submit_tx :: "externs \<Rightarrow> u64 \<Rightarrow> Tx \<Rightarrow> ('w, 'ad, 'sd, 'cd) LedgerService \<Rightarrow>
    ('w, 'ad, 'sd, 'cd) LedgerService \<times> bool" where
  "submit_tx X now tx svc =
     (case lv_submit_tx X now tx (svc_view svc) of
        (view, inserted) \<Rightarrow>
          (let svc1 = svc\<lparr>svc_view := view\<rparr>
           in (if inserted then service_publish (TransactionSubmitted (tx_id X tx)) svc1 else svc1, inserted)))"

definition set_seed :: "ConsensusDigest \<Rightarrow> b256 \<Rightarrow> ('w, 'ad, 'sd, 'cd) LedgerService \<Rightarrow>
    ('w, 'ad, 'sd, 'cd) LedgerService" where
  "set_seed digest seed_hash svc =
     service_publish (SeedUpdated digest seed_hash) (svc\<lparr>svc_view := lv_set_seed digest seed_hash (svc_view svc)\<rparr>)"

definition persist_snapshot :: "externs \<Rightarrow> ('w, 'ad, 'am, 'sd, 'sm, 'cd, 'cm) backend_dbs \<Rightarrow> ConsensusDigest \<Rightarrow>
    ('w, 'ad, 'sd, 'cd) LedgerService \<Rightarrow> (('w, 'ad, 'sd, 'cd) LedgerService \<times> (LedgerError + unit)) option" where
  "persist_snapshot X B digest svc =
     (case lv_persist_snapshot X B digest (svc_view svc) of
        None \<Rightarrow> None
      | Some (view, Inl e) \<Rightarrow> Some (svc\<lparr>svc_view := view\<rparr>, Inl e)
      | Some (view, Inr persisted) \<Rightarrow>
          (let svc1 = svc\<lparr>svc_view := view\<rparr>
           in Some (if persisted then service_publish (SnapshotPersisted digest) svc1 else svc1, Inr ())))"

section \<open>Live state\<close>

definition live_nonce :: "(u64 \<Rightarrow> string) \<Rightarrow> externs \<Rightarrow> ('w, 'ad, 'am, 'sd, 'sm, 'cd, 'cm) backend_dbs \<Rightarrow>
    ('w, 'ad, 'sd, 'cd) LedgerService \<Rightarrow> address \<Rightarrow> StateDbError + u64" where
  "live_nonce show_u64 X B svc a = overlay_nonce (ledger_db show_u64 X B) (latest_state (svc_view svc)) a"

definition live_balance :: "(u64 \<Rightarrow> string) \<Rightarrow> externs \<Rightarrow> ('w, 'ad, 'am, 'sd, 'sm, 'cd, 'cm) backend_dbs \<Rightarrow>
    ('w, 'ad, 'sd, 'cd) LedgerService \<Rightarrow> address \<Rightarrow> StateDbError + u256" where
  "live_balance show_u64 X B svc a = overlay_balance (ledger_db show_u64 X B) (latest_state (svc_view svc)) a"

definition live_code_hash :: "(u64 \<Rightarrow> string) \<Rightarrow> externs \<Rightarrow> ('w, 'ad, 'am, 'sd, 'sm, 'cd, 'cm) backend_dbs \<Rightarrow>
    ('w, 'ad, 'sd, 'cd) LedgerService \<Rightarrow> address \<Rightarrow> StateDbError + b256" where
  "live_code_hash show_u64 X B svc a = overlay_code_hash (ledger_db show_u64 X B) (latest_state (svc_view svc)) a"

definition live_code :: "(u64 \<Rightarrow> string) \<Rightarrow> externs \<Rightarrow> ('w, 'ad, 'am, 'sd, 'sm, 'cd, 'cm) backend_dbs \<Rightarrow>
    ('w, 'ad, 'sd, 'cd) LedgerService \<Rightarrow> b256 \<Rightarrow> StateDbError + bytes" where
  "live_code show_u64 X B svc h = overlay_code (ledger_db show_u64 X B) (latest_state (svc_view svc)) h"

definition live_storage :: "(u64 \<Rightarrow> string) \<Rightarrow> externs \<Rightarrow> ('w, 'ad, 'am, 'sd, 'sm, 'cd, 'cm) backend_dbs \<Rightarrow>
    ('w, 'ad, 'sd, 'cd) LedgerService \<Rightarrow> address \<Rightarrow> u256 \<Rightarrow> StateDbError + u256" where
  "live_storage show_u64 X B svc a slot =
     overlay_storage (ledger_db show_u64 X B) (latest_state (svc_view svc)) a slot"

end
