(* ===== verification/Ledger_Persist.thy ===== *)
theory Ledger_Persist
  imports Ledger
begin

text \<open>
  Persistence under interleaving. \<open>persist_snapshot\<close> holds the lock only before and after the
  commit, so several calls, insertions and restorations interleave. The step relation below has a
  step for each critical section and for the commit between them.
\<close>

section \<open>Interleaved runs\<close>

datatype persist_task =
    Marked "ConsensusDigest list" ChangeSet
  | Committed "ConsensusDigest list" "QmdbLedgerError + b256"

primrec task_chain :: "persist_task \<Rightarrow> ConsensusDigest list" where
  "task_chain (Marked chain _) = chain"
| "task_chain (Committed chain _) = chain"

primrec task_written :: "persist_task \<Rightarrow> ConsensusDigest list" where
  "task_written (Marked _ _) = []"
| "task_written (Committed chain result) = (case result of Inl _ \<Rightarrow> [] | Inr _ \<Rightarrow> chain)"

text \<open>The ledger, the calls in flight, and the digests whose changes storage accepted so far.\<close>

record ('w, 'ad, 'sd, 'cd) ledger_run =
  run_view :: "('w, 'ad, 'sd, 'cd) LedgerView"
  run_tasks :: "persist_task list"
  run_log :: "ConsensusDigest list"

inductive ledger_step :: "externs \<Rightarrow> ('w, 'ad, 'am, 'sd, 'sm, 'cd, 'cm) backend_dbs \<Rightarrow>
    ('w, 'ad, 'sd, 'cd) ledger_run \<Rightarrow> ('w, 'ad, 'sd, 'cd) ledger_run \<Rightarrow> bool" for X B where
  insert: "ledger_step X B r
     (r\<lparr>run_view := insert_snapshot X d parent state root changes txs (run_view r)\<rparr>)"
| cache: "ledger_step X B r (r\<lparr>run_view := cache_snapshot d snapshot (run_view r)\<rparr>)"
| restore: "query_state_root (block_commitment X block) (run_view r) = None \<Longrightarrow>
     ledger_step X B r (r\<lparr>run_view := restore_persisted_snapshot X block (run_view r)\<rparr>)"
| mark: "persist_begin d (run_view r) = Some (v, Inr (Some (chain, changes))) \<Longrightarrow>
     ledger_step X B r (r\<lparr>run_view := v, run_tasks := run_tasks r @ [Marked chain changes]\<rparr>)"
| commit: "run_tasks r = us @ Marked chain changes # vs \<Longrightarrow>
     ledger_commit_changes X B changes (lv_qmdb (run_view r)) = (qmdb, result) \<Longrightarrow>
     ledger_step X B r
       (r\<lparr>run_view := (run_view r)\<lparr>lv_qmdb := qmdb\<rparr>, run_tasks := us @ Committed chain result # vs,
          run_log := run_log r @ (case result of Inl _ \<Rightarrow> [] | Inr _ \<Rightarrow> chain)\<rparr>)"
| finish: "run_tasks r = us @ Committed chain result # vs \<Longrightarrow>
     persist_finish chain result (run_view r) = (v, outcome) \<Longrightarrow>
     ledger_step X B r (r\<lparr>run_view := v, run_tasks := us @ vs\<rparr>)"

definition in_flight :: "persist_task list \<Rightarrow> ConsensusDigest list" where
  "in_flight ts = concat (map task_chain ts)"

definition written :: "persist_task list \<Rightarrow> ConsensusDigest list" where
  "written ts = concat (map task_written ts)"

lemma in_flight_simps [simp]:
  "in_flight [] = []" "in_flight (t # ts) = task_chain t @ in_flight ts" "in_flight (us @ vs) = in_flight us @ in_flight vs"
  "written [] = []" "written (t # ts) = task_written t @ written ts" "written (us @ vs) = written us @ written vs"
  by (simp_all add: in_flight_def written_def)

lemma written_in_flight: "d \<in> set (written ts) \<Longrightarrow> d \<in> set (in_flight ts)"
proof (induction ts)
  case (Cons t ts)
  then show ?case by (cases t) (auto split: sum.splits)
qed simp

text \<open>
  In-flight chains are disjoint, marked, stored and not persisted; what storage accepted is
  persisted or about to be.
\<close>

definition store_inv :: "unit OverlayState InMemorySnapshotStore \<Rightarrow> ConsensusDigest list \<Rightarrow>
    ConsensusDigest list \<Rightarrow> ConsensusDigest list \<Rightarrow> bool" where
  "store_inv ss flight done log \<longleftrightarrow>
     bt_wf (ss_snapshots ss) \<and> distinct flight \<and> set flight \<subseteq> set (ss_persisting ss) \<and>
     (\<forall>d \<in> set flight. ss_get ss d \<noteq> None \<and> d \<notin> set (ss_persisted ss)) \<and> distinct log \<and>
     set log \<subseteq> set (ss_persisted ss) \<union> set done"

definition persist_inv :: "('w, 'ad, 'sd, 'cd) ledger_run \<Rightarrow> bool" where
  "persist_inv r \<longleftrightarrow>
     store_inv (lv_snapshots (run_view r)) (in_flight (run_tasks r)) (written (run_tasks r)) (run_log r)"

lemma persist_begin_cases:
  assumes "persist_begin d v = Some (v', Inr (Some (chain, changes)))"
  shows "v' = v\<lparr>lv_snapshots := mark_persisting_chain chain (lv_snapshots v)\<rparr>" and "distinct chain"
    and "\<forall>x \<in> set chain. ss_get (lv_snapshots v) x \<noteq> None \<and> \<not> is_persisted (lv_snapshots v) x \<and>
      x \<notin> set (ss_persisting (lv_snapshots v))"
proof -
  let ?ss = "lv_snapshots v"
  obtain c where c: "changes_for_persist ?ss d = Some (Inr c)"
    using assms by (auto simp: persist_begin_def split: option.splits sum.splits)
  then have ch: "c = (chain, changes)" and can: "can_persist_chain ?ss chain"
    and v': "v' = v\<lparr>lv_snapshots := mark_persisting_chain chain ?ss\<rparr>"
    using assms by (auto simp: persist_begin_def split: prod.splits if_splits)
  obtain ws where ws: "walk_chain (is_persisted ?ss) (ss_get ?ss) (Some d) [] = Some (Inr ws)"
    and chain: "chain = rev (map fst ws)"
    using c ch by (auto simp: changes_for_persist_def split: option.splits sum.splits)
  have cf: "chain_from (is_persisted ?ss) (ss_get ?ss) (Some d) ws" using ws by (simp add: walk_chain_iff)
  show "v' = v\<lparr>lv_snapshots := mark_persisting_chain chain ?ss\<rparr>" by (rule v')
  show "distinct chain" using chain_from_distinct [OF cf] by (simp add: chain)
  show "\<forall>x \<in> set chain. ss_get ?ss x \<noteq> None \<and> \<not> is_persisted ?ss x \<and> x \<notin> set (ss_persisting ?ss)"
    using chain_from_members [OF cf] can by (auto simp: chain can_persist_chain_def list_all_iff)
qed

lemma compact_chain_spec:
  assumes "compact_chain chain ss = (ss', res)" and "bt_wf (ss_snapshots ss)"
  shows "bt_wf (ss_snapshots ss') \<and> ss_persisted ss' = ss_persisted ss \<and> ss_persisting ss' = ss_persisting ss \<and>
    (\<forall>d. (ss_get ss' d = None) = (ss_get ss d = None)) \<and>
    ((\<forall>d \<in> set chain. ss_get ss d \<noteq> None) \<longrightarrow> res = Inr ())"
  using assms
proof (induction chain ss rule: compact_chain.induct)
  case (2 digest chain ss)
  show ?case
  proof (cases "ss_get ss digest")
    case None
    then show ?thesis using 2(2,3) by auto
  next
    case (Some snapshot)
    let ?ss = "ss_insert digest (snapshot_new (sn_parent snapshot) fresh_overlay (sn_state_root snapshot)
      changes_new (sn_tx_ids snapshot)) ss"
    have "bt_wf (ss_snapshots ?ss)" using 2(3) by (auto simp: ss_insert_def)
    from 2(1) [OF Some _ this] 2(2) Some show ?thesis by (auto split: if_splits)
  qed
qed auto

lemma persist_finish_spec:
  fixes v :: "('w, 'ad, 'sd, 'cd) LedgerView"
  assumes "persist_finish chain result v = (v', outcome)" and "bt_wf (ss_snapshots (lv_snapshots v))"
    and "\<forall>d \<in> set chain. ss_get (lv_snapshots v) d \<noteq> None"
  shows "bt_wf (ss_snapshots (lv_snapshots v')) \<and>
    set (ss_persisting (lv_snapshots v')) = set (ss_persisting (lv_snapshots v)) - set chain \<and>
    set (ss_persisted (lv_snapshots v')) =
      set (ss_persisted (lv_snapshots v)) \<union> (case result of Inl _ \<Rightarrow> {} | Inr _ \<Rightarrow> set chain) \<and>
    (\<forall>d. \<not> is_persisted (lv_snapshots v') d \<longrightarrow>
       (ss_get (lv_snapshots v') d = None) = (ss_get (lv_snapshots v) d = None)) \<and>
    outcome = (case result of Inl e \<Rightarrow> Inl (LedgerQmdb e) | Inr _ \<Rightarrow> Inr ())"
proof (cases result)
  case (Inl e)
  then show ?thesis using assms by (auto simp: persist_finish_def Let_def)
next
  case (Inr root)
  let ?ss = "clear_persisting_chain chain (lv_snapshots v)"
  obtain ss1 res where c: "compact_chain chain ?ss = (ss1, res)" by fastforce
  have s: "bt_wf (ss_snapshots ss1)" "ss_persisted ss1 = ss_persisted (lv_snapshots v)"
      "set (ss_persisting ss1) = set (ss_persisting (lv_snapshots v)) - set chain"
      "(ss_get ss1 d = None) = (ss_get (lv_snapshots v) d = None)" "res = Inr ()" for d
    using compact_chain_spec [OF c] assms(2,3) by simp_all
  let ?ss2 = "mark_persisted chain ss1"
  have v': "v' = v\<lparr>lv_snapshots := fst (evict_persisted ?ss2)\<rparr>" "outcome = Inr ()"
    using assms(1) Inr c s(5) by (simp_all add: persist_finish_def Let_def)
  have wf: "bt_wf (ss_snapshots ?ss2)" using s(1) by simp
  note e = evict_persisted_keeps [OF wf]
  show ?thesis using e s(2-4) Inr by (auto simp: v' is_persisted_def)
qed

lemma store_inv_insert: "store_inv ss flight done log \<Longrightarrow> store_inv (ss_insert d s ss) flight done log"
  unfolding store_inv_def by (auto simp: ss_insert_def ss_get_def)

lemma store_inv_mark_persisted:
  assumes "store_inv ss flight done log" and "d \<notin> set flight"
  shows "store_inv (mark_persisted [d] ss) flight done log"
  using assms unfolding store_inv_def by auto

lemma store_inv_mark:
  assumes "store_inv ss flight done log" and "set done \<subseteq> set flight" and "distinct chain"
    and "\<forall>x \<in> set chain. ss_get ss x \<noteq> None \<and> \<not> is_persisted ss x \<and> x \<notin> set (ss_persisting ss)"
  shows "store_inv (mark_persisting_chain chain ss) (flight @ chain) done log"
  using assms unfolding store_inv_def is_persisted_def by auto

lemma store_inv_unwritten:
  assumes "store_inv ss (us @ chain @ vs) done log" and "set done \<subseteq> set us \<union> set vs"
  shows "set chain \<inter> set log = {} \<and> distinct chain"
proof -
  have "set chain \<inter> set (ss_persisted ss) = {}" "set chain \<inter> (set us \<union> set vs) = {}"
    "set log \<subseteq> set (ss_persisted ss) \<union> set done" "distinct chain"
    using assms(1) by (auto simp: store_inv_def)
  then show ?thesis using assms(2) by blast
qed

lemma store_inv_finish:
  assumes inv: "store_inv ss (us @ chain @ vs) (wus @ w @ wvs) log"
    and ss': "bt_wf (ss_snapshots ss')" "set (ss_persisting ss') = set (ss_persisting ss) - set chain"
      "set (ss_persisted ss') = set (ss_persisted ss) \<union> P"
      "\<forall>d. \<not> is_persisted ss' d \<longrightarrow> (ss_get ss' d = None) = (ss_get ss d = None)"
    and P: "set w \<subseteq> P" "P \<subseteq> set chain"
  shows "store_inv ss' (us @ vs) (wus @ wvs) log"
  unfolding store_inv_def
proof (intro conjI)
  have d: "distinct (us @ vs)" "set chain \<inter> set (us @ vs) = {}" "set (us @ vs) \<subseteq> set (ss_persisting ss)"
    "\<forall>d \<in> set (us @ vs). ss_get ss d \<noteq> None \<and> d \<notin> set (ss_persisted ss)" "distinct log"
    "set log \<subseteq> set (ss_persisted ss) \<union> set (wus @ w @ wvs)"
    using inv by (auto simp: store_inv_def)
  show "bt_wf (ss_snapshots ss')" by (rule ss'(1))
  show "distinct (us @ vs)" by (rule d(1))
  show "set (us @ vs) \<subseteq> set (ss_persisting ss')" using d(2,3) ss'(2) by blast
  show "\<forall>d \<in> set (us @ vs). ss_get ss' d \<noteq> None \<and> d \<notin> set (ss_persisted ss')"
  proof
    fix x assume x: "x \<in> set (us @ vs)"
    then have "x \<notin> set (ss_persisted ss')" using d(2,4) ss'(3) P(2) by blast
    then show "ss_get ss' x \<noteq> None \<and> x \<notin> set (ss_persisted ss')"
      using d(4) ss'(4) x by (simp add: is_persisted_def)
  qed
  show "distinct log" by (rule d(5))
  show "set log \<subseteq> set (ss_persisted ss') \<union> set (wus @ wvs)" using d(6) ss'(3) P(1) by auto
qed

lemma persist_inv_step: "ledger_step X B r r' \<Longrightarrow> persist_inv r \<Longrightarrow> persist_inv r'"
proof (induction rule: ledger_step.induct)
  case (insert r d parent state root changes txs)
  then show ?case by (simp add: persist_inv_def insert_snapshot_def store_inv_insert)
next
  case (cache r d snapshot)
  then show ?case by (simp add: persist_inv_def cache_snapshot_def store_inv_insert)
next
  case (restore block r)
  let ?d = "block_commitment X block"
  have "?d \<notin> set (in_flight (run_tasks r))"
    using restore by (auto simp: persist_inv_def store_inv_def query_state_root_def)
  then show ?case
    using store_inv_mark_persisted store_inv_insert restore(2)
    by (simp add: persist_inv_def restore_persisted_snapshot_def Let_def)
next
  case (mark d r v chain changes)
  note m = persist_begin_cases [OF mark(1)]
  from store_inv_mark [OF mark(2) [unfolded persist_inv_def] _ m(2,3)] show ?case
    using written_in_flight by (auto simp: persist_inv_def m(1))
next
  case (commit r us chain changes vs qmdb result)
  have inv: "store_inv (lv_snapshots (run_view r)) (in_flight us @ chain @ in_flight vs) (written us @ written vs) (run_log r)"
    using commit(1,3) by (simp add: persist_inv_def)
  have "set (written us @ written vs) \<subseteq> set (in_flight us) \<union> set (in_flight vs)"
    using written_in_flight by auto
  from store_inv_unwritten [OF inv this] have "set chain \<inter> set (run_log r) = {}" "distinct chain" by simp_all
  then show ?case using inv by (auto simp: persist_inv_def store_inv_def split: sum.split)
next
  case (finish r us chain result vs v outcome)
  let ?ss = "lv_snapshots (run_view r)"
  have inv: "store_inv ?ss (in_flight us @ chain @ in_flight vs)
      (written us @ task_written (Committed chain result) @ written vs) (run_log r)"
    using finish(1,3) by (simp add: persist_inv_def)
  then have pre: "bt_wf (ss_snapshots ?ss)" "\<forall>d \<in> set chain. ss_get ?ss d \<noteq> None"
    by (auto simp: store_inv_def)
  note f = persist_finish_spec [OF finish(2) pre]
  have "store_inv (lv_snapshots v) (in_flight us @ in_flight vs) (written us @ written vs) (run_log r)"
    by (rule store_inv_finish [OF inv, where P = "case result of Inl _ \<Rightarrow> {} | Inr _ \<Rightarrow> set chain"])
      (use f in \<open>simp_all split: sum.split\<close>)
  then show ?case by (simp add: persist_inv_def)
qed

section \<open>No block is written twice\<close>

definition run_start :: "('w, 'ad, 'sd, 'cd) ledger_run \<Rightarrow> bool" where
  "run_start r \<longleftrightarrow> run_tasks r = [] \<and> run_log r = [] \<and> bt_wf (ss_snapshots (lv_snapshots (run_view r)))"

lemma persist_inv_reachable: "(ledger_step X B)\<^sup>*\<^sup>* r r' \<Longrightarrow> run_start r \<Longrightarrow> persist_inv r'"
proof (induction rule: rtranclp_induct)
  case base
  then show ?case by (simp add: run_start_def persist_inv_def store_inv_def)
next
  case (step y z)
  then show ?case using persist_inv_step by blast
qed

text \<open>
  C2: however persistence calls, insertions and restorations interleave, the changes of a block
  are written to storage at most once. The chains in flight never share a block, a written block is
  marked persisted or its call is about to mark it, and a call whose commit succeeded always
  completes: none of its snapshots has disappeared in between.
\<close>

theorem persist_once:
  assumes "run_start r" and "(ledger_step X B)\<^sup>*\<^sup>* r r'"
  shows "distinct (run_log r') \<and> distinct (in_flight (run_tasks r')) \<and>
    (\<forall>d \<in> set (run_log r'). is_persisted (lv_snapshots (run_view r')) d \<or> d \<in> set (written (run_tasks r'))) \<and>
    (\<forall>us chain root vs. run_tasks r' = us @ Committed chain (Inr root) # vs \<longrightarrow>
       snd (persist_finish chain (Inr root) (run_view r')) = Inr ())"
proof -
  have inv: "store_inv (lv_snapshots (run_view r')) (in_flight (run_tasks r')) (written (run_tasks r')) (run_log r')"
    using persist_inv_reachable [OF assms(2,1)] by (simp add: persist_inv_def)
  have "snd (persist_finish chain (Inr root) (run_view r')) = Inr ()"
    if t: "run_tasks r' = us @ Committed chain (Inr root) # vs" for us chain root vs
  proof -
    have "bt_wf (ss_snapshots (lv_snapshots (run_view r')))"
      "\<forall>d \<in> set chain. ss_get (lv_snapshots (run_view r')) d \<noteq> None"
      using inv t by (auto simp: store_inv_def)
    then show ?thesis
      using persist_finish_spec [of chain "Inr root" "run_view r'"] by (auto simp: prod_eq_iff)
  qed
  moreover have "distinct (run_log r')" "distinct (in_flight (run_tasks r'))"
    "\<forall>d \<in> set (run_log r'). d \<in> set (ss_persisted (lv_snapshots (run_view r'))) \<or> d \<in> set (written (run_tasks r'))"
    using inv by (auto simp: store_inv_def)
  ultimately show ?thesis unfolding is_persisted_def by blast
qed

text \<open>A ledger over the sample storage with two unpersisted blocks.\<close>

definition sample_view :: "(sample_disk, bytes \<Rightarrow> bytes option, bytes \<Rightarrow> u256 option, bytes \<Rightarrow> bytes option) LedgerView" where
  "sample_view = \<lparr>lv_mempool = pool_new pool_config_new, lv_snapshots = sample_snapshots fresh_overlay, lv_head = 3,
     lv_seeds = seed_tracker_new 1,
     lv_qmdb = \<lparr>ql_handle = from_store \<lparr>qs_stores = Some empty_stores, qs_commit_seq = 0\<rparr>\<rparr>,
     lv_genesis_block = genesis_block_of 10 0\<rparr>"

lemma sample_ledger_commit:
  assumes "qs_stores (qh_inner (ql_handle l)) = Some \<lparr>st_accounts = Some d1, st_storage = Some d2, st_code = Some d3\<rparr>"
  shows "\<exists>l' root. ledger_commit_changes X sample_backend c l = (l', Inr root)"
proof -
  obtain q' e1 e2 e3 where "qmdb_commit_changes (backend_ops sample_backend) c (qh_inner (ql_handle l)) = (q', Inr ())"
    "qs_stores q' = Some \<lparr>st_accounts = Some e1, st_storage = Some e2, st_code = Some e3\<rparr>"
    using sample_commit_ok [OF assms, of c] by blast
  then show ?thesis
    by (simp add: ledger_commit_changes_def Let_def stores_def state_root_from_stores_def partition_root_def
        slot_get_def sample_backend_def map_db_def)
qed

lemma sample_begin:
  "persist_begin 3 sample_view = Some (sample_view\<lparr>lv_snapshots := mark_persisting_chain [2, 3] (sample_snapshots fresh_overlay)\<rparr>,
     Inr (Some ([2, 3], merge_all [changes_new, changes_new])))"
proof -
  have "can_persist_chain (sample_snapshots fresh_overlay) [2, 3]"
    by (simp add: can_persist_chain_def sample_snapshots_def with_max_persisted_retained_def)
  then show ?thesis by (simp add: persist_begin_def sample_view_def sample_snapshots_persist)
qed

theorem persist_once_witness:
  "\<exists>r'. (ledger_step sample_externs sample_backend)\<^sup>*\<^sup>* \<lparr>run_view = sample_view, run_tasks = [], run_log = []\<rparr> r' \<and>
     run_log r' = [2, 3] \<and> distinct (run_log r') \<and> run_tasks r' \<noteq> []"
proof -
  let ?r = "\<lparr>run_view = sample_view, run_tasks = [], run_log = []\<rparr>"
  let ?c = "merge_all [changes_new, changes_new]"
  let ?v = "sample_view\<lparr>lv_snapshots := mark_persisting_chain [2, 3] (sample_snapshots fresh_overlay)\<rparr>"
  let ?r1 = "\<lparr>run_view = ?v, run_tasks = [Marked [2, 3] ?c], run_log = []\<rparr>"
  have start: "run_start ?r"
    using sample_snapshots_ss_wf [of fresh_overlay] by (simp add: run_start_def sample_view_def ss_wf_def)
  have one: "ledger_step sample_externs sample_backend ?r ?r1"
    using ledger_step.mark [of 3 ?r ?v "[2, 3]" ?c sample_externs sample_backend] sample_begin by simp
  have "qs_stores (qh_inner (ql_handle (lv_qmdb ?v))) =
      Some \<lparr>st_accounts = Some Map.empty, st_storage = Some Map.empty, st_code = Some Map.empty\<rparr>"
    by (simp add: sample_view_def from_store_def empty_stores_def)
  from sample_ledger_commit [OF this, of sample_externs ?c] obtain l' root where
    com: "ledger_commit_changes sample_externs sample_backend ?c (lv_qmdb ?v) = (l', Inr root)" by blast
  let ?r2 = "\<lparr>run_view = ?v\<lparr>lv_qmdb := l'\<rparr>, run_tasks = [Committed [2, 3] (Inr root)], run_log = [2, 3]\<rparr>"
  have two: "ledger_step sample_externs sample_backend ?r1 ?r2"
    using ledger_step.commit [of ?r1 "[]" "[2, 3]" ?c "[]" sample_externs sample_backend l' "Inr root"] com by simp
  have steps: "(ledger_step sample_externs sample_backend)\<^sup>*\<^sup>* ?r ?r2"
    by (rule converse_rtranclp_into_rtranclp [where r = "ledger_step sample_externs sample_backend", OF one])
      (rule r_into_rtranclp [where r = "ledger_step sample_externs sample_backend", OF two])
  from persist_once [OF start steps] have "distinct (run_log ?r2)" by blast
  with steps show ?thesis by (intro exI [of _ ?r2]) simp
qed

end
