(* ===== verification/Ledger_Properties.thy ===== *)
theory Ledger_Properties
  imports Ledger_Persist
begin

text \<open>
  What persistence and pruning do to what the ledger answers: snapshots above a persisted chain
  read as before although the storage under them has moved, and the pool loses exactly the
  transactions that finalized state has overtaken.
\<close>

section \<open>Snapshots over moving storage\<close>

text \<open>Change sets of consecutive blocks, oldest first, none touching a destroyed account without recreating it.\<close>

fun regular :: "ChangeSet \<Rightarrow> ChangeSet list \<Rightarrow> bool" where
  "regular c [] \<longleftrightarrow> True"
| "regular c (x # xs) \<longleftrightarrow> changes_wf x \<and> follows c x \<and> regular (changes_merge c x) xs"

lemma merge_all_append:
  "merge_all (xs @ ys) = fold (\<lambda>changes merged. changes_merge merged changes) ys (merge_all xs)"
  by (simp add: merge_all_def)

lemma regular_append:
  "regular c (xs @ ys) \<longleftrightarrow>
     regular c xs \<and> regular (fold (\<lambda>changes merged. changes_merge merged changes) xs c) ys"
  by (induction xs arbitrary: c) auto

lemma regular_covers:
  "regular d xs \<Longrightarrow> covers c d a \<Longrightarrow> covers c (fold (\<lambda>changes merged. changes_merge merged changes) xs d) a"
  by (induction xs arbitrary: d) (auto simp: covers_merge)

lemma regular_wf: "regular c xs \<Longrightarrow> changes_wf c \<Longrightarrow> changes_wf (fold (\<lambda>changes merged. changes_merge merged changes) xs c)"
  by (induction xs arbitrary: c) (auto simp: changes_wf_merge)

lemma merge_all_wf: "regular changes_new xs \<Longrightarrow> changes_wf (merge_all xs)"
  using regular_wf [of changes_new xs] by (simp add: merge_all_def)

lemma ledger_commit_handle:
  assumes "ledger_commit_changes X B c l = (l', Inr root)"
  shows "handle_commit (backend_ops B) c (ql_handle l) = (ql_handle l', Inr ())"
proof -
  obtain q r where q: "qmdb_commit_changes (backend_ops B) c (qh_inner (ql_handle l)) = (q, r)" by fastforce
  then have "r = Inr ()" using assms by (cases r) (auto simp: ledger_commit_changes_def Let_def)
  moreover have "ql_handle l' = (ql_handle l)\<lparr>qh_inner := q\<rparr>"
    using assms q \<open>r = Inr ()\<close> by (auto simp: ledger_commit_changes_def Let_def)
  ultimately show ?thesis using q by (simp add: handle_commit_def)
qed

text \<open>
  C8: committing a chain of blocks moves the storage under every snapshot, and no snapshot above
  the chain notices: the overlay of the chain's and any later blocks' changes reads the same before
  and after the commit, and the empty overlay that replaces the chain's last snapshot reads what
  that snapshot read. The reads are nonce, balance, code hash and storage of an account, not code by its hash.
  This holds for every account that the chain does not destroy and that is not the address of the commit marker, when no
  storage is left under a generation the account has not reached and that generation can still be raised, and for
  chains in which a block that touches an account an earlier one destroyed creates or destroys it again.
\<close>

theorem persist_keeps_reads:
  assumes "qs_stores (qh_inner (ql_handle (lv_qmdb v))) = Some st" and "backend_ready B st"
    and "store_fresh (accounts_of B st) (storage_of B st) a" and "a \<noteq> COMMIT_SEQ_ACCOUNT_KEY"
    and "current_gen (accounts_of B st) a \<noteq> - 1" and "regular changes_new (chain @ later)"
    and "\<forall>u. update_of (merge_all chain) a = Some u \<longrightarrow> \<not> au_selfdestructed u"
    and "ledger_commit_changes X B (merge_all chain) (lv_qmdb v) = (qmdb, Inr root)"
  shows "same_reads
      (overlay_db (ledger_db sh X B)) (overlay_at (v\<lparr>lv_qmdb := qmdb\<rparr>) (overlay_new () (merge_all (chain @ later))))
      (overlay_db (ledger_db sh X B)) (overlay_at v (overlay_new () (merge_all (chain @ later)))) a \<and>
    same_reads
      (overlay_db (ledger_db sh X B)) (overlay_at (v\<lparr>lv_qmdb := qmdb\<rparr>) fresh_overlay)
      (overlay_db (ledger_db sh X B)) (overlay_at v (overlay_new () (merge_all chain))) a"
proof -
  let ?D = "ledger_db sh X B" and ?h = "ql_handle (lv_qmdb v)" and ?h' = "ql_handle qmdb"
  let ?c = "merge_all chain" and ?d = "merge_all (chain @ later)"
  have reg: "regular changes_new chain" "regular ?c later"
    using assms(6) by (simp_all add: regular_append merge_all_def)
  have wf: "changes_wf ?c" using reg(1) by (rule merge_all_wf)
  note ready = assms(2) [unfolded backend_ready_def]
  have base: "same_reads ?D ?h' (overlay_db ?D) (overlay_new ?h ?c) a"
    unfolding ledger_db_def
    using backend.commit_overlay [OF assms(1) _ _ _ wf assms(3-5,7) ledger_commit_handle [OF assms(8)]] ready by blast
  have "covers ?c ?d a"
    unfolding merge_all_append using reg(2) covers_refl by (rule regular_covers)
  then have "same_reads (overlay_db (overlay_db ?D)) (overlay_new (overlay_new ?h ?c) ?d)
      (overlay_db ?D) (overlay_new ?h ?d) a"
    using assms(7) by (rule overlay_absorbs)
  with overlay_same_base [OF base] have "same_reads (overlay_db ?D) (overlay_new ?h' ?d) (overlay_db ?D) (overlay_new ?h ?d) a"
    by (rule same_reads_trans)
  moreover have "same_reads (overlay_db ?D) (overlay_new ?h' changes_new) (overlay_db ?D) (overlay_new ?h ?c) a"
    using overlay_empty base by (rule same_reads_trans)
  ultimately show ?thesis by (simp add: overlay_at_def fresh_overlay_def overlay_new_def)
qed

text \<open>One block that creates account 7 and a later one that changes its balance.\<close>

definition sample_block_changes :: ChangeSet where
  "sample_block_changes = \<lparr>cs_accounts = [(7, \<lparr>au_created = True, au_selfdestructed = False, au_nonce = 1,
     au_balance = 5, au_code_hash = 0, au_code = None, au_storage = [(1, 2)]\<rparr>)]\<rparr>"

definition sample_later_changes :: ChangeSet where
  "sample_later_changes = \<lparr>cs_accounts = [(7, \<lparr>au_created = False, au_selfdestructed = False, au_nonce = 2,
     au_balance = 6, au_code_hash = 0, au_code = None, au_storage = []\<rparr>)]\<rparr>"

lemma sample_view_stores: "qs_stores (qh_inner (ql_handle (lv_qmdb sample_view))) = Some empty_stores"
  by (simp add: sample_view_def from_store_def)

lemma empty_stores_content:
  "accounts_of sample_backend empty_stores = Map.empty" "storage_of sample_backend empty_stores = Map.empty"
  by (simp_all add: slot_content_def empty_stores_def sample_backend_def map_db_def db_content_def fun_eq_iff)

theorem persist_keeps_reads_witness:
  "\<exists>qmdb root.
     ledger_commit_changes sample_externs sample_backend (merge_all [sample_block_changes]) (lv_qmdb sample_view) =
       (qmdb, Inr root) \<and>
     sd_balance (overlay_db (ledger_db (\<lambda>_. []) sample_externs sample_backend))
       (overlay_at (sample_view\<lparr>lv_qmdb := qmdb\<rparr>) fresh_overlay) 7 = Inr 5 \<and>
     sd_storage (overlay_db (ledger_db (\<lambda>_. []) sample_externs sample_backend))
       (overlay_at (sample_view\<lparr>lv_qmdb := qmdb\<rparr>) (overlay_new () (merge_all ([sample_block_changes] @ [sample_later_changes])))) 7 1
       = Inr 2"
proof -
  let ?c = "merge_all [sample_block_changes]" and ?D = "ledger_db (\<lambda>_. []) sample_externs sample_backend"
  have merge: "?c = sample_block_changes"
    using changes_new_merge [of sample_block_changes]
    by (simp add: merge_all_def sample_block_changes_def changes_wf_def update_wf_def)
  obtain qmdb root where com: "ledger_commit_changes sample_externs sample_backend ?c (lv_qmdb sample_view) = (qmdb, Inr root)"
    using sample_ledger_commit [OF sample_view_stores [unfolded empty_stores_def]] by blast
  have reg: "regular changes_new ([sample_block_changes] @ [sample_later_changes])"
    using merge by (simp add: merge_all_def)
      (simp add: sample_block_changes_def sample_later_changes_def changes_wf_def update_wf_def follows_def
        changes_new_def update_follows_def)
  have fresh: "store_fresh (accounts_of sample_backend empty_stores) (storage_of sample_backend empty_stores) 7"
    "current_gen (accounts_of sample_backend empty_stores) 7 \<noteq> - 1"
    by (simp_all add: empty_stores_content store_fresh_def current_gen_def)
  have ok: "(7 :: address) \<noteq> COMMIT_SEQ_ACCOUNT_KEY"
    "\<forall>u. update_of ?c 7 = Some u \<longrightarrow> \<not> au_selfdestructed u"
    unfolding merge by (simp_all add: COMMIT_SEQ_ACCOUNT_KEY_def sample_block_changes_def)
  note keep = persist_keeps_reads [OF sample_view_stores empty_stores_ready fresh(1) ok(1) fresh(2) reg ok(2) com,
      of "\<lambda>_. []"]
  have "sd_balance (overlay_db ?D) (overlay_at sample_view (overlay_new () ?c)) 7 = Inr 5"
    unfolding merge by (simp add: overlay_db_def overlay_balance_def overlay_at_def overlay_new_def sample_block_changes_def)
  moreover have "sd_storage (overlay_db ?D) (overlay_at sample_view
      (overlay_new () (merge_all ([sample_block_changes] @ [sample_later_changes])))) 7 1 = Inr 2"
    unfolding merge_all_append merge
    by (simp add: overlay_db_def overlay_storage_def overlay_at_def overlay_new_def changes_merge_def changes_insert_def
        sample_block_changes_def sample_later_changes_def merge_update_def cmp_def)
  ultimately show ?thesis using keep com by (auto simp: same_reads_def)
qed

section \<open>Stale transactions\<close>

definition not_stale :: "externs \<Rightarrow> ('w, 'ad, 'am, 'sd, 'sm, 'cd, 'cm) backend_dbs \<Rightarrow>
    ('w, 'ad, 'sd, 'cd) QmdbState \<Rightarrow> OrderedTransaction \<Rightarrow> bool" where
  "not_stale X B h t \<longleftrightarrow>
     (case qh_nonce X (backend_ops B) h (ot_sender t) of Inl _ \<Rightarrow> True | Inr n \<Rightarrow> n \<le> ot_nonce t)"

lemma word_le_pred: "0 < n \<Longrightarrow> (k \<le> n - 1) = (k < n)" for k n :: u64
  by unat_arith

lemma prune_stale_sender_spec:
  assumes "pool_wf X (tp_inner p)"
  shows "pool_wf X (tp_inner (prune_stale_sender X B h s p))"
    and "queue_txs (by_sender (tp_inner (prune_stale_sender X B h s p))) =
      {t \<in> queue_txs (by_sender (tp_inner p)). ot_sender t = s \<longrightarrow> not_stale X B h t}"
proof -
  note spec = remove_confirmed_spec [OF assms]
  show "pool_wf X (tp_inner (prune_stale_sender X B h s p))"
    using assms spec(1) by (simp add: prune_stale_sender_def split: sum.split)
  show "queue_txs (by_sender (tp_inner (prune_stale_sender X B h s p))) =
      {t \<in> queue_txs (by_sender (tp_inner p)). ot_sender t = s \<longrightarrow> not_stale X B h t}"
  proof (cases "qh_nonce X (backend_ops B) h s")
    case (Inl e)
    then show ?thesis by (auto simp: prune_stale_sender_def not_stale_def)
  next
    case (Inr n)
    then show ?thesis
      using word_le_pred [of n] by (auto simp: prune_stale_sender_def not_stale_def spec(3) not_less)
  qed
qed

lemma fold_prune_stale:
  assumes "pool_wf X (tp_inner p)"
  shows "pool_wf X (tp_inner (fold (prune_stale_sender X B h) ss p)) \<and>
    queue_txs (by_sender (tp_inner (fold (prune_stale_sender X B h) ss p))) =
      {t \<in> queue_txs (by_sender (tp_inner p)). ot_sender t \<in> set ss \<longrightarrow> not_stale X B h t}"
  using assms
proof (induction ss arbitrary: p)
  case (Cons s ss)
  note one = prune_stale_sender_spec [OF Cons.prems, of B h s]
  from Cons.IH [OF one(1)] show ?case using one(2) by auto
qed simp

text \<open>
  After a block is finalized, stale-nonce pruning leaves in the pool exactly the
  transactions whose nonce finalized state has not passed (all of a sender whose nonce cannot be
  read), keeps the pool well formed and touches nothing else of the ledger.
\<close>

theorem prune_stale_nonces_exact:
  assumes "pool_wf X (tp_inner (lv_mempool v))"
  shows "queue_txs (by_sender (tp_inner (lv_mempool (lv_prune_stale_nonces X B v)))) =
      {t \<in> queue_txs (by_sender (tp_inner (lv_mempool v))). not_stale X B (ql_handle (lv_qmdb v)) t} \<and>
    pool_wf X (tp_inner (lv_mempool (lv_prune_stale_nonces X B v))) \<and>
    lv_prune_stale_nonces X B v = v\<lparr>lv_mempool := lv_mempool (lv_prune_stale_nonces X B v)\<rparr>"
proof -
  let ?p = "lv_mempool v" and ?h = "ql_handle (lv_qmdb v)"
  have q: "queues_ok (by_sender (tp_inner ?p))" using assms by (simp add: pool_wf_def inner_inv_def)
  have snd: "t \<in> queue_txs (by_sender (tp_inner ?p)) \<Longrightarrow> ot_sender t \<in> set (pool_senders ?p)" for t
    using queue_txs_iff [OF q, of t] by (auto simp: pool_senders_def dest!: map_of_SomeD intro: rev_image_eqI)
  show ?thesis
  proof (cases "pool_senders ?p = []")
    case True
    then have "queue_txs (by_sender (tp_inner ?p)) = {}" using snd by fastforce
    then show ?thesis using True assms by (simp add: lv_prune_stale_nonces_def Let_def)
  next
    case False
    then show ?thesis
      using fold_prune_stale [OF assms, of B ?h "pool_senders ?p"] snd
      by (auto simp: lv_prune_stale_nonces_def Let_def)
  qed
qed

theorem prune_stale_nonces_exact_witness:
  "let t = sample_tx 11 1 5 9;
       disk = [account_key 1 \<mapsto> account_encode 6 0 0 0];
       v = sample_view\<lparr>lv_mempool := single_pool sample_externs pool_config_new t,
         lv_qmdb := \<lparr>ql_handle = from_store \<lparr>qs_stores = Some \<lparr>st_accounts = Some disk,
           st_storage = Some Map.empty, st_code = Some Map.empty\<rparr>, qs_commit_seq = 0\<rparr>\<rparr>\<rparr>
   in t \<in> queue_txs (by_sender (tp_inner (lv_mempool v))) \<and>
      queue_txs (by_sender (tp_inner (lv_mempool (lv_prune_stale_nonces sample_externs sample_backend v)))) = {}"
proof -
  let ?t = "sample_tx 11 1 5 9" and ?disk = "[account_key 1 \<mapsto> account_encode 6 0 0 0]"
  let ?v = "sample_view\<lparr>lv_mempool := single_pool sample_externs pool_config_new ?t,
         lv_qmdb := \<lparr>ql_handle = from_store \<lparr>qs_stores = Some \<lparr>st_accounts = Some ?disk,
           st_storage = Some Map.empty, st_code = Some Map.empty\<rparr>, qs_commit_seq = 0\<rparr>\<rparr>\<rparr>"
  have txs: "queue_txs (by_sender (tp_inner (lv_mempool ?v))) = {?t}"
    by (simp add: single_pool_def queue_txs_def sq_txs_def)
  have "pool_wf sample_externs (tp_inner (lv_mempool ?v))" by (simp add: single_pool_wf)
  note exact = prune_stale_nonces_exact [OF this, of sample_backend]
  have "qh_nonce sample_externs (backend_ops sample_backend) (ql_handle (lv_qmdb ?v)) 1 = Inr 6"
    by (simp add: qh_nonce_def account_field_def get_account_def stores_def from_store_def sample_get)
  then have "\<not> not_stale sample_externs sample_backend (ql_handle (lv_qmdb ?v)) ?t"
    by (simp add: not_stale_def sample_tx_def ot_new_def)
  with exact txs show ?thesis by (simp add: Let_def)
qed

end
