(* ===== verification/Executor.thy ===== *)
theory Executor
  imports Qmdb_Handle
begin

text \<open>
  The block executor of \<open>crates/node/executor\<close>: configuration, contexts, the adapter that
  presents a state database to the EVM, the transaction loop, header validation, the EIP-1559 base
  fee and gas estimation. The EVM itself (\<open>revm\<close>) is a parameter.
\<close>

section \<open>Configuration\<close>

record GasLimitBounds =
  glb_min :: u64
  glb_max :: u64
  glb_max_delta_divisor :: u64

definition default_gas_limit_bounds :: GasLimitBounds where
  "default_gas_limit_bounds = \<lparr>glb_min = 5000, glb_max = - 1, glb_max_delta_divisor = 1024\<rparr>"

record BaseFeeParams =
  bfp_elasticity_multiplier :: u64
  bfp_max_change_denominator :: u64

definition default_base_fee_params :: BaseFeeParams where
  "default_base_fee_params = \<lparr>bfp_elasticity_multiplier = 2, bfp_max_change_denominator = 8\<rparr>"

text \<open>The hardforks the sources name.\<close>

datatype SpecId = CANCUN | PRAGUE

record ExecutionConfig =
  ec_chain_id :: u64
  ec_spec_id :: SpecId
  ec_gas_limit_bounds :: GasLimitBounds
  ec_base_fee_params :: BaseFeeParams

definition execution_config_new :: "u64 \<Rightarrow> ExecutionConfig" where
  "execution_config_new chain_id =
     \<lparr>ec_chain_id = chain_id, ec_spec_id = CANCUN, ec_gas_limit_bounds = default_gas_limit_bounds,
      ec_base_fee_params = default_base_fee_params\<rparr>"

definition with_spec_id :: "SpecId \<Rightarrow> ExecutionConfig \<Rightarrow> ExecutionConfig" where
  "with_spec_id spec_id c = c\<lparr>ec_spec_id := spec_id\<rparr>"

definition with_gas_limit_bounds :: "GasLimitBounds \<Rightarrow> ExecutionConfig \<Rightarrow> ExecutionConfig" where
  "with_gas_limit_bounds bounds c = c\<lparr>ec_gas_limit_bounds := bounds\<rparr>"

section \<open>Contexts and outcomes\<close>

text \<open>The header fields that are set or read; the others keep their defaults.\<close>

record Header =
  hd_parent_hash :: b256
  hd_number :: u64
  hd_timestamp :: u64
  hd_gas_limit :: u64
  hd_gas_used :: u64
  hd_beneficiary :: address
  hd_base_fee_per_gas :: "u64 option"

definition header_default :: Header where
  "header_default =
     \<lparr>hd_parent_hash = 0, hd_number = 0, hd_timestamp = 0, hd_gas_limit = 0, hd_gas_used = 0,
      hd_beneficiary = 0, hd_base_fee_per_gas = None\<rparr>"

record BlockContext =
  bx_header :: Header
  bx_parent_hash :: b256
  bx_prevrandao :: b256
  bx_blob_base_fee :: "u128 option"
  bx_recent_block_hashes :: "(u64, b256) hash_map"

definition block_context_new :: "Header \<Rightarrow> b256 \<Rightarrow> b256 \<Rightarrow> BlockContext" where
  "block_context_new header parent_hash prevrandao =
     \<lparr>bx_header = header, bx_parent_hash = parent_hash, bx_prevrandao = prevrandao, bx_blob_base_fee = None,
      bx_recent_block_hashes = []\<rparr>"

definition with_blob_base_fee :: "u128 \<Rightarrow> BlockContext \<Rightarrow> BlockContext" where
  "with_blob_base_fee fee c = c\<lparr>bx_blob_base_fee := Some fee\<rparr>"

definition MAX_BLOCK_HASHES :: nat where
  "MAX_BLOCK_HASHES = 256"

definition with_recent_block_hashes :: "(u64, b256) hash_map \<Rightarrow> BlockContext \<Rightarrow> BlockContext" where
  "with_recent_block_hashes hashes c =
     (if length hashes > MAX_BLOCK_HASHES
      then c\<lparr>bx_recent_block_hashes := take MAX_BLOCK_HASHES hashes\<rparr>
      else c\<lparr>bx_recent_block_hashes := hashes\<rparr>)"

record ParentBlock =
  pb_hash :: b256
  pb_number :: u64
  pb_timestamp :: u64
  pb_gas_limit :: u64
  pb_gas_used :: u64
  pb_base_fee_per_gas :: "u64 option"

definition parent_from_header :: "Header \<Rightarrow> b256 \<Rightarrow> ParentBlock" where
  "parent_from_header header h =
     \<lparr>pb_hash = h, pb_number = hd_number header, pb_timestamp = hd_timestamp header,
      pb_gas_limit = hd_gas_limit header, pb_gas_used = hd_gas_used header,
      pb_base_fee_per_gas = hd_base_fee_per_gas header\<rparr>"

datatype ExecutionError =
    ExState StateDbError
  | TxDecode string
  | TxExecution string
  | Revert bytes
  | InvalidTx string
  | BlockValidation string
  | ExCodeNotFound b256
  | StateCommit

fun execution_error_string :: "externs \<Rightarrow> ExecutionError \<Rightarrow> string" where
  "execution_error_string X (ExState e) = ''state error: '' @ state_db_error_string X e"
| "execution_error_string X (TxDecode s) = ''failed to decode transaction: '' @ s"
| "execution_error_string X (TxExecution s) = ''transaction execution failed: '' @ s"
| "execution_error_string X (Revert _) = ''execution reverted''"
| "execution_error_string X (InvalidTx s) = ''invalid transaction: '' @ s"
| "execution_error_string X (BlockValidation s) = ''block validation failed: '' @ s"
| "execution_error_string X (ExCodeNotFound h) = ''code not found: '' @ ex_display_b256 X h"
| "execution_error_string X StateCommit = ''QMDB commit failed during block execution '' @
     [CHR 0xE2, CHR 0x80, CHR 0x94] @ '' results are unreliable''"

record Log =
  log_address :: address
  log_topics :: "b256 list"
  log_data :: bytes

record ExecutionReceipt =
  er_tx_hash :: b256
  er_success :: bool
  er_cumulative_gas_used :: u64
  er_logs :: "Log list"
  er_gas_used :: u64
  er_contract_address :: "address option"

definition receipt_new ::
    "b256 \<Rightarrow> bool \<Rightarrow> u64 \<Rightarrow> u64 \<Rightarrow> Log list \<Rightarrow> address option \<Rightarrow> ExecutionReceipt" where
  "receipt_new tx_hash success gas_used cumulative_gas_used logs contract_address =
     \<lparr>er_tx_hash = tx_hash, er_success = success, er_cumulative_gas_used = cumulative_gas_used, er_logs = logs,
      er_gas_used = gas_used, er_contract_address = contract_address\<rparr>"

record ExecutionOutcome =
  eo_changes :: ChangeSet
  eo_receipts :: "ExecutionReceipt list"
  eo_gas_used :: u64
  eo_selfdestructed_addresses :: "address list"

definition outcome_new :: ExecutionOutcome where
  "outcome_new = \<lparr>eo_changes = changes_new, eo_receipts = [], eo_gas_used = 0, eo_selfdestructed_addresses = []\<rparr>"

section \<open>The state adapter\<close>

text \<open>\<open>revm::DatabaseRef\<close>: what the EVM asks of the state below its own journal.\<close>

record database_ref =
  db_basic :: "address \<Rightarrow> ExecutionError + AccountInfo option"
  db_code_by_hash :: "b256 \<Rightarrow> ExecutionError + Bytecode"
  db_storage :: "address \<Rightarrow> u256 \<Rightarrow> ExecutionError + u256"
  db_block_hash :: "u64 \<Rightarrow> ExecutionError + b256"

definition read_account :: "'b state_db \<Rightarrow> 'b \<Rightarrow> address \<Rightarrow> StateDbError + u64 \<times> u256 \<times> b256" where
  "read_account D s a =
     (case sd_nonce D s a of
        Inl e \<Rightarrow> Inl e
      | Inr nonce \<Rightarrow>
          (case sd_balance D s a of
             Inl e \<Rightarrow> Inl e
           | Inr balance \<Rightarrow>
               (case sd_code_hash D s a of Inl e \<Rightarrow> Inl e | Inr code_hash \<Rightarrow> Inr (nonce, balance, code_hash))))"

definition adapter_basic_ref :: "'b state_db \<Rightarrow> 'b \<Rightarrow> address \<Rightarrow> ExecutionError + AccountInfo option" where
  "adapter_basic_ref D s a =
     (case read_account D s a of
        Inr (nonce, balance, code_hash) \<Rightarrow>
          Inr (Some \<lparr>ai_nonce = nonce, ai_balance = balance, ai_code_hash = code_hash, ai_code = None\<rparr>)
      | Inl (AccountNotFound _) \<Rightarrow> Inr None
      | Inl e \<Rightarrow> Inl (ExState e))"

definition adapter_code_by_hash_ref :: "externs \<Rightarrow> 'b state_db \<Rightarrow> 'b \<Rightarrow> b256 \<Rightarrow> ExecutionError + Bytecode" where
  "adapter_code_by_hash_ref X D s code_hash =
     (if code_hash = KECCAK256_EMPTY X \<or> code_hash = 0 then Inr BytecodeDefault
      else case sd_code D s code_hash of Inl e \<Rightarrow> Inl (ExState e) | Inr b \<Rightarrow> Inr (BytecodeRaw b))"

definition adapter_storage_ref :: "'b state_db \<Rightarrow> 'b \<Rightarrow> address \<Rightarrow> u256 \<Rightarrow> ExecutionError + u256" where
  "adapter_storage_ref D s a index =
     (case sd_storage D s a index of
        Inr v \<Rightarrow> Inr v
      | Inl (AccountNotFound _) \<Rightarrow> Inr 0
      | Inl e \<Rightarrow> Inl (ExState e))"

definition adapter_block_hash_ref :: "(u64, b256) hash_map \<Rightarrow> u64 \<Rightarrow> ExecutionError + b256" where
  "adapter_block_hash_ref hashes number = Inr (case hm_get hashes number of Some h \<Rightarrow> h | None \<Rightarrow> 0)"

definition state_adapter :: "externs \<Rightarrow> 'b state_db \<Rightarrow> 'b \<Rightarrow> (u64, b256) hash_map \<Rightarrow> database_ref" where
  "state_adapter X D s hashes =
     \<lparr>db_basic = adapter_basic_ref D s, db_code_by_hash = adapter_code_by_hash_ref X D s,
      db_storage = adapter_storage_ref D s, db_block_hash = adapter_block_hash_ref hashes\<rparr>"

section \<open>Transactions for the EVM\<close>

text \<open>An authorization with the authority that recovery found, if any.\<close>

record RecoveredAuthorization =
  ra_chain_id :: u256
  ra_address :: address
  ra_nonce :: u64
  ra_authority :: "address option"

record TxEnv =
  te_caller :: address
  te_gas_limit :: u64
  te_gas_price :: u128
  te_priority_fee :: "u128 option"
  te_value :: u256
  te_data :: bytes
  te_nonce :: u64
  te_chain_id :: "u64 option"
  te_kind :: "address option"
  te_access_list :: access_list
  te_max_fee_per_blob_gas :: u128
  te_blob_hashes :: "b256 list"
  te_authorization_list :: "RecoveredAuthorization list"

datatype Output = OutCall bytes | OutCreate bytes "address option"

datatype ExecutionResult =
    Success "Log list" Output (tx_gas_used: u64)
  | Reverted bytes (tx_gas_used: u64)
  | Halted string (tx_gas_used: u64)

type_synonym EvmState = "(address, evm_account) hash_map"

text \<open>The configuration and block environment an execution runs under.\<close>

record evm_env =
  ee_spec_id :: SpecId
  ee_chain_id :: u64
  ee_disable_checks :: bool
  ee_number :: u256
  ee_timestamp :: u256
  ee_beneficiary :: address
  ee_gas_limit :: u64
  ee_basefee :: u64
  ee_prevrandao :: "b256 option"
  ee_blob_gasprice :: "u128 option"

text \<open>
  \<open>revm\<close>, and the envelope fields only the executor reads. \<open>ev_replay env db committed tx\<close> runs a
  transaction over a database in whose cache the states \<open>committed\<close> were committed so far.
\<close>

record evm =
  ev_build :: "TxEnv \<Rightarrow> string + TxEnv"
  ev_replay :: "evm_env \<Rightarrow> database_ref \<Rightarrow> EvmState list \<Rightarrow> TxEnv \<Rightarrow> string + ExecutionResult \<times> EvmState"
  ev_recover_error :: "TxEnvelope \<Rightarrow> string"
  ev_priority_fee :: "TxEnvelope \<Rightarrow> u128"
  ev_blob_fee :: "TxEnvelope \<Rightarrow> u128"
  ev_blob_hashes :: "TxEnvelope \<Rightarrow> b256 list"
  ev_authorizations :: "TxEnvelope \<Rightarrow> (u256 \<times> address \<times> u64 \<times> address option) list"

definition convert_access_list :: "access_list \<Rightarrow> access_list" where
  "convert_access_list access_list = map (\<lambda>(address, storage_keys). (address, storage_keys)) access_list"

definition convert_authorization_list ::
    "(u256 \<times> address \<times> u64 \<times> address option) list \<Rightarrow> RecoveredAuthorization list" where
  "convert_authorization_list auth_list =
     map (\<lambda>(chain_id, address, nonce, authority).
       \<lparr>ra_chain_id = chain_id, ra_address = address, ra_nonce = nonce, ra_authority = authority\<rparr>) auth_list"

definition tx_env_default :: TxEnv where
  "tx_env_default =
     \<lparr>te_caller = 0, te_gas_limit = 0, te_gas_price = 0, te_priority_fee = None, te_value = 0, te_data = [],
      te_nonce = 0, te_chain_id = None, te_kind = None, te_access_list = [], te_max_fee_per_blob_gas = 0,
      te_blob_hashes = [], te_authorization_list = []\<rparr>"

definition common_env :: "address \<Rightarrow> tx_common \<Rightarrow> u128 \<Rightarrow> TxEnv" where
  "common_env caller tx price =
     tx_env_default\<lparr>te_caller := caller, te_gas_limit := tc_gas_limit tx, te_gas_price := price,
       te_value := tc_value tx, te_data := tc_input tx, te_nonce := tc_nonce tx,
       te_chain_id := tc_chain_id tx, te_kind := tc_to tx\<rparr>"

fun envelope_env :: "evm \<Rightarrow> address \<Rightarrow> TxEnvelope \<Rightarrow> TxEnv" where
  "envelope_env V caller (Legacy tx s price) = common_env caller tx price"
| "envelope_env V caller (Eip2930 tx s price al) =
     (common_env caller tx price)\<lparr>te_access_list := convert_access_list al\<rparr>"
| "envelope_env V caller (Eip1559 tx s fee al) =
     (common_env caller tx fee)\<lparr>te_priority_fee := Some (ev_priority_fee V (Eip1559 tx s fee al)),
       te_access_list := convert_access_list al\<rparr>"
| "envelope_env V caller (Eip4844 tx s fee al) =
     (common_env caller tx fee)\<lparr>te_priority_fee := Some (ev_priority_fee V (Eip4844 tx s fee al)),
       te_access_list := convert_access_list al,
       te_max_fee_per_blob_gas := ev_blob_fee V (Eip4844 tx s fee al),
       te_blob_hashes := ev_blob_hashes V (Eip4844 tx s fee al)\<rparr>"
| "envelope_env V caller (Eip7702 tx s fee al) =
     (common_env caller tx fee)\<lparr>te_priority_fee := Some (ev_priority_fee V (Eip7702 tx s fee al)),
       te_access_list := convert_access_list al,
       te_authorization_list := convert_authorization_list (ev_authorizations V (Eip7702 tx s fee al))\<rparr>"

definition decode_tx_env :: "externs \<Rightarrow> evm \<Rightarrow> bytes \<Rightarrow> ExecutionError + TxEnv" where
  "decode_tx_env X V raw =
     (case ex_decode_2718 X raw of
        Inl e \<Rightarrow> Inl (TxDecode e)
      | Inr envelope \<Rightarrow>
          (case ex_recover_signer X envelope of
             None \<Rightarrow> Inl (TxDecode (''failed to recover signer: '' @ ev_recover_error V envelope))
           | Some caller \<Rightarrow>
               (case ev_build V (envelope_env V caller envelope) of
                  Inl e \<Rightarrow> Inl (TxDecode (''failed to build tx env: '' @ e))
                | Inr env \<Rightarrow> Inr env)))"

section \<open>Executing a block\<close>

definition build_skipped_receipt :: "b256 \<Rightarrow> u64 \<Rightarrow> ExecutionReceipt" where
  "build_skipped_receipt tx_hash cumulative_gas_used = receipt_new tx_hash False 0 cumulative_gas_used [] None"

definition build_receipt :: "ExecutionResult \<Rightarrow> b256 \<Rightarrow> u64 \<Rightarrow> u64 \<Rightarrow> ExecutionReceipt" where
  "build_receipt result tx_hash gas_used cumulative_gas_used =
     (case (case result of
              Success logs output _ \<Rightarrow>
                (True, logs, (case output of OutCreate _ addr \<Rightarrow> addr | OutCall _ \<Rightarrow> None))
            | Reverted _ _ \<Rightarrow> (False, [], None)
            | Halted _ _ \<Rightarrow> (False, [], None)) of
        (success, logs, contract_address) \<Rightarrow>
          receipt_new tx_hash success gas_used cumulative_gas_used logs contract_address)"

definition extract_changes :: "EvmState \<Rightarrow> ChangeSet" where
  "extract_changes state =
     fold (\<lambda>(address, account) changes.
       if \<not> ea_touched account then changes else changes_insert address (evm_update account) changes)
       state changes_new"

definition block_env :: "ExecutionConfig \<Rightarrow> BlockContext \<Rightarrow> bool \<Rightarrow> evm_env" where
  "block_env cfg context disable_checks =
     (let header = bx_header context
      in \<lparr>ee_spec_id = ec_spec_id cfg, ee_chain_id = ec_chain_id cfg, ee_disable_checks = disable_checks,
          ee_number = ucast (hd_number header), ee_timestamp = ucast (hd_timestamp header),
          ee_beneficiary = hd_beneficiary header, ee_gas_limit = hd_gas_limit header,
          ee_basefee = (case hd_base_fee_per_gas header of None \<Rightarrow> 0 | Some f \<Rightarrow> f),
          ee_prevrandao = Some (bx_prevrandao context), ee_blob_gasprice = bx_blob_base_fee context\<rparr>)"

text \<open>The state of the transaction loop: the EVM's cache, the gas so far, the outcome so far.\<close>

record exec_state =
  xs_committed :: "EvmState list"
  xs_cumulative_gas :: u64
  xs_outcome :: ExecutionOutcome

definition push_receipt :: "ExecutionReceipt \<Rightarrow> exec_state \<Rightarrow> exec_state" where
  "push_receipt r x = x\<lparr>xs_outcome := (xs_outcome x)\<lparr>eo_receipts := eo_receipts (xs_outcome x) @ [r]\<rparr>\<rparr>"

text \<open>A transaction that ran: receipt, destroyed addresses, changes, commit.\<close>

definition apply_result :: "b256 \<Rightarrow> ExecutionResult \<Rightarrow> EvmState \<Rightarrow> exec_state \<Rightarrow> exec_state" where
  "apply_result tx_hash result evm_state x =
     (let gas_used = tx_gas_used result;
          cumulative_gas = saturating_add (xs_cumulative_gas x) gas_used;
          x1 = push_receipt (build_receipt result tx_hash gas_used cumulative_gas) x;
          out = xs_outcome x1
      in \<lparr>xs_committed = xs_committed x @ [evm_state], xs_cumulative_gas = cumulative_gas,
          xs_outcome = out\<lparr>eo_changes := changes_merge (eo_changes out) (extract_changes evm_state),
            eo_selfdestructed_addresses := eo_selfdestructed_addresses out @
              map fst (filter (\<lambda>(address, account). ea_selfdestructed account) evm_state)\<rparr>\<rparr>)"

fun execute_loop :: "externs \<Rightarrow> evm \<Rightarrow> evm_env \<Rightarrow> database_ref \<Rightarrow> bytes list \<Rightarrow> exec_state \<Rightarrow> exec_state" where
  "execute_loop X V env db [] x = x"
| "execute_loop X V env db (raw # txs) x =
     (let tx_hash = ex_keccak256 X raw
      in case decode_tx_env X V raw of
           Inl _ \<Rightarrow>
             execute_loop X V env db txs (push_receipt (build_skipped_receipt tx_hash (xs_cumulative_gas x)) x)
         | Inr tx_env \<Rightarrow>
             if saturating_add (xs_cumulative_gas x) (te_gas_limit tx_env) > ee_gas_limit env then x
             else case ev_replay V env db (xs_committed x) tx_env of
                    Inl _ \<Rightarrow>
                      execute_loop X V env db txs (push_receipt (build_skipped_receipt tx_hash (xs_cumulative_gas x)) x)
                  | Inr (result, evm_state) \<Rightarrow>
                      execute_loop X V env db txs (apply_result tx_hash result evm_state x))"

text \<open>The hooks keep their default implementations.\<close>

definition pre_execute :: "BlockContext \<Rightarrow> 'b \<Rightarrow> ExecutionError + ChangeSet" where
  "pre_execute context state = Inr changes_new"

definition post_execute :: "BlockContext \<Rightarrow> 'b \<Rightarrow> ExecutionReceipt list \<Rightarrow> ExecutionError + ChangeSet" where
  "post_execute context state receipts = Inr changes_new"

definition execute_txs :: "externs \<Rightarrow> evm \<Rightarrow> ExecutionConfig \<Rightarrow> database_ref \<Rightarrow> BlockContext \<Rightarrow> bytes list \<Rightarrow>
    ExecutionOutcome \<Rightarrow> ExecutionOutcome" where
  "execute_txs X V cfg db context txs outcome =
     (if txs = [] then outcome
      else let x = execute_loop X V (block_env cfg context False) db txs
                     \<lparr>xs_committed = [], xs_cumulative_gas = 0, xs_outcome = outcome\<rparr>
           in (xs_outcome x)\<lparr>eo_gas_used := xs_cumulative_gas x\<rparr>)"

definition execute :: "externs \<Rightarrow> evm \<Rightarrow> ExecutionConfig \<Rightarrow> 'b state_db \<Rightarrow> 'b \<Rightarrow> BlockContext \<Rightarrow> bytes list \<Rightarrow>
    'b \<times> (ExecutionError + ExecutionOutcome)" where
  "execute X V cfg D state context txs =
     (case pre_execute context state of
        Inl e \<Rightarrow> (state, Inl e)
      | Inr pre_changes \<Rightarrow>
          (let outcome = outcome_new\<lparr>eo_changes := changes_merge (eo_changes outcome_new) pre_changes\<rparr>;
               outcome1 = execute_txs X V cfg (state_adapter X D state (bx_recent_block_hashes context)) context txs outcome
           in case sd_take_commit_failure D state of
                (state1, failed) \<Rightarrow>
                  if failed then (state1, Inl StateCommit)
                  else case post_execute context state1 (eo_receipts outcome1) of
                         Inl e \<Rightarrow> (state1, Inl e)
                       | Inr post_changes \<Rightarrow>
                           (state1, Inr (outcome1\<lparr>eo_changes := changes_merge (eo_changes outcome1) post_changes\<rparr>))))"

section \<open>Headers and the base fee\<close>

text \<open>
  \<open>calculate_base_fee\<close>; \<open>None\<close> is a division by zero, which aborts the thread.
\<close>

definition saturating_mul :: "'a::len word \<Rightarrow> 'a word \<Rightarrow> 'a word" where
  "saturating_mul a b = (if unat a * unat b < 2 ^ LENGTH('a) then a * b else - 1)"

definition base_fee_change :: "u64 \<Rightarrow> u64 \<Rightarrow> u64 \<Rightarrow> u64 \<Rightarrow> u128 option" where
  "base_fee_change parent_base_fee gas_used_delta parent_gas_target max_change_denominator =
     (if parent_gas_target = 0 \<or> max_change_denominator = 0 then None
      else Some (saturating_mul (ucast parent_base_fee) (ucast gas_used_delta) div ucast parent_gas_target
                 div ucast max_change_denominator))"

definition calculate_base_fee :: "u64 \<Rightarrow> u64 \<Rightarrow> u64 \<Rightarrow> BaseFeeParams \<Rightarrow> u64 option" where
  "calculate_base_fee parent_base_fee parent_gas_used parent_gas_limit params =
     (if bfp_elasticity_multiplier params = 0 then None
      else let parent_gas_target = parent_gas_limit div bfp_elasticity_multiplier params
           in if parent_gas_used = parent_gas_target then Some parent_base_fee
              else if parent_gas_used > parent_gas_target
              then (case base_fee_change parent_base_fee (parent_gas_used - parent_gas_target) parent_gas_target
                           (bfp_max_change_denominator params) of
                      None \<Rightarrow> None
                    | Some base_fee_delta \<Rightarrow> Some (saturating_add parent_base_fee (ucast (max base_fee_delta 1))))
              else (case base_fee_change parent_base_fee (parent_gas_target - parent_gas_used) parent_gas_target
                           (bfp_max_change_denominator params) of
                      None \<Rightarrow> None
                    | Some base_fee_delta \<Rightarrow> Some (saturating_sub parent_base_fee (ucast base_fee_delta))))"

definition validate_header :: "(u64 \<Rightarrow> string) \<Rightarrow> ExecutionConfig \<Rightarrow> Header \<Rightarrow> ExecutionError + unit" where
  "validate_header sh cfg header =
     (let bounds = ec_gas_limit_bounds cfg
      in if hd_gas_limit header < glb_min bounds
         then Inl (BlockValidation (''gas limit '' @ sh (hd_gas_limit header) @ '' below minimum '' @ sh (glb_min bounds)))
         else if hd_gas_limit header > glb_max bounds
         then Inl (BlockValidation (''gas limit '' @ sh (hd_gas_limit header) @ '' above maximum '' @ sh (glb_max bounds)))
         else Inr ())"

text \<open>As for the base fee, \<open>None\<close> is a division by zero.\<close>

definition validate_gas_limit :: "(u64 \<Rightarrow> string) \<Rightarrow> ExecutionConfig \<Rightarrow> u64 \<Rightarrow> u64 \<Rightarrow> (ExecutionError + unit) option" where
  "validate_gas_limit sh cfg gas_limit parent_gas_limit =
     (let bounds = ec_gas_limit_bounds cfg
      in if gas_limit < glb_min bounds
         then Some (Inl (BlockValidation (''gas limit '' @ sh gas_limit @ '' below minimum '' @ sh (glb_min bounds))))
         else if gas_limit > glb_max bounds
         then Some (Inl (BlockValidation (''gas limit '' @ sh gas_limit @ '' above maximum '' @ sh (glb_max bounds))))
         else if glb_max_delta_divisor bounds = 0 then None
         else let max_delta = parent_gas_limit div glb_max_delta_divisor bounds;
                  diff = (if gas_limit < parent_gas_limit then parent_gas_limit - gas_limit else gas_limit - parent_gas_limit)
              in if diff \<ge> max_delta
                 then Some (Inl (BlockValidation
                   (''gas limit change '' @ sh diff @ '' exceeds maximum delta '' @ sh max_delta)))
                 else Some (Inr ()))"

definition validate_base_fee :: "(u64 \<Rightarrow> string) \<Rightarrow> ExecutionConfig \<Rightarrow> Header \<Rightarrow> u64 \<Rightarrow> u64 \<Rightarrow> u64 \<Rightarrow>
    (ExecutionError + unit) option" where
  "validate_base_fee sh cfg header parent_base_fee parent_gas_used parent_gas_limit =
     (case calculate_base_fee parent_base_fee parent_gas_used parent_gas_limit (ec_base_fee_params cfg) of
        None \<Rightarrow> None
      | Some expected \<Rightarrow>
          (case hd_base_fee_per_gas header of
             None \<Rightarrow> Some (Inl (BlockValidation ''missing base fee in EIP-1559 block''))
           | Some actual \<Rightarrow>
               if actual \<noteq> expected
               then Some (Inl (BlockValidation
                 (''base fee mismatch: expected '' @ sh expected @ '', got '' @ sh actual)))
               else Some (Inr ())))"

definition validate_header_against_parent :: "(u64 \<Rightarrow> string) \<Rightarrow> externs \<Rightarrow> ExecutionConfig \<Rightarrow> Header \<Rightarrow> ParentBlock \<Rightarrow>
    (ExecutionError + unit) option" where
  "validate_header_against_parent sh X cfg header parent =
     (if hd_number header \<noteq> pb_number parent + 1
      then Some (Inl (BlockValidation
        (''block number not sequential: expected '' @ sh (pb_number parent + 1) @ '', got '' @ sh (hd_number header))))
      else if hd_parent_hash header \<noteq> pb_hash parent
      then Some (Inl (BlockValidation
        (''parent hash mismatch: expected '' @ ex_display_b256 X (pb_hash parent) @ '', got '' @
          ex_display_b256 X (hd_parent_hash header))))
      else if hd_timestamp header < pb_timestamp parent
      then Some (Inl (BlockValidation
        (''timestamp moved backwards: parent '' @ sh (pb_timestamp parent) @ '', current '' @ sh (hd_timestamp header))))
      else case validate_gas_limit sh cfg (hd_gas_limit header) (pb_gas_limit parent) of
             None \<Rightarrow> None
           | Some (Inl e) \<Rightarrow> Some (Inl e)
           | Some (Inr _) \<Rightarrow>
               (case pb_base_fee_per_gas parent of
                  None \<Rightarrow> Some (Inr ())
                | Some parent_base_fee \<Rightarrow>
                    validate_base_fee sh cfg header parent_base_fee (pb_gas_used parent) (pb_gas_limit parent)))"

section \<open>Calls\<close>

record CallParams =
  cp_from :: address
  cp_to :: "address option"
  cp_value :: u256
  cp_data :: bytes
  cp_gas_limit :: "u64 option"
  cp_gas_price :: u128
  cp_nonce :: u64

definition call_params_to_tx_env :: "evm \<Rightarrow> CallParams \<Rightarrow> u64 \<Rightarrow> u64 \<Rightarrow> ExecutionError + TxEnv" where
  "call_params_to_tx_env V params chain_id default_gas_limit =
     (case ev_build V (tx_env_default\<lparr>te_caller := cp_from params,
             te_gas_limit := (case cp_gas_limit params of None \<Rightarrow> default_gas_limit | Some g \<Rightarrow> g),
             te_gas_price := cp_gas_price params, te_value := cp_value params, te_data := cp_data params,
             te_nonce := cp_nonce params, te_chain_id := Some chain_id, te_kind := cp_to params\<rparr>) of
        Inl e \<Rightarrow> Inl (InvalidTx (''build call tx env: '' @ e))
      | Inr env \<Rightarrow> Inr env)"

definition simulate_call :: "externs \<Rightarrow> evm \<Rightarrow> ExecutionConfig \<Rightarrow> 'b state_db \<Rightarrow> 'b \<Rightarrow> CallParams \<Rightarrow> BlockContext \<Rightarrow>
    ExecutionError + bytes" where
  "simulate_call X V cfg D state params context =
     (case call_params_to_tx_env V params (ec_chain_id cfg) (hd_gas_limit (bx_header context)) of
        Inl e \<Rightarrow> Inl e
      | Inr tx_env \<Rightarrow>
          (case ev_replay V (block_env cfg context True)
                  (state_adapter X D state (bx_recent_block_hashes context)) [] tx_env of
             Inl e \<Rightarrow> Inl (TxExecution e)
           | Inr (Success _ output _, _) \<Rightarrow> Inr (case output of OutCall b \<Rightarrow> b | OutCreate b _ \<Rightarrow> b)
           | Inr (Reverted output _, _) \<Rightarrow> Inl (Revert output)
           | Inr (Halted reason _, _) \<Rightarrow> Inl (TxExecution (''halt: '' @ reason))))"

text \<open>The search loop of \<open>estimate_gas\<close>; \<open>succeeds g\<close> is a simulation with gas limit \<open>g\<close>.\<close>

function estimate_loop :: "(u64 \<Rightarrow> bool) \<Rightarrow> u64 \<Rightarrow> u64 \<Rightarrow> u64 \<Rightarrow> nat \<Rightarrow> u64" where
  "estimate_loop succeeds lo hi best iters =
     (if lo + 1 < hi \<and> iters < 25
      then let mid = lo + (hi - lo) div 2
           in if succeeds mid then estimate_loop succeeds lo mid mid (iters + 1)
              else estimate_loop succeeds mid hi best (iters + 1)
      else best)"
  by auto
termination by (relation "measure (\<lambda>(_, _, _, _, iters). 25 - iters)") auto

declare estimate_loop.simps [simp del]

definition estimate_gas :: "externs \<Rightarrow> evm \<Rightarrow> ExecutionConfig \<Rightarrow> 'b state_db \<Rightarrow> 'b \<Rightarrow> CallParams \<Rightarrow> BlockContext \<Rightarrow>
    ExecutionError + u64" where
  "estimate_gas X V cfg D state params context =
     (let block_gas_limit = hd_gas_limit (bx_header context);
          upper = min (case cp_gas_limit params of None \<Rightarrow> block_gas_limit | Some g \<Rightarrow> g) block_gas_limit
      in case simulate_call X V cfg D state (params\<lparr>cp_gas_limit := Some upper\<rparr>) context of
           Inl e \<Rightarrow> Inl e
         | Inr _ \<Rightarrow>
             Inr (estimate_loop
               (\<lambda>g. case simulate_call X V cfg D state (params\<lparr>cp_gas_limit := Some g\<rparr>) context of
                      Inl _ \<Rightarrow> False | Inr _ \<Rightarrow> True)
               21000 upper upper 0))"

end
