(* ===== verification/Executor_Properties.thy ===== *)
theory Executor_Properties
  imports Executor
begin

text \<open>
  Properties of the executor: the gas accounting of a block, the receipts it returns, the
  movement of the base fee and the search of the gas estimate.
\<close>

section \<open>Gas estimation\<close>

lemma halving_ceil:
  fixes d d' n :: nat
  assumes "2 * d' \<le> d + 1"
  shows "(d' + 2 ^ n - 1) div 2 ^ n \<le> (d + 2 ^ Suc n - 1) div 2 ^ Suc n"
proof -
  have "d' + 2 ^ n - 1 \<le> (d + 2 ^ Suc n - 1) div 2"
  proof -
    have "(1 :: nat) \<le> 2 ^ n" by simp
    then have "2 * (d' + 2 ^ n - 1) \<le> d + 2 ^ Suc n - 1" using assms by simp
    then show ?thesis by linarith
  qed
  then have "(d' + 2 ^ n - 1) div 2 ^ n \<le> (d + 2 ^ Suc n - 1) div 2 div 2 ^ n" by (rule div_le_mono)
  then show ?thesis by (simp add: div_mult2_eq)
qed

lemma mid_bounds:
  fixes lo hi :: u64
  assumes "lo + 1 < hi" and "lo < hi"
  shows "unat (lo + (hi - lo) div 2) = unat lo + (unat hi - unat lo) div 2 \<and> lo < lo + (hi - lo) div 2 \<and>
    lo + (hi - lo) div 2 < hi"
proof -
  have h: "unat hi < 2 ^ 64" using unsigned_less [of hi] by simp
  have lt: "unat lo < unat hi" using assms(2) by (simp add: word_less_nat_alt)
  have "unat (lo + 1) = unat lo + 1" using lt h by (simp add: unat_word_ariths)
  then have lt2: "unat lo + 1 < unat hi" using assms(1) by (simp add: word_less_nat_alt)
  have d: "unat ((hi - lo) div 2) = (unat hi - unat lo) div 2"
    using lt by (simp add: unat_div unat_sub word_le_nat_alt)
  have m: "unat (lo + (hi - lo) div 2) = unat lo + (unat hi - unat lo) div 2"
    unfolding d [symmetric] using h lt by (intro unat_add_lem [THEN iffD1]) (simp add: d)
  then show ?thesis using lt2 by (simp add: word_less_nat_alt)
qed

lemma estimate_loop_bisects:
  assumes "lo < hi" and "iters \<le> 25"
  shows "\<exists>lo'. lo \<le> lo' \<and> lo' < estimate_loop succeeds lo hi hi iters \<and> estimate_loop succeeds lo hi hi iters \<le> hi \<and>
    (estimate_loop succeeds lo hi hi iters = hi \<or> succeeds (estimate_loop succeeds lo hi hi iters)) \<and>
    (lo' = lo \<or> \<not> succeeds lo') \<and>
    unat (estimate_loop succeeds lo hi hi iters) - unat lo' \<le>
      max 1 ((unat hi - unat lo + 2 ^ (25 - iters) - 1) div 2 ^ (25 - iters))"
  using assms
proof (induction "25 - iters" arbitrary: lo hi iters)
  case 0
  then have e: "estimate_loop succeeds lo hi hi iters = hi" by (subst estimate_loop.simps) simp
  have "iters = 25" using 0(1,3) by simp
  then show ?case using 0(2) e by (intro exI [of _ lo]) simp
next
  case (Suc n)
  have it: "iters < 25" using Suc(2) by simp
  show ?case
  proof (cases "lo + 1 < hi")
    case False
    then have e: "estimate_loop succeeds lo hi hi iters = hi" by (subst estimate_loop.simps) simp
    have "unat hi \<le> unat lo + 1"
    proof -
      have "unat lo < unat hi" "unat hi < 2 ^ 64"
        using Suc(3) unsigned_less [of hi] by (simp_all add: word_less_nat_alt)
      then have "unat (lo + 1) = unat lo + 1" by (simp add: unat_word_ariths)
      then show ?thesis using False by (simp add: word_less_nat_alt)
    qed
    then show ?thesis using Suc(3) by (intro exI [of _ lo]) (simp add: e)
  next
    case True
    define mid where "mid = lo + (hi - lo) div 2"
    have mid: "unat mid = unat lo + (unat hi - unat lo) div 2" "lo < mid" "mid < hi"
      using mid_bounds [OF True Suc(3)] by (simp_all add: mid_def)
    have lt: "unat lo < unat hi" using Suc(3) by (simp add: word_less_nat_alt)
    have n: "n = 25 - (iters + 1)" "iters + 1 \<le> 25" "25 - iters = Suc n" using Suc(2) it by simp_all
    have e: "estimate_loop succeeds lo hi hi iters =
        (if succeeds mid then estimate_loop succeeds lo mid mid (iters + 1)
         else estimate_loop succeeds mid hi hi (iters + 1))"
      using True it by (subst estimate_loop.simps) (simp add: mid_def Let_def)
    show ?thesis
    proof (cases "succeeds mid")
      case s: True
      have half: "2 * (unat mid - unat lo) \<le> unat hi - unat lo + 1" using mid(1) lt by simp
      from Suc(1) [OF n(1) mid(2) n(2)] obtain lo' g where
        g: "g = estimate_loop succeeds lo mid mid (iters + 1)" "lo \<le> lo'" "lo' < g" "g \<le> mid"
          "g = mid \<or> succeeds g" "lo' = lo \<or> \<not> succeeds lo'"
          "unat g - unat lo' \<le> max 1 ((unat mid - unat lo + 2 ^ n - 1) div 2 ^ n)"
        unfolding n(1) [symmetric] by blast
      have "max 1 ((unat mid - unat lo + 2 ^ n - 1) div 2 ^ n) \<le>
          max 1 ((unat hi - unat lo + 2 ^ (25 - iters) - 1) div 2 ^ (25 - iters))"
        using halving_ceil [OF half, of n] unfolding n(3) by linarith
      with g(7) have gap: "unat g - unat lo' \<le> max 1 ((unat hi - unat lo + 2 ^ (25 - iters) - 1) div 2 ^ (25 - iters))"
        by (rule order_trans)
      have "estimate_loop succeeds lo hi hi iters = g" "g \<le> hi" "succeeds g"
        using e s g(1,4,5) mid(3) by auto
      with gap show ?thesis using g(2,3,6) by blast
    next
      case s: False
      have half: "2 * (unat hi - unat mid) \<le> unat hi - unat lo + 1" using mid(1) lt by simp
      from Suc(1) [OF n(1) mid(3) n(2)] obtain lo' g where
        g: "g = estimate_loop succeeds mid hi hi (iters + 1)" "mid \<le> lo'" "lo' < g" "g \<le> hi"
          "g = hi \<or> succeeds g" "lo' = mid \<or> \<not> succeeds lo'"
          "unat g - unat lo' \<le> max 1 ((unat hi - unat mid + 2 ^ n - 1) div 2 ^ n)"
        unfolding n(1) [symmetric] by blast
      have "max 1 ((unat hi - unat mid + 2 ^ n - 1) div 2 ^ n) \<le>
          max 1 ((unat hi - unat lo + 2 ^ (25 - iters) - 1) div 2 ^ (25 - iters))"
        using halving_ceil [OF half, of n] unfolding n(3) by linarith
      with g(7) have gap: "unat g - unat lo' \<le> max 1 ((unat hi - unat lo + 2 ^ (25 - iters) - 1) div 2 ^ (25 - iters))"
        by (rule order_trans)
      have "estimate_loop succeeds lo hi hi iters = g" "lo \<le> lo'" "\<not> succeeds lo'"
        using e s g(1,2,6) mid(2) by auto
      with gap show ?thesis using g(3,4,5) by blast
    qed
  qed
qed

text \<open>The gas limit the search starts from.\<close>

definition estimate_upper :: "CallParams \<Rightarrow> BlockContext \<Rightarrow> u64" where
  "estimate_upper params context =
     min (case cp_gas_limit params of None \<Rightarrow> hd_gas_limit (bx_header context) | Some g \<Rightarrow> g)
       (hd_gas_limit (bx_header context))"

text \<open>
  C29: a gas estimate is an error exactly when the call fails at the upper limit, with that
  error: an estimate is only given when the call succeeds there. In that case it is a gas limit at which the call succeeds, and some limit below it, at a distance
  of at most one part in \<open>2 ^ 25\<close> of the searched range rounded up, is the floor of the search or one
  at which the call fails. The floor itself is never tried: above it the estimate exceeds 21000.
\<close>

theorem estimate_gas_search:
  "case estimate_gas X V cfg D s params context of
     Inl e \<Rightarrow> simulate_call X V cfg D s (params\<lparr>cp_gas_limit := Some (estimate_upper params context)\<rparr>) context = Inl e
   | Inr g \<Rightarrow>
       (\<exists>out. simulate_call X V cfg D s (params\<lparr>cp_gas_limit := Some (estimate_upper params context)\<rparr>) context =
          Inr out) \<and>
       (\<exists>out. simulate_call X V cfg D s (params\<lparr>cp_gas_limit := Some g\<rparr>) context = Inr out) \<and>
       g \<le> estimate_upper params context \<and>
       (estimate_upper params context \<le> 21000 \<and> g = estimate_upper params context \<or>
        21000 < g \<and>
        (\<exists>lo. 21000 \<le> lo \<and> lo < g \<and>
           (lo = 21000 \<or>
            (\<exists>e. simulate_call X V cfg D s (params\<lparr>cp_gas_limit := Some lo\<rparr>) context = Inl e)) \<and>
           unat g - unat lo \<le>
             max 1 ((unat (estimate_upper params context) - 21000 + 2 ^ 25 - 1) div 2 ^ 25)))"
proof -
  let ?u = "estimate_upper params context"
  let ?sim = "\<lambda>g. simulate_call X V cfg D s (params\<lparr>cp_gas_limit := Some g\<rparr>) context"
  let ?ok = "\<lambda>g. case ?sim g of Inl _ \<Rightarrow> False | Inr _ \<Rightarrow> True"
  have ok: "?ok g \<longleftrightarrow> (\<exists>out. ?sim g = Inr out)" "\<not> ?ok g \<longleftrightarrow> (\<exists>e. ?sim g = Inl e)" for g
    by (auto split: sum.split)
  have eg: "estimate_gas X V cfg D s params context =
      (case ?sim ?u of Inl e \<Rightarrow> Inl e | Inr _ \<Rightarrow> Inr (estimate_loop ?ok 21000 ?u ?u 0))"
    unfolding estimate_gas_def estimate_upper_def Let_def ..
  show ?thesis
  proof (cases "?sim ?u")
    case (Inl e)
    then show ?thesis by (simp add: eg)
  next
    case (Inr out)
    show ?thesis
    proof (cases "?u \<le> 21000")
      case True
      then have "\<not> (21000 :: u64) + 1 < ?u" by (simp add: word_le_nat_alt word_less_nat_alt)
      then have "estimate_loop ?ok 21000 ?u ?u 0 = ?u" by (subst estimate_loop.simps) simp
      then show ?thesis using Inr True by (simp add: eg)
    next
      case False
      then have lt: "21000 < ?u" by simp
      have f: "unat (21000 :: u64) = 21000" by simp
      from estimate_loop_bisects [OF lt, of 0 ?ok] obtain lo g where
        g: "g = estimate_loop ?ok 21000 ?u ?u 0" "21000 \<le> lo" "lo < g" "g \<le> ?u" "g = ?u \<or> ?ok g"
          "lo = 21000 \<or> \<not> ?ok lo" "unat g - unat lo \<le> max 1 ((unat ?u - 21000 + 2 ^ 25 - 1) div 2 ^ 25)"
        by auto
      have "21000 < g" using g(2,3) by simp
      moreover have "\<exists>out. ?sim g = Inr out" using g(5) Inr unfolding ok(1) by auto
      moreover have "lo = 21000 \<or> (\<exists>e. ?sim lo = Inl e)" using g(6) unfolding ok(2) .
      ultimately show ?thesis using g(2,3,4,7) Inr by (auto simp: eg g(1) [symmetric])
    qed
  qed
qed

section \<open>The base fee\<close>

lemma unat_ucast_128: "unat (ucast (x :: u64) :: u128) = unat x"
  by (simp add: unsigned_ucast_eq take_bit_nat_eq_self unsigned_less [THEN order_less_trans])

lemma base_fee_change_exact:
  assumes "t \<noteq> 0" and "den \<noteq> 0"
  shows "\<exists>c. base_fee_change fee d t den = Some c \<and> unat c = unat fee * unat d div unat t div unat den"
proof -
  have f: "unat fee < 2 ^ 64" "unat d < 2 ^ 64" using unsigned_less [of fee] unsigned_less [of d] by simp_all
  then have "unat fee * unat d < 2 ^ 64 * 2 ^ 64" by (intro mult_strict_mono) simp_all
  then have m: "unat fee * unat d < 2 ^ 128" by simp
  then have "unat (saturating_mul (ucast fee) (ucast d) :: u128) = unat fee * unat d"
    by (simp add: saturating_mul_def unat_ucast_128 unat_word_ariths)
  then show ?thesis using assms by (simp add: base_fee_change_def unat_div unat_ucast_128)
qed

lemma unat_ucast_64: "unat c < 2 ^ 64 \<Longrightarrow> unat (ucast (c :: u128) :: u64) = unat c"
  by (simp add: unsigned_ucast_eq take_bit_nat_eq_self)

lemma unat_max: "unat (max a b) = max (unat a) (unat b)"
  by (simp add: max_def word_le_nat_alt)

text \<open>The rule of EIP-1559 over the natural numbers.\<close>

definition eip1559_base_fee :: "nat \<Rightarrow> nat \<Rightarrow> nat \<Rightarrow> nat" where
  "eip1559_base_fee fee used target =
     (if used = target then fee
      else if used > target then fee + max 1 (fee * (used - target) div target div 8)
      else fee - fee * (target - used) div target div 8)"

lemma fee_share_le: "d \<le> t \<Longrightarrow> fee * d div t \<le> fee" for fee d t :: nat
  using div_le_mono [of "fee * d" "fee * t" t] by (cases "t = 0") simp_all

lemma eip1559_bounds:
  assumes "0 < target" and "used \<le> 2 * target + 1"
  shows "eip1559_base_fee fee used target \<le> fee + max 1 (fee div 4)"
    and "fee - fee div 8 \<le> eip1559_base_fee fee used target"
proof -
  have "fee * (used - target) div target \<le> fee * (2 * target) div target" if "used > target"
    using assms that by (intro div_le_mono mult_le_mono) auto
  then have up: "fee * (used - target) div target \<le> fee * 2" if "used > target"
    using assms that by (simp add: mult.assoc [symmetric])
  then have "fee * (used - target) div target div 8 \<le> fee * 2 div 8" if "used > target"
    using that by (intro div_le_mono) simp
  then show "eip1559_base_fee fee used target \<le> fee + max 1 (fee div 4)"
    by (auto simp: eip1559_base_fee_def max_def)
  have "fee * (target - used) div target div 8 \<le> fee div 8"
    by (intro div_le_mono fee_share_le) simp
  then show "fee - fee div 8 \<le> eip1559_base_fee fee used target"
    by (auto simp: eip1559_base_fee_def)
qed

lemma base_fee_rises:
  assumes "t \<noteq> 0" and lt: "unat t < unat used" and le: "unat used \<le> 2 * unat t + 1"
  shows "\<exists>c. base_fee_change fee (used - t) t 8 = Some c \<and>
    unat (saturating_add fee (ucast (max c 1))) = min (eip1559_base_fee (unat fee) (unat used) (unat t)) (2 ^ 64 - 1)"
proof -
  obtain c where c: "base_fee_change fee (used - t) t 8 = Some c"
    "unat c = unat fee * (unat used - unat t) div unat t div 8"
    using base_fee_change_exact [OF assms(1), of 8 fee "used - t"] lt by (auto simp: unat_sub word_le_nat_alt)
  have "0 < unat t" using assms(1) by (simp add: unat_gt_0)
  then have "unat c \<le> unat fee div 4 \<or> unat c \<le> 1" using eip1559_bounds(1) [OF _ le, of "unat fee"] lt c(2)
    by (auto simp: eip1559_base_fee_def max_def split: if_splits)
  then have "unat (max c 1) < 2 ^ 64" using unat_u64_less [of fee] by (auto simp: unat_max max_def)
  then have "unat (ucast (max c 1) :: u64) = max 1 (unat c)"
    by (simp add: unat_ucast_64 unat_max max.commute)
  then show ?thesis using lt c by (simp add: unat_saturating_add eip1559_base_fee_def)
qed

lemma base_fee_falls:
  assumes "t \<noteq> 0" and lt: "unat used < unat t"
  shows "\<exists>c. base_fee_change fee (t - used) t 8 = Some c \<and>
    unat (saturating_sub fee (ucast c)) = min (eip1559_base_fee (unat fee) (unat used) (unat t)) (2 ^ 64 - 1)"
proof -
  obtain c where c: "base_fee_change fee (t - used) t 8 = Some c"
    "unat c = unat fee * (unat t - unat used) div unat t div 8"
    using base_fee_change_exact [OF assms(1), of 8 fee "t - used"] lt by (auto simp: unat_sub word_le_nat_alt)
  have "unat c \<le> unat fee" unfolding c(2)
    using fee_share_le [of "unat t - unat used" "unat t" "unat fee"] div_le_dividend order_trans by fastforce
  then have "unat (ucast c :: u64) = unat c" using unat_u64_less [of fee] by (intro unat_ucast_64) simp
  then show ?thesis using lt c unat_u64_less [of fee] by (simp add: unat_saturating_sub eip1559_base_fee_def)
qed

lemma calculate_base_fee_rule:
  assumes "2 \<le> limit" and "used \<le> limit"
  shows "\<exists>fee'. calculate_base_fee fee used limit default_base_fee_params = Some fee' \<and>
    unat fee' = min (eip1559_base_fee (unat fee) (unat used) (unat limit div 2)) (2 ^ 64 - 1)"
proof -
  define t where "t = limit div 2"
  have t: "unat t = unat limit div 2" by (simp add: t_def unat_div)
  have lim: "2 \<le> unat limit" "unat used \<le> unat limit" using assms by (simp_all add: word_le_nat_alt)
  have t0: "t \<noteq> 0" using t lim(1) by (auto simp: unat_eq_zero)
  have le: "unat used \<le> 2 * unat t + 1" using lim unfolding t by linarith
  note defs = calculate_base_fee_def default_base_fee_params_def t_def Let_def
  consider "used = t" | "used > t" "unat t < unat used" | "used < t" "unat used < unat t"
    by (metis linorder_neqE word_less_nat_alt)
  then show ?thesis
  proof cases
    case 1
    then show ?thesis using unat_u64_less [of fee] t by (simp add: defs eip1559_base_fee_def)
  next
    case 2
    then show ?thesis using base_fee_rises [OF t0 2(2) le, of fee] t by (auto simp: defs)
  next
    case 3
    then show ?thesis using base_fee_falls [OF t0 3(2), of fee] t by (auto simp: defs)
  qed
qed

text \<open>
  C28: for every parent block that respects a gas limit of at least 2, the base fee is computed
  without a division by zero and without truncation: it is the EIP-1559 rule, capped at the largest
  64-bit value. It rises by at most a quarter (or one unit), falls by at most an eighth, and never
  reaches zero from a positive fee.
\<close>

theorem base_fee_exact:
  assumes "2 \<le> limit" and "used \<le> limit"
  shows "\<exists>fee'. calculate_base_fee fee used limit default_base_fee_params = Some fee' \<and>
    unat fee' = min (eip1559_base_fee (unat fee) (unat used) (unat limit div 2)) (2 ^ 64 - 1) \<and>
    unat fee' \<le> unat fee + max 1 (unat fee div 4) \<and>
    unat fee - unat fee div 8 \<le> unat fee' \<and> (fee = 0 \<or> fee' \<noteq> 0)"
proof -
  have lim: "2 \<le> unat limit" "unat used \<le> unat limit" using assms by (simp_all add: word_le_nat_alt)
  then have "0 < unat limit div 2" "unat used \<le> 2 * (unat limit div 2) + 1" by linarith+
  note bnd = eip1559_bounds [OF this, of "unat fee"]
  obtain fee' where fee': "calculate_base_fee fee used limit default_base_fee_params = Some fee'"
    "unat fee' = min (eip1559_base_fee (unat fee) (unat used) (unat limit div 2)) (2 ^ 64 - 1)"
    using calculate_base_fee_rule [OF assms] by blast
  have "unat fee - unat fee div 8 \<le> unat fee'" using bnd(2) unat_u64_less [of fee] unfolding fee'(2) by simp
  moreover from this have "fee = 0 \<or> fee' \<noteq> 0"
    by (cases "fee = 0") (auto simp: unat_eq_zero dest!: unat_gt_0 [THEN iffD2])
  ultimately show ?thesis using fee' bnd(1) by auto
qed

theorem base_fee_exact_witness:
  "\<exists>fee'. calculate_base_fee 1000 30 40 default_base_fee_params = Some fee' \<and> unat fee' = 1062"
proof -
  have "(2 :: u64) \<le> 40" "(30 :: u64) \<le> 40" by simp_all
  from base_fee_exact [OF this, of 1000] show ?thesis
    by (auto simp: eip1559_base_fee_def)
qed

section \<open>Executing a block\<close>

text \<open>What \<open>revm\<close> documents of a result: it never uses more gas than the transaction's limit.\<close>

definition evm_gas_ok :: "evm \<Rightarrow> bool" where
  "evm_gas_ok V \<longleftrightarrow>
     (\<forall>env db committed tx r st. ev_replay V env db committed tx = Inr (r, st) \<longrightarrow> tx_gas_used r \<le> te_gas_limit tx)"

definition gas_sum :: "ExecutionReceipt list \<Rightarrow> nat" where
  "gas_sum rs = sum_list (map (\<lambda>r. unat (er_gas_used r)) rs)"

text \<open>Each receipt's cumulative gas is the gas of the receipts up to and including it.\<close>

definition cumulative_ok :: "ExecutionReceipt list \<Rightarrow> bool" where
  "cumulative_ok rs \<longleftrightarrow> (\<forall>i < length rs. unat (er_cumulative_gas_used (rs ! i)) = gas_sum (take (Suc i) rs))"

lemma gas_sum_simps [simp]: "gas_sum [] = 0" "gas_sum (rs @ [r]) = gas_sum rs + unat (er_gas_used r)"
  by (simp_all add: gas_sum_def)

lemma cumulative_ok_append:
  "cumulative_ok (rs @ [r]) \<longleftrightarrow> cumulative_ok rs \<and> unat (er_cumulative_gas_used r) = gas_sum rs + unat (er_gas_used r)"
  by (auto simp: cumulative_ok_def nth_append less_Suc_eq)

text \<open>
  The reference: a transaction runs on the states the earlier ones committed, and one that does not decode or that the
  EVM refuses commits nothing.
\<close>

definition replay_one :: "externs \<Rightarrow> evm \<Rightarrow> evm_env \<Rightarrow> database_ref \<Rightarrow> EvmState list \<Rightarrow> bytes \<Rightarrow>
    (ExecutionResult \<times> EvmState) option" where
  "replay_one X V env db committed raw =
     (case decode_tx_env X V raw of
        Inl _ \<Rightarrow> None
      | Inr tx \<Rightarrow> (case ev_replay V env db committed tx of Inl _ \<Rightarrow> None | Inr p \<Rightarrow> Some p))"

fun run_states :: "externs \<Rightarrow> evm \<Rightarrow> evm_env \<Rightarrow> database_ref \<Rightarrow> bytes list \<Rightarrow> EvmState list \<Rightarrow> EvmState list" where
  "run_states X V env db [] committed = committed"
| "run_states X V env db (raw # raws) committed =
     run_states X V env db raws
       (case replay_one X V env db committed raw of None \<Rightarrow> committed | Some (r, st) \<Rightarrow> committed @ [st])"

lemma run_states_snoc:
  "run_states X V env db (raws @ [raw]) committed =
     (let states = run_states X V env db raws committed
      in case replay_one X V env db states raw of None \<Rightarrow> states | Some (r, st) \<Rightarrow> states @ [st])"
  by (induction raws arbitrary: committed) (simp_all add: Let_def)

definition changes_of :: "EvmState list \<Rightarrow> ChangeSet" where
  "changes_of states = fold (\<lambda>st c. changes_merge c (extract_changes st)) states changes_new"

text \<open>The receipt of a transaction that ran on these states.\<close>

definition receipt_for :: "externs \<Rightarrow> evm \<Rightarrow> evm_env \<Rightarrow> database_ref \<Rightarrow> EvmState list \<Rightarrow> bytes \<Rightarrow> ExecutionReceipt \<Rightarrow> bool" where
  "receipt_for X V env db states raw rc \<longleftrightarrow>
     rc = (case replay_one X V env db states raw of
             None \<Rightarrow> build_skipped_receipt (ex_keccak256 X raw) (er_cumulative_gas_used rc)
           | Some (r, _) \<Rightarrow> build_receipt r (ex_keccak256 X raw) (tx_gas_used r) (er_cumulative_gas_used rc))"

definition receipts_ok :: "externs \<Rightarrow> evm \<Rightarrow> evm_env \<Rightarrow> database_ref \<Rightarrow> bytes list \<Rightarrow> ExecutionReceipt list \<Rightarrow> bool" where
  "receipts_ok X V env db raws rs \<longleftrightarrow>
     length rs = length raws \<and>
     (\<forall>i < length raws. receipt_for X V env db (run_states X V env db (take i raws) []) (raws ! i) (rs ! i))"

lemma receipts_ok_snoc:
  "receipts_ok X V env db raws rs \<Longrightarrow> receipt_for X V env db (run_states X V env db raws []) raw rc \<Longrightarrow>
     receipts_ok X V env db (raws @ [raw]) (rs @ [rc])"
  by (auto simp: receipts_ok_def nth_append less_Suc_eq)

definition exec_inv :: "externs \<Rightarrow> evm \<Rightarrow> evm_env \<Rightarrow> database_ref \<Rightarrow> bytes list \<Rightarrow> exec_state \<Rightarrow> bool" where
  "exec_inv X V env db raws x \<longleftrightarrow>
     xs_cumulative_gas x \<le> ee_gas_limit env \<and>
     receipts_ok X V env db raws (eo_receipts (xs_outcome x)) \<and>
     unat (xs_cumulative_gas x) = gas_sum (eo_receipts (xs_outcome x)) \<and>
     cumulative_ok (eo_receipts (xs_outcome x)) \<and>
     xs_committed x = run_states X V env db raws [] \<and> eo_changes (xs_outcome x) = changes_of (xs_committed x)"

lemma build_receipt_simps [simp]:
  "er_tx_hash (build_receipt r h g c) = h" "er_gas_used (build_receipt r h g c) = g"
  "er_cumulative_gas_used (build_receipt r h g c) = c"
  by (simp_all add: build_receipt_def receipt_new_def split: ExecutionResult.split)

lemma skipped_receipt_simps [simp]:
  "er_gas_used (build_skipped_receipt h c) = 0" "er_cumulative_gas_used (build_skipped_receipt h c) = c"
  by (simp_all add: build_skipped_receipt_def receipt_new_def)

lemma exec_inv_skip:
  assumes "exec_inv X V env db raws x" and "replay_one X V env db (xs_committed x) raw = None"
  shows "exec_inv X V env db (raws @ [raw]) (push_receipt (build_skipped_receipt (ex_keccak256 X raw) (xs_cumulative_gas x)) x)"
proof -
  let ?rc = "build_skipped_receipt (ex_keccak256 X raw) (xs_cumulative_gas x)"
  have "receipt_for X V env db (run_states X V env db raws []) raw ?rc"
    using assms by (simp add: receipt_for_def exec_inv_def)
  then show ?thesis using assms
    by (simp add: exec_inv_def push_receipt_def cumulative_ok_append receipts_ok_snoc run_states_snoc)
qed

lemma exec_inv_apply:
  assumes "exec_inv X V env db raws x" and "decode_tx_env X V raw = Inr tx"
    and "ev_replay V env db (xs_committed x) tx = Inr (r, st)"
    and "tx_gas_used r \<le> te_gas_limit tx"
    and "saturating_add (xs_cumulative_gas x) (te_gas_limit tx) \<le> ee_gas_limit env"
    and "unat (xs_cumulative_gas x) + unat (te_gas_limit tx) < 2 ^ 64"
  shows "exec_inv X V env db (raws @ [raw]) (apply_result (ex_keccak256 X raw) r st x)"
proof -
  let ?c = "saturating_add (xs_cumulative_gas x) (tx_gas_used r)"
  let ?rc = "build_receipt r (ex_keccak256 X raw) (tx_gas_used r) ?c"
  have gas: "unat (tx_gas_used r) \<le> unat (te_gas_limit tx)" using assms(4) by (simp add: word_le_nat_alt)
  then have c: "unat ?c = unat (xs_cumulative_gas x) + unat (tx_gas_used r)"
    using assms(6) by (simp add: unat_saturating_add)
  then have "unat ?c \<le> unat (saturating_add (xs_cumulative_gas x) (te_gas_limit tx))"
    using gas assms(6) by (simp add: unat_saturating_add)
  then have "?c \<le> ee_gas_limit env" using assms(5) by (simp add: word_le_nat_alt)
  moreover have one: "replay_one X V env db (run_states X V env db raws []) raw = Some (r, st)"
    using assms(1-3) by (simp add: replay_one_def exec_inv_def)
  then have "receipt_for X V env db (run_states X V env db raws []) raw ?rc" by (simp add: receipt_for_def)
  ultimately show ?thesis
    using assms(1) c one
    by (simp add: exec_inv_def apply_result_def push_receipt_def Let_def cumulative_ok_append changes_of_def
        receipts_ok_snoc run_states_snoc)
qed

text \<open>The loop stops early only at a transaction that could exceed the gas limit of the block.\<close>

definition stops_at :: "externs \<Rightarrow> evm \<Rightarrow> evm_env \<Rightarrow> bytes list \<Rightarrow> nat \<Rightarrow> u64 \<Rightarrow> bool" where
  "stops_at X V env txs n gas \<longleftrightarrow>
     (\<exists>tx. decode_tx_env X V (txs ! n) = Inr tx \<and> unat (ee_gas_limit env) < unat gas + unat (te_gas_limit tx))"

lemma execute_loop_inv:
  assumes "evm_gas_ok V" and "ee_gas_limit env \<noteq> - 1" and "exec_inv X V env db raws x"
  shows "\<exists>n \<le> length txs. exec_inv X V env db (raws @ take n txs) (execute_loop X V env db txs x) \<and>
    (n < length txs \<longrightarrow> stops_at X V env txs n (xs_cumulative_gas (execute_loop X V env db txs x)))"
  using assms(3)
proof (induction txs arbitrary: x raws)
  case Nil
  then show ?case by simp
next
  case (Cons raw txs)
  let ?G = "\<lambda>y. \<exists>n \<le> length (raw # txs). exec_inv X V env db (raws @ take n (raw # txs)) y \<and>
    (n < length (raw # txs) \<longrightarrow> stops_at X V env (raw # txs) n (xs_cumulative_gas y))"
  have more: "?G (execute_loop X V env db txs y)" if "exec_inv X V env db (raws @ [raw]) y" for y
  proof -
    from Cons.IH [OF that] obtain n where "n \<le> length txs"
      "exec_inv X V env db ((raws @ [raw]) @ take n txs) (execute_loop X V env db txs y)"
      "n < length txs \<longrightarrow> stops_at X V env txs n (xs_cumulative_gas (execute_loop X V env db txs y))" by blast
    then show ?thesis by (intro exI [of _ "Suc n"]) (simp add: stops_at_def)
  qed
  show ?case
  proof (cases "decode_tx_env X V raw")
    case (Inl e)
    then have "replay_one X V env db (xs_committed x) raw = None" by (simp add: replay_one_def)
    from more [OF exec_inv_skip [OF Cons.prems this]] Inl show ?thesis by (simp add: Let_def)
  next
    case tx: (Inr tx)
    show ?thesis
    proof (cases "saturating_add (xs_cumulative_gas x) (te_gas_limit tx) > ee_gas_limit env")
      case True
      then have "unat (ee_gas_limit env) < unat (xs_cumulative_gas x) + unat (te_gas_limit tx)"
        by (simp add: word_less_nat_alt unat_saturating_add)
      then show ?thesis using tx True Cons.prems by (intro exI [of _ 0]) (simp add: Let_def stops_at_def)
    next
      case False
      then have le: "saturating_add (xs_cumulative_gas x) (te_gas_limit tx) \<le> ee_gas_limit env" by simp
      then have "saturating_add (xs_cumulative_gas x) (te_gas_limit tx) \<noteq> - 1"
        using assms(2) word_order.extremum_uniqueI by fastforce
      then have fits: "unat (xs_cumulative_gas x) + unat (te_gas_limit tx) < 2 ^ 64"
        by (auto simp: saturating_add_def split: if_splits)
      show ?thesis
      proof (cases "ev_replay V env db (xs_committed x) tx")
        case (Inl e)
        then have "replay_one X V env db (xs_committed x) raw = None" by (simp add: replay_one_def tx)
        from more [OF exec_inv_skip [OF Cons.prems this]] tx False Inl show ?thesis by (simp add: Let_def)
      next
        case (Inr p)
        then obtain r st where p: "ev_replay V env db (xs_committed x) tx = Inr (r, st)" by (cases p) auto
        have "tx_gas_used r \<le> te_gas_limit tx" using assms(1) p unfolding evm_gas_ok_def by blast
        from more [OF exec_inv_apply [OF Cons.prems tx p this le fits]] show ?thesis
          using tx False p by (simp add: Let_def)
      qed
    qed
  qed
qed

text \<open>
  C5: a block that executes (with a gas limit below the largest 64-bit value) runs a prefix of its
  transactions in order, each on the states the earlier ones committed. The receipts are those of
  these transactions, an undecodable or refused one with a failed receipt of no gas; their gas adds
  up to the gas of the block, which stays within the limit; the change set is the merge of what
  exactly these runs changed. The prefix is the whole block unless the next transaction's gas limit
  would pass the block's.
\<close>

theorem execute_accounts:
  assumes "evm_gas_ok V" and "hd_gas_limit (bx_header context) \<noteq> - 1"
    and "execute X V cfg D s context txs = (s', Inr out)"
  shows "let env = block_env cfg context False; db = state_adapter X D s (bx_recent_block_hashes context)
    in eo_gas_used out \<le> hd_gas_limit (bx_header context) \<and>
      unat (eo_gas_used out) = gas_sum (eo_receipts out) \<and> cumulative_ok (eo_receipts out) \<and>
      (\<exists>n \<le> length txs. receipts_ok X V env db (take n txs) (eo_receipts out) \<and>
         eo_changes out = changes_of (run_states X V env db (take n txs) []) \<and>
         (n < length txs \<longrightarrow> stops_at X V env txs n (eo_gas_used out)))"
proof -
  let ?env = "block_env cfg context False" and ?db = "state_adapter X D s (bx_recent_block_hashes context)"
  let ?x = "\<lparr>xs_committed = [], xs_cumulative_gas = 0, xs_outcome = outcome_new\<rparr>"
  have new: "outcome_new\<lparr>eo_changes := changes_merge (eo_changes outcome_new) changes_new\<rparr> = outcome_new"
    by (simp add: outcome_new_def)
  have out: "out = execute_txs X V cfg ?db context txs outcome_new"
    using assms(3)
    by (auto simp: execute_def pre_execute_def post_execute_def Let_def new split: prod.splits if_splits)
  have env: "ee_gas_limit ?env = hd_gas_limit (bx_header context)" by (simp add: block_env_def Let_def)
  have start: "exec_inv X V ?env ?db [] ?x"
    by (simp add: exec_inv_def outcome_new_def cumulative_ok_def receipts_ok_def changes_of_def)
  define x where "x = execute_loop X V ?env ?db txs ?x"
  have o: "out = (xs_outcome x)\<lparr>eo_gas_used := xs_cumulative_gas x\<rparr>"
    using out by (cases "txs = []") (simp_all add: execute_txs_def x_def Let_def outcome_new_def)
  from execute_loop_inv [OF assms(1) _ start, of txs] assms(2) obtain n where
    "n \<le> length txs" "exec_inv X V ?env ?db (take n txs) x"
    "n < length txs \<longrightarrow> stops_at X V ?env txs n (xs_cumulative_gas x)"
    by (auto simp: env x_def)
  then show ?thesis unfolding Let_def exec_inv_def env by (auto simp: o)
qed

text \<open>An EVM that charges every transaction 21000 gas and changes nothing.\<close>

definition sample_evm :: evm where
  "sample_evm =
     \<lparr>ev_build = Inr, ev_replay = (\<lambda>env db committed tx.
        if te_gas_limit tx < 21000 then Inl ''intrinsic gas'' else Inr (Success [] (OutCall []) 21000, [])),
      ev_recover_error = (\<lambda>_. []), ev_priority_fee = (\<lambda>_. 0), ev_blob_fee = (\<lambda>_. 0), ev_blob_hashes = (\<lambda>_. []),
      ev_authorizations = (\<lambda>_. [])\<rparr>"

lemma sample_evm_gas_ok: "evm_gas_ok sample_evm"
  by (auto simp: evm_gas_ok_def sample_evm_def not_less)

definition sample_block_context :: BlockContext where
  "sample_block_context = block_context_new (header_default\<lparr>hd_gas_limit := 50000\<rparr>) 0 0"

theorem execute_accounts_witness:
  "\<exists>out. execute sample_externs sample_evm (execution_config_new 1) sample_db () sample_block_context
       [[0, 9, 1, 11], [1, 9, 1, 11], [2, 9, 1, 11]] = ((), Inr out) \<and>
     eo_gas_used out = 42000 \<and> gas_sum (eo_receipts out) = 42000 \<and> length (eo_receipts out) = 2"
proof -
  let ?txs = "[[0, 9, 1, 11], [1, 9, 1, 11], [2, 9, 1, 11]]"
  let ?out = "execute_txs sample_externs sample_evm (execution_config_new 1)
    (state_adapter sample_externs sample_db () []) sample_block_context ?txs outcome_new"
  have ex: "execute sample_externs sample_evm (execution_config_new 1) sample_db () sample_block_context ?txs = ((), Inr ?out)"
    by (simp add: execute_def pre_execute_def post_execute_def sample_db_def Let_def)
      (simp add: outcome_new_def sample_block_context_def block_context_new_def)
  have lim: "hd_gas_limit (bx_header sample_block_context) \<noteq> - 1"
    by (simp add: sample_block_context_def block_context_new_def)
  have len: "eo_gas_used ?out = 42000" "length (eo_receipts ?out) = 2"
    by (simp_all add: execute_txs_def Let_def decode_tx_env_def sample_externs_def sample_evm_def common_env_def
        tx_env_default_def block_env_def sample_block_context_def block_context_new_def push_receipt_def
        apply_result_def outcome_new_def saturating_add_def)
  have "unat (eo_gas_used ?out) = gas_sum (eo_receipts ?out)"
    using execute_accounts [OF sample_evm_gas_ok lim ex] by (simp add: Let_def)
  with ex len show ?thesis by auto
qed

end
