(* ===== verification/Node_State.thy ===== *)
theory Node_State
  imports Kora_Prelude
begin

text \<open>
  The node state of \<open>crates/node/rpc/src/state.rs\<close>: counters and heights that consensus updates
  and the status endpoint reports. Every field is an atomic of its own; the model is the value of
  all of them.
\<close>

section \<open>Partition status\<close>

datatype PartitionStatus = Healthy | Degraded | Partitioned

definition from_peer_counts :: "u64 \<Rightarrow> u64 \<Rightarrow> PartitionStatus" where
  "from_peer_counts connected_peers total_expected_peers =
     (if connected_peers \<ge> total_expected_peers then Healthy
      else let total_validators = total_expected_peers + 1;
               f = saturating_sub total_validators 1 div 3;
               quorum_peers_needed = total_validators - f - 1
           in if connected_peers \<ge> quorum_peers_needed then Degraded else Partitioned)"

section \<open>State\<close>

definition DEFAULT_VALIDATOR_COUNT :: "32 word" where
  "DEFAULT_VALIDATOR_COUNT = 4"

definition CATCH_UP_THRESHOLD :: u64 where
  "CATCH_UP_THRESHOLD = 64"

record NodeState =
  ns_chain_id :: u64
  ns_validator_index :: "32 word"
  ns_validator_count :: "32 word"
  ns_current_view :: u64
  ns_finalized_count :: u64
  ns_finalized_height :: u64
  ns_proposed_count :: u64
  ns_nullified_count :: u64
  ns_equivocation_count :: u64
  ns_peer_count :: u64
  ns_is_leader :: bool
  ns_recovered_height :: u64
  ns_last_verified_height :: u64

text \<open>\<open>None\<close> is the panic of a zero count or an index out of range.\<close>

definition with_validator_count :: "u64 \<Rightarrow> 32 word \<Rightarrow> 32 word \<Rightarrow> NodeState option" where
  "with_validator_count chain_id validator_index validator_count =
     (if validator_count = 0 then None
      else if \<not> validator_index < validator_count then None
      else Some \<lparr>ns_chain_id = chain_id, ns_validator_index = validator_index, ns_validator_count = validator_count,
             ns_current_view = 0, ns_finalized_count = 0, ns_finalized_height = 0, ns_proposed_count = 0,
             ns_nullified_count = 0, ns_equivocation_count = 0, ns_peer_count = 0, ns_is_leader = False,
             ns_recovered_height = 0, ns_last_verified_height = 0\<rparr>)"

definition node_state_new :: "u64 \<Rightarrow> 32 word \<Rightarrow> NodeState option" where
  "node_state_new chain_id validator_index = with_validator_count chain_id validator_index DEFAULT_VALIDATOR_COUNT"

definition set_view :: "u64 \<Rightarrow> NodeState \<Rightarrow> NodeState" where
  "set_view view s =
     (let leader_index = ucast (view mod ucast (ns_validator_count s)) :: 32 word
      in s\<lparr>ns_current_view := view, ns_is_leader := (leader_index = ns_validator_index s)\<rparr>)"

definition inc_finalized :: "NodeState \<Rightarrow> NodeState" where
  "inc_finalized s = s\<lparr>ns_finalized_count := ns_finalized_count s + 1\<rparr>"

definition set_finalized_height :: "u64 \<Rightarrow> NodeState \<Rightarrow> NodeState" where
  "set_finalized_height height s = s\<lparr>ns_finalized_height := max (ns_finalized_height s) height\<rparr>"

definition inc_proposed :: "NodeState \<Rightarrow> NodeState" where
  "inc_proposed s = s\<lparr>ns_proposed_count := ns_proposed_count s + 1\<rparr>"

definition inc_nullified :: "NodeState \<Rightarrow> NodeState" where
  "inc_nullified s = s\<lparr>ns_nullified_count := ns_nullified_count s + 1\<rparr>"

definition inc_equivocations :: "NodeState \<Rightarrow> NodeState" where
  "inc_equivocations s = s\<lparr>ns_equivocation_count := ns_equivocation_count s + 1\<rparr>"

definition set_peer_count :: "u64 \<Rightarrow> NodeState \<Rightarrow> NodeState" where
  "set_peer_count n s = s\<lparr>ns_peer_count := n\<rparr>"

definition set_recovered_height :: "u64 \<Rightarrow> NodeState \<Rightarrow> NodeState" where
  "set_recovered_height height s = s\<lparr>ns_recovered_height := height, ns_last_verified_height := height\<rparr>"

definition set_last_verified_height :: "u64 \<Rightarrow> NodeState \<Rightarrow> NodeState" where
  "set_last_verified_height height s = s\<lparr>ns_last_verified_height := max (ns_last_verified_height s) height\<rparr>"

definition ns_is_catching_up :: "NodeState \<Rightarrow> bool" where
  "ns_is_catching_up s =
     (if ns_recovered_height s = 0 then False
      else ns_last_verified_height s < saturating_add (ns_recovered_height s) CATCH_UP_THRESHOLD)"

record NodeStatus =
  st_chain_id :: u64
  st_validator_index :: "32 word"
  st_uptime_secs :: u64
  st_current_view :: u64
  st_finalized_count :: u64
  st_proposed_count :: u64
  st_nullified_count :: u64
  st_equivocation_count :: u64
  st_peer_count :: u64
  st_total_expected_peers :: u64
  st_partition_status :: PartitionStatus
  st_is_leader :: bool

definition node_status :: "u64 \<Rightarrow> NodeState \<Rightarrow> NodeStatus" where
  "node_status uptime_secs s =
     (let peer_count = ns_peer_count s;
          total_expected_peers = saturating_sub (ucast (ns_validator_count s)) 1;
          partition_status = from_peer_counts peer_count total_expected_peers
      in \<lparr>st_chain_id = ns_chain_id s, st_validator_index = ns_validator_index s, st_uptime_secs = uptime_secs,
          st_current_view = ns_current_view s, st_finalized_count = ns_finalized_count s,
          st_proposed_count = ns_proposed_count s, st_nullified_count = ns_nullified_count s,
          st_equivocation_count = ns_equivocation_count s, st_peer_count = peer_count,
          st_total_expected_peers = total_expected_peers, st_partition_status = partition_status,
          st_is_leader = ns_is_leader s\<rparr>)"

section \<open>Quorum\<close>

lemma unat_ucast_32_64: "unat (ucast (x :: 32 word) :: u64) = unat x"
  by (simp add: unsigned_ucast_eq take_bit_nat_eq_self unsigned_less [THEN order_less_trans])

text \<open>
  The reported status is the quorum arithmetic of \<open>n = 3f + 1\<close> style consensus: with \<open>n\<close>
  validators, a node that is not fully connected is partitioned exactly when it and its peers are
  fewer than \<open>n - (n - 1) div 3\<close>.
\<close>

lemma partition_status_quorum:
  assumes "ns_validator_count s \<noteq> 0"
  defines "n \<equiv> unat (ns_validator_count s)"
  shows "st_partition_status (node_status up s) =
    (if unat (ns_peer_count s) + 1 \<ge> n then Healthy
     else if unat (ns_peer_count s) + 1 \<ge> n - (n - 1) div 3 then Degraded else Partitioned)"
proof -
  let ?c = "ucast (ns_validator_count s) :: u64"
  have n0: "0 < n" using assms(1) by (simp add: n_def unat_gt_0)
  have c: "unat ?c = n" by (simp add: n_def unat_ucast_32_64)
  have "n < 2 ^ 32" unfolding n_def using unsigned_less [of "ns_validator_count s"] by simp
  have e: "unat (saturating_sub ?c 1) = n - 1" by (simp add: unat_saturating_sub c)
  have t: "saturating_sub ?c 1 + 1 = ?c"
  proof -
    have "unat (saturating_sub ?c 1 + 1) = unat ?c"
      using e c n0 \<open>n < 2 ^ 32\<close> by (simp add: unat_word_ariths)
    then show ?thesis by (simp only: unsigned_word_eqI)
  qed
  have f: "unat (saturating_sub ?c 1 div 3) = (n - 1) div 3" by (simp add: unat_div e)
  have le: "(n - 1) div 3 \<le> n - 1" by simp
  have "unat (?c - saturating_sub ?c 1 div 3) = n - (n - 1) div 3"
    using le f c by (subst unat_sub) (simp_all add: word_le_nat_alt)
  moreover have "0 < n - (n - 1) div 3" using n0 le by linarith
  ultimately have q: "unat (?c - saturating_sub ?c 1 div 3 - 1) = n - (n - 1) div 3 - 1"
    by (subst unat_sub) (simp_all add: word_le_nat_alt)
  show ?thesis
    using n0 by (auto simp: node_status_def from_peer_counts_def Let_def t e q word_le_nat_alt)
qed

end
