(* ===== verification/Application.thy ===== *)
theory Application
  imports Ledger_Properties Executor_Properties Node_State
begin

text \<open>
  The consensus application of \<open>crates/node/runner/src/app.rs\<close>: building proposals, verifying the
  blocks of others, the fee cache behind the base fee and the catch-up window after a recovery. The
  executor is the parameter of type \<open>block_executor\<close>; the instance the node runs is
  \<open>revm_block_executor\<close>.
\<close>

section \<open>Executors\<close>

text \<open>
  A \<open>BlockExecutor\<close> run on a blocking thread: the outer error is the join error of the thread.
\<close>

type_synonym 's block_executor =
  "'s \<Rightarrow> BlockContext \<Rightarrow> bytes list \<Rightarrow> string + (ExecutionError + ExecutionOutcome)"

definition revm_block_executor :: "(u64 \<Rightarrow> string) \<Rightarrow> externs \<Rightarrow> evm \<Rightarrow> ExecutionConfig \<Rightarrow>
    ('w, 'ad, 'am, 'sd, 'sm, 'cd, 'cm) backend_dbs \<Rightarrow> ('w, 'ad, 'sd, 'cd) QmdbState OverlayState block_executor" where
  "revm_block_executor show_u64 X V cfg B state context txs =
     Inr (snd (execute X V cfg (overlay_db (ledger_db show_u64 X B)) state context txs))"

text \<open>\<open>BlockExecution::execute\<close>.\<close>

definition block_execution :: "externs \<Rightarrow> 's block_executor \<Rightarrow> 's \<Rightarrow> BlockContext \<Rightarrow> Tx list \<Rightarrow>
    ConsensusError + ExecutionOutcome" where
  "block_execution X E state context txs =
     (case E state context (map tx_bytes txs) of
        Inl e \<Rightarrow> Inl (Execution (''spawn_blocking join error: '' @ e))
      | Inr (Inl e) \<Rightarrow> Inl (Execution (execution_error_string X e))
      | Inr (Inr outcome) \<Rightarrow> Inr outcome)"

section \<open>The application\<close>

definition MAX_FUTURE_TIMESTAMP_DRIFT :: u64 where
  "MAX_FUTURE_TIMESTAMP_DRIFT = 15"

definition MAX_PROPOSAL_LAG :: u64 where
  "MAX_PROPOSAL_LAG = 64"

definition INITIAL_BASE_FEE :: u64 where
  "INITIAL_BASE_FEE = 1000000000"

record ('w, 'ad, 'sd, 'cd) RevmApplication =
  ap_ledger :: "('w, 'ad, 'sd, 'cd) LedgerService"
  ap_max_txs :: nat
  ap_gas_limit :: u64
  ap_fee_recipient :: address
  ap_node_state :: "NodeState option"
  ap_recovered_height :: u64
  ap_last_verified_height :: u64
  ap_block_fees :: "(ConsensusDigest, u64 \<times> u64) hash_map"

abbreviation ap_view :: "('w, 'ad, 'sd, 'cd) RevmApplication \<Rightarrow> ('w, 'ad, 'sd, 'cd) LedgerView" where
  "ap_view app \<equiv> svc_view (ap_ledger app)"

definition on_view :: "(('w, 'ad, 'sd, 'cd) LedgerView \<Rightarrow> ('w, 'ad, 'sd, 'cd) LedgerView) \<Rightarrow>
    ('w, 'ad, 'sd, 'cd) RevmApplication \<Rightarrow> ('w, 'ad, 'sd, 'cd) RevmApplication" where
  "on_view f app = app\<lparr>ap_ledger := (ap_ledger app)\<lparr>svc_view := f (ap_view app)\<rparr>\<rparr>"

definition application_new :: "externs \<Rightarrow> ('w, 'ad, 'sd, 'cd) LedgerService \<Rightarrow> nat \<Rightarrow> u64 \<Rightarrow> address \<Rightarrow>
    ('w, 'ad, 'sd, 'cd) RevmApplication" where
  "application_new X ledger max_txs gas_limit fee_recipient =
     \<lparr>ap_ledger = ledger, ap_max_txs = max_txs, ap_gas_limit = gas_limit, ap_fee_recipient = fee_recipient,
      ap_node_state = None, ap_recovered_height = 0, ap_last_verified_height = 0,
      ap_block_fees = hm_insert (block_commitment X (lv_genesis_block (svc_view ledger))) (0, INITIAL_BASE_FEE) []\<rparr>"

definition app_with_node_state :: "NodeState \<Rightarrow> ('w, 'ad, 'sd, 'cd) RevmApplication \<Rightarrow>
    ('w, 'ad, 'sd, 'cd) RevmApplication" where
  "app_with_node_state state app = app\<lparr>ap_node_state := Some state\<rparr>"

definition with_recovered_height :: "u64 \<Rightarrow> ('w, 'ad, 'sd, 'cd) RevmApplication \<Rightarrow>
    ('w, 'ad, 'sd, 'cd) RevmApplication" where
  "with_recovered_height height app = app\<lparr>ap_recovered_height := height, ap_last_verified_height := height\<rparr>"

definition record_block_fees :: "ConsensusDigest \<Rightarrow> u64 \<Rightarrow> u64 \<Rightarrow> ('w, 'ad, 'sd, 'cd) RevmApplication \<Rightarrow>
    ('w, 'ad, 'sd, 'cd) RevmApplication" where
  "record_block_fees digest gas_used base_fee app =
     app\<lparr>ap_block_fees := hm_insert digest (gas_used, base_fee) (ap_block_fees app)\<rparr>"

definition seed_block_fees :: "(ConsensusDigest \<times> u64 \<times> u64) list \<Rightarrow> ('w, 'ad, 'sd, 'cd) RevmApplication \<Rightarrow>
    ('w, 'ad, 'sd, 'cd) RevmApplication" where
  "seed_block_fees entries app =
     fold (\<lambda>(digest, gas_used, base_fee). record_block_fees digest gas_used base_fee) entries app"

text \<open>As in the executor, \<open>None\<close> is a division by zero, which a gas limit below 2 causes.\<close>

definition compute_base_fee :: "('w, 'ad, 'sd, 'cd) RevmApplication \<Rightarrow> ConsensusDigest \<Rightarrow> u64 option" where
  "compute_base_fee app parent_digest =
     (case hm_get (ap_block_fees app) parent_digest of
        Some (parent_gas_used, parent_base_fee) \<Rightarrow>
          calculate_base_fee parent_base_fee parent_gas_used (ap_gas_limit app) default_base_fee_params
      | None \<Rightarrow> Some INITIAL_BASE_FEE)"

definition app_block_context :: "('w, 'ad, 'sd, 'cd) RevmApplication \<Rightarrow> u64 \<Rightarrow> u64 \<Rightarrow> b256 \<Rightarrow> ConsensusDigest \<Rightarrow>
    BlockContext option" where
  "app_block_context app height timestamp prevrandao parent_digest =
     (case compute_base_fee app parent_digest of
        None \<Rightarrow> None
      | Some base_fee \<Rightarrow>
          Some (block_context_new
            (header_default\<lparr>hd_number := height, hd_timestamp := timestamp, hd_gas_limit := ap_gas_limit app,
               hd_beneficiary := ap_fee_recipient app, hd_base_fee_per_gas := Some base_fee\<rparr>)
            0 prevrandao))"

definition get_prevrandao :: "('w, 'ad, 'sd, 'cd) RevmApplication \<Rightarrow> ConsensusDigest \<Rightarrow> b256" where
  "get_prevrandao app parent_digest =
     (case seed_for_parent parent_digest (ap_view app) of Some s \<Rightarrow> s | None \<Rightarrow> 0)"

text \<open>The base fee of a context, which the callers read back with a default.\<close>

definition context_base_fee :: "BlockContext \<Rightarrow> u64" where
  "context_base_fee context =
     (case hd_base_fee_per_gas (bx_header context) of Some f \<Rightarrow> f | None \<Rightarrow> INITIAL_BASE_FEE)"

section \<open>Proposing\<close>

text \<open>\<open>Some None\<close> is a gap in the snapshot chain; the outer \<open>None\<close> is a walk that never ends.\<close>

definition app_collect_pending_tx_ids :: "unit OverlayState InMemorySnapshotStore \<Rightarrow> ConsensusDigest \<Rightarrow>
    TxId list option option" where
  "app_collect_pending_tx_ids snapshots digest =
     (case walk_chain (is_persisted snapshots) (ss_get snapshots) (Some digest) [] of
        None \<Rightarrow> None
      | Some (Inl _) \<Rightarrow> Some None
      | Some (Inr chain) \<Rightarrow> Some (Some (concat (map (\<lambda>(d, s). sn_tx_ids s) chain))))"

text \<open>
  From the parent's snapshot on: run the transactions, compute the root, assemble the block and note
  its fees.
\<close>

definition execute_proposal :: "externs \<Rightarrow> ('w, 'ad, 'sd, 'cd) QmdbState OverlayState block_executor \<Rightarrow>
    ('w, 'ad, 'sd, 'cd) RevmApplication \<Rightarrow> Block \<Rightarrow> u64 \<Rightarrow> LedgerSnapshot \<Rightarrow> Tx list \<Rightarrow> b256 \<Rightarrow> BlockContext \<Rightarrow>
    ('w, 'ad, 'sd, 'cd) RevmApplication \<times> Block option" where
  "execute_proposal X E app parent timestamp snap txs prevrandao context =
     (case E (overlay_at (ap_view app) (sn_state snap)) context (map tx_bytes txs) of
        Inl _ \<Rightarrow> (app, None)
      | Inr (Inl _) \<Rightarrow> (app, None)
      | Inr (Inr outcome) \<Rightarrow>
          (case compute_root_from_store X (block_commitment X parent) (eo_changes outcome) (ap_view app) of
             Inl _ \<Rightarrow> (app, None)
           | Inr state_root \<Rightarrow>
               (let block = block_new (fst (block_id X parent)) (blk_height parent + 1) timestamp prevrandao state_root txs
                in (record_block_fees (block_commitment X block) (eo_gas_used outcome) (context_base_fee context) app,
                    Some block))))"

text \<open>\<open>looks\<close> is the ledger at the instants the wait for the parent's snapshot looks at it.\<close>

definition build_block :: "externs \<Rightarrow> ('w, 'ad, 'sd, 'cd) QmdbState OverlayState block_executor \<Rightarrow>
    ('w, 'ad, 'sd, 'cd) LedgerView list \<Rightarrow> ('w, 'ad, 'sd, 'cd) RevmApplication \<Rightarrow> Block \<Rightarrow> u64 \<Rightarrow>
    (('w, 'ad, 'sd, 'cd) RevmApplication \<times> Block option) option" where
  "build_block X E looks app parent timestamp =
     (let parent_digest = block_commitment X parent
      in case wait_for_snapshot parent_digest looks of
           None \<Rightarrow> Some (app, None)
         | Some snap \<Rightarrow>
             (case proposal_components (ap_view app) of
                (_, pool, snapshots) \<Rightarrow>
                  (case app_collect_pending_tx_ids snapshots parent_digest of
                     None \<Rightarrow> None
                   | Some None \<Rightarrow> Some (app, None)
                   | Some (Some excluded) \<Rightarrow>
                       (let txs = build X (ap_max_txs app) excluded pool;
                            prevrandao = get_prevrandao app parent_digest
                        in case app_block_context app (blk_height parent + 1) timestamp prevrandao parent_digest of
                             None \<Rightarrow> None
                           | Some context \<Rightarrow>
                               Some (execute_proposal X E app parent timestamp snap txs prevrandao context)))))"

definition lags_behind :: "('w, 'ad, 'sd, 'cd) RevmApplication \<Rightarrow> Block \<Rightarrow> bool" where
  "lags_behind app parent =
     (case ap_node_state app of
        None \<Rightarrow> False
      | Some state \<Rightarrow> blk_height parent > ns_finalized_height state + MAX_PROPOSAL_LAG)"

definition propose :: "externs \<Rightarrow> ('w, 'ad, 'sd, 'cd) QmdbState OverlayState block_executor \<Rightarrow>
    ('w, 'ad, 'sd, 'cd) LedgerView list \<Rightarrow> u64 \<Rightarrow> Block list \<Rightarrow> ('w, 'ad, 'sd, 'cd) RevmApplication \<Rightarrow>
    (('w, 'ad, 'sd, 'cd) RevmApplication \<times> Block option) option" where
  "propose X E looks now_secs ancestry app =
     (case ancestry of
        [] \<Rightarrow> Some (app, None)
      | parent # _ \<Rightarrow>
          if lags_behind app parent then Some (app, None)
          else case next_timestamp now_secs (blk_timestamp parent) of
                 None \<Rightarrow> Some (app, None)
               | Some timestamp \<Rightarrow>
                   (case build_block X E looks app parent timestamp of
                      None \<Rightarrow> None
                    | Some (app1, None) \<Rightarrow> Some (app1, None)
                    | Some (app1, Some block) \<Rightarrow>
                        Some (app1\<lparr>ap_node_state := map_option inc_proposed (ap_node_state app1)\<rparr>, Some block)))"

section \<open>Verifying\<close>

definition is_catching_up :: "('w, 'ad, 'sd, 'cd) RevmApplication \<Rightarrow> u64 \<Rightarrow> bool" where
  "is_catching_up app block_height =
     (if ap_recovered_height app = 0 then False
      else if block_height \<le> ap_recovered_height app then False
      else ap_last_verified_height app < saturating_add (ap_recovered_height app) CATCH_UP_THRESHOLD)"

definition advance_verified :: "u64 \<Rightarrow> ('w, 'ad, 'sd, 'cd) RevmApplication \<Rightarrow>
    ('w, 'ad, 'sd, 'cd) RevmApplication" where
  "advance_verified height app =
     app\<lparr>ap_last_verified_height := max (ap_last_verified_height app) height,
         ap_node_state := map_option (set_last_verified_height height) (ap_node_state app)\<rparr>"

text \<open>What every failing check after the timestamps ends with.\<close>

definition trust_or_reject :: "externs \<Rightarrow> Block \<Rightarrow> ('w, 'ad, 'sd, 'cd) RevmApplication \<Rightarrow>
    ('w, 'ad, 'sd, 'cd) RevmApplication \<times> bool" where
  "trust_or_reject X block app =
     (if is_catching_up app (blk_height block)
      then (on_view (restore_persisted_snapshot X block) app, True) else (app, False))"

definition timestamp_valid :: "Block \<Rightarrow> u64 option \<Rightarrow> u64 \<Rightarrow> bool" where
  "timestamp_valid block parent_timestamp now_secs \<longleftrightarrow>
     \<not> (case parent_timestamp of None \<Rightarrow> False | Some parent_ts \<Rightarrow> blk_timestamp block < parent_ts) \<and>
     \<not> blk_timestamp block > saturating_add now_secs MAX_FUTURE_TIMESTAMP_DRIFT"

definition verify_block :: "externs \<Rightarrow> ('w, 'ad, 'sd, 'cd) QmdbState OverlayState block_executor \<Rightarrow>
    ('w, 'ad, 'sd, 'cd) RevmApplication \<Rightarrow> Block \<Rightarrow> u64 option \<Rightarrow> u64 \<Rightarrow>
    (('w, 'ad, 'sd, 'cd) RevmApplication \<times> bool) option" where
  "verify_block X E app block parent_timestamp now_secs =
     (let digest = block_commitment X block; parent_digest = block_parent_digest X block
      in if query_state_root digest (ap_view app) \<noteq> None
         then Some (advance_verified (blk_height block) app, True)
         else if \<not> is_catching_up app (blk_height block) \<and> \<not> timestamp_valid block parent_timestamp now_secs
         then Some (app, False)
         else case parent_snapshot parent_digest (ap_view app) of
                None \<Rightarrow> Some (trust_or_reject X block app)
              | Some snap \<Rightarrow>
                  (case app_block_context app (blk_height block) (blk_timestamp block) (blk_prevrandao block)
                          parent_digest of
                     None \<Rightarrow> None
                   | Some context \<Rightarrow>
                       (case block_execution X E (overlay_at (ap_view app) (sn_state snap)) context (blk_txs block) of
                          Inl _ \<Rightarrow> Some (trust_or_reject X block app)
                        | Inr outcome \<Rightarrow>
                            (case compute_root_from_store X parent_digest (eo_changes outcome) (ap_view app) of
                               Inl _ \<Rightarrow> Some (trust_or_reject X block app)
                             | Inr state_root \<Rightarrow>
                                 if state_root \<noteq> blk_state_root block then Some (trust_or_reject X block app)
                                 else let app1 = record_block_fees digest (eo_gas_used outcome)
                                            (context_base_fee context) app;
                                          next_state = overlay_new ()
                                            (overlay_merge_changes (sn_state snap) (eo_changes outcome));
                                          app2 = on_view (insert_snapshot X digest parent_digest next_state state_root
                                            (eo_changes outcome) (blk_txs block)) app1
                                      in Some (advance_verified (blk_height block) app2, True)))))"

text \<open>The walk over the ancestry, tip first, up to the first known block.\<close>

fun collect_unverified :: "externs \<Rightarrow> ('w, 'ad, 'sd, 'cd) LedgerView \<Rightarrow> Block list \<Rightarrow> Block list \<times> u64 option" where
  "collect_unverified X v [] = ([], None)"
| "collect_unverified X v (block # ancestry) =
     (if query_state_root (block_commitment X block) v \<noteq> None then ([], Some (blk_timestamp block))
      else case collect_unverified X v ancestry of (blocks, ts) \<Rightarrow> (block # blocks, ts))"

fun verify_chain :: "externs \<Rightarrow> ('w, 'ad, 'sd, 'cd) QmdbState OverlayState block_executor \<Rightarrow> u64 \<Rightarrow> u64 option \<Rightarrow>
    Block list \<Rightarrow> ('w, 'ad, 'sd, 'cd) RevmApplication \<Rightarrow> (('w, 'ad, 'sd, 'cd) RevmApplication \<times> bool) option" where
  "verify_chain X E now_secs parent_ts [] app = Some (app, True)"
| "verify_chain X E now_secs parent_ts (block # blocks) app =
     (case verify_block X E app block parent_ts now_secs of
        None \<Rightarrow> None
      | Some (app1, False) \<Rightarrow> Some (app1, False)
      | Some (app1, True) \<Rightarrow> verify_chain X E now_secs (Some (blk_timestamp block)) blocks app1)"

definition verify :: "externs \<Rightarrow> ('w, 'ad, 'sd, 'cd) QmdbState OverlayState block_executor \<Rightarrow> u64 \<Rightarrow> Block list \<Rightarrow>
    ('w, 'ad, 'sd, 'cd) RevmApplication \<Rightarrow> (('w, 'ad, 'sd, 'cd) RevmApplication \<times> bool) option" where
  "verify X E now_secs ancestry app =
     (case collect_unverified X (ap_view app) ancestry of
        (blocks_to_verify, verified_parent_timestamp) \<Rightarrow>
          if blocks_to_verify = [] then Some (app, True)
          else verify_chain X E now_secs verified_parent_timestamp (rev blocks_to_verify) app)"

end
