(* ===== verification/Application_Sample.thy ===== *)
theory Application_Sample
  imports Application
begin

text \<open>
  A node at genesis over an empty disk, for the instances of the properties: block identifiers
  are heights, the EVM is the sample one.
\<close>

definition height_externs :: externs where
  "height_externs = sample_externs\<lparr>ex_keccak256 := \<lambda>bs. from_be_bytes (take 8 (drop 32 bs)), ex_sha256 := from_be_bytes\<rparr>"

definition sample_root :: StateRoot where
  "sample_root = root_compute height_externs 0 0 0"

definition empty_disk :: sample_disk where
  "empty_disk = (Map.empty, Map.empty, Map.empty)"

definition genesis_view :: "(sample_disk, bytes \<Rightarrow> bytes option, bytes \<Rightarrow> u256 option, bytes \<Rightarrow> bytes option) LedgerView" where
  "genesis_view =
     \<lparr>lv_mempool = pool_new pool_config_new,
      lv_snapshots = mark_persisted [0] (ss_insert 0 (snapshot_new None fresh_overlay sample_root changes_new [])
        snapshot_store_new),
      lv_head = 0, lv_seeds = seed_tracker_new 0,
      lv_qmdb = \<lparr>ql_handle = with_root_provider (empty_disk, []) (from_store (set_commit_seq 0
        (qmdb_new (Some Map.empty) (Some Map.empty) (Some Map.empty))))\<rparr>,
      lv_genesis_block = genesis_block_of sample_root 0\<rparr>"

definition genesis_app ::
    "(sample_disk, bytes \<Rightarrow> bytes option, bytes \<Rightarrow> u256 option, bytes \<Rightarrow> bytes option) RevmApplication" where
  "genesis_app = application_new height_externs (service_new genesis_view) 10 30000000 9"

definition sample_executor ::
    "(sample_disk, bytes \<Rightarrow> bytes option, bytes \<Rightarrow> u256 option, bytes \<Rightarrow> bytes option) QmdbState OverlayState block_executor" where
  "sample_executor = revm_block_executor (\<lambda>_. []) height_externs sample_evm (execution_config_new 1) sample_backend"

definition sample_genesis :: Block where
  "sample_genesis = genesis_block_of sample_root 0"

definition sample_child :: Block where
  "sample_child = block_new 0 1 0 0 sample_root []"

lemma be_bytes_small:
  "(from_be_bytes (to_be_bytes 8 (0 :: u64)) :: b256) = 0" "(from_be_bytes (to_be_bytes 8 (1 :: u64)) :: b256) = 1"
  by (simp_all add: from_be_bytes_def to_be_bytes_def upt_rec)

lemma height_block_id:
  "fst (block_id height_externs (block_new p h ts pr root txs)) = from_be_bytes (to_be_bytes 8 h)"
  by (simp add: block_id_def block_new_def write_block_def height_externs_def sample_externs_def write_b256_def Let_def)

lemma height_commitment:
  "block_commitment height_externs (block_new p h ts pr root txs) = from_be_bytes (to_be_bytes 8 h)"
  by (simp add: block_commitment_def digest_for_block_id_def height_block_id)
    (simp add: height_externs_def from_to_be_bytes)

lemma sample_commitments [simp]:
  "block_commitment height_externs sample_genesis = 0" "block_commitment height_externs sample_child = 1"
  "block_parent_digest height_externs sample_child = 0" "fst (block_id height_externs sample_genesis) = 0"
  by (simp_all add: sample_genesis_def sample_child_def genesis_block_of_def height_commitment be_bytes_small
      height_block_id)
    (simp add: block_parent_digest_def digest_for_block_id_def block_new_def height_externs_def from_to_be_bytes)

lemma sample_init:
  "init_with_config_and_genesis_options sh height_externs sample_backend empty_disk [] [] False 0 = Inr genesis_view"
proof -
  have root: "ledger_root sh height_externs sample_backend
      \<lparr>ql_handle = with_root_provider (empty_disk, []) (from_store (set_commit_seq 0
        (qmdb_new (Some Map.empty) (Some Map.empty) (Some Map.empty))))\<rparr> = Inr sample_root"
    by (simp add: ledger_root_def qh_state_root_def with_root_provider_def from_store_def commonware_root_provider_def
        provider_state_root_def open_stores_def sample_backend_def empty_disk_def state_root_from_stores_def
        partition_root_def slot_get_def map_db_def state_root_from_roots_def sample_root_def)
  have "init_with_genesis sh height_externs sample_backend empty_disk [] [] False =
      Inr \<lparr>ql_handle = with_root_provider (empty_disk, []) (from_store (set_commit_seq 0
        (qmdb_new (Some Map.empty) (Some Map.empty) (Some Map.empty))))\<rparr>"
    by (simp add: init_with_genesis_def open_stores_def sample_backend_def empty_disk_def
        verify_partition_consistency_def backend_read_seqs_def partition_get_def slot_get_def map_db_def
        inconsistency_message_def is_consistent_def Let_def)
  then show ?thesis using root
    by (simp add: init_with_config_and_genesis_options_def Let_def genesis_view_def sample_commitments [unfolded sample_genesis_def])
       (simp add: genesis_block_of_def block_new_def)
qed

end
