(* ===== verification/Application_Properties.thy ===== *)
theory Application_Properties
  imports Application_Sample
begin

text \<open>
  Properties of the application: which blocks it accepts, that proposals of one node are accepted
  by the others, and how the state roots of the blocks it holds are linked by their changes.
\<close>

section \<open>Acceptance\<close>

lemma on_view_simps [simp]:
  "ap_view (on_view f app) = f (ap_view app)" "ap_gas_limit (on_view f app) = ap_gas_limit app"
  "ap_recovered_height (on_view f app) = ap_recovered_height app"
  "ap_last_verified_height (on_view f app) = ap_last_verified_height app"
  "ap_block_fees (on_view f app) = ap_block_fees app"
  by (simp_all add: on_view_def)

lemma app_bookkeeping_simps [simp]:
  "ap_ledger (advance_verified h app) = ap_ledger app"
  "ap_ledger (record_block_fees d g f app) = ap_ledger app"
  "ap_gas_limit (advance_verified h app) = ap_gas_limit app"
  "ap_gas_limit (record_block_fees d g f app) = ap_gas_limit app"
  "ap_recovered_height (advance_verified h app) = ap_recovered_height app"
  "ap_recovered_height (record_block_fees d g f app) = ap_recovered_height app"
  by (simp_all add: advance_verified_def record_block_fees_def)

lemma calculate_base_fee_total: "2 \<le> gas_limit \<Longrightarrow> \<exists>fee. calculate_base_fee f g gas_limit default_base_fee_params = Some fee"
proof -
  assume "2 \<le> gas_limit"
  then have "2 \<le> unat gas_limit" by (simp add: word_le_nat_alt)
  then have "unat (gas_limit div 2) \<noteq> 0" by (simp add: unat_div)
  then have "gas_limit div 2 \<noteq> 0" by (simp add: unat_eq_zero)
  then show ?thesis
    by (auto simp: calculate_base_fee_def default_base_fee_params_def base_fee_change_def Let_def split: option.split)
qed

lemma compute_base_fee_total: "2 \<le> ap_gas_limit app \<Longrightarrow> \<exists>fee. compute_base_fee app d = Some fee"
  by (auto simp: compute_base_fee_def calculate_base_fee_total split: option.split)

lemma app_block_context_total:
  "2 \<le> ap_gas_limit app \<Longrightarrow> \<exists>context. app_block_context app h ts pr d = Some context"
  using compute_base_fee_total [of app d] by (auto simp: app_block_context_def)

text \<open>A block whose re-execution on the parent's snapshot gives the root it announces.\<close>

definition executes_to :: "externs \<Rightarrow> ('w, 'ad, 'sd, 'cd) QmdbState OverlayState block_executor \<Rightarrow>
    ('w, 'ad, 'sd, 'cd) RevmApplication \<Rightarrow> Block \<Rightarrow> LedgerSnapshot \<Rightarrow> BlockContext \<Rightarrow> ExecutionOutcome \<Rightarrow> bool" where
  "executes_to X E app block snap context outcome \<longleftrightarrow>
     parent_snapshot (block_parent_digest X block) (ap_view app) = Some snap \<and>
     app_block_context app (blk_height block) (blk_timestamp block) (blk_prevrandao block)
       (block_parent_digest X block) = Some context \<and>
     block_execution X E (overlay_at (ap_view app) (sn_state snap)) context (blk_txs block) = Inr outcome \<and>
     root_transition X (sn_state_root snap) (eo_changes outcome) = blk_state_root block"

definition known :: "externs \<Rightarrow> Block \<Rightarrow> ('w, 'ad, 'sd, 'cd) RevmApplication \<Rightarrow> bool" where
  "known X block app \<longleftrightarrow> query_state_root (block_commitment X block) (ap_view app) \<noteq> None"

text \<open>The state a fully verified block leaves.\<close>

definition verified_state :: "externs \<Rightarrow> Block \<Rightarrow> LedgerSnapshot \<Rightarrow> BlockContext \<Rightarrow> ExecutionOutcome \<Rightarrow>
    ('w, 'ad, 'sd, 'cd) RevmApplication \<Rightarrow> ('w, 'ad, 'sd, 'cd) RevmApplication" where
  "verified_state X block snap context outcome app =
     advance_verified (blk_height block)
       (on_view (insert_snapshot X (block_commitment X block) (block_parent_digest X block)
           (overlay_new () (overlay_merge_changes (sn_state snap) (eo_changes outcome))) (blk_state_root block)
           (eo_changes outcome) (blk_txs block))
         (record_block_fees (block_commitment X block) (eo_gas_used outcome) (context_base_fee context) app))"

lemma verify_block_known:
  "known X block app \<Longrightarrow> verify_block X E app block pts now = Some (advance_verified (blk_height block) app, True)"
  by (simp add: verify_block_def known_def Let_def)

lemma verify_block_executed:
  assumes "\<not> known X block app" and "is_catching_up app (blk_height block) \<or> timestamp_valid block pts now"
    and "executes_to X E app block snap context outcome"
  shows "verify_block X E app block pts now = Some (verified_state X block snap context outcome app, True)"
  using assms
  by (auto simp: verify_block_def known_def Let_def executes_to_def compute_root_from_store_def parent_snapshot_def
      verified_state_def)

lemma verify_block_failed:
  assumes "\<not> known X block app" and "2 \<le> ap_gas_limit app"
    and "\<nexists>snap context outcome. executes_to X E app block snap context outcome"
  shows "verify_block X E app block pts now = Some (trust_or_reject X block app)"
proof -
  obtain ctx where ctx: "app_block_context app (blk_height block) (blk_timestamp block) (blk_prevrandao block)
      (block_parent_digest X block) = Some ctx"
    using app_block_context_total [OF assms(2)] by blast
  show ?thesis
    using assms(1,3) ctx
    by (auto simp: verify_block_def known_def Let_def executes_to_def compute_root_from_store_def parent_snapshot_def
        trust_or_reject_def split: option.split sum.split)
qed

lemma verify_block_untimely:
  assumes "\<not> known X block app" and "\<not> is_catching_up app (blk_height block)" and "\<not> timestamp_valid block pts now"
  shows "verify_block X E app block pts now = Some (app, False)"
  using assms by (simp add: verify_block_def known_def Let_def)

lemma known_verified [simp]: "known X block (verified_state X block snap context outcome app)"
  by (simp add: known_def verified_state_def query_state_root_def insert_snapshot_def)

lemma known_restored [simp]: "known X block (on_view (restore_persisted_snapshot X block) app)"
  by (simp add: known_def query_state_root_def restore_persisted_snapshot_def Let_def)

text \<open>
  C4: with a gas limit of at least 2 verification always answers. It accepts exactly the blocks
  it already holds, every block above the recovered height while the node is catching up, and otherwise
  the blocks with a valid timestamp whose execution on the parent's snapshot gives the announced
  root. An accepted block is held afterwards, a rejected one changes nothing, and neither touches storage
  or the pool.
\<close>

theorem verify_block_decision:
  assumes "2 \<le> ap_gas_limit app"
  shows "\<exists>app' accepted. verify_block X E app block pts now = Some (app', accepted) \<and>
    (accepted \<longleftrightarrow> known X block app \<or> is_catching_up app (blk_height block) \<or>
       timestamp_valid block pts now \<and> (\<exists>snap context outcome. executes_to X E app block snap context outcome)) \<and>
    (if accepted then known X block app' else app' = app) \<and>
    lv_qmdb (ap_view app') = lv_qmdb (ap_view app) \<and> lv_mempool (ap_view app') = lv_mempool (ap_view app)"
proof (cases "known X block app")
  case True
  then show ?thesis by (auto simp: verify_block_known known_def)
next
  case new: False
  let ?cu = "is_catching_up app (blk_height block)"
  show ?thesis
  proof (cases "\<exists>snap context outcome. executes_to X E app block snap context outcome")
    case True
    then obtain snap ctx outcome where ex: "executes_to X E app block snap ctx outcome" by blast
    show ?thesis
    proof (cases "?cu \<or> timestamp_valid block pts now")
      case c: True
      have "lv_qmdb (ap_view (verified_state X block snap ctx outcome app)) = lv_qmdb (ap_view app)"
        "lv_mempool (ap_view (verified_state X block snap ctx outcome app)) = lv_mempool (ap_view app)"
        by (simp_all add: verified_state_def insert_snapshot_def)
      then show ?thesis using verify_block_executed [OF new c ex] c True by auto
    next
      case False
      then show ?thesis using verify_block_untimely [OF new] new by auto
    qed
  next
    case False
    from verify_block_failed [OF new assms False]
    show ?thesis using new False by (auto simp: trust_or_reject_def restore_persisted_snapshot_def Let_def)
  qed
qed

definition genesis_snapshot :: LedgerSnapshot where
  "genesis_snapshot = snapshot_new None fresh_overlay sample_root changes_new []"

lemma genesis_app_simps [simp]:
  "ap_gas_limit genesis_app = 30000000" "ap_recovered_height genesis_app = 0" "svc_view (service_new v) = v"
  "ap_ledger genesis_app = service_new genesis_view" "ap_node_state genesis_app = None"
  by (simp_all add: genesis_app_def application_new_def service_new_def)

lemma genesis_view_get [simp]:
  "ss_get (lv_snapshots genesis_view) d = (if d = 0 then Some genesis_snapshot else None)"
  by (simp add: genesis_view_def genesis_snapshot_def) (simp add: ss_get_def snapshot_store_new_def with_max_persisted_retained_def)

lemma sample_child_simps [simp]:
  "blk_parent sample_child = 0" "blk_height sample_child = 1" "blk_timestamp sample_child = 0"
  "blk_prevrandao sample_child = 0" "blk_state_root sample_child = sample_root" "blk_txs sample_child = []"
  by (simp_all add: sample_child_def block_new_def)

lemma sample_executor_empty:
  "\<exists>outcome. sample_executor s context [] = Inr (Inr outcome) \<and> eo_changes outcome = changes_new"
  by (simp add: sample_executor_def revm_block_executor_def execute_def pre_execute_def post_execute_def execute_txs_def
      overlay_db_def Let_def outcome_new_def changes_merge_def changes_new_def)

lemma root_transition_empty [simp]: "root_transition X r changes_new = r"
  by (simp add: root_transition_def changes_is_empty_def changes_new_def)

lemma sample_executes:
  "\<exists>context outcome. executes_to height_externs sample_executor genesis_app sample_child genesis_snapshot context outcome \<and>
     eo_changes outcome = changes_new"
proof -
  obtain ctx where ctx: "app_block_context genesis_app 1 0 0 0 = Some ctx"
    using app_block_context_total [of genesis_app 1 0 0 0] by auto
  obtain outcome where "sample_executor (overlay_at genesis_view (sn_state genesis_snapshot)) ctx [] = Inr (Inr outcome)"
    "eo_changes outcome = changes_new" using sample_executor_empty by blast
  then have "executes_to height_externs sample_executor genesis_app sample_child genesis_snapshot ctx outcome"
    using ctx by (simp add: executes_to_def parent_snapshot_def block_execution_def genesis_snapshot_def snapshot_new_def)
  then show ?thesis using \<open>eo_changes outcome = changes_new\<close> by blast
qed

theorem verify_block_decision_witness:
  "\<exists>app'. verify_block height_externs sample_executor genesis_app sample_child (Some 0) 0 = Some (app', True) \<and>
     known height_externs sample_child app' \<and> lv_qmdb (ap_view app') = lv_qmdb genesis_view"
proof -
  have t: "timestamp_valid sample_child (Some 0) 0" by (simp add: timestamp_valid_def)
  have "(2 :: u64) \<le> ap_gas_limit genesis_app" by simp
  from verify_block_decision [OF this, of height_externs sample_executor sample_child "Some 0" 0] obtain app' accepted
    where v: "verify_block height_externs sample_executor genesis_app sample_child (Some 0) 0 = Some (app', accepted)"
      "accepted \<longleftrightarrow> known height_externs sample_child genesis_app \<or> is_catching_up genesis_app 1 \<or>
        (\<exists>snap context outcome. executes_to height_externs sample_executor genesis_app sample_child snap context outcome)"
      "if accepted then known height_externs sample_child app' else app' = genesis_app"
      "lv_qmdb (ap_view app') = lv_qmdb genesis_view"
    using t by auto
  have accepted using v(2) sample_executes by blast
  then show ?thesis using v by simp
qed

section \<open>Honest proposals\<close>

lemma state_adapter_cong:
  assumes "\<And>a. same_reads D s D t a" and "sd_code D s = sd_code D t"
  shows "state_adapter X D s hashes = state_adapter X D t hashes"
proof -
  have eq: "sd_nonce D s = sd_nonce D t" "sd_balance D s = sd_balance D t"
    "sd_code_hash D s = sd_code_hash D t" "sd_storage D s = sd_storage D t"
    using assms(1) by (auto simp: same_reads_def intro!: ext)
  have "adapter_basic_ref D s = adapter_basic_ref D t" "adapter_storage_ref D s = adapter_storage_ref D t"
    unfolding adapter_basic_ref_def [abs_def] read_account_def adapter_storage_ref_def [abs_def] eq by (rule refl)+
  then show ?thesis
    using assms(2) by (simp add: state_adapter_def adapter_code_by_hash_ref_def fun_eq_iff)
qed

lemma revm_block_executor_cong:
  fixes B :: "('w, 'ad, 'am, 'sd, 'sm, 'cd, 'cm) backend_dbs"
  assumes "\<And>a. same_reads (overlay_db (ledger_db sh X B)) s (overlay_db (ledger_db sh X B)) t a"
    and "sd_code (overlay_db (ledger_db sh X B)) s = sd_code (overlay_db (ledger_db sh X B)) t"
  shows "revm_block_executor sh X V cfg B s = revm_block_executor sh X V cfg B t"
proof -
  have t: "sd_take_commit_failure (overlay_db (ledger_db sh X B)) u = (u, False)" for u
    by (simp add: overlay_db_def)
  show ?thesis
    using state_adapter_cong [OF assms, where X = X]
    by (simp add: fun_eq_iff revm_block_executor_def execute_def pre_execute_def post_execute_def Let_def t)
qed

text \<open>
  Two nodes agree on a parent block: same gas limit, fee recipient and fee entry, both hold the
  parent's snapshot, with the same root and the same reads.
\<close>

definition agree_on :: "externs \<Rightarrow> ('w, 'ad, 'sd, 'cd) QmdbState OverlayState state_db \<Rightarrow> Block \<Rightarrow>
    ('w, 'ad, 'sd, 'cd) RevmApplication \<Rightarrow> ('w, 'ad, 'sd, 'cd) RevmApplication \<Rightarrow> bool" where
  "agree_on X D parent app app2 \<longleftrightarrow>
     ap_gas_limit app2 = ap_gas_limit app \<and> ap_fee_recipient app2 = ap_fee_recipient app \<and>
     hm_get (ap_block_fees app2) (block_commitment X parent) = hm_get (ap_block_fees app) (block_commitment X parent) \<and>
     (\<exists>s s2. parent_snapshot (block_commitment X parent) (ap_view app) = Some s \<and>
        parent_snapshot (block_commitment X parent) (ap_view app2) = Some s2 \<and> sn_state_root s2 = sn_state_root s \<and>
        (\<forall>a. same_reads D (overlay_at (ap_view app2) (sn_state s2)) D (overlay_at (ap_view app) (sn_state s)) a) \<and>
        sd_code D (overlay_at (ap_view app2) (sn_state s2)) = sd_code D (overlay_at (ap_view app) (sn_state s)))"

lemma agree_on_context:
  assumes "agree_on X D parent app app2"
  shows "app_block_context app2 h ts pr (block_commitment X parent) = app_block_context app h ts pr (block_commitment X parent)"
proof -
  have eq: "ap_gas_limit app2 = ap_gas_limit app" "ap_fee_recipient app2 = ap_fee_recipient app"
    "hm_get (ap_block_fees app2) (block_commitment X parent) = hm_get (ap_block_fees app) (block_commitment X parent)"
    using assms by (simp_all add: agree_on_def)
  show ?thesis unfolding app_block_context_def compute_base_fee_def eq by (rule refl)
qed

lemma build_block_result:
  assumes "build_block X E [ap_view app] app parent ts = Some (app1, Some b)"
    and "parent_snapshot (block_commitment X parent) (ap_view app) = Some s"
  obtains ctx outcome where
    "app_block_context app (blk_height b) ts (blk_prevrandao b) (block_commitment X parent) = Some ctx"
    "E (overlay_at (ap_view app) (sn_state s)) ctx (map tx_bytes (blk_txs b)) = Inr (Inr outcome)"
    "root_transition X (sn_state_root s) (eo_changes outcome) = blk_state_root b"
    "blk_parent b = fst (block_id X parent)" "blk_timestamp b = ts"
  using assms
  by (auto simp: build_block_def Let_def proposal_components_def execute_proposal_def compute_root_from_store_def
      parent_snapshot_def block_new_def split: option.splits sum.splits)

lemma next_timestamp_max: "next_timestamp now t = Some (max now t)"
  by (auto simp: next_timestamp_def max_def)

lemma propose_result:
  assumes "propose X E looks now (parent # rest) app = Some (app1, Some b)"
  obtains app0 where "build_block X E looks app parent (max now (blk_timestamp parent)) = Some (app0, Some b)"
  using assms by (auto simp: propose_def next_timestamp_max split: if_splits option.splits)

text \<open>
  C11: what one honest node proposes, another accepts. A block proposed on a parent is accepted,
  and held, by every node that agrees on that parent and whose clock is at most the allowed drift behind.
\<close>

theorem honest_proposal_accepted:
  fixes B :: "('w, 'ad, 'am, 'sd, 'sm, 'cd, 'cm) backend_dbs"
  assumes "propose X (revm_block_executor sh X V cfg B) [ap_view app] now (parent # rest) app = Some (app1, Some b)"
    and "agree_on X (overlay_db (ledger_db sh X B)) parent app app2"
    and "max now (blk_timestamp parent) \<le> saturating_add now2 MAX_FUTURE_TIMESTAMP_DRIFT"
  shows "\<exists>app2'. verify X (revm_block_executor sh X V cfg B) now2 (b # parent # rest2) app2 = Some (app2', True) \<and>
    known X b app2'"
proof (cases "known X b app2")
  case True
  then show ?thesis by (simp add: verify_def known_def)
next
  case new: False
  let ?E = "revm_block_executor sh X V cfg B"
  obtain s s2 where snaps: "parent_snapshot (block_commitment X parent) (ap_view app) = Some s"
      "parent_snapshot (block_commitment X parent) (ap_view app2) = Some s2" "sn_state_root s2 = sn_state_root s"
    and reads: "\<And>a. same_reads (overlay_db (ledger_db sh X B)) (overlay_at (ap_view app2) (sn_state s2))
        (overlay_db (ledger_db sh X B)) (overlay_at (ap_view app) (sn_state s)) a"
      "sd_code (overlay_db (ledger_db sh X B)) (overlay_at (ap_view app2) (sn_state s2)) =
        sd_code (overlay_db (ledger_db sh X B)) (overlay_at (ap_view app) (sn_state s))"
    using assms(2) by (auto simp: agree_on_def)
  note exec = revm_block_executor_cong [OF reads, of V cfg]
  let ?ts = "max now (blk_timestamp parent)"
  obtain app0 where "build_block X ?E [ap_view app] app parent ?ts = Some (app0, Some b)"
    using propose_result [OF assms(1)] by blast
  from build_block_result [OF this snaps(1)] obtain ctx outcome where
    built: "app_block_context app (blk_height b) ?ts (blk_prevrandao b) (block_commitment X parent) = Some ctx"
      "?E (overlay_at (ap_view app) (sn_state s)) ctx (map tx_bytes (blk_txs b)) = Inr (Inr outcome)"
      "root_transition X (sn_state_root s) (eo_changes outcome) = blk_state_root b"
      "blk_parent b = fst (block_id X parent)" "blk_timestamp b = ?ts"
    by blast
  have pd: "block_parent_digest X b = block_commitment X parent"
    using built(4) by (simp add: block_parent_digest_def block_commitment_def)
  have "executes_to X ?E app2 b s2 ctx outcome"
    using snaps built agree_on_context [OF assms(2)]
    by (simp add: executes_to_def pd block_execution_def exec)
  moreover have "timestamp_valid b (Some (blk_timestamp parent)) now2"
    using assms(3) built(5) by (simp add: timestamp_valid_def not_less)
  ultimately have "verify_block X ?E app2 b (Some (blk_timestamp parent)) now2 =
      Some (verified_state X b s2 ctx outcome app2, True)"
    using verify_block_executed [OF new] by blast
  moreover have "collect_unverified X (ap_view app2) (b # parent # rest2) = ([b], Some (blk_timestamp parent))"
    using new snaps(2) by (simp add: known_def query_state_root_def parent_snapshot_def)
  ultimately show ?thesis by (simp add: verify_def del: collect_unverified.simps)
qed

lemma sample_propose:
  "\<exists>app1. propose height_externs sample_executor [genesis_view] 0 [sample_genesis] genesis_app =
     Some (app1, Some sample_child)"
proof -
  obtain ctx where ctx: "app_block_context genesis_app 1 0 0 0 = Some ctx"
    using app_block_context_total [of genesis_app 1 0 0 0] by auto
  obtain outcome where out: "sample_executor (overlay_at genesis_view (sn_state genesis_snapshot)) ctx [] = Inr (Inr outcome)"
    "eo_changes outcome = changes_new" using sample_executor_empty by blast
  have pers: "is_persisted (lv_snapshots genesis_view) 0" by (simp add: genesis_view_def is_persisted_def)
  have rand: "get_prevrandao genesis_app 0 = 0"
    by (simp add: get_prevrandao_def seed_for_parent_def genesis_view_def seed_get_def seed_tracker_new_def cmp_def)
  have pool: "build height_externs n excluded (lv_mempool genesis_view) = []" for n excluded
    by (simp add: genesis_view_def build_def build_senders_def pool_new_def inner_new_def build_loop.simps candidates_def)
  have g: "blk_height sample_genesis = 0" "blk_timestamp sample_genesis = 0"
    by (simp_all add: sample_genesis_def genesis_block_of_def block_new_def)
  have "app_collect_pending_tx_ids (lv_snapshots genesis_view) 0 = Some (Some [])"
    using pers by (simp add: app_collect_pending_tx_ids_def walk_chain.simps)
  then show ?thesis
    using ctx out pers
    by (simp add: propose_def lags_behind_def g next_timestamp_max build_block_def Let_def parent_snapshot_def
        proposal_components_def rand pool execute_proposal_def compute_root_from_store_def)
      (simp add: sample_child_def genesis_snapshot_def snapshot_new_def)
qed

theorem honest_proposal_accepted_witness:
  "\<exists>app2'. verify height_externs sample_executor 0 [sample_child, sample_genesis] genesis_app = Some (app2', True) \<and>
     known height_externs sample_child app2'"
proof -
  obtain app1 where p: "propose height_externs sample_executor [genesis_view] 0 [sample_genesis] genesis_app =
      Some (app1, Some sample_child)" using sample_propose by blast
  have a: "agree_on height_externs (overlay_db (ledger_db (\<lambda>_. []) height_externs sample_backend)) sample_genesis
      genesis_app genesis_app"
    by (simp add: agree_on_def parent_snapshot_def same_reads_def)
  have "max 0 (blk_timestamp sample_genesis) \<le> saturating_add 0 MAX_FUTURE_TIMESTAMP_DRIFT"
    by (simp add: sample_genesis_def genesis_block_of_def block_new_def)
  from honest_proposal_accepted [OF _ a this, of sample_evm "execution_config_new 1" "[]" app1 sample_child "[]"]
  show ?thesis using p by (simp add: sample_executor_def)
qed

section \<open>Linked roots\<close>

text \<open>
  The steps of a running node: verification and proposals of any blocks of a given universe, persistence
  of snapshots, and the operations that leave the snapshots alone.
\<close>

inductive app_step :: "externs \<Rightarrow> ('w, 'ad, 'sd, 'cd) QmdbState OverlayState block_executor \<Rightarrow>
    ('w, 'ad, 'am, 'sd, 'sm, 'cd, 'cm) backend_dbs \<Rightarrow> Block set \<Rightarrow> ('w, 'ad, 'sd, 'cd) RevmApplication \<Rightarrow>
    ('w, 'ad, 'sd, 'cd) RevmApplication \<Rightarrow> bool"
  for X E B U where
  verify: "verify X E now ancestry app = Some (app', accepted) \<Longrightarrow> set ancestry \<subseteq> U \<Longrightarrow> app_step X E B U app app'"
| propose: "propose X E looks now ancestry app = Some (app', block) \<Longrightarrow> app_step X E B U app app'"
| persist: "persist_snapshot X B d (ap_ledger app) = Some (svc, res) \<Longrightarrow> app_step X E B U app (app\<lparr>ap_ledger := svc\<rparr>)"
| seed: "app_step X E B U app (app\<lparr>ap_ledger := set_seed d seed_hash (ap_ledger app)\<rparr>)"
| submit: "app_step X E B U app (app\<lparr>ap_ledger := fst (submit_tx X now tx (ap_ledger app))\<rparr>)"
| prune: "app_step X E B U app (on_view (lv_prune_mempool X txs) app)"

text \<open>
  Every snapshot belongs to a block of the universe and has its root; an unpersisted one records the
  changes that lead there from the root of the parent block.
\<close>

definition block_snapshot :: "externs \<Rightarrow> Block set \<Rightarrow> ConsensusDigest \<Rightarrow> LedgerSnapshot \<Rightarrow> bool" where
  "block_snapshot X U d s \<longleftrightarrow>
     (\<exists>b \<in> U. block_commitment X b = d \<and> sn_state_root s = blk_state_root b \<and>
        (sn_parent s = None \<or> sn_parent s = Some (block_parent_digest X b)))"

definition linked_snapshot :: "externs \<Rightarrow> Block set \<Rightarrow> LedgerSnapshot \<Rightarrow> bool" where
  "linked_snapshot X U s \<longleftrightarrow>
     (\<exists>b \<in> U. sn_parent s = Some (block_commitment X b) \<and>
        sn_state_root s = root_transition X (blk_state_root b) (sn_changes s))"

definition roots_linked :: "externs \<Rightarrow> Block set \<Rightarrow> unit OverlayState InMemorySnapshotStore \<Rightarrow> bool" where
  "roots_linked X U ss \<longleftrightarrow> bt_wf (ss_snapshots ss) \<and>
     (\<forall>d s. ss_get ss d = Some s \<longrightarrow>
        block_snapshot X U d s \<and> (\<not> is_persisted ss d \<longrightarrow> linked_snapshot X U s))"

lemma roots_linked_insert:
  assumes "roots_linked X U ss" and "block_snapshot X U d s" and "is_persisted ss d \<or> linked_snapshot X U s"
  shows "roots_linked X U (ss_insert d s ss)"
proof -
  have "bt_wf (ss_snapshots (ss_insert d s ss))" using assms(1) by (auto simp: roots_linked_def ss_insert_def)
  then show ?thesis using assms by (auto simp: roots_linked_def is_persisted_def)
qed

lemma roots_linked_mark: "roots_linked X U ss \<Longrightarrow> roots_linked X U (mark_persisted ds ss)"
  by (auto simp: roots_linked_def is_persisted_def)

lemma roots_linked_marks [simp]:
  "roots_linked X U (mark_persisting_chain ds ss) = roots_linked X U ss"
  "roots_linked X U (clear_persisting_chain ds ss) = roots_linked X U ss"
  by (simp_all add: roots_linked_def is_persisted_def)

lemma evict_persisted_get:
  assumes "bt_wf (ss_snapshots ss)" and "ss_get (fst (evict_persisted ss)) d = Some s"
  shows "ss_get ss d = Some s"
proof -
  obtain S' o' k where e: "evict_loop (ss_max_persisted_retained ss) (ss_persisted ss) (ss_snapshots ss)
      (ss_persisted_order ss) 0 = (S', o', k)" by (metis prod_cases3)
  from evict_loop_spec [OF e assms(1)] obtain gone where
    "\<forall>d. bt_get S' d = (if d \<in> set gone \<and> d \<in> set (ss_persisted ss) then None else bt_get (ss_snapshots ss) d)"
    by blast
  then have "bt_get S' d \<in> {None, bt_get (ss_snapshots ss) d}" by simp
  then show ?thesis using assms(2) by (auto simp: evict_persisted_def e ss_get_def split: if_splits)
qed

lemma roots_linked_evict: "roots_linked X U ss \<Longrightarrow> roots_linked X U (fst (evict_persisted ss))"
  using evict_persisted_keeps(1,2) [of ss] evict_persisted_get [of ss]
  by (auto simp: roots_linked_def is_persisted_def)

lemma restored_snapshot:
  assumes "roots_linked X U (lv_snapshots v)" and "block \<in> U"
  shows "roots_linked X U (lv_snapshots (restore_persisted_snapshot X block v))"
proof -
  let ?d = "block_commitment X block"
  let ?s = "snapshot_new (Some (block_parent_digest X block)) fresh_overlay (blk_state_root block) changes_new
    (block_tx_ids X (blk_txs block))"
  have b: "block_snapshot X U ?d ?s" using assms(2) by (auto simp: block_snapshot_def snapshot_new_def)
  have "bt_wf (ss_snapshots (ss_insert ?d ?s (lv_snapshots v)))"
    using assms(1) by (auto simp: roots_linked_def ss_insert_def)
  then show ?thesis
    using assms(1) b
    by (auto simp: roots_linked_def is_persisted_def restore_persisted_snapshot_def Let_def)
qed

lemma verified_snapshot:
  assumes "roots_linked X U (lv_snapshots (ap_view app))" and "block \<in> U" and "executes_to X E app block snap context outcome"
  shows "roots_linked X U (lv_snapshots (ap_view (verified_state X block snap context outcome app)))"
proof -
  have snap: "ss_get (lv_snapshots (ap_view app)) (block_parent_digest X block) = Some snap"
    and root: "root_transition X (sn_state_root snap) (eo_changes outcome) = blk_state_root block"
    using assms(3) by (simp_all add: executes_to_def parent_snapshot_def)
  obtain b where b: "b \<in> U" "block_commitment X b = block_parent_digest X block" "sn_state_root snap = blk_state_root b"
    using assms(1) snap by (auto simp: roots_linked_def block_snapshot_def)
  have "linked_snapshot X U (snapshot_new (Some (block_parent_digest X block)) st (blk_state_root block)
      (eo_changes outcome) ids)" for st ids
    unfolding linked_snapshot_def using b root by (intro bexI [of _ b]) (simp_all add: snapshot_new_def)
  moreover have "block_snapshot X U (block_commitment X block) (snapshot_new (Some (block_parent_digest X block)) st
      (blk_state_root block) c ids)" for st c ids
    using assms(2) by (auto simp: block_snapshot_def snapshot_new_def)
  ultimately show ?thesis
    using assms(1) by (simp add: verified_state_def insert_snapshot_def roots_linked_insert)
qed

lemma verify_block_linked:
  assumes "verify_block X E app block pts now = Some (app', accepted)" and "block \<in> U"
    and "roots_linked X U (lv_snapshots (ap_view app))"
  shows "roots_linked X U (lv_snapshots (ap_view app'))"
proof -
  have keep: "app' = app \<or> app' = advance_verified (blk_height block) app \<or>
      app' = on_view (restore_persisted_snapshot X block) app \<or>
      (\<exists>snap ctx outcome. executes_to X E app block snap ctx outcome \<and> app' = verified_state X block snap ctx outcome app)"
    using assms(1)
    by (auto simp: verify_block_def Let_def trust_or_reject_def executes_to_def verified_state_def
        compute_root_from_store_def parent_snapshot_def split: if_splits option.splits sum.splits)
  then show ?thesis
    using assms(2,3) by (auto intro: restored_snapshot verified_snapshot)
qed

lemma verify_chain_linked:
  "verify_chain X E now pts blocks app = Some (app', accepted) \<Longrightarrow> set blocks \<subseteq> U \<Longrightarrow>
     roots_linked X U (lv_snapshots (ap_view app)) \<Longrightarrow> roots_linked X U (lv_snapshots (ap_view app'))"
proof (induction blocks arbitrary: app pts)
  case (Cons block blocks)
  obtain app1 ok where v: "verify_block X E app block pts now = Some (app1, ok)"
    using Cons(2) by (auto split: option.splits)
  then have "roots_linked X U (lv_snapshots (ap_view app1))" using verify_block_linked Cons(3,4) by fastforce
  then show ?case using Cons v by (cases ok) auto
qed simp

lemma collect_unverified_subset: "set (fst (collect_unverified X v ancestry)) \<subseteq> set ancestry"
  by (induction ancestry) (auto split: prod.split)

lemma propose_ledger: "propose X E looks now ancestry app = Some (app', block) \<Longrightarrow> ap_ledger app' = ap_ledger app"
  by (auto simp: propose_def build_block_def execute_proposal_def Let_def
      split: list.splits if_splits option.splits prod.splits sum.splits)

lemma compact_chain_linked:
  "compact_chain chain ss = (ss', res) \<Longrightarrow> ss_get ss' d = Some s' \<Longrightarrow>
     \<exists>s. ss_get ss d = Some s \<and> sn_parent s' = sn_parent s \<and> sn_state_root s' = sn_state_root s \<and>
       (d \<notin> set chain \<longrightarrow> s' = s)"
proof (induction chain ss rule: compact_chain.induct)
  case (2 digest chain ss)
  show ?case
  proof (cases "ss_get ss digest")
    case (Some t)
    let ?ss = "ss_insert digest (snapshot_new (sn_parent t) fresh_overlay (sn_state_root t) changes_new (sn_tx_ids t)) ss"
    have "compact_chain chain ?ss = (ss', res)" using 2(2) Some by simp
    from 2(1) [OF Some this 2(3)] show ?thesis using Some by (auto simp: snapshot_new_def split: if_splits)
  qed (use 2 in auto)
qed auto

lemma persist_linked:
  assumes "lv_persist_snapshot X B d v = Some (v', res)" and "roots_linked X U (lv_snapshots v)"
  shows "roots_linked X U (lv_snapshots v')"
proof -
  from assms(1) obtain v1 r where b: "persist_begin d v = Some (v1, r)"
    by (auto simp: lv_persist_snapshot_def split: option.splits)
  show ?thesis
  proof (cases "\<exists>chain changes. r = Inr (Some (chain, changes))")
    case False
    then have "v' = v" using assms(1) b
      by (auto simp: lv_persist_snapshot_def persist_begin_def split: option.splits sum.splits if_splits)
    then show ?thesis using assms(2) by simp
  next
    case True
    then obtain chain changes where r: "r = Inr (Some (chain, changes))" by blast
    note started = persist_begin_cases [OF b [unfolded r]]
    obtain qmdb result where com: "ledger_commit_changes X B changes (lv_qmdb v1) = (qmdb, result)" by fastforce
    let ?v2 = "v1\<lparr>lv_qmdb := qmdb\<rparr>"
    obtain out where fin: "persist_finish chain result ?v2 = (v', out)"
      using assms(1) b r com by (auto simp: lv_persist_snapshot_def split: prod.splits sum.splits)
    have l1: "roots_linked X U (lv_snapshots v1)" using started(1) assms(2) by simp
    show ?thesis
    proof (cases result)
      case (Inl e)
      then show ?thesis using fin l1 by (auto simp: persist_finish_def Let_def)
    next
      case (Inr root)
      let ?ss = "clear_persisting_chain chain (lv_snapshots v1)"
      obtain ss1 res1 where c: "compact_chain chain ?ss = (ss1, res1)" by fastforce
      have wf: "bt_wf (ss_snapshots ?ss)" using l1 by (simp add: roots_linked_def)
      have s: "bt_wf (ss_snapshots ss1)" "ss_persisted ss1 = ss_persisted (lv_snapshots v1)" "res1 = Inr ()"
        using compact_chain_spec [OF c wf] started(1,3) by simp_all
      let ?ss2 = "mark_persisted chain ss1"
      have v': "lv_snapshots v' = fst (evict_persisted ?ss2)"
        using fin Inr c s(3) by (auto simp: persist_finish_def Let_def)
      have "roots_linked X U ?ss2"
        using l1 s(1,2) compact_chain_linked [OF c]
        by (fastforce simp: roots_linked_def is_persisted_def block_snapshot_def)
      then show ?thesis unfolding v' by (rule roots_linked_evict)
    qed
  qed
qed

lemma app_step_linked:
  "app_step X E B U app app' \<Longrightarrow> roots_linked X U (lv_snapshots (ap_view app)) \<Longrightarrow>
     roots_linked X U (lv_snapshots (ap_view app'))"
proof (induction rule: app_step.induct)
  case (verify now ancestry app app' accepted)
  obtain blocks ts where c: "collect_unverified X (ap_view app) ancestry = (blocks, ts)" by fastforce
  then have "set (rev blocks) \<subseteq> U" using collect_unverified_subset [of X "ap_view app" ancestry] verify(2) by auto
  then show ?case using verify(1,3) c verify_chain_linked by (fastforce simp: verify_def split: if_splits)
next
  case (persist d app svc res)
  then obtain v' r where p: "lv_persist_snapshot X B d (ap_view app) = Some (v', r)" and "svc_view svc = v'"
    by (auto simp: persist_snapshot_def service_publish_def Let_def split: option.splits sum.splits)
  then show ?case using persist_linked [OF p persist(2)] by simp
next
  case (submit app now tx)
  then show ?case
    by (auto simp: submit_tx_def lv_submit_tx_def service_publish_def Let_def split: prod.splits)
qed (simp_all add: propose_ledger set_seed_def lv_set_seed_def service_publish_def lv_prune_mempool_def)

lemma init_linked:
  assumes "init_with_config_and_genesis_options sh X B w config alloc apply_genesis ts = Inr v" and "lv_genesis_block v \<in> U"
  shows "roots_linked X U (lv_snapshots v)"
proof -
  obtain root where v: "lv_snapshots v = mark_persisted [block_commitment X (genesis_block_of root ts)]
      (ss_insert (block_commitment X (genesis_block_of root ts))
        (snapshot_new None fresh_overlay root changes_new []) snapshot_store_new)"
    and g: "lv_genesis_block v = genesis_block_of root ts"
    using assms(1)
    by (auto simp: init_with_config_and_genesis_options_def Let_def genesis_block_of_def block_new_def split: sum.splits)
  have "block_snapshot X U (block_commitment X (genesis_block_of root ts))
      (snapshot_new None fresh_overlay root changes_new [])"
    using assms(2) g by (auto simp: block_snapshot_def snapshot_new_def genesis_block_of_def block_new_def)
  then show ?thesis
    by (auto simp: v roots_linked_def is_persisted_def ss_insert_def ss_get_def snapshot_store_new_def
        with_max_persisted_retained_def)
qed

lemma app_steps_linked:
  "(app_step X E B U)\<^sup>*\<^sup>* app app' \<Longrightarrow> roots_linked X U (lv_snapshots (ap_view app)) \<Longrightarrow>
     roots_linked X U (lv_snapshots (ap_view app'))"
  by (induction rule: rtranclp_induct) (auto intro: app_step_linked)

text \<open>The digests of the blocks of a universe tell their parents and roots apart.\<close>

definition digest_faithful :: "externs \<Rightarrow> Block set \<Rightarrow> bool" where
  "digest_faithful X U \<longleftrightarrow>
     (\<forall>b \<in> U. \<forall>b' \<in> U. block_commitment X b = block_commitment X b' \<longrightarrow>
        blk_parent b = blk_parent b' \<and> blk_state_root b = blk_state_root b')"

lemma linked_roots:
  assumes "roots_linked X U ss" and "digest_faithful X U" and "b \<in> U" and "p \<in> U"
    and "block_commitment X p = block_parent_digest X b" and "ss_get ss (block_commitment X b) = Some s"
    and "\<not> is_persisted ss (block_commitment X b)"
  shows "sn_state_root s = blk_state_root b \<and> blk_state_root b = root_transition X (blk_state_root p) (sn_changes s)"
proof -
  have bs: "block_snapshot X U (block_commitment X b) s" and ls: "linked_snapshot X U s"
    using assms(1,6,7) by (auto simp: roots_linked_def)
  from bs obtain b' where b': "b' \<in> U" "block_commitment X b' = block_commitment X b" "sn_state_root s = blk_state_root b'"
    "sn_parent s = None \<or> sn_parent s = Some (block_parent_digest X b')" by (auto simp: block_snapshot_def)
  then have eq: "blk_parent b' = blk_parent b" "blk_state_root b' = blk_state_root b"
    using assms(2,3) unfolding digest_faithful_def by blast+
  from ls obtain p' where p': "p' \<in> U" "sn_parent s = Some (block_commitment X p')"
    "sn_state_root s = root_transition X (blk_state_root p') (sn_changes s)" by (auto simp: linked_snapshot_def)
  then have "block_commitment X p' = block_commitment X p"
    using b'(4) assms(5) eq(1) by (simp add: block_parent_digest_def)
  then have "blk_state_root p' = blk_state_root p" using assms(2,4) p'(1) unfolding digest_faithful_def by blast
  then show ?thesis using p'(3) b'(3) eq(2) by simp
qed

text \<open>
  Whatever a node verifies, proposes, persists and submits from its start on, fresh or
  catching up, the changes it holds for an unpersisted block lead from the state root announced by
  the parent block to the root announced by the block.
\<close>

theorem unpersisted_roots_linked:
  assumes "init_with_config_and_genesis_options sh X B w config alloc apply_genesis ts = Inr v"
    and "ap_ledger app = service_new v" and "lv_genesis_block v \<in> U" and "digest_faithful X U"
    and "(app_step X E B U)\<^sup>*\<^sup>* app app'"
    and "b \<in> U" and "p \<in> U" and "block_commitment X p = block_parent_digest X b"
    and "ss_get (lv_snapshots (ap_view app')) (block_commitment X b) = Some s"
    and "\<not> is_persisted (lv_snapshots (ap_view app')) (block_commitment X b)"
  shows "sn_state_root s = blk_state_root b \<and> blk_state_root b = root_transition X (blk_state_root p) (sn_changes s)"
proof -
  have "roots_linked X U (lv_snapshots (ap_view app'))"
    using app_steps_linked [OF assms(5)] init_linked [OF assms(1,3)] assms(2) by (simp add: service_new_def)
  then show ?thesis by (rule linked_roots) (use assms in auto)
qed

theorem unpersisted_roots_linked_witness:
  "\<exists>app' s. (app_step height_externs sample_executor sample_backend {sample_genesis, sample_child})\<^sup>*\<^sup>* genesis_app app' \<and>
     ss_get (lv_snapshots (ap_view app')) 1 = Some s \<and> sn_state_root s = sample_root \<and>
     sample_root = root_transition height_externs (blk_state_root sample_genesis) (sn_changes s)"
proof -
  let ?U = "{sample_genesis, sample_child}"
  obtain ctx outcome where ex: "executes_to height_externs sample_executor genesis_app sample_child genesis_snapshot ctx outcome"
    using sample_executes by blast
  let ?app = "verified_state height_externs sample_child genesis_snapshot ctx outcome genesis_app"
  have new: "\<not> known height_externs sample_child genesis_app" by (simp add: known_def query_state_root_def)
  have "timestamp_valid sample_child (Some (blk_timestamp sample_genesis)) 0"
    by (simp add: timestamp_valid_def sample_genesis_def genesis_block_of_def block_new_def)
  then have vb: "verify_block height_externs sample_executor genesis_app sample_child (Some (blk_timestamp sample_genesis)) 0 =
      Some (?app, True)" using verify_block_executed [OF new _ ex] by blast
  have "verify height_externs sample_executor 0 [sample_child, sample_genesis] genesis_app = Some (?app, True)"
    using vb by (simp add: verify_def query_state_root_def)
  then have steps: "(app_step height_externs sample_executor sample_backend ?U)\<^sup>*\<^sup>* genesis_app ?app"
    by (intro r_into_rtranclp app_step.verify) auto
  have f: "digest_faithful height_externs ?U" by (auto simp: digest_faithful_def)
  have g: "lv_genesis_block genesis_view \<in> ?U" by (simp add: genesis_view_def sample_genesis_def)
  obtain s where s: "ss_get (lv_snapshots (ap_view ?app)) 1 = Some s"
    by (simp add: verified_state_def insert_snapshot_def)
  have "\<not> is_persisted (lv_snapshots (ap_view ?app)) (block_commitment height_externs sample_child)"
    by (simp add: verified_state_def insert_snapshot_def is_persisted_def genesis_view_def snapshot_store_new_def
        with_max_persisted_retained_def)
  from unpersisted_roots_linked [OF sample_init _ g f steps _ _ _ _ this, of sample_genesis s]
  show ?thesis using steps s by auto
qed

end
