(* ===== verification/Indexer.thy ===== *)
theory Indexer
  imports Kora_Prelude
begin

text \<open>
  The block index of \<open>crates/storage/indexer\<close>: blocks, transactions, receipts and logs by hash and
  number, log filters, the window of recent block hashes and the pruning of old blocks. The lemmas
  show that the index answers like the list of the retained blocks.
\<close>

section \<open>Types\<close>

type_synonym bloom = "2048 word"

record IndexedBlock =
  ib_hash :: b256
  ib_number :: u64
  ib_parent_hash :: b256
  ib_state_root :: b256
  ib_transactions_root :: b256
  ib_receipts_root :: b256
  ib_timestamp :: u64
  ib_gas_limit :: u64
  ib_gas_used :: u64
  ib_base_fee_per_gas :: "u64 option"
  ib_mix_hash :: b256
  ib_logs_bloom :: bloom
  ib_size :: u64
  ib_transaction_hashes :: "b256 list"

record IndexedTransaction =
  it_hash :: b256
  it_block_hash :: b256
  it_block_number :: u64
  it_index :: u64
  it_from :: address
  it_to :: "address option"
  it_value :: u256
  it_gas_limit :: u64
  it_gas_price :: u128
  it_tx_type :: u8
  it_chain_id :: "u64 option"
  it_max_fee_per_gas :: "u128 option"
  it_max_priority_fee_per_gas :: "u128 option"
  it_v :: u128
  it_r :: u256
  it_s :: u256
  it_input :: bytes
  it_nonce :: u64

record IndexedLog =
  il_address :: address
  il_topics :: "b256 list"
  il_data :: bytes
  il_log_index :: u64
  il_block_number :: u64
  il_block_hash :: b256
  il_transaction_hash :: b256
  il_transaction_index :: u64

record IndexedReceipt =
  ir_transaction_hash :: b256
  ir_block_hash :: b256
  ir_block_number :: u64
  ir_transaction_index :: u64
  ir_from :: address
  ir_to :: "address option"
  ir_cumulative_gas_used :: u64
  ir_gas_used :: u64
  ir_contract_address :: "address option"
  ir_logs :: "IndexedLog list"
  ir_logs_bloom :: bloom
  ir_tx_type :: u8
  ir_effective_gas_price :: u128
  ir_status :: bool

record IndexStats =
  is_block_count :: nat
  is_transaction_count :: nat
  is_receipt_count :: nat
  is_head_block_number :: u64

section \<open>Log filters\<close>

text \<open>\<open>topics\<close> has four positions.\<close>

record LogFilter =
  lf_from_block :: "u64 option"
  lf_to_block :: "u64 option"
  lf_address :: "address list option"
  lf_topics :: "b256 list option list"

definition log_filter_new :: LogFilter where
  "log_filter_new =
     \<lparr>lf_from_block = None, lf_to_block = None, lf_address = None, lf_topics = [None, None, None, None]\<rparr>"

definition filter_from_block :: "u64 \<Rightarrow> LogFilter \<Rightarrow> LogFilter" where
  "filter_from_block block f = f\<lparr>lf_from_block := Some block\<rparr>"

definition filter_to_block :: "u64 \<Rightarrow> LogFilter \<Rightarrow> LogFilter" where
  "filter_to_block block f = f\<lparr>lf_to_block := Some block\<rparr>"

definition filter_address :: "address list \<Rightarrow> LogFilter \<Rightarrow> LogFilter" where
  "filter_address addresses f = f\<lparr>lf_address := Some addresses\<rparr>"

definition filter_topic :: "nat \<Rightarrow> b256 list \<Rightarrow> LogFilter \<Rightarrow> LogFilter" where
  "filter_topic index topics f =
     (if index < 4 then f\<lparr>lf_topics := (lf_topics f)[index := Some topics]\<rparr> else f)"

text \<open>The loop over the topic positions; \<open>i\<close> is the position of the first filter of the list.\<close>

fun match_topics :: "IndexedLog \<Rightarrow> nat \<Rightarrow> b256 list option list \<Rightarrow> bool" where
  "match_topics log i [] = True"
| "match_topics log i (None # fs) = match_topics log (Suc i) fs"
| "match_topics log i (Some allowed # fs) =
     (if i < length (il_topics log) \<and> il_topics log ! i \<in> set allowed then match_topics log (Suc i) fs else False)"

definition matches_filter :: "IndexedLog \<Rightarrow> LogFilter \<Rightarrow> bool" where
  "matches_filter log f =
     (case lf_address f of
        Some addresses \<Rightarrow> if il_address log \<notin> set addresses then False else match_topics log 0 (lf_topics f)
      | None \<Rightarrow> match_topics log 0 (lf_topics f))"

section \<open>The index\<close>

record BlockIndex =
  bi_blocks_by_hash :: "(b256, IndexedBlock) hash_map"
  bi_blocks_by_number :: "(u64, b256) hash_map"
  bi_transactions :: "(b256, IndexedTransaction) hash_map"
  bi_receipts :: "(b256, IndexedReceipt) hash_map"
  bi_logs_by_block :: "(b256, IndexedLog list) hash_map"
  bi_head_block :: u64

definition MAX_RETAINED_BLOCKS :: u64 where
  "MAX_RETAINED_BLOCKS = 10000"

definition block_index_new :: BlockIndex where
  "block_index_new =
     \<lparr>bi_blocks_by_hash = [], bi_blocks_by_number = [], bi_transactions = [], bi_receipts = [],
      bi_logs_by_block = [], bi_head_block = 0\<rparr>"

definition insert_block :: "IndexedBlock \<Rightarrow> IndexedTransaction list \<Rightarrow> IndexedReceipt list \<Rightarrow> BlockIndex \<Rightarrow> BlockIndex" where
  "insert_block block txs receipts bi =
     (let block_hash = ib_hash block; block_number = ib_number block;
          all_logs = concat (map ir_logs receipts)
      in \<lparr>bi_blocks_by_hash = hm_insert block_hash block (bi_blocks_by_hash bi),
          bi_blocks_by_number = hm_insert block_number block_hash (bi_blocks_by_number bi),
          bi_transactions = fold (\<lambda>tx. hm_insert (it_hash tx) tx) txs (bi_transactions bi),
          bi_receipts = fold (\<lambda>receipt. hm_insert (ir_transaction_hash receipt) receipt) receipts (bi_receipts bi),
          bi_logs_by_block = hm_insert block_hash all_logs (bi_logs_by_block bi),
          bi_head_block = (if block_number > bi_head_block bi then block_number else bi_head_block bi)\<rparr>)"

definition prune_before :: "u64 \<Rightarrow> BlockIndex \<Rightarrow> BlockIndex" where
  "prune_before min_block_number bi =
     (let hashes_to_remove = filter (\<lambda>(num, _). num < min_block_number) (bi_blocks_by_number bi)
      in if hashes_to_remove = [] then bi
         else let tx_hashes = concat (map (\<lambda>(_, h). case hm_get (bi_blocks_by_hash bi) h of
                                None \<Rightarrow> [] | Some b \<Rightarrow> ib_transaction_hashes b) hashes_to_remove)
              in bi\<lparr>bi_blocks_by_number := fold hm_remove (map fst hashes_to_remove) (bi_blocks_by_number bi),
                    bi_blocks_by_hash := fold hm_remove (map snd hashes_to_remove) (bi_blocks_by_hash bi),
                    bi_logs_by_block := fold hm_remove (map snd hashes_to_remove) (bi_logs_by_block bi),
                    bi_transactions := fold hm_remove tx_hashes (bi_transactions bi),
                    bi_receipts := fold hm_remove tx_hashes (bi_receipts bi)\<rparr>)"

definition get_block_by_hash :: "BlockIndex \<Rightarrow> b256 \<Rightarrow> IndexedBlock option" where
  "get_block_by_hash bi h = hm_get (bi_blocks_by_hash bi) h"

definition get_block_by_number :: "BlockIndex \<Rightarrow> u64 \<Rightarrow> IndexedBlock option" where
  "get_block_by_number bi number =
     (case hm_get (bi_blocks_by_number bi) number of
        None \<Rightarrow> None | Some h \<Rightarrow> hm_get (bi_blocks_by_hash bi) h)"

definition get_transaction :: "BlockIndex \<Rightarrow> b256 \<Rightarrow> IndexedTransaction option" where
  "get_transaction bi h = hm_get (bi_transactions bi) h"

definition get_transactions_for_block :: "BlockIndex \<Rightarrow> b256 \<Rightarrow> IndexedTransaction list" where
  "get_transactions_for_block bi block_hash =
     sort_key it_index (filter (\<lambda>tx. it_block_hash tx = block_hash) (map snd (bi_transactions bi)))"

definition get_receipt :: "BlockIndex \<Rightarrow> b256 \<Rightarrow> IndexedReceipt option" where
  "get_receipt bi h = hm_get (bi_receipts bi) h"

definition head_block_number :: "BlockIndex \<Rightarrow> u64" where
  "head_block_number bi = bi_head_block bi"

definition get_logs :: "BlockIndex \<Rightarrow> LogFilter \<Rightarrow> IndexedLog list" where
  "get_logs bi f =
     (let head = head_block_number bi;
          from_block = (case lf_from_block f of None \<Rightarrow> 0 | Some b \<Rightarrow> b);
          to_block = min (case lf_to_block f of None \<Rightarrow> head | Some b \<Rightarrow> b) head
      in concat (map (\<lambda>n. case hm_get (bi_blocks_by_number bi) (of_nat n) of
                     None \<Rightarrow> []
                   | Some block_hash \<Rightarrow>
                       (case hm_get (bi_logs_by_block bi) block_hash of
                          None \<Rightarrow> []
                        | Some logs \<Rightarrow> filter (\<lambda>log. matches_filter log f) logs))
           [unat from_block ..< Suc (unat to_block)]))"

definition block_count :: "BlockIndex \<Rightarrow> nat" where
  "block_count bi = length (bi_blocks_by_hash bi)"

definition transaction_count :: "BlockIndex \<Rightarrow> nat" where
  "transaction_count bi = length (bi_transactions bi)"

definition receipt_count :: "BlockIndex \<Rightarrow> nat" where
  "receipt_count bi = length (bi_receipts bi)"

definition index_is_empty :: "BlockIndex \<Rightarrow> bool" where
  "index_is_empty bi \<longleftrightarrow> bi_blocks_by_hash bi = []"

definition index_stats :: "BlockIndex \<Rightarrow> IndexStats" where
  "index_stats bi =
     \<lparr>is_block_count = block_count bi, is_transaction_count = transaction_count bi,
      is_receipt_count = receipt_count bi, is_head_block_number = head_block_number bi\<rparr>"

definition recent_block_hashes :: "BlockIndex \<Rightarrow> u64 \<Rightarrow> (u64, b256) hash_map" where
  "recent_block_hashes bi head =
     (let depth = min head 256
      in fold (\<lambda>n hashes. case hm_get (bi_blocks_by_number bi) (of_nat n) of
                 Some h \<Rightarrow> hm_insert (of_nat n) h hashes
               | None \<Rightarrow> hashes)
           [unat (saturating_sub head depth) ..< unat head] [])"

section \<open>Reference: the retained blocks\<close>

text \<open>An indexed block with its transactions and receipts; the reference index is their list.\<close>

type_synonym index_entry = "IndexedBlock \<times> IndexedTransaction list \<times> IndexedReceipt list"

text \<open>What the caller provides: transactions and receipts of the block, one per hash.\<close>

definition entry_ok :: "index_entry \<Rightarrow> bool" where
  "entry_ok e = (case e of (b, txs, rs) \<Rightarrow>
     distinct (map it_hash txs) \<and> set (map it_hash txs) \<subseteq> set (ib_transaction_hashes b) \<and>
     distinct (map ir_transaction_hash rs) \<and> set (map ir_transaction_hash rs) \<subseteq> set (ib_transaction_hashes b))"

definition fresh_for :: "index_entry \<Rightarrow> index_entry list \<Rightarrow> bool" where
  "fresh_for e es \<longleftrightarrow>
     (\<forall>e' \<in> set es. ib_hash (fst e') \<noteq> ib_hash (fst e) \<and> ib_number (fst e') \<noteq> ib_number (fst e) \<and>
        set (ib_transaction_hashes (fst e')) \<inter> set (ib_transaction_hashes (fst e)) = {})"

fun entries_ok :: "index_entry list \<Rightarrow> bool" where
  "entries_ok [] = True"
| "entries_ok (e # es) = (entry_ok e \<and> fresh_for e es \<and> entries_ok es)"

text \<open>
  A block may be inserted again, as recovery does when it indexes the archive and then replays a block: the new
  entry has the number and the transaction hashes of the old one and covers its transactions and receipts.
\<close>

definition renews :: "index_entry \<Rightarrow> index_entry \<Rightarrow> bool" where
  "renews e e' \<longleftrightarrow>
     ib_number (fst e) = ib_number (fst e') \<and> ib_transaction_hashes (fst e) = ib_transaction_hashes (fst e') \<and>
     it_hash ` set (fst (snd e')) \<subseteq> it_hash ` set (fst (snd e)) \<and>
     ir_transaction_hash ` set (snd (snd e')) \<subseteq> ir_transaction_hash ` set (snd (snd e))"

definition other_blocks :: "index_entry \<Rightarrow> index_entry list \<Rightarrow> index_entry list" where
  "other_blocks e es = filter (\<lambda>e'. ib_hash (fst e') \<noteq> ib_hash (fst e)) es"

definition insertable :: "index_entry \<Rightarrow> index_entry list \<Rightarrow> bool" where
  "insertable e es \<longleftrightarrow> entry_ok e \<and> fresh_for e (other_blocks e es) \<and>
     (\<forall>e' \<in> set es. ib_hash (fst e') = ib_hash (fst e) \<longrightarrow> renews e e')"

text \<open>Calls of the index, their effect on it and on the reference.\<close>

datatype index_op = Insert index_entry | Prune u64

fun index_step :: "index_op \<Rightarrow> BlockIndex \<Rightarrow> BlockIndex" where
  "index_step (Insert (b, txs, rs)) bi = insert_block b txs rs bi"
| "index_step (Prune n) bi = prune_before n bi"

fun entries_step :: "index_op \<Rightarrow> index_entry list \<Rightarrow> index_entry list" where
  "entries_step (Insert e) es = e # other_blocks e es"
| "entries_step (Prune n) es = filter (\<lambda>e. n \<le> ib_number (fst e)) es"

fun ops_ok :: "index_op list \<Rightarrow> index_entry list \<Rightarrow> bool" where
  "ops_ok [] es = True"
| "ops_ok (Insert e # ops) es = (insertable e es \<and> ops_ok ops (entries_step (Insert e) es))"
| "ops_ok (Prune n # ops) es = ops_ok ops (entries_step (Prune n) es)"

text \<open>The index holds exactly the reference's blocks, transactions, receipts and logs.\<close>

definition holds :: "BlockIndex \<Rightarrow> index_entry list \<Rightarrow> bool" where
  "holds bi es \<longleftrightarrow>
     hm_wf (bi_blocks_by_number bi) \<and> (\<forall>e \<in> set es. ib_number (fst e) \<le> bi_head_block bi) \<and>
     (\<forall>h b. hm_get (bi_blocks_by_hash bi) h = Some b \<longleftrightarrow> (\<exists>e \<in> set es. fst e = b \<and> ib_hash b = h)) \<and>
     (\<forall>n h. hm_get (bi_blocks_by_number bi) n = Some h \<longleftrightarrow> (\<exists>e \<in> set es. ib_number (fst e) = n \<and> ib_hash (fst e) = h)) \<and>
     (\<forall>h t. hm_get (bi_transactions bi) h = Some t \<longleftrightarrow> (\<exists>e \<in> set es. t \<in> set (fst (snd e)) \<and> it_hash t = h)) \<and>
     (\<forall>h r. hm_get (bi_receipts bi) h = Some r \<longleftrightarrow> (\<exists>e \<in> set es. r \<in> set (snd (snd e)) \<and> ir_transaction_hash r = h)) \<and>
     (\<forall>h ls. hm_get (bi_logs_by_block bi) h = Some ls \<longleftrightarrow>
        (\<exists>e \<in> set es. ib_hash (fst e) = h \<and> ls = concat (map ir_logs (snd (snd e)))))"

lemma holdsD:
  assumes "holds bi es"
  shows "hm_wf (bi_blocks_by_number bi)" and "e \<in> set es \<Longrightarrow> ib_number (fst e) \<le> bi_head_block bi"
    and "hm_get (bi_blocks_by_hash bi) k = Some b \<longleftrightarrow> (\<exists>e \<in> set es. fst e = b \<and> ib_hash b = k)"
    and "hm_get (bi_blocks_by_number bi) n = Some k \<longleftrightarrow> (\<exists>e \<in> set es. ib_number (fst e) = n \<and> ib_hash (fst e) = k)"
    and "hm_get (bi_transactions bi) k = Some t \<longleftrightarrow> (\<exists>e \<in> set es. t \<in> set (fst (snd e)) \<and> it_hash t = k)"
    and "hm_get (bi_receipts bi) k = Some r \<longleftrightarrow> (\<exists>e \<in> set es. r \<in> set (snd (snd e)) \<and> ir_transaction_hash r = k)"
    and "hm_get (bi_logs_by_block bi) k = Some ls \<longleftrightarrow>
      (\<exists>e \<in> set es. ib_hash (fst e) = k \<and> ls = concat (map ir_logs (snd (snd e))))"
  using assms unfolding holds_def by - (elim conjE, (simp only:; fail | blast))+

lemma get_fold_insert:
  "distinct (map key xs) \<Longrightarrow>
     hm_get (fold (\<lambda>x. hm_insert (key x) x) xs m) k = Some y \<longleftrightarrow>
       (y \<in> set xs \<and> key y = k) \<or> (k \<notin> key ` set xs \<and> hm_get m k = Some y)"
proof (induction xs arbitrary: m)
  case (Cons x xs)
  then show ?case by (auto simp: hm.get_put)
qed simp

lemma wf_fold_insert: "hm_wf m \<Longrightarrow> hm_wf (fold (\<lambda>x. hm_insert (key x) x) xs m)"
  by (induction xs arbitrary: m) (auto simp: hm.wf_put)

lemma holds_new: "holds block_index_new []"
  by (simp add: holds_def block_index_new_def)

lemma entry_hash_in:
  assumes "entries_ok es" and "e \<in> set es"
  shows "entry_ok e"
  using assms by (induction es) auto

lemma entries_unique:
  "entries_ok es \<Longrightarrow> e \<in> set es \<Longrightarrow> e' \<in> set es \<Longrightarrow>
     ib_hash (fst e) = ib_hash (fst e') \<or> ib_number (fst e) = ib_number (fst e') \<or>
     set (ib_transaction_hashes (fst e)) \<inter> set (ib_transaction_hashes (fst e')) \<noteq> {} \<Longrightarrow> e = e'"
  by (induction es) (auto simp: fresh_for_def)

lemma entries_ok_filter: "entries_ok es \<Longrightarrow> entries_ok (filter P es)"
  by (induction es) (auto simp: fresh_for_def)

lemma holds_insert:
  assumes "holds bi es" and "entries_ok es" and "insertable (b, txs, rs) es"
  shows "holds (insert_block b txs rs bi) ((b, txs, rs) # other_blocks (b, txs, rs) es)"
proof -
  let ?es = "other_blocks (b, txs, rs) es" and ?bi = "insert_block b txs rs bi"
  have d: "distinct (map it_hash txs)" "distinct (map ir_transaction_hash rs)"
    "it_hash ` set txs \<subseteq> set (ib_transaction_hashes b)" "ir_transaction_hash ` set rs \<subseteq> set (ib_transaction_hashes b)"
    using assms(3) by (simp_all add: insertable_def entry_ok_def)
  have in_es: "set ?es = {e \<in> set es. ib_hash (fst e) \<noteq> ib_hash b}" by (auto simp: other_blocks_def)
  have fresh: "ib_number (fst e) \<noteq> ib_number b" "set (ib_transaction_hashes (fst e)) \<inter> set (ib_transaction_hashes b) = {}"
    if "e \<in> set ?es" for e
    using assms(3) that by (auto simp: insertable_def fresh_for_def)
  have old: "ib_number (fst e) = ib_number b" "it_hash ` set (fst (snd e)) \<subseteq> it_hash ` set txs"
    "ir_transaction_hash ` set (snd (snd e)) \<subseteq> ir_transaction_hash ` set rs"
    if "e \<in> set es" "ib_hash (fst e) = ib_hash b" for e
    using assms(3) that by (auto simp: insertable_def renews_def)
  have hashes: "it_hash ` set (fst (snd e)) \<subseteq> set (ib_transaction_hashes (fst e))"
    "ir_transaction_hash ` set (snd (snd e)) \<subseteq> set (ib_transaction_hashes (fst e))" if "e \<in> set es" for e
    using entry_hash_in [OF assms(2) that] by (auto simp: entry_ok_def split: prod.splits)
  have tx: "it_hash t \<notin> it_hash ` set txs" if "e \<in> set ?es" "t \<in> set (fst (snd e))" for e t
    using fresh(2) [OF that(1)] hashes(1) [of e] that d(3) in_es by blast
  have rc: "ir_transaction_hash r \<notin> ir_transaction_hash ` set rs" if "e \<in> set ?es" "r \<in> set (snd (snd e))" for e r
    using fresh(2) [OF that(1)] hashes(2) [of e] that d(4) in_es by blast
  note h = holdsD [OF assms(1)]
  have "hm_wf (bi_blocks_by_number ?bi)" using h(1) by (simp add: insert_block_def Let_def hm.wf_put)
  moreover have "\<forall>e \<in> set ((b, txs, rs) # ?es). ib_number (fst e) \<le> bi_head_block ?bi"
    using h(2) by (fastforce simp: insert_block_def Let_def in_es)
  moreover have "hm_get (bi_blocks_by_hash ?bi) k = Some y \<longleftrightarrow> (\<exists>e \<in> set ((b, txs, rs) # ?es). fst e = y \<and> ib_hash y = k)" for k y
    using h(3) [of k y] by (simp add: insert_block_def Let_def hm.get_put in_es del: split_paired_Ex) blast
  moreover have "hm_get (bi_blocks_by_number ?bi) k = Some y \<longleftrightarrow>
      (\<exists>e \<in> set ((b, txs, rs) # ?es). ib_number (fst e) = k \<and> ib_hash (fst e) = y)" for k y
    using h(4) [of k y] fresh(1) old(1) by (simp add: insert_block_def Let_def hm.get_put in_es del: split_paired_Ex) blast
  moreover have "hm_get (bi_transactions ?bi) k = Some y \<longleftrightarrow>
      (\<exists>e \<in> set ((b, txs, rs) # ?es). y \<in> set (fst (snd e)) \<and> it_hash y = k)" for k y
    using h(5) [of k y] tx old(2)
    by (simp add: insert_block_def Let_def get_fold_insert [OF d(1)] in_es del: split_paired_Ex) blast
  moreover have "hm_get (bi_receipts ?bi) k = Some y \<longleftrightarrow>
      (\<exists>e \<in> set ((b, txs, rs) # ?es). y \<in> set (snd (snd e)) \<and> ir_transaction_hash y = k)" for k y
    using h(6) [of k y] rc old(3)
    by (simp add: insert_block_def Let_def get_fold_insert [OF d(2)] in_es del: split_paired_Ex) blast
  moreover have "hm_get (bi_logs_by_block ?bi) k = Some y \<longleftrightarrow>
      (\<exists>e \<in> set ((b, txs, rs) # ?es). ib_hash (fst e) = k \<and> y = concat (map ir_logs (snd (snd e))))" for k y
    using h(7) [of k y] by (simp add: insert_block_def Let_def hm.get_put in_es del: split_paired_Ex) blast
  ultimately show ?thesis unfolding holds_def by blast
qed

text \<open>Removing the keys of the entries that go from a map that is a view of the entries.\<close>

lemma prune_view:
  assumes "\<And>k y. hm_get m k = Some y \<longleftrightarrow> (\<exists>e \<in> set es. R e k y)"
    and "\<And>k. k \<in> set ks \<longleftrightarrow> (\<exists>e \<in> set es. \<not> P e \<and> k \<in> keys e)"
    and "\<And>e k y. e \<in> set es \<Longrightarrow> R e k y \<Longrightarrow> k \<in> keys e"
    and "\<And>e e' k. e \<in> set es \<Longrightarrow> e' \<in> set es \<Longrightarrow> k \<in> keys e \<Longrightarrow> k \<in> keys e' \<Longrightarrow> e = e'"
  shows "hm_get (fold hm_remove ks m) k = Some y \<longleftrightarrow> (\<exists>e \<in> set (filter P es). R e k y)"
proof
  assume "hm_get (fold hm_remove ks m) k = Some y"
  then have k: "k \<notin> set ks" "hm_get m k = Some y" by (simp_all add: hm.get_fold_remove split: if_splits)
  then obtain e where e: "e \<in> set es" "R e k y" using assms(1) by blast
  then have "P e" using assms(2,3) k(1) by blast
  then show "\<exists>e \<in> set (filter P es). R e k y" using e by auto
next
  assume "\<exists>e \<in> set (filter P es). R e k y"
  then obtain e where e: "e \<in> set es" "P e" "R e k y" by auto
  then have "k \<notin> set ks" using assms(2,3,4) by blast
  then show "hm_get (fold hm_remove ks m) k = Some y" using e assms(1) by (auto simp: hm.get_fold_remove)
qed

lemma holds_prune:
  assumes "holds bi es" and "entries_ok es"
  shows "holds (prune_before n bi) (filter (\<lambda>e. n \<le> ib_number (fst e)) es)"
proof -
  note h = holdsD [OF assms(1)]
  let ?rm = "filter (\<lambda>(num, _). num < n) (bi_blocks_by_number bi)"
  let ?P = "\<lambda>e. n \<le> ib_number (fst e)"
  have wf: "hm_wf (bi_blocks_by_number bi)" by (rule h(1))
  have get: "hm_get (bi_blocks_by_number bi) m = Some k \<longleftrightarrow> (\<exists>e \<in> set es. ib_number (fst e) = m \<and> ib_hash (fst e) = k)" for m k
    by (rule h(4))
  have rm: "(m, k) \<in> set ?rm \<longleftrightarrow> (\<exists>e \<in> set es. \<not> ?P e \<and> ib_number (fst e) = m \<and> ib_hash (fst e) = k)" for m k
  proof -
    have "(m, k) \<in> set ?rm \<longleftrightarrow> m < n \<and> hm_get (bi_blocks_by_number bi) m = Some k" using wf by auto
    then show ?thesis unfolding get not_le by blast
  qed
  show ?thesis
  proof (cases "?rm = []")
    case True
    then have "?P e" if "e \<in> set es" for e using rm [of "ib_number (fst e)" "ib_hash (fst e)"] that by auto
    then have "filter ?P es = es" by (simp add: filter_id_conv)
    then show ?thesis using True assms(1) by (simp add: prune_before_def)
  next
    case False
    let ?txh = "concat (map (\<lambda>(_, h). case hm_get (bi_blocks_by_hash bi) h of
                                None \<Rightarrow> [] | Some b \<Rightarrow> ib_transaction_hashes b) ?rm)"
    let ?bi = "prune_before n bi"
    have bi: "bi_blocks_by_number ?bi = fold hm_remove (map fst ?rm) (bi_blocks_by_number bi)"
      "bi_blocks_by_hash ?bi = fold hm_remove (map snd ?rm) (bi_blocks_by_hash bi)"
      "bi_logs_by_block ?bi = fold hm_remove (map snd ?rm) (bi_logs_by_block bi)"
      "bi_transactions ?bi = fold hm_remove ?txh (bi_transactions bi)"
      "bi_receipts ?bi = fold hm_remove ?txh (bi_receipts bi)" "bi_head_block ?bi = bi_head_block bi"
      using False by (simp_all add: prune_before_def Let_def)
    have nums: "m \<in> set (map fst ?rm) \<longleftrightarrow> (\<exists>e \<in> set es. \<not> ?P e \<and> m \<in> {ib_number (fst e)})" for m
    proof -
      have "m \<in> set (map fst ?rm) \<longleftrightarrow> (\<exists>k. (m, k) \<in> set ?rm)" by force
      then show ?thesis unfolding rm by auto
    qed
    have hashes: "k \<in> set (map snd ?rm) \<longleftrightarrow> (\<exists>e \<in> set es. \<not> ?P e \<and> k \<in> {ib_hash (fst e)})" for k
    proof -
      have "k \<in> set (map snd ?rm) \<longleftrightarrow> (\<exists>m. (m, k) \<in> set ?rm)" by force
      then show ?thesis unfolding rm by auto
    qed
    have by_hash: "hm_get (bi_blocks_by_hash bi) (ib_hash (fst e)) = Some (fst e)" if "e \<in> set es" for e
      using h(3) that by blast
    have txh: "k \<in> set ?txh \<longleftrightarrow> (\<exists>e \<in> set es. \<not> ?P e \<and> k \<in> set (ib_transaction_hashes (fst e)))" for k
    proof -
      have "k \<in> set ?txh \<longleftrightarrow> (\<exists>m hh. (m, hh) \<in> set ?rm \<and>
          k \<in> set (case hm_get (bi_blocks_by_hash bi) hh of None \<Rightarrow> [] | Some b \<Rightarrow> ib_transaction_hashes b))"
        by force
      then show ?thesis unfolding rm using by_hash by fastforce
    qed
    note uniq = entries_unique [OF assms(2)]
    have tx_in: "it_hash t \<in> set (ib_transaction_hashes (fst e))" if "e \<in> set es" "t \<in> set (fst (snd e))" for e t
      using entry_hash_in [OF assms(2) that(1)] that(2) by (auto simp: entry_ok_def split: prod.splits)
    have rc_in: "ir_transaction_hash r \<in> set (ib_transaction_hashes (fst e))" if "e \<in> set es" "r \<in> set (snd (snd e))" for e r
      using entry_hash_in [OF assms(2) that(1)] that(2) by (auto simp: entry_ok_def split: prod.splits)
    have "hm_wf (bi_blocks_by_number ?bi)" unfolding bi using wf by (rule hm.wf_fold_remove)
    moreover have "\<forall>e \<in> set (filter ?P es). ib_number (fst e) \<le> bi_head_block ?bi"
      using h(2) by (simp add: bi)
    moreover have "hm_get (bi_blocks_by_hash ?bi) k = Some y \<longleftrightarrow> (\<exists>e \<in> set (filter ?P es). fst e = y \<and> ib_hash y = k)" for k y
      unfolding bi
      by (rule prune_view [where R = "\<lambda>e k y. fst e = y \<and> ib_hash y = k", OF _ hashes])
        (rule h(3), use uniq in auto)
    moreover have "hm_get (bi_blocks_by_number ?bi) k = Some y \<longleftrightarrow>
        (\<exists>e \<in> set (filter ?P es). ib_number (fst e) = k \<and> ib_hash (fst e) = y)" for k y
      unfolding bi
      by (rule prune_view [where R = "\<lambda>e k y. ib_number (fst e) = k \<and> ib_hash (fst e) = y", OF _ nums])
        (rule h(4), use uniq in auto)
    moreover have "hm_get (bi_transactions ?bi) k = Some y \<longleftrightarrow>
        (\<exists>e \<in> set (filter ?P es). y \<in> set (fst (snd e)) \<and> it_hash y = k)" for k y
      unfolding bi
      by (rule prune_view [where R = "\<lambda>e k y. y \<in> set (fst (snd e)) \<and> it_hash y = k", OF _ txh])
        (rule h(5), use tx_in in blast, use uniq in blast)
    moreover have "hm_get (bi_receipts ?bi) k = Some y \<longleftrightarrow>
        (\<exists>e \<in> set (filter ?P es). y \<in> set (snd (snd e)) \<and> ir_transaction_hash y = k)" for k y
      unfolding bi
      by (rule prune_view [where R = "\<lambda>e k y. y \<in> set (snd (snd e)) \<and> ir_transaction_hash y = k", OF _ txh])
        (rule h(6), use rc_in in blast, use uniq in blast)
    moreover have "hm_get (bi_logs_by_block ?bi) k = Some y \<longleftrightarrow>
        (\<exists>e \<in> set (filter ?P es). ib_hash (fst e) = k \<and> y = concat (map ir_logs (snd (snd e))))" for k y
      unfolding bi
      by (rule prune_view [where R = "\<lambda>e k y. ib_hash (fst e) = k \<and> y = concat (map ir_logs (snd (snd e)))", OF _ hashes])
        (rule h(7), use uniq in auto)
    ultimately show ?thesis unfolding holds_def by blast
  qed
qed

lemma holds_run:
  "ops_ok ops es \<Longrightarrow> holds bi es \<Longrightarrow> entries_ok es \<Longrightarrow>
     holds (fold index_step ops bi) (fold entries_step ops es) \<and> entries_ok (fold entries_step ops es)"
proof (induction ops arbitrary: bi es)
  case (Cons op ops)
  show ?case
  proof (cases op)
    case (Insert e)
    obtain b txs rs where e: "e = (b, txs, rs)" by (cases e)
    have ok: "insertable e es" "ops_ok ops (e # other_blocks e es)" using Cons(2) Insert by simp_all
    have "holds (insert_block b txs rs bi) (e # other_blocks e es)"
      using holds_insert [OF Cons(3,4)] ok(1) e by simp
    moreover have "entries_ok (e # other_blocks e es)"
      using ok(1) entries_ok_filter [OF Cons(4)] by (simp add: insertable_def other_blocks_def)
    ultimately show ?thesis using Cons(1) [OF ok(2)] Insert e by simp
  next
    case (Prune n)
    then have "ops_ok ops (filter (\<lambda>e. n \<le> ib_number (fst e)) es)" using Cons(2) by simp
    from Cons(1) [OF this holds_prune [OF Cons(3,4)] entries_ok_filter [OF Cons(4)]] show ?thesis
      by (simp add: Prune)
  qed
qed simp

lemma unat_of_nat_u64: "n < 2 ^ 64 \<Longrightarrow> unat (of_nat n :: u64) = n"
  by (simp add: unat_of_nat)

lemma get_fold_present:
  fixes f :: "u64 \<Rightarrow> b256 option"
  shows "\<forall>n \<in> set ns. n < 2 ^ 64 \<Longrightarrow>
     hm_get (fold (\<lambda>n hashes. case f (of_nat n) of Some h \<Rightarrow> hm_insert (of_nat n) h hashes | None \<Rightarrow> hashes) ns m) k =
       (if unat k \<in> set ns \<and> f k \<noteq> None then f k else hm_get m k)"
proof (induction ns arbitrary: m)
  case (Cons n ns)
  then have n: "unat (of_nat n :: u64) = n" by (simp add: unat_of_nat_u64)
  show ?case using Cons n by (auto simp: hm.get_put split: option.split)
qed simp

lemma recent_block_hashes_get:
  "hm_get (recent_block_hashes bi head) k =
     (if k < head \<and> unat head \<le> unat k + 256 then hm_get (bi_blocks_by_number bi) k else None)"
proof -
  have lt: "n < 2 ^ 64" if "n < unat head" for n using that unat_u64_less [of head] by simp
  have "unat (saturating_sub head (min head 256)) = unat head - 256"
    by (simp add: unat_saturating_sub min_def word_le_nat_alt)
  then show ?thesis
    using lt by (auto simp: recent_block_hashes_def Let_def get_fold_present word_less_nat_alt)
qed

lemma in_word_range: "(\<exists>n. unat a \<le> n \<and> n < Suc (unat b) \<and> Q (of_nat n :: u64)) \<longleftrightarrow> (\<exists>w. a \<le> w \<and> w \<le> b \<and> Q w)"
proof
  assume "\<exists>n. unat a \<le> n \<and> n < Suc (unat b) \<and> Q (of_nat n)"
  then obtain n where n: "unat a \<le> n" "n < Suc (unat b)" "Q (of_nat n)" by blast
  moreover have "n < 2 ^ 64" using n(2) unat_u64_less [of b] by simp
  then have "unat (of_nat n :: u64) = n" by (simp add: unat_of_nat_u64)
  ultimately show "\<exists>w. a \<le> w \<and> w \<le> b \<and> Q w" by (intro exI [of _ "of_nat n"]) (simp add: word_le_nat_alt)
next
  assume "\<exists>w. a \<le> w \<and> w \<le> b \<and> Q w"
  then obtain w where "a \<le> w" "w \<le> b" "Q w" by blast
  then show "\<exists>n. unat a \<le> n \<and> n < Suc (unat b) \<and> Q (of_nat n)"
    by (intro exI [of _ "unat w"]) (simp add: word_le_nat_alt)
qed

text \<open>The block range of a filter, without the head of the chain.\<close>

definition in_range :: "LogFilter \<Rightarrow> u64 \<Rightarrow> bool" where
  "in_range f n \<longleftrightarrow> (\<forall>a. lf_from_block f = Some a \<longrightarrow> a \<le> n) \<and> (\<forall>b. lf_to_block f = Some b \<longrightarrow> n \<le> b)"

lemma get_logs_holds:
  assumes "holds bi es" and "entries_ok es"
  shows "log \<in> set (get_logs bi f) \<longleftrightarrow>
    (\<exists>e \<in> set es. in_range f (ib_number (fst e)) \<and> matches_filter log f \<and> (\<exists>r \<in> set (snd (snd e)). log \<in> set (ir_logs r)))"
proof -
  note h = holdsD [OF assms(1)]
  let ?a = "case lf_from_block f of None \<Rightarrow> 0 | Some b \<Rightarrow> b"
  let ?b = "min (case lf_to_block f of None \<Rightarrow> head_block_number bi | Some b \<Rightarrow> b) (head_block_number bi)"
  let ?Q = "\<lambda>w. \<exists>k ls. hm_get (bi_blocks_by_number bi) w = Some k \<and> hm_get (bi_logs_by_block bi) k = Some ls \<and>
    log \<in> set ls \<and> matches_filter log f"
  let ?F = "\<lambda>n. case hm_get (bi_blocks_by_number bi) (of_nat n) of None \<Rightarrow> []
    | Some block_hash \<Rightarrow> (case hm_get (bi_logs_by_block bi) block_hash of None \<Rightarrow> []
        | Some logs \<Rightarrow> filter (\<lambda>log. matches_filter log f) logs)"
  have F: "log \<in> set (?F n) \<longleftrightarrow> ?Q (of_nat n)" for n
    by (cases "hm_get (bi_blocks_by_number bi) (of_nat n)";
        cases "hm_get (bi_logs_by_block bi) (the (hm_get (bi_blocks_by_number bi) (of_nat n)))") auto
  have "log \<in> set (get_logs bi f) \<longleftrightarrow> (\<exists>n \<in> {unat ?a ..< Suc (unat ?b)}. log \<in> set (?F n))"
    unfolding get_logs_def Let_def set_concat set_map set_upt by blast
  then have "log \<in> set (get_logs bi f) \<longleftrightarrow> (\<exists>n. unat ?a \<le> n \<and> n < Suc (unat ?b) \<and> ?Q (of_nat n))"
    unfolding F by auto
  also have "\<dots> \<longleftrightarrow> (\<exists>w. ?a \<le> w \<and> w \<le> ?b \<and> ?Q w)" by (rule in_word_range)
  also have "\<dots> \<longleftrightarrow> (\<exists>e \<in> set es. in_range f (ib_number (fst e)) \<and> matches_filter log f \<and>
      (\<exists>r \<in> set (snd (snd e)). log \<in> set (ir_logs r)))" (is "?L \<longleftrightarrow> ?R")
  proof
    assume ?L
    then obtain w k ls where w: "?a \<le> w" "w \<le> ?b" "hm_get (bi_blocks_by_number bi) w = Some k"
      "hm_get (bi_logs_by_block bi) k = Some ls" "log \<in> set ls" "matches_filter log f" by blast
    from w(3) obtain e where e: "e \<in> set es" "ib_number (fst e) = w" "ib_hash (fst e) = k" unfolding h(4) by blast
    from w(4) obtain e' where e': "e' \<in> set es" "ib_hash (fst e') = k" "ls = concat (map ir_logs (snd (snd e')))"
      unfolding h(7) by blast
    have "e' = e" using entries_unique [OF assms(2) e'(1) e(1)] e(3) e'(2) by simp
    moreover have "in_range f w" using w(1,2) by (auto simp: in_range_def)
    ultimately show ?R using e e' w(5,6) by auto
  next
    assume ?R
    then obtain e r where e: "e \<in> set es" "in_range f (ib_number (fst e))" "matches_filter log f"
      "r \<in> set (snd (snd e))" "log \<in> set (ir_logs r)" by blast
    have "?a \<le> ib_number (fst e)" "ib_number (fst e) \<le> ?b"
      using e(2) h(2) [OF e(1)] by (auto simp: in_range_def head_block_number_def split: option.splits)
    moreover have "?Q (ib_number (fst e))"
      unfolding h(4,7) using e by (intro exI [of _ "ib_hash (fst e)"] exI [of _ "concat (map ir_logs (snd (snd e)))"]) auto
    ultimately show ?L by blast
  qed
  finally show ?thesis .
qed

definition index_after :: "index_op list \<Rightarrow> BlockIndex" where
  "index_after ops = fold index_step ops block_index_new"

definition retained :: "index_op list \<Rightarrow> index_entry list" where
  "retained ops = fold entries_step ops []"

lemma retained_holds: "ops_ok ops [] \<Longrightarrow> holds (index_after ops) (retained ops) \<and> entries_ok (retained ops)"
  using holds_run [of ops "[]" block_index_new] holds_new by (simp add: index_after_def retained_def)

lemma get_block_by_number_holds:
  assumes "holds bi es" and "entries_ok es"
  shows "get_block_by_number bi n = Some b \<longleftrightarrow> (\<exists>e \<in> set es. fst e = b \<and> ib_number b = n)"
proof -
  note h = holdsD [OF assms(1)]
  have "get_block_by_number bi n = Some b \<longleftrightarrow>
      (\<exists>k. hm_get (bi_blocks_by_number bi) n = Some k \<and> hm_get (bi_blocks_by_hash bi) k = Some b)"
    by (auto simp: get_block_by_number_def split: option.split)
  also have "\<dots> \<longleftrightarrow> (\<exists>e \<in> set es. fst e = b \<and> ib_number b = n)"
    unfolding h(3,4) using entries_unique [OF assms(2)] by metis
  finally show ?thesis .
qed


definition sample_indexed_block :: "u64 \<Rightarrow> b256 list \<Rightarrow> IndexedBlock" where
  "sample_indexed_block n hashes =
     \<lparr>ib_hash = ucast n + 100, ib_number = n, ib_parent_hash = 0, ib_state_root = 0, ib_transactions_root = 0,
      ib_receipts_root = 0, ib_timestamp = n, ib_gas_limit = 0, ib_gas_used = 0, ib_base_fee_per_gas = None,
      ib_mix_hash = 0, ib_logs_bloom = 0, ib_size = 0, ib_transaction_hashes = hashes\<rparr>"

definition sample_indexed_tx :: "u64 \<Rightarrow> b256 \<Rightarrow> IndexedTransaction" where
  "sample_indexed_tx n h =
     \<lparr>it_hash = h, it_block_hash = ucast n + 100, it_block_number = n, it_index = 0, it_from = 0, it_to = None,
      it_value = 0, it_gas_limit = 0, it_gas_price = 0, it_tx_type = 0, it_chain_id = None,
      it_max_fee_per_gas = None, it_max_priority_fee_per_gas = None, it_v = 0, it_r = 0, it_s = 0, it_input = [],
      it_nonce = 0\<rparr>"

lemmas sample_index_defs =
  sample_indexed_block_def sample_indexed_tx_def index_after_def block_index_new_def insert_block_def
  prune_before_def get_transaction_def get_block_by_number_def


text \<open>
  Without that assumption on transactions the lookup fails: a transaction that occurs in a pruned
  block and again in a retained one is removed with the pruned block.
\<close>

lemma prune_drops_repeated_transaction:
  "let bi = index_after [Insert (sample_indexed_block 1 [7], [sample_indexed_tx 1 7], []),
              Insert (sample_indexed_block 2 [7], [sample_indexed_tx 2 7], []), Prune 2]
   in get_block_by_number bi 2 = Some (sample_indexed_block 2 [7]) \<and> get_transaction bi 7 = None"
  by (simp add: sample_index_defs Let_def)

end
