(* ===== verification/Finalization.thy ===== *)
theory Finalization
  imports Application_Properties Indexer
begin

text \<open>
  The reporters of \<open>crates/node/reporters\<close> and the context provider of
  \<open>crates/node/runner/src/runner.rs\<close>: seeds from consensus activity, the replay of finalized blocks
  with retries, their persistence at checkpoints, the deferred acknowledgements, the block index and
  the log of destroyed contracts.
\<close>

section \<open>Seeds\<close>

text \<open>
  The consensus activities with what the reporters read of them: the view, the digest and the encoded
  seed of a certificate.
\<close>

datatype Activity =
    Notarize
  | Notarization u64 ConsensusDigest bytes
  | Certification
  | Nullify
  | Nullification
  | Finalize
  | FinalizationCert u64 ConsensusDigest bytes
  | ConflictingNotarize
  | ConflictingFinalize
  | NullifyFinalize

definition hash_seed :: "externs \<Rightarrow> bytes \<Rightarrow> b256" where
  "hash_seed X seed = ex_keccak256 X seed"

fun seed_report_inner :: "externs \<Rightarrow> Activity \<Rightarrow> ('w, 'ad, 'sd, 'cd) LedgerService \<Rightarrow> ('w, 'ad, 'sd, 'cd) LedgerService" where
  "seed_report_inner X (Notarization view payload seed) svc = set_seed payload (hash_seed X seed) svc"
| "seed_report_inner X (FinalizationCert view payload seed) svc = set_seed payload (hash_seed X seed) svc"
| "seed_report_inner X _ svc = svc"

text \<open>\<open>NodeStateReporter::report\<close>, without the counters it exports.\<close>

fun node_state_report :: "Activity \<Rightarrow> NodeState \<Rightarrow> NodeState" where
  "node_state_report (Notarization view payload seed) s = set_view view s"
| "node_state_report (FinalizationCert view payload seed) s = inc_finalized (set_view view s)"
| "node_state_report Nullification s = inc_nullified s"
| "node_state_report ConflictingNotarize s = inc_equivocations s"
| "node_state_report ConflictingFinalize s = inc_equivocations s"
| "node_state_report NullifyFinalize s = inc_equivocations s"
| "node_state_report Notarize s = s"
| "node_state_report Certification s = s"
| "node_state_report Nullify s = s"
| "node_state_report Finalize s = s"

section \<open>Contexts\<close>

text \<open>
  A context provider reads the index it shares with the reporter; \<open>None\<close> is a division by zero.
\<close>

type_synonym context_provider = "BlockIndex option \<Rightarrow> Block \<Rightarrow> BlockContext option"

definition provider_base_fee :: "BlockIndex \<Rightarrow> Block \<Rightarrow> u64 option" where
  "provider_base_fee index block =
     (if blk_height block = 0 then Some INITIAL_BASE_FEE
      else case get_block_by_number index (blk_height block - 1) of
             Some parent \<Rightarrow>
               calculate_base_fee (case ib_base_fee_per_gas parent of Some f \<Rightarrow> f | None \<Rightarrow> INITIAL_BASE_FEE)
                 (ib_gas_used parent) (ib_gas_limit parent) default_base_fee_params
           | None \<Rightarrow> Some INITIAL_BASE_FEE)"

definition revm_context :: "u64 \<Rightarrow> address \<Rightarrow> BlockIndex \<Rightarrow> Block \<Rightarrow> BlockContext option" where
  "revm_context gas_limit fee_recipient index block =
     (case provider_base_fee index block of
        None \<Rightarrow> None
      | Some base_fee \<Rightarrow>
          Some (with_recent_block_hashes (recent_block_hashes index (blk_height block))
            (block_context_new
              (header_default\<lparr>hd_number := blk_height block, hd_timestamp := blk_timestamp block,
                 hd_gas_limit := gas_limit, hd_beneficiary := fee_recipient, hd_base_fee_per_gas := Some base_fee\<rparr>)
              0 (blk_prevrandao block))))"

definition revm_context_provider :: "u64 \<Rightarrow> address \<Rightarrow> context_provider" where
  "revm_context_provider gas_limit fee_recipient index block =
     revm_context gas_limit fee_recipient (case index of Some i \<Rightarrow> i | None \<Rightarrow> block_index_new) block"

section \<open>Finalizing a block\<close>

datatype FinalizationError =
    ExecutionFailed ConsensusError
  | RootComputationFailed LedgerError
  | FinalRootMismatch StateRoot StateRoot
  | PersistTaskFailed string
  | PersistFailed LedgerError

fun is_retryable :: "FinalizationError \<Rightarrow> bool" where
  "is_retryable (FinalRootMismatch _ _) = False"
| "is_retryable (ExecutionFailed _) = True"
| "is_retryable (RootComputationFailed _) = True"
| "is_retryable (PersistTaskFailed _) = True"
| "is_retryable (PersistFailed _) = True"

fun metric_label :: "FinalizationError \<Rightarrow> string" where
  "metric_label (ExecutionFailed _) = ''execution_failed''"
| "metric_label (RootComputationFailed _) = ''root_computation_failed''"
| "metric_label (FinalRootMismatch _ _) = ''state_root_mismatch''"
| "metric_label (PersistTaskFailed _) = ''persist_task_failed''"
| "metric_label (PersistFailed _) = ''persist_failed''"

definition MAX_FINALIZATION_ATTEMPTS :: nat where
  "MAX_FINALIZATION_ATTEMPTS = 3"

definition MAX_PARENT_RETRIES :: nat where
  "MAX_PARENT_RETRIES = 3"

text \<open>
  What an attempt meets: the ledger at the later looks for the parent's snapshot, and whether the
  task that persists dies, with the ledger it leaves and its error.
\<close>

record ('w, 'ad, 'sd, 'cd) attempt_env =
  fe_looks :: "('w, 'ad, 'sd, 'cd) LedgerView list"
  fe_dies :: "((('w, 'ad, 'sd, 'cd) LedgerService \<Rightarrow> ('w, 'ad, 'sd, 'cd) LedgerService) \<times> string) option"

definition svc_on :: "(('w, 'ad, 'sd, 'cd) LedgerView \<Rightarrow> ('w, 'ad, 'sd, 'cd) LedgerView) \<Rightarrow>
    ('w, 'ad, 'sd, 'cd) LedgerService \<Rightarrow> ('w, 'ad, 'sd, 'cd) LedgerService" where
  "svc_on f svc = svc\<lparr>svc_view := f (svc_view svc)\<rparr>"

definition find_parent :: "('w, 'ad, 'sd, 'cd) attempt_env \<Rightarrow> bool \<Rightarrow> ConsensusDigest \<Rightarrow>
    ('w, 'ad, 'sd, 'cd) LedgerView \<Rightarrow> LedgerSnapshot option" where
  "find_parent env snapshot_exists parent_digest v =
     (case parent_snapshot parent_digest v of
        Some s \<Rightarrow> Some s
      | None \<Rightarrow> if snapshot_exists then None
                else wait_for_snapshot parent_digest (take MAX_PARENT_RETRIES (fe_looks env)))"

text \<open>Re-execution of a block on its parent's snapshot.\<close>

definition replay_block :: "externs \<Rightarrow> ('w, 'ad, 'sd, 'cd) QmdbState OverlayState block_executor \<Rightarrow> BlockContext \<Rightarrow>
    bool \<Rightarrow> LedgerSnapshot \<Rightarrow> Block \<Rightarrow> ('w, 'ad, 'sd, 'cd) LedgerService \<Rightarrow>
    ('w, 'ad, 'sd, 'cd) LedgerService \<times> (FinalizationError + ExecutionOutcome)" where
  "replay_block X E context snapshot_exists parent block svc =
     (let parent_digest = block_parent_digest X block
      in case block_execution X E (overlay_at (svc_view svc) (sn_state parent)) context (blk_txs block) of
           Inl err \<Rightarrow> (svc, Inl (ExecutionFailed err))
         | Inr outcome \<Rightarrow>
             (case compute_root_from_store X parent_digest (eo_changes outcome) (svc_view svc) of
                Inl err \<Rightarrow> (svc, Inl (RootComputationFailed err))
              | Inr state_root \<Rightarrow>
                  if state_root \<noteq> blk_state_root block
                  then (svc, Inl (FinalRootMismatch (blk_state_root block) state_root))
                  else (if snapshot_exists then svc
                        else svc_on (insert_snapshot X (block_commitment X block) parent_digest
                               (overlay_new () (overlay_merge_changes (sn_state parent) (eo_changes outcome)))
                               state_root (eo_changes outcome) (blk_txs block)) svc,
                        Inr outcome)))"

text \<open>The part of \<open>finalize_block\<close> before persistence; the outer \<open>None\<close> is a division by zero.\<close>

definition finalize_replay :: "externs \<Rightarrow> ('w, 'ad, 'sd, 'cd) QmdbState OverlayState block_executor \<Rightarrow> context_provider \<Rightarrow>
    ('w, 'ad, 'sd, 'cd) attempt_env \<Rightarrow> BlockIndex option \<Rightarrow> Block \<Rightarrow> ('w, 'ad, 'sd, 'cd) LedgerService \<Rightarrow>
    (('w, 'ad, 'sd, 'cd) LedgerService \<times> (FinalizationError + ExecutionOutcome option \<times> BlockContext option)) option" where
  "finalize_replay X E P env block_index block svc =
     (let snapshot_exists = query_state_root (block_commitment X block) (svc_view svc) \<noteq> None
      in if \<not> snapshot_exists \<or> block_index \<noteq> None
         then case find_parent env snapshot_exists (block_parent_digest X block) (svc_view svc) of
                Some parent \<Rightarrow>
                  (case P block_index block of
                     None \<Rightarrow> None
                   | Some context \<Rightarrow>
                       (case replay_block X E context snapshot_exists parent block svc of
                          (svc1, Inl e) \<Rightarrow> Some (svc1, Inl e)
                        | (svc1, Inr outcome) \<Rightarrow> Some (svc1, Inr (Some outcome, Some context))))
              | None \<Rightarrow>
                  if snapshot_exists then Some (svc, Inr (None, None))
                  else Some (svc_on (restore_persisted_snapshot X block) svc, Inr (None, None))
         else Some (svc, Inr (None, None)))"

definition finalize_persist :: "externs \<Rightarrow> ('w, 'ad, 'am, 'sd, 'sm, 'cd, 'cm) backend_dbs \<Rightarrow>
    ('w, 'ad, 'sd, 'cd) attempt_env \<Rightarrow> ConsensusDigest \<Rightarrow> ('w, 'ad, 'sd, 'cd) LedgerService \<Rightarrow>
    (('w, 'ad, 'sd, 'cd) LedgerService \<times> (FinalizationError + unit)) option" where
  "finalize_persist X B env digest svc =
     (case fe_dies env of
        Some (leaves, err) \<Rightarrow> Some (leaves svc, Inl (PersistTaskFailed err))
      | None \<Rightarrow>
          (case persist_snapshot X B digest svc of
             None \<Rightarrow> None
           | Some (svc1, Inl err) \<Rightarrow> Some (svc1, Inl (PersistFailed err))
           | Some (svc1, Inr _) \<Rightarrow> Some (svc1, Inr ())))"

definition finalize_block :: "externs \<Rightarrow> ('w, 'ad, 'am, 'sd, 'sm, 'cd, 'cm) backend_dbs \<Rightarrow>
    ('w, 'ad, 'sd, 'cd) QmdbState OverlayState block_executor \<Rightarrow> context_provider \<Rightarrow>
    ('w, 'ad, 'sd, 'cd) attempt_env \<Rightarrow> BlockIndex option \<Rightarrow> Block \<Rightarrow> bool \<Rightarrow> ('w, 'ad, 'sd, 'cd) LedgerService \<Rightarrow>
    (('w, 'ad, 'sd, 'cd) LedgerService \<times> (FinalizationError + ExecutionOutcome option \<times> BlockContext option)) option" where
  "finalize_block X B E P env block_index block persist_checkpoint svc =
     (case finalize_replay X E P env block_index block svc of
        None \<Rightarrow> None
      | Some (svc1, Inl e) \<Rightarrow> Some (svc1, Inl e)
      | Some (svc1, Inr result) \<Rightarrow>
          if persist_checkpoint
          then case finalize_persist X B env (block_commitment X block) svc1 of
                 None \<Rightarrow> None
               | Some (svc2, Inl e) \<Rightarrow> Some (svc2, Inl e)
               | Some (svc2, Inr _) \<Rightarrow> Some (svc2, Inr result)
          else Some (svc1, Inr result))"

text \<open>
  The retry loop with \<open>n\<close> attempts left; \<open>envs\<close> is what each attempt meets. Running out of attempts
  without having returned is the panic behind the loop.
\<close>

fun retry_loop :: "externs \<Rightarrow> ('w, 'ad, 'am, 'sd, 'sm, 'cd, 'cm) backend_dbs \<Rightarrow>
    ('w, 'ad, 'sd, 'cd) QmdbState OverlayState block_executor \<Rightarrow> context_provider \<Rightarrow>
    (nat \<Rightarrow> ('w, 'ad, 'sd, 'cd) attempt_env) \<Rightarrow> BlockIndex option \<Rightarrow> Block \<Rightarrow> bool \<Rightarrow> nat \<Rightarrow> nat \<Rightarrow>
    ('w, 'ad, 'sd, 'cd) LedgerService \<Rightarrow>
    (('w, 'ad, 'sd, 'cd) LedgerService \<times> (FinalizationError + ExecutionOutcome option \<times> BlockContext option)) option" where
  "retry_loop X B E P envs block_index block persist_checkpoint attempt 0 svc = None"
| "retry_loop X B E P envs block_index block persist_checkpoint attempt (Suc n) svc =
     (case finalize_block X B E P (envs attempt) block_index block persist_checkpoint svc of
        None \<Rightarrow> None
      | Some (svc1, Inr result) \<Rightarrow> Some (svc1, Inr result)
      | Some (svc1, Inl e) \<Rightarrow>
          if is_retryable e \<and> 0 < n
          then retry_loop X B E P envs block_index block persist_checkpoint (attempt + 1) n svc1
          else Some (svc1, Inl e))"

definition finalize_with_retry :: "externs \<Rightarrow> ('w, 'ad, 'am, 'sd, 'sm, 'cd, 'cm) backend_dbs \<Rightarrow>
    ('w, 'ad, 'sd, 'cd) QmdbState OverlayState block_executor \<Rightarrow> context_provider \<Rightarrow>
    (nat \<Rightarrow> ('w, 'ad, 'sd, 'cd) attempt_env) \<Rightarrow> BlockIndex option \<Rightarrow> Block \<Rightarrow> bool \<Rightarrow> ('w, 'ad, 'sd, 'cd) LedgerService \<Rightarrow>
    (('w, 'ad, 'sd, 'cd) LedgerService \<times> (FinalizationError + ExecutionOutcome option \<times> BlockContext option)) option" where
  "finalize_with_retry X B E P envs block_index block persist_checkpoint svc =
     retry_loop X B E P envs block_index block persist_checkpoint 0 MAX_FINALIZATION_ATTEMPTS svc"

section \<open>Indexing a finalized block\<close>

text \<open>Functions of \<open>alloy\<close>: trie roots, the Bloom filter of logs and the EIP-155 signature value.\<close>

datatype ReceiptEnvelope = ReceiptEnvelope (re_type: u8) bool u64 "Log list" bloom

record alloy_fns =
  al_transaction_root :: "TxEnvelope list \<Rightarrow> b256"
  al_receipt_root :: "ReceiptEnvelope list \<Rightarrow> b256"
  al_logs_bloom :: "Log list \<Rightarrow> bloom"
  al_eip155_value :: "bool \<Rightarrow> u64 option \<Rightarrow> u128"
  al_priority_fee :: "TxEnvelope \<Rightarrow> u128"

record TxMetadata =
  tm_from :: address
  tm_to :: "address option"
  tm_value :: u256
  tm_gas_limit :: u64
  tm_gas_price :: u128
  tm_tx_type :: u8
  tm_chain_id :: "u64 option"
  tm_max_fee_per_gas :: "u128 option"
  tm_max_priority_fee_per_gas :: "u128 option"
  tm_v :: u128
  tm_r :: u256
  tm_s :: u256
  tm_input :: bytes
  tm_nonce :: u64

fun signature_v :: "alloy_fns \<Rightarrow> TxEnvelope \<Rightarrow> u128" where
  "signature_v A (Legacy tx s price) = al_eip155_value A (sig_v s) (tc_chain_id tx)"
| "signature_v A (Eip2930 tx s price al) = of_bool (sig_v s)"
| "signature_v A (Eip1559 tx s fee al) = of_bool (sig_v s)"
| "signature_v A (Eip4844 tx s fee al) = of_bool (sig_v s)"
| "signature_v A (Eip7702 tx s fee al) = of_bool (sig_v s)"

fun transaction_type :: "TxEnvelope \<Rightarrow> u8" where
  "transaction_type (Legacy tx s price) = 0"
| "transaction_type (Eip2930 tx s price al) = 1"
| "transaction_type (Eip1559 tx s fee al) = 2"
| "transaction_type (Eip4844 tx s fee al) = 3"
| "transaction_type (Eip7702 tx s fee al) = 4"

fun transaction_gas_price :: "TxEnvelope \<Rightarrow> u128" where
  "transaction_gas_price (Legacy tx s price) = price"
| "transaction_gas_price (Eip2930 tx s price al) = price"
| "transaction_gas_price (Eip1559 tx s fee al) = fee"
| "transaction_gas_price (Eip4844 tx s fee al) = fee"
| "transaction_gas_price (Eip7702 tx s fee al) = fee"

fun max_fee_per_gas_opt :: "TxEnvelope \<Rightarrow> u128 option" where
  "max_fee_per_gas_opt (Legacy tx s price) = None"
| "max_fee_per_gas_opt (Eip2930 tx s price al) = None"
| "max_fee_per_gas_opt (Eip1559 tx s fee al) = Some fee"
| "max_fee_per_gas_opt (Eip4844 tx s fee al) = Some fee"
| "max_fee_per_gas_opt (Eip7702 tx s fee al) = Some fee"

fun max_priority_fee_per_gas :: "alloy_fns \<Rightarrow> TxEnvelope \<Rightarrow> u128 option" where
  "max_priority_fee_per_gas A (Legacy tx s price) = None"
| "max_priority_fee_per_gas A (Eip2930 tx s price al) = None"
| "max_priority_fee_per_gas A (Eip1559 tx s fee al) = Some (al_priority_fee A (Eip1559 tx s fee al))"
| "max_priority_fee_per_gas A (Eip4844 tx s fee al) = Some (al_priority_fee A (Eip4844 tx s fee al))"
| "max_priority_fee_per_gas A (Eip7702 tx s fee al) = Some (al_priority_fee A (Eip7702 tx s fee al))"

definition decode_tx_metadata :: "externs \<Rightarrow> alloy_fns \<Rightarrow> bytes \<Rightarrow> TxMetadata option" where
  "decode_tx_metadata X A raw =
     (case ex_decode_2718 X raw of
        Inl _ \<Rightarrow> None
      | Inr envelope \<Rightarrow>
          (case ex_recover_signer X envelope of
             None \<Rightarrow> None
           | Some sender \<Rightarrow>
               (let c = env_common envelope; signature = env_signature envelope
                in Some \<lparr>tm_from = sender, tm_to = tc_to c, tm_value = tc_value c, tm_gas_limit = tc_gas_limit c,
                         tm_gas_price = transaction_gas_price envelope, tm_tx_type = transaction_type envelope,
                         tm_chain_id = tc_chain_id c, tm_max_fee_per_gas = max_fee_per_gas_opt envelope,
                         tm_max_priority_fee_per_gas = max_priority_fee_per_gas A envelope,
                         tm_v = signature_v A envelope, tm_r = sig_r signature, tm_s = sig_s signature,
                         tm_input = tc_input c, tm_nonce = tc_nonce c\<rparr>)))"

definition receipt_effective_gas_price :: "TxMetadata \<Rightarrow> u64 option \<Rightarrow> u128" where
  "receipt_effective_gas_price metadata base_fee_per_gas =
     (case tm_max_fee_per_gas metadata of
        None \<Rightarrow> tm_gas_price metadata
      | Some max_fee \<Rightarrow>
          (case base_fee_per_gas of
             None \<Rightarrow> max_fee
           | Some base_fee \<Rightarrow>
               (let priority_fee = (case tm_max_priority_fee_per_gas metadata of None \<Rightarrow> 0 | Some f \<Rightarrow> f)
                in min max_fee (saturating_add (ucast base_fee) priority_fee))))"

definition receipt_envelope :: "alloy_fns \<Rightarrow> ExecutionReceipt \<Rightarrow> TxMetadata \<Rightarrow> ReceiptEnvelope" where
  "receipt_envelope A receipt metadata =
     ReceiptEnvelope (if tm_tx_type metadata \<in> {0, 1, 2, 3, 4} then tm_tx_type metadata else 0)
       (er_success receipt) (er_cumulative_gas_used receipt) (er_logs receipt) (al_logs_bloom A (er_logs receipt))"

definition indexed_transaction :: "externs \<Rightarrow> Block \<Rightarrow> b256 \<Rightarrow> nat \<Rightarrow> Tx \<Rightarrow> TxMetadata \<Rightarrow> IndexedTransaction" where
  "indexed_transaction X block block_hash idx tx metadata =
     \<lparr>it_hash = ex_keccak256 X (tx_bytes tx), it_block_hash = block_hash, it_block_number = blk_height block,
      it_index = of_nat idx, it_from = tm_from metadata, it_to = tm_to metadata, it_value = tm_value metadata,
      it_gas_limit = tm_gas_limit metadata, it_gas_price = tm_gas_price metadata, it_tx_type = tm_tx_type metadata,
      it_chain_id = tm_chain_id metadata, it_max_fee_per_gas = tm_max_fee_per_gas metadata,
      it_max_priority_fee_per_gas = tm_max_priority_fee_per_gas metadata, it_v = tm_v metadata, it_r = tm_r metadata,
      it_s = tm_s metadata, it_input = tm_input metadata, it_nonce = tm_nonce metadata\<rparr>"

definition index_log :: "Block \<Rightarrow> b256 \<Rightarrow> b256 \<Rightarrow> u64 \<Rightarrow> u64 \<Rightarrow> Log \<Rightarrow> IndexedLog" where
  "index_log block block_hash transaction_hash transaction_index log_index log =
     \<lparr>il_address = log_address log, il_topics = log_topics log, il_data = log_data log, il_log_index = log_index,
      il_block_number = blk_height block, il_block_hash = block_hash, il_transaction_hash = transaction_hash,
      il_transaction_index = transaction_index\<rparr>"

text \<open>The loop over the receipts from position \<open>idx\<close>, with the next log index it carries.\<close>

fun index_receipts :: "alloy_fns \<Rightarrow> Block \<Rightarrow> b256 \<Rightarrow> u64 option \<Rightarrow> TxMetadata option list \<Rightarrow> nat \<Rightarrow> u64 \<Rightarrow>
    ExecutionReceipt list \<Rightarrow> IndexedReceipt list" where
  "index_receipts A block block_hash base_fee metadata idx next_log [] = []"
| "index_receipts A block block_hash base_fee metadata idx next_log (receipt # receipts) =
     (case (if idx < length metadata then metadata ! idx else None) of
        None \<Rightarrow> index_receipts A block block_hash base_fee metadata (Suc idx) next_log receipts
      | Some m \<Rightarrow>
          (let logs = map (\<lambda>(i, log). index_log block block_hash (er_tx_hash receipt) (of_nat idx) (next_log + of_nat i) log)
                        (enumerate 0 (er_logs receipt))
           in \<lparr>ir_transaction_hash = er_tx_hash receipt, ir_block_hash = block_hash, ir_block_number = blk_height block,
               ir_transaction_index = of_nat idx, ir_from = tm_from m, ir_to = tm_to m,
               ir_cumulative_gas_used = er_cumulative_gas_used receipt, ir_gas_used = er_gas_used receipt,
               ir_contract_address = er_contract_address receipt, ir_logs = logs,
               ir_logs_bloom = al_logs_bloom A (er_logs receipt), ir_tx_type = tm_tx_type m,
               ir_effective_gas_price = receipt_effective_gas_price m base_fee, ir_status = er_success receipt\<rparr>
              # index_receipts A block block_hash base_fee metadata (Suc idx) (next_log + of_nat (length (er_logs receipt)))
                  receipts))"

definition filter_decoded :: "externs \<Rightarrow> Tx list \<Rightarrow> TxEnvelope list" where
  "filter_decoded X txs =
     concat (map (\<lambda>tx. case ex_decode_2718 X (tx_bytes tx) of Inl _ \<Rightarrow> [] | Inr e \<Rightarrow> [e]) txs)"

definition index_finalized_block :: "externs \<Rightarrow> alloy_fns \<Rightarrow> Block \<Rightarrow> BlockContext \<Rightarrow> ExecutionOutcome \<Rightarrow> BlockIndex \<Rightarrow>
    BlockIndex" where
  "index_finalized_block X A block context outcome index =
     (let block_hash = fst (block_id X block);
          transaction_hashes = map (\<lambda>tx. ex_keccak256 X (tx_bytes tx)) (blk_txs block);
          tx_metadata = map (\<lambda>tx. decode_tx_metadata X A (tx_bytes tx)) (blk_txs block);
          tx_bytes_total = sum_list (map (\<lambda>tx. of_nat (length (tx_bytes tx)) :: u64) (blk_txs block));
          receipt_envelopes = concat (map (\<lambda>(receipt, metadata).
              case metadata of None \<Rightarrow> [] | Some m \<Rightarrow> [receipt_envelope A receipt m])
            (zip (eo_receipts outcome) tx_metadata));
          indexed_txs = concat (map (\<lambda>(idx, tx, metadata).
              case metadata of None \<Rightarrow> [] | Some m \<Rightarrow> [indexed_transaction X block block_hash idx tx m])
            (enumerate 0 (zip (blk_txs block) tx_metadata)));
          indexed_receipts = index_receipts A block block_hash (hd_base_fee_per_gas (bx_header context)) tx_metadata 0 0
            (eo_receipts outcome);
          block_logs_bloom = fold (\<lambda>receipt bloom. or bloom (ir_logs_bloom receipt)) indexed_receipts 0;
          indexed_block =
            \<lparr>ib_hash = block_hash, ib_number = blk_height block, ib_parent_hash = blk_parent block,
             ib_state_root = blk_state_root block,
             ib_transactions_root = al_transaction_root A (filter_decoded X (blk_txs block)),
             ib_receipts_root = al_receipt_root A receipt_envelopes, ib_timestamp = blk_timestamp block,
             ib_gas_limit = hd_gas_limit (bx_header context), ib_gas_used = eo_gas_used outcome,
             ib_base_fee_per_gas = hd_base_fee_per_gas (bx_header context), ib_mix_hash = blk_prevrandao block,
             ib_logs_bloom = block_logs_bloom, ib_size = 508 + tx_bytes_total,
             ib_transaction_hashes = transaction_hashes\<rparr>
      in insert_block indexed_block indexed_txs indexed_receipts index)"

section \<open>The log of destroyed contracts\<close>

text \<open>
  \<open>SelfdestructGcLog\<close>: a line per address. \<open>writes\<close> tells how many lines can be written before an I/O
  error ends the batch.
\<close>

type_synonym SelfdestructGcLog = "(u64 \<times> address) list"

definition gc_log_record :: "nat \<Rightarrow> u64 \<Rightarrow> address list \<Rightarrow> SelfdestructGcLog \<Rightarrow> SelfdestructGcLog" where
  "gc_log_record writes block_height addresses log =
     (if addresses = [] then log else log @ map (\<lambda>address. (block_height, address)) (take writes addresses))"

section \<open>The reporter\<close>

text \<open>
  The state of the reporter. \<open>fr_acknowledged\<close> is the list of the acknowledgements called so far, which
  the marshal behind them acts on.
\<close>

record ('w, 'ad, 'sd, 'cd, 'k) FinalizedReporter =
  fr_state :: "('w, 'ad, 'sd, 'cd) LedgerService"
  fr_block_index :: "BlockIndex option"
  fr_mempool_broadcast :: "MempoolEvent list option"
  fr_gc_log :: "SelfdestructGcLog option"
  fr_checkpoint_interval :: u64
  fr_pending_acks :: "'k list"
  fr_acknowledged :: "'k list"
  fr_node_state :: "NodeState option"

definition DEFAULT_CHECKPOINT_INTERVAL :: u64 where
  "DEFAULT_CHECKPOINT_INTERVAL = 1"

definition reporter_new :: "('w, 'ad, 'sd, 'cd) LedgerService \<Rightarrow> ('w, 'ad, 'sd, 'cd, 'k) FinalizedReporter" where
  "reporter_new state =
     \<lparr>fr_state = state, fr_block_index = None, fr_mempool_broadcast = None, fr_gc_log = None,
      fr_checkpoint_interval = DEFAULT_CHECKPOINT_INTERVAL, fr_pending_acks = [], fr_acknowledged = [],
      fr_node_state = None\<rparr>"

definition with_block_index :: "BlockIndex \<Rightarrow> ('w, 'ad, 'sd, 'cd, 'k) FinalizedReporter \<Rightarrow>
    ('w, 'ad, 'sd, 'cd, 'k) FinalizedReporter" where
  "with_block_index index r = r\<lparr>fr_block_index := Some index\<rparr>"

definition with_mempool_broadcast :: "MempoolEvent list \<Rightarrow> ('w, 'ad, 'sd, 'cd, 'k) FinalizedReporter \<Rightarrow>
    ('w, 'ad, 'sd, 'cd, 'k) FinalizedReporter" where
  "with_mempool_broadcast sender r = r\<lparr>fr_mempool_broadcast := Some sender\<rparr>"

definition with_gc_log :: "SelfdestructGcLog \<Rightarrow> ('w, 'ad, 'sd, 'cd, 'k) FinalizedReporter \<Rightarrow>
    ('w, 'ad, 'sd, 'cd, 'k) FinalizedReporter" where
  "with_gc_log gc_log r = r\<lparr>fr_gc_log := Some gc_log\<rparr>"

definition reporter_with_node_state :: "NodeState \<Rightarrow> ('w, 'ad, 'sd, 'cd, 'k) FinalizedReporter \<Rightarrow>
    ('w, 'ad, 'sd, 'cd, 'k) FinalizedReporter" where
  "reporter_with_node_state node_state r = r\<lparr>fr_node_state := Some node_state\<rparr>"

definition with_checkpoint_interval :: "u64 \<Rightarrow> ('w, 'ad, 'sd, 'cd, 'k) FinalizedReporter \<Rightarrow>
    ('w, 'ad, 'sd, 'cd, 'k) FinalizedReporter" where
  "with_checkpoint_interval interval r = r\<lparr>fr_checkpoint_interval := (if interval = 0 then 1 else interval)\<rparr>"

definition is_checkpoint :: "u64 \<Rightarrow> u64 \<Rightarrow> bool" where
  "is_checkpoint checkpoint_interval height \<longleftrightarrow> checkpoint_interval \<le> 1 \<or> height mod checkpoint_interval = 0"

definition acknowledge_checkpoint :: "u64 \<Rightarrow> 'k \<Rightarrow> ('w, 'ad, 'sd, 'cd, 'k) FinalizedReporter \<Rightarrow>
    ('w, 'ad, 'sd, 'cd, 'k) FinalizedReporter" where
  "acknowledge_checkpoint height ack r =
     (if is_checkpoint (fr_checkpoint_interval r) height
      then r\<lparr>fr_acknowledged := fr_acknowledged r @ fr_pending_acks r @ [ack], fr_pending_acks := []\<rparr>
      else r\<lparr>fr_pending_acks := fr_pending_acks r @ [ack]\<rparr>)"

definition publish_mempool_inclusions :: "externs \<Rightarrow> Block \<Rightarrow> MempoolEvent list option \<Rightarrow> MempoolEvent list option" where
  "publish_mempool_inclusions X block sender =
     (case sender of
        None \<Rightarrow> None
      | Some events \<Rightarrow>
          (let block_hash = fst (block_id X block)
           in Some (events @ map (\<lambda>tx. TxIncluded (ex_keccak256 X (tx_bytes tx)) (blk_height block) block_hash)
                (blk_txs block))))"

datatype 'k Update = Tip | BlockUpdate Block 'k

text \<open>A handled update goes on, or ends the process with an abort.\<close>

datatype 'r handled = Continue 'r | Abort FinalizationError

definition record_outcome :: "externs \<Rightarrow> alloy_fns \<Rightarrow> nat \<Rightarrow> Block \<Rightarrow> ExecutionOutcome option \<times> BlockContext option \<Rightarrow>
    ('w, 'ad, 'sd, 'cd, 'k) FinalizedReporter \<Rightarrow> ('w, 'ad, 'sd, 'cd, 'k) FinalizedReporter" where
  "record_outcome X A writes block result r =
     (case result of
        (Some outcome, Some context) \<Rightarrow>
          (let r1 = (case fr_block_index r of
                       None \<Rightarrow> r
                     | Some index \<Rightarrow>
                         (let index1 = index_finalized_block X A block context outcome index;
                              min_height = saturating_sub (blk_height block) MAX_RETAINED_BLOCKS
                          in r\<lparr>fr_block_index := Some (if min_height > 0 then prune_before min_height index1 else index1)\<rparr>))
           in if eo_selfdestructed_addresses outcome \<noteq> []
              then r1\<lparr>fr_gc_log := map_option (gc_log_record writes (blk_height block)
                     (eo_selfdestructed_addresses outcome)) (fr_gc_log r1)\<rparr>
              else r1)
      | _ \<Rightarrow> r)"

definition handle_finalized_update :: "externs \<Rightarrow> alloy_fns \<Rightarrow> ('w, 'ad, 'am, 'sd, 'sm, 'cd, 'cm) backend_dbs \<Rightarrow>
    ('w, 'ad, 'sd, 'cd) QmdbState OverlayState block_executor \<Rightarrow> context_provider \<Rightarrow>
    (nat \<Rightarrow> ('w, 'ad, 'sd, 'cd) attempt_env) \<Rightarrow> nat \<Rightarrow> 'k Update \<Rightarrow> ('w, 'ad, 'sd, 'cd, 'k) FinalizedReporter \<Rightarrow>
    (('w, 'ad, 'sd, 'cd, 'k) FinalizedReporter handled) option" where
  "handle_finalized_update X A B E P envs writes update r =
     (case update of
        Tip \<Rightarrow> Some (Continue r)
      | BlockUpdate block ack \<Rightarrow>
          (let r1 = r\<lparr>fr_node_state := map_option (set_finalized_height (blk_height block)) (fr_node_state r)\<rparr>;
               persist_checkpoint = is_checkpoint (fr_checkpoint_interval r) (blk_height block)
           in case finalize_with_retry X B E P envs (fr_block_index r1) block persist_checkpoint (fr_state r1) of
                None \<Rightarrow> None
              | Some (svc, Inl e) \<Rightarrow> Some (Abort e)
              | Some (svc, Inr result) \<Rightarrow>
                  (let r2 = record_outcome X A writes block result (r1\<lparr>fr_state := svc\<rparr>);
                       r3 = acknowledge_checkpoint (blk_height block) ack r2;
                       svc1 = svc_on (lv_prune_stale_nonces X B) (svc_on (lv_prune_mempool X (blk_txs block)) (fr_state r3))
                   in Some (Continue (r3\<lparr>fr_state := svc1,
                        fr_mempool_broadcast := publish_mempool_inclusions X block (fr_mempool_broadcast r3)\<rparr>)))))"

end
