(* ===== verification/Finalization_Properties.thy ===== *)
theory Finalization_Properties
  imports Finalization
begin

text \<open>
  Properties of finalization: what a checkpoint persists and acknowledges, what a dead persistence
  task leads to, how the contexts of verification and of finalization differ, and the numbering of
  indexed logs.
\<close>

section \<open>Checkpoints\<close>

lemma svc_on_view [simp]: "svc_view (svc_on f svc) = f (svc_view svc)"
  by (simp add: svc_on_def)

definition idle :: "('w, 'ad, 'sd, 'cd) LedgerView \<Rightarrow> bool" where
  "idle v \<longleftrightarrow> bt_wf (ss_snapshots (lv_snapshots v)) \<and> ss_persisting (lv_snapshots v) = []"

lemma persist_ok_persists:
  assumes "lv_persist_snapshot X B d v = Some (v', Inr b)" and "idle v"
  shows "is_persisted (lv_snapshots v') d"
    and "chain_from (is_persisted (lv_snapshots v)) (ss_get (lv_snapshots v)) (Some d) ch \<Longrightarrow>
      x \<in> fst ` set ch \<Longrightarrow> is_persisted (lv_snapshots v') x"
proof -
  let ?ss = "lv_snapshots v"
  obtain ws where ws: "walk_chain (is_persisted ?ss) (ss_get ?ss) (Some d) [] = Some (Inr ws)"
  proof -
    obtain v1 r where "persist_begin d v = Some (v1, Inr r)"
      using assms(1) by (auto simp: lv_persist_snapshot_def split: option.splits sum.splits)
    then show ?thesis using that
      by (auto simp: persist_begin_def changes_for_persist_def split: option.splits sum.splits)
  qed
  have cf: "chain_from (is_persisted ?ss) (ss_get ?ss) (Some d) ws" using ws by (simp add: walk_chain_iff)
  have chain: "changes_for_persist ?ss d = Some (Inr (rev (map fst ws), merge_all (rev (map (\<lambda>(d, s). sn_changes s) ws))))"
    using ws by (simp add: changes_for_persist_def)
  have can: "can_persist_chain ?ss (rev (map fst ws))"
    using chain_from_members [OF cf] assms(2) by (auto simp: can_persist_chain_def list_all_iff idle_def is_persisted_def)
  have all: "is_persisted (lv_snapshots v') d \<and> (\<forall>x \<in> fst ` set ws. is_persisted (lv_snapshots v') x)"
  proof (cases "ws = []")
    case True
    then have "persist_begin d v = Some (v, Inr None)" using chain by (simp add: persist_begin_def)
    then have "v' = v" using assms(1) by (simp add: lv_persist_snapshot_def)
    moreover have "is_persisted ?ss d" using chain_from_empty [OF cf] True by simp
    ultimately show ?thesis using True by simp
  next
    case False
    let ?chain = "rev (map fst ws)"
    let ?changes = "merge_all (rev (map (\<lambda>(d, s). sn_changes s) ws))"
    let ?v1 = "v\<lparr>lv_snapshots := mark_persisting_chain ?chain ?ss\<rparr>"
    have b: "persist_begin d v = Some (?v1, Inr (Some (?chain, ?changes)))"
      using chain can False by (simp add: persist_begin_def)
    obtain qmdb result where com: "ledger_commit_changes X B ?changes (lv_qmdb ?v1) = (qmdb, result)" by fastforce
    obtain out where fin: "persist_finish ?chain result (?v1\<lparr>lv_qmdb := qmdb\<rparr>) = (v', out)"
      "out = Inr ()"
      using assms(1) b com by (auto simp: lv_persist_snapshot_def split: prod.splits sum.splits)
    have wf: "bt_wf (ss_snapshots (lv_snapshots (?v1\<lparr>lv_qmdb := qmdb\<rparr>)))" using assms(2) by (simp add: idle_def)
    have mem: "\<forall>x \<in> set ?chain. ss_get (lv_snapshots (?v1\<lparr>lv_qmdb := qmdb\<rparr>)) x \<noteq> None"
      using chain_from_members [OF cf] by auto
    have sp: "set (ss_persisted (lv_snapshots v')) =
        set (ss_persisted ?ss) \<union> (case result of Inl _ \<Rightarrow> {} | Inr _ \<Rightarrow> set ?chain)"
      "out = (case result of Inl e \<Rightarrow> Inl (LedgerQmdb e) | Inr _ \<Rightarrow> Inr ())"
      using persist_finish_spec [OF fin(1) wf mem] by auto
    then have "\<forall>x \<in> set ?chain. is_persisted (lv_snapshots v') x"
      using fin(2) by (cases result) (auto simp: is_persisted_def)
    moreover have "d \<in> set ?chain"
      using False chain_from_head [of "is_persisted ?ss" "ss_get ?ss" d "hd ws" "tl ws"] cf by (cases ws) auto
    ultimately show ?thesis by auto
  qed
  then show "is_persisted (lv_snapshots v') d" by blast
  assume "chain_from (is_persisted ?ss) (ss_get ?ss) (Some d) ch" "x \<in> fst ` set ch"
  then show "is_persisted (lv_snapshots v') x" using all chain_from_unique [OF cf] by blast
qed

lemma persist_failed_keeps:
  assumes "lv_persist_snapshot X B d v = Some (v', Inl e)" and "idle v"
  shows "ss_get (lv_snapshots v') = ss_get (lv_snapshots v)" and "is_persisted (lv_snapshots v') = is_persisted (lv_snapshots v)"
    and "idle v'"
proof -
  obtain v1 r where b: "persist_begin d v = Some (v1, r)"
    using assms(1) by (auto simp: lv_persist_snapshot_def split: option.splits)
  have "ss_get (lv_snapshots v') = ss_get (lv_snapshots v) \<and> is_persisted (lv_snapshots v') = is_persisted (lv_snapshots v) \<and>
    idle v'"
  proof (cases "\<exists>chain changes. r = Inr (Some (chain, changes))")
    case False
    then have "v' = v" using assms(1) b
      by (auto simp: lv_persist_snapshot_def persist_begin_def split: option.splits sum.splits if_splits)
    then show ?thesis using assms(2) by simp
  next
    case True
    then obtain chain changes where r: "r = Inr (Some (chain, changes))" by blast
    note started = persist_begin_cases [OF b [unfolded r]]
    obtain qmdb result where com: "ledger_commit_changes X B changes (lv_qmdb v1) = (qmdb, result)" by fastforce
    let ?v2 = "v1\<lparr>lv_qmdb := qmdb\<rparr>"
    obtain e' where fin: "persist_finish chain result ?v2 = (v', Inl e')"
      using assms(1) b r com by (auto simp: lv_persist_snapshot_def split: prod.splits sum.splits)
    have wf: "bt_wf (ss_snapshots (lv_snapshots ?v2))" using assms(2) started(1) by (simp add: idle_def)
    have mem: "\<forall>x \<in> set chain. ss_get (lv_snapshots ?v2) x \<noteq> None" using started(1,3) by simp
    obtain err where res: "result = Inl err"
      using persist_finish_spec [OF fin wf mem] by (cases result) auto
    then have v': "v' = ?v2\<lparr>lv_snapshots := clear_persisting_chain chain (lv_snapshots ?v2)\<rparr>"
      using fin by (simp add: persist_finish_def Let_def)
    have "set (ss_persisting (lv_snapshots v')) = {}" using assms(2) started(1) by (simp add: v' idle_def)
    then have "ss_persisting (lv_snapshots v') = []" by (simp only: set_empty)
    moreover have "bt_wf (ss_snapshots (lv_snapshots v'))" using wf by (simp add: v')
    ultimately have "idle v'" by (simp add: idle_def)
    then show ?thesis using started(1) by (simp add: v' is_persisted_def fun_eq_iff)
  qed
  then show "ss_get (lv_snapshots v') = ss_get (lv_snapshots v)" "is_persisted (lv_snapshots v') = is_persisted (lv_snapshots v)"
    "idle v'" by blast+
qed

lemma persist_ok_idle:
  assumes "lv_persist_snapshot X B d v = Some (v', Inr b)" and "idle v"
  shows "idle v'"
proof -
  obtain v1 r where pb: "persist_begin d v = Some (v1, r)"
    using assms(1) by (auto simp: lv_persist_snapshot_def split: option.splits)
  show ?thesis
  proof (cases "\<exists>chain changes. r = Inr (Some (chain, changes))")
    case False
    then have "v' = v" using assms(1) pb
      by (auto simp: lv_persist_snapshot_def persist_begin_def split: option.splits sum.splits if_splits)
    then show ?thesis using assms(2) by simp
  next
    case True
    then obtain chain changes where r: "r = Inr (Some (chain, changes))" by blast
    note started = persist_begin_cases [OF pb [unfolded r]]
    obtain qmdb result where com: "ledger_commit_changes X B changes (lv_qmdb v1) = (qmdb, result)" by fastforce
    let ?v2 = "v1\<lparr>lv_qmdb := qmdb\<rparr>"
    obtain out where fin: "persist_finish chain result ?v2 = (v', out)"
      using assms(1) pb r com by (auto simp: lv_persist_snapshot_def split: prod.splits sum.splits)
    have wf: "bt_wf (ss_snapshots (lv_snapshots ?v2))" using assms(2) started(1) by (simp add: idle_def)
    have mem: "\<forall>x \<in> set chain. ss_get (lv_snapshots ?v2) x \<noteq> None" using started(1,3) by simp
    have "set (ss_persisting (lv_snapshots v')) = {}" "bt_wf (ss_snapshots (lv_snapshots v'))"
      using persist_finish_spec [OF fin wf mem] assms(2) started(1) by (auto simp: idle_def)
    then show ?thesis by (simp add: idle_def)
  qed
qed

text \<open>
  A ledger on which a block can be finalized: the parent's snapshot is there, \<open>ch\<close> is its unpersisted
  path, and the block is new or held as a child of that parent.
\<close>

definition ready_for :: "externs \<Rightarrow> Block \<Rightarrow> (ConsensusDigest \<times> LedgerSnapshot) list \<Rightarrow> ('w, 'ad, 'sd, 'cd) LedgerView \<Rightarrow> bool" where
  "ready_for X block ch v \<longleftrightarrow> idle v \<and>
     parent_snapshot (block_parent_digest X block) v \<noteq> None \<and>
     chain_from (is_persisted (lv_snapshots v)) (ss_get (lv_snapshots v)) (Some (block_parent_digest X block)) ch \<and>
     \<not> is_persisted (lv_snapshots v) (block_commitment X block) \<and>
     (\<forall>s. parent_snapshot (block_commitment X block) v = Some s \<longrightarrow> sn_parent s = Some (block_parent_digest X block))"

lemma chain_from_insert:
  "chain_from p (ss_get ss) cur ch \<Longrightarrow> ss_get ss d = None \<Longrightarrow> chain_from p (ss_get (ss_insert d s ss)) cur ch"
proof (induction rule: chain_from.induct)
  case (link e t ch)
  then have "ss_get (ss_insert d s ss) e = Some t" by auto
  then show ?case using link by (intro chain_from.link) auto
qed (auto intro: chain_from.intros)

lemma ready_insert:
  assumes "ready_for X block ch v" and "ss_get (lv_snapshots v) (block_commitment X block) = None"
  shows "ready_for X block ch (insert_snapshot X (block_commitment X block) (block_parent_digest X block) st root c txs v)"
proof -
  let ?s = "snapshot_new (Some (block_parent_digest X block)) st root c (block_tx_ids X txs)"
  let ?ss = "ss_insert (block_commitment X block) ?s (lv_snapshots v)"
  have "bt_wf (ss_snapshots ?ss)" using assms(1) by (auto simp: ready_for_def idle_def ss_insert_def)
  moreover have "is_persisted ?ss = is_persisted (lv_snapshots v)" by (simp add: fun_eq_iff is_persisted_def)
  moreover have "chain_from (is_persisted (lv_snapshots v)) (ss_get ?ss) (Some (block_parent_digest X block)) ch"
    using assms by (intro chain_from_insert) (auto simp: ready_for_def)
  moreover have "sn_parent ?s = Some (block_parent_digest X block)" by (simp add: snapshot_new_def)
  ultimately show ?thesis
    using assms by (auto simp: ready_for_def idle_def insert_snapshot_def parent_snapshot_def)
qed

lemma replay_ready:
  assumes "finalize_replay X E P env index block svc = Some (svc1, res)" and "ready_for X block ch (svc_view svc)"
  shows "ready_for X block ch (svc_view svc1)" and "res = Inr out \<Longrightarrow> parent_snapshot (block_commitment X block) (svc_view svc1) \<noteq> None"
proof -
  let ?known = "query_state_root (block_commitment X block) (svc_view svc) \<noteq> None"
  obtain parent where "parent_snapshot (block_parent_digest X block) (svc_view svc) = Some parent"
    using assms(2) by (auto simp: ready_for_def)
  then have fp: "find_parent env b (block_parent_digest X block) (svc_view svc) = Some parent" for b
    by (simp add: find_parent_def)
  have "ready_for X block ch (svc_view svc1) \<and>
      (res = Inr out \<longrightarrow> parent_snapshot (block_commitment X block) (svc_view svc1) \<noteq> None)"
  proof (cases "svc1 = svc")
    case True
    have "?known" if "res = Inr out"
      using assms(1) that True fp
      by (auto simp: finalize_replay_def replay_block_def Let_def query_state_root_def svc_on_def insert_snapshot_def
          split: if_splits option.splits sum.splits prod.splits dest!: arg_cong [where f = "\<lambda>s. ss_get (lv_snapshots (svc_view s)) (block_commitment X block)"])
    then show ?thesis using True assms(2) by (auto simp: query_state_root_def parent_snapshot_def)
  next
    case False
    then obtain st root c where svc1: "svc1 = svc_on (insert_snapshot X (block_commitment X block) (block_parent_digest X block)
        st root c (blk_txs block)) svc" and new: "\<not> ?known"
      using assms(1) fp
      by (auto simp: finalize_replay_def replay_block_def Let_def split: if_splits option.splits sum.splits prod.splits)
    have "ready_for X block ch (svc_view svc1)"
      using ready_insert [OF assms(2)] new by (simp add: svc1 query_state_root_def)
    then show ?thesis by (simp add: svc1 insert_snapshot_def parent_snapshot_def)
  qed
  then show "ready_for X block ch (svc_view svc1)" "res = Inr out \<Longrightarrow> parent_snapshot (block_commitment X block) (svc_view svc1) \<noteq> None"
    by blast+
qed

text \<open>The block and its unpersisted path have been persisted.\<close>

definition persisted_path :: "externs \<Rightarrow> Block \<Rightarrow> (ConsensusDigest \<times> LedgerSnapshot) list \<Rightarrow> ('w, 'ad, 'sd, 'cd) LedgerView \<Rightarrow> bool" where
  "persisted_path X block ch v \<longleftrightarrow> idle v \<and> is_snapshot_persisted (block_commitment X block) v \<and>
     (\<forall>x \<in> fst ` set ch. is_snapshot_persisted x v)"

lemma persist_snapshot_view:
  assumes "persist_snapshot X B d svc = Some (svc', res)"
  obtains b where "lv_persist_snapshot X B d (svc_view svc) = Some (svc_view svc', case res of Inl e \<Rightarrow> Inl e | Inr _ \<Rightarrow> Inr b)"
  using assms
  by (auto simp: persist_snapshot_def service_publish_def Let_def split: option.splits sum.splits prod.splits)

lemma finalize_attempt:
  assumes "finalize_block X B E P env index block True svc = Some (svc', res)" and "fe_dies env = None"
    and "ready_for X block ch (svc_view svc)"
  shows "case res of Inl _ \<Rightarrow> ready_for X block ch (svc_view svc') | Inr _ \<Rightarrow> persisted_path X block ch (svc_view svc')"
proof -
  obtain svc1 r where rep: "finalize_replay X E P env index block svc = Some (svc1, r)"
    using assms(1) by (auto simp: finalize_block_def split: option.splits)
  have rdy: "ready_for X block ch (svc_view svc1)" by (rule replay_ready(1) [OF rep assms(3)])
  show ?thesis
  proof (cases r)
    case (Inl e)
    then show ?thesis using assms(1) rep rdy by (auto simp: finalize_block_def)
  next
    case (Inr out)
    let ?d = "block_commitment X block" let ?v = "svc_view svc1"
    have fp: "(case finalize_persist X B env ?d svc1 of None \<Rightarrow> None
         | Some (svc2, Inl e) \<Rightarrow> Some (svc2, Inl e) | Some (svc2, Inr _) \<Rightarrow> Some (svc2, Inr out)) = Some (svc', res)"
      using assms(1) rep Inr by (simp add: finalize_block_def)
    then obtain pr where ps: "persist_snapshot X B ?d svc1 = Some (svc', pr)"
      and res: "res = (case pr of Inl e \<Rightarrow> Inl (PersistFailed e) | Inr _ \<Rightarrow> Inr out)"
      by (auto simp: finalize_persist_def assms(2) split: option.splits sum.splits prod.splits)
    from persist_snapshot_view [OF ps] obtain b where
      lv: "lv_persist_snapshot X B ?d ?v = Some (svc_view svc', case pr of Inl e \<Rightarrow> Inl e | Inr _ \<Rightarrow> Inr b)" by blast
    have idle: "idle ?v" using rdy by (simp add: ready_for_def)
    obtain s where s: "ss_get (lv_snapshots ?v) ?d = Some s"
      using replay_ready(2) [OF rep assms(3) Inr] by (auto simp: parent_snapshot_def)
    have cf: "chain_from (is_persisted (lv_snapshots ?v)) (ss_get (lv_snapshots ?v)) (Some ?d) ((?d, s) # ch)"
      using rdy s by (intro chain_from.link) (auto simp: ready_for_def parent_snapshot_def)
    show ?thesis
    proof (cases pr)
      case (Inl e)
      then have "lv_persist_snapshot X B ?d ?v = Some (svc_view svc', Inl e)" using lv by simp
      from persist_failed_keeps [OF this idle] show ?thesis
        using rdy res Inl by (simp add: ready_for_def parent_snapshot_def)
    next
      case (Inr u)
      then have ok: "lv_persist_snapshot X B ?d ?v = Some (svc_view svc', Inr b)" using lv by simp
      show ?thesis
        using persist_ok_idle [OF ok idle] persist_ok_persists(1) [OF ok idle] persist_ok_persists(2) [OF ok idle cf]
        by (auto simp: res Inr persisted_path_def is_snapshot_persisted_def)
    qed
  qed
qed

lemma retry_loop_persists:
  "retry_loop X B E P envs index block True attempt n svc = Some (svc', Inr out) \<Longrightarrow> \<forall>i. fe_dies (envs i) = None \<Longrightarrow>
     ready_for X block ch (svc_view svc) \<Longrightarrow> persisted_path X block ch (svc_view svc')"
proof (induction n arbitrary: attempt svc)
  case (Suc n)
  obtain svc1 r where fb: "finalize_block X B E P (envs attempt) index block True svc = Some (svc1, r)"
    using Suc(2) by (auto split: option.splits)
  have d: "fe_dies (envs attempt) = None" using Suc(3) by simp
  note att = finalize_attempt [OF fb d Suc(4)]
  show ?case
  proof (cases r)
    case (Inl e)
    then have "retry_loop X B E P envs index block True (attempt + 1) n svc1 = Some (svc', Inr out)"
      using Suc(2) fb by (auto split: if_splits)
    from Suc(1) [OF this Suc(3)] show ?thesis using att Inl by simp
  next
    case (Inr o')
    then show ?thesis using Suc(2) fb att by auto
  qed
qed simp

lemma persisted_path_pruned:
  "persisted_path X block ch v \<Longrightarrow>
     persisted_path X block ch (lv_prune_stale_nonces X B (lv_prune_mempool X txs v))"
  by (auto simp: persisted_path_def idle_def is_snapshot_persisted_def lv_prune_stale_nonces_def lv_prune_mempool_def Let_def)

lemma record_outcome_simps [simp]:
  "fr_state (record_outcome X A w block result r) = fr_state r"
  "fr_checkpoint_interval (record_outcome X A w block result r) = fr_checkpoint_interval r"
  "fr_pending_acks (record_outcome X A w block result r) = fr_pending_acks r"
  "fr_acknowledged (record_outcome X A w block result r) = fr_acknowledged r"
  by (auto simp: record_outcome_def Let_def split: prod.split option.split)

text \<open>
  C3: blocks are acknowledged at checkpoints only, and then they are persisted. When a finalized
  block has been handled, no persistence task having died: between checkpoints its acknowledgement is held
  back and none is sent; at a checkpoint all held acknowledgements and its own are sent in order, and by then
  the block and every unpersisted ancestor are persisted.
\<close>

theorem checkpoint_acknowledges_persisted:
  assumes "handle_finalized_update X A B E P envs writes (BlockUpdate block ack) r = Some (Continue r')"
    and "\<forall>i. fe_dies (envs i) = None" and "ready_for X block ch (svc_view (fr_state r))"
  shows "if is_checkpoint (fr_checkpoint_interval r) (blk_height block)
    then fr_acknowledged r' = fr_acknowledged r @ fr_pending_acks r @ [ack] \<and> fr_pending_acks r' = [] \<and>
      persisted_path X block ch (svc_view (fr_state r'))
    else fr_acknowledged r' = fr_acknowledged r \<and> fr_pending_acks r' = fr_pending_acks r @ [ack]"
proof -
  let ?cp = "is_checkpoint (fr_checkpoint_interval r) (blk_height block)"
  obtain svc out where fin: "finalize_with_retry X B E P envs (fr_block_index r) block ?cp (fr_state r) = Some (svc, Inr out)"
    using assms(1) by (auto simp: handle_finalized_update_def Let_def split: option.splits sum.splits prod.splits)
  have r': "fr_state r' = svc_on (lv_prune_stale_nonces X B) (svc_on (lv_prune_mempool X (blk_txs block)) svc)"
    "fr_acknowledged r' = (if ?cp then fr_acknowledged r @ fr_pending_acks r @ [ack] else fr_acknowledged r)"
    "fr_pending_acks r' = (if ?cp then [] else fr_pending_acks r @ [ack])"
    using assms(1) fin by (auto simp: handle_finalized_update_def Let_def acknowledge_checkpoint_def)
  have "persisted_path X block ch (svc_view svc)" if ?cp
    using fin that retry_loop_persists [OF _ assms(2,3)] by (simp add: finalize_with_retry_def)
  then show ?thesis using r' persisted_path_pruned by (auto simp: persisted_path_pruned)
qed

lemma persist_ready:
  assumes "idle v" and "changes_for_persist (lv_snapshots v) d = Some (Inr (chain, changes))" and "chain \<noteq> []"
    and "\<And>l. lv_qmdb v = l \<Longrightarrow> \<exists>l' root. ledger_commit_changes X B changes l = (l', Inr root)"
  shows "\<exists>v'. lv_persist_snapshot X B d v = Some (v', Inr True)"
proof -
  let ?ss = "lv_snapshots v"
  let ?v1 = "v\<lparr>lv_snapshots := mark_persisting_chain chain ?ss\<rparr>"
  obtain ws where ws: "walk_chain (is_persisted ?ss) (ss_get ?ss) (Some d) [] = Some (Inr ws)" "chain = rev (map fst ws)"
    using assms(2) by (auto simp: changes_for_persist_def split: option.splits sum.splits)
  then have cf: "chain_from (is_persisted ?ss) (ss_get ?ss) (Some d) ws" by (simp add: walk_chain_iff)
  have "can_persist_chain ?ss chain"
    using chain_from_members [OF cf] assms(1) by (auto simp: ws(2) can_persist_chain_def list_all_iff idle_def is_persisted_def)
  then have b: "persist_begin d v = Some (?v1, Inr (Some (chain, changes)))" using assms(2,3) by (simp add: persist_begin_def)
  obtain qmdb root where com: "ledger_commit_changes X B changes (lv_qmdb ?v1) = (qmdb, Inr root)" using assms(4) by auto
  obtain v' out where fin: "persist_finish chain (Inr root) (?v1\<lparr>lv_qmdb := qmdb\<rparr>) = (v', out)" by fastforce
  have wf: "bt_wf (ss_snapshots (lv_snapshots (?v1\<lparr>lv_qmdb := qmdb\<rparr>)))" using assms(1) by (simp add: idle_def)
  have mem: "\<forall>x \<in> set chain. ss_get (lv_snapshots (?v1\<lparr>lv_qmdb := qmdb\<rparr>)) x \<noteq> None"
    using chain_from_members [OF cf] by (auto simp: ws(2))
  have "out = Inr ()" using persist_finish_spec [OF fin wf mem] by simp
  then show ?thesis using b com fin by (simp add: lv_persist_snapshot_def)
qed

text \<open>The sample node with a reporter that indexes.\<close>

definition sample_reporter ::
    "(sample_disk, bytes \<Rightarrow> bytes option, bytes \<Rightarrow> u256 option, bytes \<Rightarrow> bytes option, nat) FinalizedReporter" where
  "sample_reporter = with_block_index block_index_new (reporter_new (service_new genesis_view))"

definition quiet_env :: "nat \<Rightarrow> (sample_disk, bytes \<Rightarrow> bytes option, bytes \<Rightarrow> u256 option, bytes \<Rightarrow> bytes option) attempt_env" where
  "quiet_env _ = \<lparr>fe_looks = [], fe_dies = None\<rparr>"

definition sample_alloy :: alloy_fns where
  "sample_alloy = \<lparr>al_transaction_root = (\<lambda>_. 0), al_receipt_root = (\<lambda>_. 0), al_logs_bloom = (\<lambda>_. 0),
     al_eip155_value = (\<lambda>_ _. 0), al_priority_fee = (\<lambda>_. 0)\<rparr>"

abbreviation sample_provider :: context_provider where
  "sample_provider \<equiv> revm_context_provider 30000000 9"

lemma genesis_idle: "idle genesis_view"
  by (simp add: idle_def genesis_view_def ss_insert_def snapshot_store_new_def with_max_persisted_retained_def)

lemma genesis_persisted [simp]: "is_persisted (lv_snapshots genesis_view) d \<longleftrightarrow> d = 0"
  by (simp add: is_persisted_def genesis_view_def snapshot_store_new_def with_max_persisted_retained_def)

lemma sample_ready: "ready_for height_externs sample_child [] genesis_view"
  by (auto simp: ready_for_def genesis_idle parent_snapshot_def intro: chain_from.boundary)

definition child_view :: "ExecutionOutcome \<Rightarrow> (sample_disk, bytes \<Rightarrow> bytes option, bytes \<Rightarrow> u256 option, bytes \<Rightarrow> bytes option) LedgerView" where
  "child_view outcome = insert_snapshot height_externs 1 0
     (overlay_new () (overlay_merge_changes (sn_state genesis_snapshot) (eo_changes outcome))) sample_root
     (eo_changes outcome) [] genesis_view"

lemma sample_replay:
  "\<exists>context outcome. finalize_replay height_externs sample_executor sample_provider env (Some block_index_new) sample_child
     (service_new genesis_view) = Some ((service_new genesis_view)\<lparr>svc_view := child_view outcome\<rparr>, Inr (Some outcome, Some context)) \<and>
     eo_changes outcome = changes_new"
proof -
  obtain ctx where ctx: "sample_provider (Some block_index_new) sample_child = Some ctx"
    by (simp add: revm_context_provider_def revm_context_def provider_base_fee_def get_block_by_number_def block_index_new_def)
  obtain outcome where out: "sample_executor (overlay_at genesis_view (sn_state genesis_snapshot)) ctx [] = Inr (Inr outcome)"
    "eo_changes outcome = changes_new" using sample_executor_empty by blast
  then show ?thesis using ctx
    by (simp add: finalize_replay_def Let_def query_state_root_def find_parent_def parent_snapshot_def replay_block_def
        block_execution_def compute_root_from_store_def svc_on_def child_view_def)
      (simp add: genesis_snapshot_def snapshot_new_def)
qed

lemma sample_persist:
  assumes "eo_changes outcome = changes_new"
  shows "\<exists>v'. lv_persist_snapshot height_externs sample_backend 1 (child_view outcome) = Some (v', Inr True)"
proof (rule persist_ready)
  show "idle (child_view outcome)"
    using ready_insert [OF sample_ready] by (simp add: child_view_def ready_for_def)
  show "changes_for_persist (lv_snapshots (child_view outcome)) 1 = Some (Inr ([1], merge_all [changes_new]))"
    using assms
    by (simp add: changes_for_persist_def walk_chain.simps child_view_def insert_snapshot_def is_persisted_def
        snapshot_new_def genesis_persisted [unfolded is_persisted_def])
  fix l
  assume "lv_qmdb (child_view outcome) = l"
  then have "qs_stores (qh_inner (ql_handle l)) =
      Some \<lparr>st_accounts = Some Map.empty, st_storage = Some Map.empty, st_code = Some Map.empty\<rparr>"
    by (auto simp: child_view_def insert_snapshot_def genesis_view_def with_root_provider_def from_store_def
        set_commit_seq_def qmdb_new_def)
  then show "\<exists>l' root. ledger_commit_changes height_externs sample_backend (merge_all [changes_new]) l = (l', Inr root)"
    by (rule sample_ledger_commit)
qed simp

theorem checkpoint_acknowledges_persisted_witness:
  "\<exists>r'. handle_finalized_update height_externs sample_alloy sample_backend sample_executor sample_provider quiet_env 0
       (BlockUpdate sample_child 7) sample_reporter = Some (Continue r') \<and>
     fr_acknowledged r' = [7] \<and> is_snapshot_persisted 1 (svc_view (fr_state r'))"
proof -
  obtain ctx outcome where rep: "finalize_replay height_externs sample_executor sample_provider (quiet_env 0)
      (Some block_index_new) sample_child (service_new genesis_view) =
      Some ((service_new genesis_view)\<lparr>svc_view := child_view outcome\<rparr>, Inr (Some outcome, Some ctx))"
    and ch: "eo_changes outcome = changes_new" using sample_replay by blast
  obtain v' where per: "lv_persist_snapshot height_externs sample_backend 1 (child_view outcome) = Some (v', Inr True)"
    using sample_persist [OF ch] by blast
  have r: "fr_block_index sample_reporter = Some block_index_new" "fr_state sample_reporter = service_new genesis_view"
    "fr_checkpoint_interval sample_reporter = 1" "fr_acknowledged sample_reporter = []" "fr_pending_acks sample_reporter = []"
    "fr_node_state sample_reporter = None"
    by (simp_all add: sample_reporter_def with_block_index_def reporter_new_def DEFAULT_CHECKPOINT_INTERVAL_def)
  have d: "\<forall>i. fe_dies (quiet_env i) = None" by (simp add: quiet_env_def)
  obtain svc where "persist_snapshot height_externs sample_backend 1 ((service_new genesis_view)\<lparr>svc_view := child_view outcome\<rparr>) =
      Some (svc, Inr ())" using per by (simp add: persist_snapshot_def Let_def)
  then have "finalize_block height_externs sample_backend sample_executor sample_provider (quiet_env 0) (Some block_index_new)
      sample_child True (service_new genesis_view) = Some (svc, Inr (Some outcome, Some ctx))"
    using rep d by (simp add: finalize_block_def finalize_persist_def)
  then have fin: "\<exists>svc. finalize_with_retry height_externs sample_backend sample_executor sample_provider quiet_env
      (Some block_index_new) sample_child True (service_new genesis_view) = Some (svc, Inr (Some outcome, Some ctx))"
    by (simp add: finalize_with_retry_def MAX_FINALIZATION_ATTEMPTS_def numeral_3_eq_3)
  obtain r' where h: "handle_finalized_update height_externs sample_alloy sample_backend sample_executor sample_provider quiet_env 0
       (BlockUpdate sample_child 7) sample_reporter = Some (Continue r')"
    using fin r by (auto simp: handle_finalized_update_def Let_def is_checkpoint_def)
  have "ready_for height_externs sample_child [] (svc_view (fr_state sample_reporter))" using sample_ready r(2) by simp
  from checkpoint_acknowledges_persisted [OF h d this] h r show ?thesis
    by (simp add: is_checkpoint_def persisted_path_def)
qed

section \<open>A persistence task that dies\<close>

text \<open>The ledger as a task leaves it that dies between marking its chain and finishing.\<close>

definition marked :: "ConsensusDigest list \<Rightarrow> ('w, 'ad, 'sd, 'cd) LedgerService \<Rightarrow> ('w, 'ad, 'sd, 'cd) LedgerService" where
  "marked chain svc = svc_on (\<lambda>v. v\<lparr>lv_snapshots := mark_persisting_chain chain (lv_snapshots v)\<rparr>) svc"

lemma marked_simps [simp]:
  "ss_get (lv_snapshots (svc_view (marked chain svc))) = ss_get (lv_snapshots (svc_view svc))"
  "is_persisted (lv_snapshots (svc_view (marked chain svc))) d = is_persisted (lv_snapshots (svc_view svc)) d"
  "lv_qmdb (svc_view (marked chain svc)) = lv_qmdb (svc_view svc)"
  "query_state_root d (svc_view (marked chain svc)) = query_state_root d (svc_view svc)"
  "parent_snapshot d (svc_view (marked chain svc)) = parent_snapshot d (svc_view svc)"
  "compute_root_from_store X d c (svc_view (marked chain svc)) = compute_root_from_store X d c (svc_view svc)"
  "overlay_at (svc_view (marked chain svc)) ov = overlay_at (svc_view svc) ov"
  by (simp_all add: marked_def is_persisted_def query_state_root_def parent_snapshot_def compute_root_from_store_def
      overlay_at_def)

lemma replay_keeps_qmdb:
  "finalize_replay X E P env index block svc = Some (svc1, res) \<Longrightarrow> lv_qmdb (svc_view svc1) = lv_qmdb (svc_view svc)"
  by (auto simp: finalize_replay_def replay_block_def Let_def insert_snapshot_def restore_persisted_snapshot_def
      split: if_splits option.splits sum.splits prod.splits)

lemma replay_block_ok:
  "replay_block X E ctx ex parent block svc = (svc1, Inr outcome) \<longleftrightarrow>
     block_execution X E (overlay_at (svc_view svc) (sn_state parent)) ctx (blk_txs block) = Inr outcome \<and>
     compute_root_from_store X (block_parent_digest X block) (eo_changes outcome) (svc_view svc) = Inr (blk_state_root block) \<and>
     svc1 = (if ex then svc
             else svc_on (insert_snapshot X (block_commitment X block) (block_parent_digest X block)
                    (overlay_new () (overlay_merge_changes (sn_state parent) (eo_changes outcome)))
                    (blk_state_root block) (eo_changes outcome) (blk_txs block)) svc)"
  by (auto simp: replay_block_def Let_def split: sum.splits)

lemma replay_again:
  assumes "finalize_replay X E P env index block svc = Some (svc1, Inr out)" and "ready_for X block ch (svc_view svc)"
    and "index \<noteq> None"
  shows "finalize_replay X E P env' index block (marked chain svc1) = Some (marked chain svc1, Inr out)"
proof -
  obtain parent where par: "parent_snapshot (block_parent_digest X block) (svc_view svc) = Some parent"
    using assms(2) by (auto simp: ready_for_def)
  then have fp: "find_parent e b (block_parent_digest X block) (svc_view svc) = Some parent" for e b
    by (simp add: find_parent_def)
  obtain ctx outcome where ctx: "P index block = Some ctx" and out: "out = (Some outcome, Some ctx)"
    and rep: "replay_block X E ctx (query_state_root (block_commitment X block) (svc_view svc) \<noteq> None) parent block svc =
      (svc1, Inr outcome)"
    using assms(1,3) fp
    by (auto simp: finalize_replay_def Let_def split: if_splits option.splits sum.splits prod.splits)
  have keep: "parent_snapshot (block_parent_digest X block) (svc_view svc1) = Some parent"
    "lv_qmdb (svc_view svc1) = lv_qmdb (svc_view svc)"
    "query_state_root (block_commitment X block) (svc_view svc1) \<noteq> None"
  proof -
    have "block_parent_digest X block \<noteq> block_commitment X block \<or>
        query_state_root (block_commitment X block) (svc_view svc) \<noteq> None"
      using par by (auto simp: query_state_root_def parent_snapshot_def)
    then show "parent_snapshot (block_parent_digest X block) (svc_view svc1) = Some parent"
      "lv_qmdb (svc_view svc1) = lv_qmdb (svc_view svc)"
      "query_state_root (block_commitment X block) (svc_view svc1) \<noteq> None"
      using rep par
      by (auto simp: replay_block_def Let_def parent_snapshot_def insert_snapshot_def query_state_root_def
          split: sum.splits if_splits)
  qed
  have ov: "overlay_at (svc_view svc1) o' = overlay_at (svc_view svc) o'" for o'
    using keep(2) by (simp add: overlay_at_def)
  have root: "compute_root_from_store X (block_parent_digest X block) c (svc_view svc1) =
      compute_root_from_store X (block_parent_digest X block) c (svc_view svc)" for c
    using keep(1) par by (simp add: compute_root_from_store_def parent_snapshot_def)
  have "replay_block X E ctx True parent block (marked chain svc1) = (marked chain svc1, Inr outcome)"
    unfolding replay_block_ok marked_simps ov root using rep [unfolded replay_block_ok] by simp
  then show ?thesis
    using keep ctx out assms(3) by (simp add: finalize_replay_def Let_def find_parent_def)
qed

text \<open>
  C21: a block can be acknowledged without having been persisted. When the task that persists a
  checkpoint dies after marking its chain, the retry finds the chain in flight, takes that for success, and the
  block is acknowledged although it is not persisted and storage has not changed.
\<close>

theorem dead_persist_task_acknowledged:
  assumes "finalize_replay X E P (envs 0) index block svc = Some (svc1, Inr out)"
    and "ready_for X block ch (svc_view svc)" and "index \<noteq> None"
    and "fe_dies (envs 0) = Some (marked (rev (map fst ch) @ [block_commitment X block]), err)" and "fe_dies (envs 1) = None"
    and "fr_state r = svc" and "fr_block_index r = index" and "is_checkpoint (fr_checkpoint_interval r) (blk_height block)"
  shows "\<exists>r'. handle_finalized_update X A B E P envs writes (BlockUpdate block ack) r = Some (Continue r') \<and>
    ack \<in> set (fr_acknowledged r') \<and> \<not> is_snapshot_persisted (block_commitment X block) (svc_view (fr_state r')) \<and>
    lv_qmdb (svc_view (fr_state r')) = lv_qmdb (svc_view svc)"
proof -
  let ?d = "block_commitment X block" let ?chain = "rev (map fst ch) @ [?d]" let ?m = "marked ?chain svc1"
  have rdy: "ready_for X block ch (svc_view svc1)" by (rule replay_ready(1) [OF assms(1,2)])
  obtain s where s: "ss_get (lv_snapshots (svc_view svc1)) ?d = Some s"
    using replay_ready(2) [OF assms(1,2), of out] by (auto simp: parent_snapshot_def)
  have cf: "chain_from (is_persisted (lv_snapshots (svc_view svc1))) (ss_get (lv_snapshots (svc_view svc1))) (Some ?d) ((?d, s) # ch)"
    using rdy s by (intro chain_from.link) (auto simp: ready_for_def parent_snapshot_def)
  have pm: "is_persisted (lv_snapshots (svc_view ?m)) = is_persisted (lv_snapshots (svc_view svc1))" by (simp add: fun_eq_iff)
  have "changes_for_persist (lv_snapshots (svc_view ?m)) ?d =
      Some (Inr (?chain, merge_all (rev (map (\<lambda>(d, s). sn_changes s) ((?d, s) # ch)))))"
    using walk_chain_complete [OF cf, of "[]"] by (simp add: changes_for_persist_def pm)
  moreover have "\<not> can_persist_chain (lv_snapshots (svc_view ?m)) ?chain"
    by (simp add: can_persist_chain_def marked_def)
  ultimately have "persist_begin ?d (svc_view ?m) = Some (svc_view ?m, Inr None)" by (simp add: persist_begin_def)
  then have "persist_snapshot X B ?d ?m = Some (?m, Inr ())"
    by (simp add: persist_snapshot_def lv_persist_snapshot_def Let_def)
  then have "finalize_block X B E P (envs 1) index block True ?m = Some (?m, Inr out)"
    using replay_again [OF assms(1,2,3), of "envs 1" ?chain] assms(5) by (simp add: finalize_block_def finalize_persist_def)
  moreover have "finalize_block X B E P (envs 0) index block True svc = Some (?m, Inl (PersistTaskFailed err))"
    using assms(1,4) by (simp add: finalize_block_def finalize_persist_def)
  ultimately have fin: "finalize_with_retry X B E P envs index block True svc = Some (?m, Inr out)"
    by (simp add: finalize_with_retry_def MAX_FINALIZATION_ATTEMPTS_def numeral_3_eq_3)
  have np: "\<not> is_persisted (lv_snapshots (svc_view svc1)) ?d" using rdy by (simp add: ready_for_def)
  have q: "lv_qmdb (svc_view svc1) = lv_qmdb (svc_view svc)" by (rule replay_keeps_qmdb [OF assms(1)])
  show ?thesis
    using fin assms(6,7,8) np q
    by (auto simp: handle_finalized_update_def Let_def acknowledge_checkpoint_def is_snapshot_persisted_def
        lv_prune_stale_nonces_def lv_prune_mempool_def)
qed

definition dying_env :: "nat \<Rightarrow> (sample_disk, bytes \<Rightarrow> bytes option, bytes \<Rightarrow> u256 option, bytes \<Rightarrow> bytes option) attempt_env" where
  "dying_env n = \<lparr>fe_looks = [], fe_dies = (if n = 0 then Some (marked [1], ''join error'') else None)\<rparr>"

theorem dead_persist_task_acknowledged_witness:
  "\<exists>r'. handle_finalized_update height_externs sample_alloy sample_backend sample_executor sample_provider dying_env 0
       (BlockUpdate sample_child 7) sample_reporter = Some (Continue r') \<and>
     7 \<in> set (fr_acknowledged r') \<and> \<not> is_snapshot_persisted 1 (svc_view (fr_state r'))"
proof -
  obtain ctx outcome where rep: "finalize_replay height_externs sample_executor sample_provider (dying_env 0)
      (Some block_index_new) sample_child (service_new genesis_view) =
      Some ((service_new genesis_view)\<lparr>svc_view := child_view outcome\<rparr>, Inr (Some outcome, Some ctx))"
    using sample_replay by blast
  have "\<exists>r'. handle_finalized_update height_externs sample_alloy sample_backend sample_executor sample_provider dying_env 0
         (BlockUpdate sample_child 7) sample_reporter = Some (Continue r') \<and>
       7 \<in> set (fr_acknowledged r') \<and> \<not> is_snapshot_persisted (block_commitment height_externs sample_child) (svc_view (fr_state r')) \<and>
       lv_qmdb (svc_view (fr_state r')) = lv_qmdb (svc_view (service_new genesis_view))"
    by (rule dead_persist_task_acknowledged [where envs = dying_env, OF rep, where ch = "[]" and err = "''join error''"])
      (simp_all add: sample_ready dying_env_def sample_reporter_def with_block_index_def reporter_new_def
        DEFAULT_CHECKPOINT_INTERVAL_def is_checkpoint_def)
  then show ?thesis by auto
qed

section \<open>The contexts of verification and finalization\<close>

lemma length_hm_insert: "length (hm_insert k v m) \<le> Suc (length m)"
  by (induction m) auto

lemma length_recent_block_hashes: "length (recent_block_hashes index head) \<le> 256"
proof -
  have le: "length (fold (\<lambda>n hashes. case f n of Some h \<Rightarrow> hm_insert (of_nat n) h hashes | None \<Rightarrow> hashes) ns m)
      \<le> length m + length ns" for f :: "nat \<Rightarrow> b256 option" and ns and m :: "(u64, b256) hash_map"
  proof (induction ns arbitrary: m)
    case (Cons n ns)
    show ?case
      using Cons [of m] Cons [of "hm_insert (of_nat n) (the (f n)) m"] length_hm_insert [of "of_nat n" "the (f n)" m]
      by (cases "f n") auto
  qed simp
  have "unat head - unat (saturating_sub head (min head 256)) \<le> 256"
    by (simp add: unat_saturating_sub min_def word_le_nat_alt)
  then show ?thesis
    using le [of "\<lambda>n. hm_get (bi_blocks_by_number index) (of_nat n)"
        "[unat (saturating_sub head (min head 256)) ..< unat head]" "[]"]
    by (simp add: recent_block_hashes_def Let_def)
qed

definition fees_indexed :: "externs \<Rightarrow> ('w, 'ad, 'sd, 'cd) RevmApplication \<Rightarrow> BlockIndex \<Rightarrow> Block \<Rightarrow> bool" where
  "fees_indexed X app index block \<longleftrightarrow>
     (\<exists>parent fee. get_block_by_number index (blk_height block - 1) = Some parent \<and> ib_base_fee_per_gas parent = Some fee \<and>
        ib_gas_limit parent = ap_gas_limit app \<and>
        hm_get (ap_block_fees app) (block_parent_digest X block) = Some (ib_gas_used parent, fee))"

text \<open>
  C23: verification and finalization execute a block in the same context but for one thing, the hashes of
  recent blocks. When the application's fee entry of the parent agrees with the index, the contexts have
  the same header, beacon root and randomness; the EVM then reads the indexed hashes of the last 256 blocks at
  finalization, and zero for every one of them during verification.
\<close>

theorem contexts_differ_in_block_hashes:
  assumes "2 \<le> ap_gas_limit app" and "blk_height block \<noteq> 0" and "fees_indexed X app index block"
  shows "\<exists>c c'. app_block_context app (blk_height block) (blk_timestamp block) (blk_prevrandao block)
        (block_parent_digest X block) = Some c \<and>
      revm_context (ap_gas_limit app) (ap_fee_recipient app) index block = Some c' \<and>
      c' = c\<lparr>bx_recent_block_hashes := recent_block_hashes index (blk_height block)\<rparr> \<and>
      (\<forall>D (s :: 's) n. db_block_hash (state_adapter X D s (bx_recent_block_hashes c)) n = Inr 0) \<and>
      (\<forall>D (s :: 's) n. db_block_hash (state_adapter X D s (bx_recent_block_hashes c')) n =
         Inr (case if n < blk_height block \<and> unat (blk_height block) \<le> unat n + 256
                   then hm_get (bi_blocks_by_number index) n else None of Some h \<Rightarrow> h | None \<Rightarrow> 0))"
proof -
  obtain parent fee where p: "get_block_by_number index (blk_height block - 1) = Some parent"
    "ib_base_fee_per_gas parent = Some fee" "ib_gas_limit parent = ap_gas_limit app"
    "hm_get (ap_block_fees app) (block_parent_digest X block) = Some (ib_gas_used parent, fee)"
    using assms(3) by (auto simp: fees_indexed_def)
  then have bf: "compute_base_fee app (block_parent_digest X block) = provider_base_fee index block"
    using assms(2) by (simp add: compute_base_fee_def provider_base_fee_def)
  moreover obtain base where base: "compute_base_fee app (block_parent_digest X block) = Some base"
    using compute_base_fee_total [OF assms(1)] by blast
  moreover have "\<not> MAX_BLOCK_HASHES < length (recent_block_hashes index (blk_height block))"
    using length_recent_block_hashes [of index "blk_height block"] by (simp add: MAX_BLOCK_HASHES_def)
  ultimately show ?thesis
    unfolding app_block_context_def revm_context_def bf [symmetric] base
    by (simp add: with_recent_block_hashes_def block_context_new_def
        state_adapter_def adapter_block_hash_ref_def recent_block_hashes_get)
qed

definition genesis_index :: BlockIndex where
  "genesis_index = insert_block (sample_indexed_block 0 [] \<lparr>ib_gas_limit := 30000000, ib_base_fee_per_gas := Some 7\<rparr>) [] [] block_index_new"

theorem contexts_differ_in_block_hashes_witness:
  "\<exists>c c'. app_block_context (record_block_fees 0 0 7 genesis_app) 1 0 0 0 = Some c \<and>
     revm_context 30000000 (ap_fee_recipient genesis_app) genesis_index sample_child = Some c' \<and>
     bx_header c' = bx_header c \<and>
     (\<forall>D :: nat state_db. db_block_hash (state_adapter height_externs D 0 (bx_recent_block_hashes c)) 0 = Inr 0 \<and>
        db_block_hash (state_adapter height_externs D 0 (bx_recent_block_hashes c')) 0 = Inr 100)"
proof -
  let ?app = "record_block_fees 0 0 7 genesis_app"
  have idx: "get_block_by_number genesis_index 0 = Some (sample_indexed_block 0 [] \<lparr>ib_gas_limit := 30000000, ib_base_fee_per_gas := Some 7\<rparr>)"
    "hm_get (bi_blocks_by_number genesis_index) 0 = Some 100"
    by (simp_all add: genesis_index_def sample_index_defs)
  have "fees_indexed height_externs ?app genesis_index sample_child"
    by (simp add: fees_indexed_def idx record_block_fees_def hm.get_put) (simp add: sample_indexed_block_def)
  moreover have "2 \<le> ap_gas_limit ?app" by (simp add: record_block_fees_def)
  ultimately show ?thesis
    using contexts_differ_in_block_hashes [of ?app sample_child height_externs genesis_index, where 's = nat] idx(2)
    by (auto simp: record_block_fees_def)
qed

section \<open>Trusted blocks\<close>

text \<open>
  C22: what catch-up trust does to storage. A block accepted without execution counts as
  persisted at once: persisting it afterwards succeeds without writing anything, so its changes never reach
  storage.
\<close>

theorem trusted_block_never_written:
  assumes "2 \<le> ap_gas_limit app" and "\<not> known X block app" and "is_catching_up app (blk_height block)"
    and "\<nexists>snap ctx outcome. executes_to X E app block snap ctx outcome"
  shows "\<exists>app'. verify_block X E app block pts now = Some (app', True) \<and>
    persist_snapshot X B (block_commitment X block) (ap_ledger app') = Some (ap_ledger app', Inr ()) \<and>
    lv_qmdb (ap_view app') = lv_qmdb (ap_view app)"
proof -
  have v: "verify_block X E app block pts now = Some (on_view (restore_persisted_snapshot X block) app, True)"
    using verify_block_failed [OF assms(2,1,4)] assms(3) by (simp add: trust_or_reject_def)
  let ?app = "on_view (restore_persisted_snapshot X block) app"
  have p: "is_persisted (lv_snapshots (ap_view ?app)) (block_commitment X block)"
    by (simp add: restore_persisted_snapshot_def Let_def is_persisted_def)
  then have "walk_chain (is_persisted (lv_snapshots (ap_view ?app))) (ss_get (lv_snapshots (ap_view ?app)))
      (Some (block_commitment X block)) [] = Some (Inr [])"
    by (simp add: walk_chain.simps)
  then have "persist_snapshot X B (block_commitment X block) (ap_ledger ?app) = Some (ap_ledger ?app, Inr ())"
    by (simp add: persist_snapshot_def lv_persist_snapshot_def persist_begin_def changes_for_persist_def Let_def)
  then show ?thesis using v by (simp add: restore_persisted_snapshot_def Let_def)
qed

definition sample_orphan :: Block where
  "sample_orphan = block_new 8 9 0 0 0 []"

theorem trusted_block_never_written_witness:
  "\<exists>app'. verify_block height_externs sample_executor (with_recovered_height 4 genesis_app) sample_orphan None 0 = Some (app', True) \<and>
     persist_snapshot height_externs sample_backend (block_commitment height_externs sample_orphan) (ap_ledger app') =
       Some (ap_ledger app', Inr ()) \<and>
     lv_qmdb (ap_view app') = lv_qmdb genesis_view"
proof -
  let ?app = "with_recovered_height 4 genesis_app"
  have d: "block_commitment height_externs sample_orphan = 9" "block_parent_digest height_externs sample_orphan = 8"
    by (simp add: sample_orphan_def height_commitment from_be_bytes_def to_be_bytes_def upt_rec)
      (simp add: sample_orphan_def block_parent_digest_def digest_for_block_id_def block_new_def height_externs_def from_to_be_bytes)
  have app: "ap_ledger ?app = service_new genesis_view" by (simp add: with_recovered_height_def)
  have "2 \<le> ap_gas_limit ?app" "\<not> known height_externs sample_orphan ?app" "is_catching_up ?app (blk_height sample_orphan)"
    "\<nexists>snap ctx outcome. executes_to height_externs sample_executor ?app sample_orphan snap ctx outcome"
    by (simp_all add: app d known_def query_state_root_def executes_to_def parent_snapshot_def)
      (simp_all add: with_recovered_height_def is_catching_up_def sample_orphan_def block_new_def CATCH_UP_THRESHOLD_def
        saturating_add_def)
  from trusted_block_never_written [OF this, of None 0 sample_backend] show ?thesis by (simp add: app)
qed

end
