(* ===== verification/Hex.thy ===== *)
theory Hex
  imports Codec
begin

text \<open>
  Hexadecimal text, as the ceremony state and the commit marker store bytes: the package behind it with what it
  documents, and an instance.
\<close>

section \<open>Hexadecimal strings\<close>

text \<open>The \<open>hex\<close> package: \<open>hx_decode\<close> fails with the text of its error.\<close>

record hex_lib =
  hx_encode :: "bytes \<Rightarrow> string"
  hx_decode :: "string \<Rightarrow> string + bytes"

text \<open>What it documents: lowercase digits, two for a byte, and decoding reads them back.\<close>

definition hex_ok :: "hex_lib \<Rightarrow> bool" where
  "hex_ok H \<longleftrightarrow>
     (\<forall>bs. hx_decode H (hx_encode H bs) = Inr bs \<and> length (hx_encode H bs) = 2 * length bs \<and>
        set (hx_encode H bs) \<subseteq> set ''0123456789abcdef'')"

lemma hex_okD:
  assumes "hex_ok H"
  shows "hx_decode H (hx_encode H bs) = Inr bs" "length (hx_encode H bs) = 2 * length bs"
  using assms by (simp_all add: hex_ok_def)

lemma hex_encode_inj: "hex_ok H \<Longrightarrow> hx_encode H a = hx_encode H b \<longleftrightarrow> a = b"
  by (metis hex_okD(1) sum.inject(2))

section \<open>A concrete instance\<close>

definition hex_digit :: "nat \<Rightarrow> char" where
  "hex_digit n = ''0123456789abcdef'' ! n"

definition digit_value :: "char \<Rightarrow> nat option" where
  "digit_value c = find (\<lambda>n. hex_digit n = c) [0..<16]"

fun sample_hex_decode :: "string \<Rightarrow> string + bytes" where
  "sample_hex_decode [] = Inr []"
| "sample_hex_decode [c] = Inl ''odd length''"
| "sample_hex_decode (c # d # s) =
     (case (digit_value c, digit_value d) of
        (Some m, Some n) \<Rightarrow> (case sample_hex_decode s of Inl e \<Rightarrow> Inl e | Inr bs \<Rightarrow> Inr (of_nat (16 * m + n) # bs))
      | _ \<Rightarrow> Inl ''invalid digit'')"

definition sample_hex :: hex_lib where
  "sample_hex =
     \<lparr>hx_encode = (\<lambda>bs. concat (map (\<lambda>b. [hex_digit (unat b div 16), hex_digit (unat b mod 16)]) bs)),
      hx_decode = sample_hex_decode\<rparr>"

lemma digit_value_digit: "n < 16 \<Longrightarrow> digit_value (hex_digit n) = Some n"
proof -
  have "list_all (\<lambda>n. digit_value (hex_digit n) = Some n) [0..<16]" by code_simp
  then show "n < 16 \<Longrightarrow> digit_value (hex_digit n) = Some n" by (simp add: list_all_iff)
qed

lemma hex_digit_in: "n < 16 \<Longrightarrow> hex_digit n \<in> set ''0123456789abcdef''"
  unfolding hex_digit_def by (rule nth_mem) simp

lemma sample_hex_ok: "hex_ok sample_hex"
proof -
  have b: "unat b div 16 < 16" "unat b mod 16 < 16" "of_nat (16 * (unat b div 16) + unat b mod 16) = b" for b :: u8
    using unsigned_less [where 'a = nat and w = b] by simp_all
  let ?enc = "\<lambda>bs. concat (map (\<lambda>b. [hex_digit (unat b div 16), hex_digit (unat b mod 16)]) bs) :: string"
  have "sample_hex_decode (?enc bs) = Inr bs \<and> length (?enc bs) = 2 * length bs \<and> set (?enc bs) \<subseteq> set ''0123456789abcdef''"
    for bs :: bytes
  proof (induction bs)
    case (Cons a bs)
    have "hex_digit (unat a div 16) \<in> set ''0123456789abcdef''" "hex_digit (unat a mod 16) \<in> set ''0123456789abcdef''"
      by (intro hex_digit_in b)+
    then show ?case using Cons b(3) [of a] by (simp only: list.map concat.simps append.simps sample_hex_decode.simps
        digit_value_digit [OF b(1)] digit_value_digit [OF b(2)]) (simp del: of_nat_add of_nat_mult)
  qed simp
  then show ?thesis by (simp add: hex_ok_def sample_hex_def)
qed

end
