(* ===== verification/Recovery.thy ===== *)
theory Recovery
  imports Finalization_Properties Hex
begin

text \<open>
  Restart of a node: the commit marker of \<open>crates/node/runner/src/commit_marker.rs\<close> and the recovery of the
  finalized state from the archives in \<open>runner.rs\<close>. Recovery indexes every archived block, restores the block
  whose commit the marker names and re-executes the blocks above it. An error stops the node, so a failed
  recovery has no state.
\<close>

section \<open>The commit marker\<close>

text \<open>
  What reading the marker file meets. The text is ASCII, as the node writes it; \<open>trim\<close> strips white
  space at both ends.
\<close>

datatype marker_file = MissingFile | UnreadableFile string | FileContent string

definition is_whitespace :: "char \<Rightarrow> bool" where
  "is_whitespace c \<longleftrightarrow> (of_char c :: nat) \<in> {9, 10, 11, 12, 13, 32}"

definition trim :: "string \<Rightarrow> string" where
  "trim s = rev (dropWhile is_whitespace (rev (dropWhile is_whitespace s)))"

definition write_commit_marker :: "hex_lib \<Rightarrow> ConsensusDigest \<Rightarrow> marker_file" where
  "write_commit_marker H digest = FileContent (hx_encode H (to_be_bytes 32 digest) @ [CHR 0x0A])"

definition read_commit_marker :: "hex_lib \<Rightarrow> marker_file \<Rightarrow> ConsensusDigest option" where
  "read_commit_marker H marker =
     (case marker of
        MissingFile \<Rightarrow> None
      | UnreadableFile _ \<Rightarrow> None
      | FileContent content \<Rightarrow>
          (let hex_str = trim content
           in if length hex_str \<noteq> 64 then None
              else case hx_decode H hex_str of Inl _ \<Rightarrow> None | Inr bytes \<Rightarrow> Some (from_be_bytes bytes)))"

text \<open>
  The observer of ledger events writes the marker; the temporary file is renamed into place, so a failed
  write leaves the old marker.
\<close>

fun observe_event :: "hex_lib \<Rightarrow> bool \<Rightarrow> LedgerEvent \<Rightarrow> marker_file \<Rightarrow> marker_file" where
  "observe_event H fails (TransactionSubmitted tx) marker = marker"
| "observe_event H fails (SeedUpdated digest seed) marker = marker"
| "observe_event H fails (SnapshotPersisted digest) marker =
     (if fails then marker else write_commit_marker H digest)"

section \<open>Archives\<close>

text \<open>
  An archive of the storage library: the ranges of heights it holds, and reading one height, which may fail.
  Of a finalization the recovery uses the proposed digest and the encoded seed.
\<close>

record 'v archive =
  ar_ranges :: "(u64 \<times> u64) list"
  ar_get :: "u64 \<Rightarrow> string + 'v option"

type_synonym certificate = "ConsensusDigest \<times> bytes"

datatype RecoveryError =
    LoadFinalization u64 string
  | LoadBlock u64 string
  | MissingParentSnapshot u64
  | ReplayFailed u64 ConsensusError
  | ReplayRootFailed u64 LedgerError
  | ReplayRootMismatch u64 StateRoot StateRoot
  | UnknownMarker ConsensusDigest u64

text \<open>The heights \<open>lo..=hi\<close> of a loop.\<close>

definition heights :: "u64 \<Rightarrow> u64 \<Rightarrow> u64 list" where
  "heights lo hi = map of_nat [unat lo ..< Suc (unat hi)]"

definition archive_heights :: "'v archive \<Rightarrow> u64 list" where
  "archive_heights archive = concat (map (\<lambda>(lo, hi). heights lo hi) (ar_ranges archive))"

section \<open>The index of a restarted node\<close>

text \<open>The root of the empty trie, the hash of the RLP encoding of the empty string.\<close>

definition EMPTY_ROOT_HASH :: "externs \<Rightarrow> b256" where
  "EMPTY_ROOT_HASH X = ex_keccak256 X [0x80]"

definition checkpoint_interval :: "u64 option \<Rightarrow> u64" where
  "checkpoint_interval parsed = (case parsed of Some value \<Rightarrow> if value > 0 then value else 256 | None \<Rightarrow> 256)"

definition seed_genesis_block_index :: "externs \<Rightarrow> Block \<Rightarrow> u64 \<Rightarrow> BlockIndex \<Rightarrow> BlockIndex" where
  "seed_genesis_block_index X genesis gas_limit index =
     insert_block
       \<lparr>ib_hash = fst (block_id X genesis), ib_number = 0, ib_parent_hash = blk_parent genesis,
        ib_state_root = blk_state_root genesis, ib_transactions_root = EMPTY_ROOT_HASH X,
        ib_receipts_root = EMPTY_ROOT_HASH X, ib_timestamp = blk_timestamp genesis, ib_gas_limit = gas_limit,
        ib_gas_used = 0, ib_base_fee_per_gas = Some INITIAL_BASE_FEE, ib_mix_hash = blk_prevrandao genesis,
        ib_logs_bloom = 0, ib_size = 508, ib_transaction_hashes = []\<rparr> [] [] index"

text \<open>The record that both indexing a recovered block and replaying it insert; only the gas differs.\<close>

definition recovered_entry :: "externs \<Rightarrow> BlockContext \<Rightarrow> u64 \<Rightarrow> Block \<Rightarrow> IndexedBlock" where
  "recovered_entry X block_context gas_used block =
     \<lparr>ib_hash = fst (block_id X block), ib_number = blk_height block, ib_parent_hash = blk_parent block,
      ib_state_root = blk_state_root block, ib_transactions_root = EMPTY_ROOT_HASH X,
      ib_receipts_root = EMPTY_ROOT_HASH X, ib_timestamp = hd_timestamp (bx_header block_context),
      ib_gas_limit = hd_gas_limit (bx_header block_context), ib_gas_used = gas_used,
      ib_base_fee_per_gas = hd_base_fee_per_gas (bx_header block_context), ib_mix_hash = blk_prevrandao block,
      ib_logs_bloom = 0, ib_size = 508 + sum_list (map (\<lambda>tx. of_nat (length (tx_bytes tx))) (blk_txs block)),
      ib_transaction_hashes = map (\<lambda>tx. ex_keccak256 X (tx_bytes tx)) (blk_txs block)\<rparr>"

text \<open>The provider reads the index that is being filled; \<open>None\<close> is its division by zero.\<close>

type_synonym index_provider = "BlockIndex \<Rightarrow> Block \<Rightarrow> BlockContext option"

definition index_recovered_block :: "externs \<Rightarrow> index_provider \<Rightarrow> Block \<Rightarrow> BlockIndex \<Rightarrow> BlockIndex option" where
  "index_recovered_block X provider block index =
     (case provider index block of
        None \<Rightarrow> None
      | Some block_context \<Rightarrow> Some (insert_block (recovered_entry X block_context 0 block) [] [] index))"

definition consensus_digest_for_hash :: "externs \<Rightarrow> b256 \<Rightarrow> ConsensusDigest" where
  "consensus_digest_for_hash X block_hash = ex_sha256 X (to_be_bytes 32 block_hash)"

definition seed_block_fee_cache :: "externs \<Rightarrow> BlockIndex \<Rightarrow> u64 \<Rightarrow> ('w, 'ad, 'sd, 'cd) RevmApplication \<Rightarrow>
    ('w, 'ad, 'sd, 'cd) RevmApplication" where
  "seed_block_fee_cache X index head_height app =
     seed_block_fees
       (concat (map (\<lambda>h. case get_block_by_number index h of
            None \<Rightarrow> []
          | Some indexed \<Rightarrow>
              [(consensus_digest_for_hash X (ib_hash indexed), ib_gas_used indexed,
                case ib_base_fee_per_gas indexed of Some f \<Rightarrow> f | None \<Rightarrow> INITIAL_BASE_FEE)])
          (heights (saturating_sub head_height 4) head_height))) app"

section \<open>Recovery\<close>

fun restore_seeds :: "externs \<Rightarrow> certificate archive \<Rightarrow> u64 list \<Rightarrow> ('w, 'ad, 'sd, 'cd) LedgerService \<Rightarrow>
    RecoveryError + ('w, 'ad, 'sd, 'cd) LedgerService" where
  "restore_seeds X certs [] svc = Inr svc"
| "restore_seeds X certs (height # hs) svc =
     (case ar_get certs height of
        Inl e \<Rightarrow> Inl (LoadFinalization height e)
      | Inr None \<Rightarrow> restore_seeds X certs hs svc
      | Inr (Some (payload, seed)) \<Rightarrow>
          restore_seeds X certs hs (set_seed payload (ex_keccak256 X seed) svc))"

fun index_archive :: "externs \<Rightarrow> index_provider \<Rightarrow> Block archive \<Rightarrow> u64 list \<Rightarrow> BlockIndex \<times> (u64, Block) btree_map \<Rightarrow>
    (RecoveryError + BlockIndex \<times> (u64, Block) btree_map) option" where
  "index_archive X provider blocks [] st = Some (Inr st)"
| "index_archive X provider blocks (height # hs) (index, recovered) =
     (case ar_get blocks height of
        Inl e \<Rightarrow> Some (Inl (LoadBlock height e))
      | Inr None \<Rightarrow> index_archive X provider blocks hs (index, recovered)
      | Inr (Some block) \<Rightarrow>
          (case index_recovered_block X provider block index of
             None \<Rightarrow> None
           | Some index' \<Rightarrow> index_archive X provider blocks hs (index', bt_insert height block recovered)))"

definition replay_finalized_block :: "externs \<Rightarrow> ('w, 'ad, 'sd, 'cd) QmdbState OverlayState block_executor \<Rightarrow>
    index_provider \<Rightarrow> Block \<Rightarrow> ('w, 'ad, 'sd, 'cd) LedgerService \<times> BlockIndex \<Rightarrow>
    (RecoveryError + ('w, 'ad, 'sd, 'cd) LedgerService \<times> BlockIndex) option" where
  "replay_finalized_block X E provider block st =
     (let (svc, index) = st; digest = block_commitment X block; parent_digest = block_parent_digest X block
      in if query_state_root digest (svc_view svc) \<noteq> None then Some (Inr st)
         else case parent_snapshot parent_digest (svc_view svc) of
           None \<Rightarrow> Some (Inl (MissingParentSnapshot (blk_height block)))
         | Some parent \<Rightarrow>
             (case provider index block of
                None \<Rightarrow> None
              | Some block_context \<Rightarrow> Some
                  (case block_execution X E (overlay_at (svc_view svc) (sn_state parent)) block_context (blk_txs block) of
                     Inl err \<Rightarrow> Inl (ReplayFailed (blk_height block) err)
                   | Inr outcome \<Rightarrow>
                       (case compute_root_from_store X parent_digest (eo_changes outcome) (svc_view svc) of
                          Inl err \<Rightarrow> Inl (ReplayRootFailed (blk_height block) err)
                        | Inr state_root \<Rightarrow>
                            if state_root \<noteq> blk_state_root block
                            then Inl (ReplayRootMismatch (blk_height block) (blk_state_root block) state_root)
                            else Inr
                              (svc_on (insert_snapshot X digest parent_digest
                                 (overlay_new () (overlay_merge_changes (sn_state parent) (eo_changes outcome)))
                                 state_root (eo_changes outcome) (blk_txs block)) svc,
                               insert_block (recovered_entry X block_context (eo_gas_used outcome) block) [] [] index)))))"

text \<open>
  The loop over the archive above the checkpoint: it ends at a height that is missing and at a block that does
  not continue the last one. It carries the restored height and digest and whether a block was replayed.
\<close>

fun replay_tail :: "externs \<Rightarrow> ('w, 'ad, 'sd, 'cd) QmdbState OverlayState block_executor \<Rightarrow> index_provider \<Rightarrow>
    (u64, Block) btree_map \<Rightarrow> u64 list \<Rightarrow> u64 \<times> ConsensusDigest \<times> bool \<Rightarrow>
    ('w, 'ad, 'sd, 'cd) LedgerService \<times> BlockIndex \<Rightarrow>
    (RecoveryError + ('w, 'ad, 'sd, 'cd) LedgerService \<times> BlockIndex \<times> u64 \<times> bool) option" where
  "replay_tail X E provider recovered [] (height, digest, replayed) (svc, index) =
     Some (Inr (svc, index, height, replayed))"
| "replay_tail X E provider recovered (expected # hs) (height, digest, replayed) (svc, index) =
     (case bt_get recovered expected of
        None \<Rightarrow> Some (Inr (svc, index, height, replayed))
      | Some block \<Rightarrow>
          if block_parent_digest X block \<noteq> digest then Some (Inr (svc, index, height, replayed))
          else case replay_finalized_block X E provider block (svc, index) of
                 None \<Rightarrow> None
               | Some (Inl e) \<Rightarrow> Some (Inl e)
               | Some (Inr st) \<Rightarrow>
                   replay_tail X E provider recovered hs (blk_height block, block_commitment X block, True) st)"

definition restore_checkpoint_and_replay_tail :: "externs \<Rightarrow> hex_lib \<Rightarrow>
    ('w, 'ad, 'sd, 'cd) QmdbState OverlayState block_executor \<Rightarrow> index_provider \<Rightarrow> (u64, Block) btree_map \<Rightarrow> marker_file \<Rightarrow>
    ('w, 'ad, 'sd, 'cd) LedgerService \<times> BlockIndex \<Rightarrow>
    (RecoveryError + ('w, 'ad, 'sd, 'cd) LedgerService \<times> BlockIndex \<times> u64 \<times> bool) option" where
  "restore_checkpoint_and_replay_tail X H E provider recovered marker st =
     (let (svc, index) = st
      in if recovered = [] then Some (Inr (svc, index, 0, False))
         else let head = snd (last recovered)
         in case read_commit_marker H marker of
              None \<Rightarrow> Some (Inr (svc_on (restore_persisted_snapshot X head) svc, index, blk_height head, False))
            | Some digest \<Rightarrow>
                (case List.find (\<lambda>(height, block). block_commitment X block = digest) recovered of
                   None \<Rightarrow> Some (Inl (UnknownMarker digest (blk_height head)))
                 | Some (_, checkpoint) \<Rightarrow>
                     replay_tail X E provider recovered
                       (heights (saturating_add (blk_height checkpoint) 1) (blk_height head))
                       (blk_height checkpoint, block_commitment X checkpoint, False)
                       (svc_on (restore_persisted_snapshot X checkpoint) svc, index)))"

definition recover_finalized_state :: "externs \<Rightarrow> hex_lib \<Rightarrow>
    ('w, 'ad, 'sd, 'cd) QmdbState OverlayState block_executor \<Rightarrow> index_provider \<Rightarrow>
    Block archive \<Rightarrow> certificate archive \<Rightarrow> marker_file \<Rightarrow> ('w, 'ad, 'sd, 'cd) LedgerService \<times> BlockIndex \<Rightarrow>
    (RecoveryError + ('w, 'ad, 'sd, 'cd) LedgerService \<times> BlockIndex \<times> (u64 \<times> bool) option) option" where
  "recover_finalized_state X H E provider blocks certs marker st =
     (let (svc0, index0) = st
      in case restore_seeds X certs (archive_heights certs) svc0 of
           Inl e \<Rightarrow> Some (Inl e)
         | Inr svc \<Rightarrow>
             (case index_archive X provider blocks (archive_heights blocks) (index0, []) of
                None \<Rightarrow> None
              | Some (Inl e) \<Rightarrow> Some (Inl e)
              | Some (Inr (index, recovered)) \<Rightarrow>
                  if recovered = [] then Some (Inr (svc, index, None))
                  else (case restore_checkpoint_and_replay_tail X H E provider recovered marker (svc, index) of
                          None \<Rightarrow> None
                        | Some (Inl e) \<Rightarrow> Some (Inl e)
                        | Some (Inr (svc', index', height, replayed)) \<Rightarrow>
                            Some (Inr (svc', index', Some (height, replayed))))))"

section \<open>Filling the snapshot cache\<close>

definition SNAPSHOT_PREPOPULATE_COUNT :: u64 where
  "SNAPSHOT_PREPOPULATE_COUNT = 64"

fun prepopulate_loop :: "externs \<Rightarrow> Block archive \<Rightarrow> u64 list \<Rightarrow> ('w, 'ad, 'sd, 'cd) LedgerService \<Rightarrow>
    ('w, 'ad, 'sd, 'cd) LedgerService" where
  "prepopulate_loop X blocks [] svc = svc"
| "prepopulate_loop X blocks (height # hs) svc =
     (case ar_get blocks height of
        Inr (Some block) \<Rightarrow>
          prepopulate_loop X blocks hs
            (if query_state_root (block_commitment X block) (svc_view svc) \<noteq> None then svc
             else svc_on (restore_persisted_snapshot X block) svc)
      | Inr None \<Rightarrow> svc
      | Inl _ \<Rightarrow> svc)"

definition prepopulate_snapshot_cache :: "externs \<Rightarrow> Block archive \<Rightarrow> u64 \<Rightarrow> u64 \<Rightarrow> ('w, 'ad, 'sd, 'cd) LedgerService \<Rightarrow>
    ('w, 'ad, 'sd, 'cd) LedgerService" where
  "prepopulate_snapshot_cache X blocks head_height cnt svc =
     (if head_height = 0 \<or> cnt = 0 then svc
      else let start_height = saturating_sub head_height cnt
           in if start_height = head_height then svc
              else prepopulate_loop X blocks (map of_nat [unat start_height ..< unat head_height]) svc)"

section \<open>Start-up\<close>

text \<open>
  What \<open>ProductionRunner::run\<close> does with the ledger between opening it and starting consensus: the index gets
  the genesis block, the finalized state is recovered, the snapshot cache filled, and the application made
  from the result.
\<close>

record ('w, 'ad, 'sd, 'cd) started =
  st_index :: BlockIndex
  st_app :: "('w, 'ad, 'sd, 'cd) RevmApplication"

definition start_node :: "externs \<Rightarrow> hex_lib \<Rightarrow> ('w, 'ad, 'sd, 'cd) QmdbState OverlayState block_executor \<Rightarrow>
    nat \<Rightarrow> u64 \<Rightarrow> address \<Rightarrow> Block archive \<Rightarrow> certificate archive \<Rightarrow> marker_file \<Rightarrow> ('w, 'ad, 'sd, 'cd) LedgerService \<Rightarrow>
    (RecoveryError + ('w, 'ad, 'sd, 'cd) started) option" where
  "start_node X H E max_txs gas_limit fee_recipient blocks certs marker svc =
     (case recover_finalized_state X H E (revm_context gas_limit fee_recipient) blocks certs marker
             (svc, seed_genesis_block_index X (lv_genesis_block (svc_view svc)) gas_limit block_index_new) of
        None \<Rightarrow> None
      | Some (Inl e) \<Rightarrow> Some (Inl e)
      | Some (Inr (svc1, index, recovered)) \<Rightarrow>
          (let svc2 = (case recovered of
                         Some (head_height, False) \<Rightarrow>
                           prepopulate_snapshot_cache X blocks head_height SNAPSHOT_PREPOPULATE_COUNT svc1
                       | _ \<Rightarrow> svc1);
               app = application_new X svc2 max_txs gas_limit fee_recipient
           in Some (Inr \<lparr>st_index = index,
                st_app = (case recovered of
                   None \<Rightarrow> app
                 | Some (height, _) \<Rightarrow> seed_block_fee_cache X index height (with_recovered_height height app))\<rparr>)))"

end
