(* ===== verification/Recovery_Properties.thy ===== *)
theory Recovery_Properties
  imports Recovery
begin

text \<open>
  What a restart restores: the chain above the checkpoint, with the roots its blocks announce; the marker that
  names the checkpoint; and the base fees, which come out as those of a chain without transactions.
\<close>

section \<open>The commit marker\<close>

lemma hex_no_space:
  assumes "hex_ok H"
  shows "trim (hx_encode H bs @ [CHR 0x0A]) = hx_encode H bs" and "trim (take k (hx_encode H bs)) = take k (hx_encode H bs)"
proof -
  have sub: "set (hx_encode H bs) \<subseteq> set ''0123456789abcdef''" using assms by (simp add: hex_ok_def)
  have "list_all (\<lambda>c. \<not> is_whitespace c) ''0123456789abcdef''" by code_simp
  then have no: "\<not> is_whitespace c" if "c \<in> set (hx_encode H bs)" for c
    using sub that by (auto simp only: list_all_iff)
  have keep: "trim s = s" if "set s \<subseteq> set (hx_encode H bs)" for s
  proof -
    have "dropWhile is_whitespace t = t" if "set t \<subseteq> set (hx_encode H bs)" for t
      using that no by (cases t) auto
    then show ?thesis using that by (simp add: trim_def)
  qed
  show "trim (take k (hx_encode H bs)) = take k (hx_encode H bs)" by (rule keep) (meson in_set_takeD subsetI)
  have w: "is_whitespace (CHR 0x0A)" by code_simp
  show "trim (hx_encode H bs @ [CHR 0x0A]) = hx_encode H bs"
  proof (cases "hx_encode H bs")
    case Nil
    then show ?thesis using w by (simp add: trim_def)
  next
    case (Cons c cs)
    then have "dropWhile is_whitespace (hx_encode H bs @ [CHR 0x0A]) = hx_encode H bs @ [CHR 0x0A]"
      using no [of c] by simp
    then show ?thesis using keep [of "hx_encode H bs"] w Cons no [of c] by (simp add: trim_def)
  qed
qed

lemma marker_written:
  assumes "hex_ok H"
  shows "read_commit_marker H (write_commit_marker H digest) = Some digest"
    and "k < 64 \<Longrightarrow> read_commit_marker H (FileContent (take k (hx_encode H (to_be_bytes 32 digest)))) = None"
  using hex_no_space [OF assms] hex_okD [OF assms]
  by (simp_all add: read_commit_marker_def write_commit_marker_def Let_def from_to_be_bytes)

section \<open>Replay\<close>

lemma block_snapshot_root:
  assumes "roots_linked X U ss" and "digest_faithful X U" and "b \<in> U" and "ss_get ss (block_commitment X b) = Some s"
  shows "sn_state_root s = blk_state_root b"
proof -
  obtain b' where "b' \<in> U" "block_commitment X b' = block_commitment X b" "sn_state_root s = blk_state_root b'"
    using assms(1,4) by (auto simp: roots_linked_def block_snapshot_def)
  then show ?thesis using assms(2,3) unfolding digest_faithful_def by metis
qed

lemma executed_linked:
  assumes "roots_linked X U (lv_snapshots v)" and "block \<in> U"
    and "ss_get (lv_snapshots v) (block_parent_digest X block) = Some snap"
    and "root_transition X (sn_state_root snap) c = blk_state_root block"
  shows "roots_linked X U (lv_snapshots (insert_snapshot X (block_commitment X block) (block_parent_digest X block) st
    (blk_state_root block) c txs v))"
proof -
  obtain b where b: "b \<in> U" "block_commitment X b = block_parent_digest X block" "sn_state_root snap = blk_state_root b"
    using assms(1,3) by (auto simp: roots_linked_def block_snapshot_def)
  have "linked_snapshot X U (snapshot_new (Some (block_parent_digest X block)) st (blk_state_root block) c ids)" for ids
    unfolding linked_snapshot_def using b assms(4) by (intro bexI [of _ b]) (simp_all add: snapshot_new_def)
  moreover have "block_snapshot X U (block_commitment X block) (snapshot_new (Some (block_parent_digest X block)) st
      (blk_state_root block) c ids)" for ids
    using assms(2) by (auto simp: block_snapshot_def snapshot_new_def)
  ultimately show ?thesis using assms(1) by (simp add: insert_snapshot_def roots_linked_insert)
qed

text \<open>Replaying a block adds its snapshot, keeps the ones that were there, and writes nothing.\<close>

definition extends :: "('w, 'ad, 'sd, 'cd) LedgerView \<Rightarrow> ('w, 'ad, 'sd, 'cd) LedgerView \<Rightarrow> bool" where
  "extends v v' \<longleftrightarrow> lv_qmdb v' = lv_qmdb v \<and> lv_genesis_block v' = lv_genesis_block v \<and>
     (\<forall>d. is_persisted (lv_snapshots v) d \<longrightarrow> is_persisted (lv_snapshots v') d) \<and>
     (\<forall>d. ss_get (lv_snapshots v) d \<noteq> None \<longrightarrow> ss_get (lv_snapshots v') d \<noteq> None)"

lemma extends_refl [simp]: "extends v v"
  by (simp add: extends_def)

lemma extends_trans: "extends v v' \<Longrightarrow> extends v' v'' \<Longrightarrow> extends v v''"
  by (simp add: extends_def)

lemma extends_restore: "extends v (restore_persisted_snapshot X b v)"
  by (simp add: extends_def restore_persisted_snapshot_def Let_def is_persisted_def)

lemma extends_insert: "extends v (insert_snapshot X d p st root c txs v)"
  by (simp add: extends_def insert_snapshot_def is_persisted_def)

text \<open>
  A block that was executed again: its snapshot holds the outcome of executing its transactions on the state of its
  parent's snapshot, with the context its provider gives, and the changes lead from the parent's root to
  the root the block announces.
\<close>

definition reexecuted :: "externs \<Rightarrow> ('w, 'ad, 'sd, 'cd) QmdbState OverlayState block_executor \<Rightarrow> index_provider \<Rightarrow>
    ('w, 'ad, 'sd, 'cd) LedgerView \<Rightarrow> Block \<Rightarrow> bool" where
  "reexecuted X E provider v block \<longleftrightarrow>
     (\<exists>parent index c outcome. ss_get (lv_snapshots v) (block_parent_digest X block) = Some parent \<and>
        provider index block = Some c \<and>
        block_execution X E (overlay_at v (sn_state parent)) c (blk_txs block) = Inr outcome \<and>
        root_transition X (sn_state_root parent) (eo_changes outcome) = blk_state_root block \<and>
        ss_get (lv_snapshots v) (block_commitment X block) =
          Some (snapshot_new (Some (block_parent_digest X block))
            (overlay_new () (overlay_merge_changes (sn_state parent) (eo_changes outcome))) (blk_state_root block)
            (eo_changes outcome) (block_tx_ids X (blk_txs block))))"

text \<open>Replay leaves every snapshot it finds as it is, and marks nothing as persisted.\<close>

definition grows :: "('w, 'ad, 'sd, 'cd) LedgerView \<Rightarrow> ('w, 'ad, 'sd, 'cd) LedgerView \<Rightarrow> bool" where
  "grows v v' \<longleftrightarrow> lv_qmdb v' = lv_qmdb v \<and>
     (\<forall>d. is_persisted (lv_snapshots v') d \<longleftrightarrow> is_persisted (lv_snapshots v) d) \<and>
     (\<forall>d s. ss_get (lv_snapshots v) d = Some s \<longrightarrow> ss_get (lv_snapshots v') d = Some s)"

lemma grows_refl [simp]: "grows v v"
  by (simp add: grows_def)

lemma grows_trans: "grows v v' \<Longrightarrow> grows v' v'' \<Longrightarrow> grows v v''"
  by (simp add: grows_def)

lemma reexecuted_grows: "reexecuted X E provider v b \<Longrightarrow> grows v v' \<Longrightarrow> reexecuted X E provider v' b"
  unfolding reexecuted_def grows_def overlay_at_def by metis

lemma replay_finalized_block_spec:
  assumes "replay_finalized_block X E provider block (svc, index) = Some (Inr (svc', index'))"
    and "roots_linked X U (lv_snapshots (svc_view svc))" and "block \<in> U"
  shows "roots_linked X U (lv_snapshots (svc_view svc'))" and "extends (svc_view svc) (svc_view svc')"
    and "ss_get (lv_snapshots (svc_view svc')) (block_commitment X block) \<noteq> None"
    and "grows (svc_view svc) (svc_view svc')"
    and "ss_get (lv_snapshots (svc_view svc)) (block_commitment X block) = None \<Longrightarrow> reexecuted X E provider (svc_view svc') block"
    and "d \<noteq> block_commitment X block \<Longrightarrow> ss_get (lv_snapshots (svc_view svc')) d = ss_get (lv_snapshots (svc_view svc)) d"
proof -
  have "roots_linked X U (lv_snapshots (svc_view svc')) \<and> extends (svc_view svc) (svc_view svc') \<and>
    ss_get (lv_snapshots (svc_view svc')) (block_commitment X block) \<noteq> None \<and> grows (svc_view svc) (svc_view svc') \<and>
    (ss_get (lv_snapshots (svc_view svc)) (block_commitment X block) = None \<longrightarrow> reexecuted X E provider (svc_view svc') block) \<and>
    (d \<noteq> block_commitment X block \<longrightarrow> ss_get (lv_snapshots (svc_view svc')) d = ss_get (lv_snapshots (svc_view svc)) d)"
  proof (cases "query_state_root (block_commitment X block) (svc_view svc)")
    case (Some r)
    then have "svc' = svc" using assms(1) by (simp add: replay_finalized_block_def)
    then show ?thesis using assms(2) Some by (auto simp: query_state_root_def)
  next
    case None
    then obtain parent where p: "ss_get (lv_snapshots (svc_view svc)) (block_parent_digest X block) = Some parent"
      using assms(1) by (cases "ss_get (lv_snapshots (svc_view svc)) (block_parent_digest X block)")
        (auto simp: replay_finalized_block_def parent_snapshot_def Let_def)
    with None obtain c where c: "provider index block = Some c"
      using assms(1) by (cases "provider index block") (auto simp: replay_finalized_block_def parent_snapshot_def Let_def)
    with None p obtain outcome where o: "block_execution X E (overlay_at (svc_view svc) (sn_state parent)) c (blk_txs block) = Inr outcome"
      using assms(1) by (cases "block_execution X E (overlay_at (svc_view svc) (sn_state parent)) c (blk_txs block)")
        (auto simp: replay_finalized_block_def parent_snapshot_def Let_def)
    have r: "root_transition X (sn_state_root parent) (eo_changes outcome) = blk_state_root block" and
      svc: "svc' = svc_on (insert_snapshot X (block_commitment X block) (block_parent_digest X block)
         (overlay_new () (overlay_merge_changes (sn_state parent) (eo_changes outcome)))
         (blk_state_root block) (eo_changes outcome) (blk_txs block)) svc"
      using assms(1) None p c o
      by (simp_all add: replay_finalized_block_def parent_snapshot_def compute_root_from_store_def Let_def split: if_splits)
    have new: "block_parent_digest X block \<noteq> block_commitment X block"
      "ss_get (lv_snapshots (svc_view svc)) (block_commitment X block) = None"
      using None p by (auto simp: query_state_root_def)
    have "grows (svc_view svc) (svc_view svc')" using new(2) by (auto simp: svc grows_def insert_snapshot_def is_persisted_def)
    moreover have "reexecuted X E provider (svc_view svc') block"
      unfolding reexecuted_def using p c o r new(1)
      by (intro exI [of _ parent] exI [of _ index] exI [of _ c] exI [of _ outcome])
        (simp add: svc insert_snapshot_def overlay_at_def)
    ultimately show ?thesis using executed_linked [OF assms(2,3) p r] extends_insert [of "svc_view svc"]
      by (simp add: svc insert_snapshot_def)
  qed
  then show "roots_linked X U (lv_snapshots (svc_view svc'))" "extends (svc_view svc) (svc_view svc')"
    "ss_get (lv_snapshots (svc_view svc')) (block_commitment X block) \<noteq> None" "grows (svc_view svc) (svc_view svc')"
    "ss_get (lv_snapshots (svc_view svc)) (block_commitment X block) = None \<Longrightarrow> reexecuted X E provider (svc_view svc') block"
    "d \<noteq> block_commitment X block \<Longrightarrow> ss_get (lv_snapshots (svc_view svc')) d = ss_get (lv_snapshots (svc_view svc)) d"
    by simp_all
qed

text \<open>Blocks that follow each other, and recovered blocks filed under their heights.\<close>

fun successive :: "externs \<Rightarrow> Block list \<Rightarrow> bool" where
  "successive X (b # c # bs) \<longleftrightarrow>
     block_parent_digest X c = block_commitment X b \<and> blk_height c = blk_height b + 1 \<and> successive X (c # bs)"
| "successive X bs \<longleftrightarrow> True"

definition filed :: "Block set \<Rightarrow> (u64, Block) btree_map \<Rightarrow> bool" where
  "filed U recovered \<longleftrightarrow> bt_wf recovered \<and> (\<forall>(h, b) \<in> set recovered. b \<in> U \<and> blk_height b = h \<and> h \<noteq> - 1)"

lemma filed_get: "filed U recovered \<Longrightarrow> bt_get recovered h = Some b \<Longrightarrow> b \<in> U \<and> blk_height b = h \<and> h \<noteq> - 1 \<and> b \<in> snd ` set recovered"
  using map_of_SomeD [of recovered h b] by (force simp: filed_def image_iff)

lemma unat_Suc_u64: "h \<noteq> - 1 \<Longrightarrow> unat (h + 1) = Suc (unat h)" for h :: u64
  using word_less_Suc [of h] unat_u64_less [of h]
  by (simp add: word_less_nat_alt unat_word_ariths mod_if split: if_splits)

lemma reexecuted_step:
  assumes "replay_finalized_block X E provider c (svc, index) = Some (Inr (svc1, index1))"
    and "roots_linked X U (lv_snapshots (svc_view svc))" and "c \<in> U" and "grows (svc_view svc1) (svc_view svc')"
    and "inj_on (block_commitment X) B \<longrightarrow>
      (\<forall>c \<in> set tail. ss_get (lv_snapshots (svc_view svc1)) (block_commitment X c) = None \<longrightarrow>
         reexecuted X E provider (svc_view svc') c)"
    and "inj_on (block_commitment X) B" and "set (c # tail) \<subseteq> B" and "b \<in> set (c # tail)"
    and "ss_get (lv_snapshots (svc_view svc)) (block_commitment X b) = None"
  shows "reexecuted X E provider (svc_view svc') b"
proof (cases "b = c")
  case True
  then show ?thesis using replay_finalized_block_spec(5) [OF assms(1-3)] assms(4,9) reexecuted_grows by blast
next
  case False
  then have "block_commitment X b \<noteq> block_commitment X c" using assms(6-8) by (auto dest: inj_onD)
  then show ?thesis using replay_finalized_block_spec(6) [OF assms(1-3)] False assms(5,6,8,9) by auto
qed

lemma replay_tail_spec:
  assumes "replay_tail X E provider recovered hs (blk_height b, block_commitment X b, rp) (svc, index) =
      Some (Inr (svc', index', height, replayed))"
    and "hs = map of_nat [Suc (unat (blk_height b)) ..< m]" and "m \<le> 2 ^ 64"
    and "filed U recovered" and "roots_linked X U (lv_snapshots (svc_view svc))"
  shows "\<exists>tail. set tail \<subseteq> snd ` set recovered \<and> successive X (b # tail) \<and> height = blk_height (last (b # tail)) \<and>
    (replayed \<longleftrightarrow> rp \<or> tail \<noteq> []) \<and> roots_linked X U (lv_snapshots (svc_view svc')) \<and>
    extends (svc_view svc) (svc_view svc') \<and>
    (\<forall>c \<in> set tail. ss_get (lv_snapshots (svc_view svc')) (block_commitment X c) \<noteq> None) \<and>
    grows (svc_view svc) (svc_view svc') \<and>
    (inj_on (block_commitment X) (snd ` set recovered) \<longrightarrow>
       (\<forall>c \<in> set tail. ss_get (lv_snapshots (svc_view svc)) (block_commitment X c) = None \<longrightarrow>
          reexecuted X E provider (svc_view svc') c)) \<and>
    (Suc (unat height) < m \<longrightarrow> (\<forall>c. bt_get recovered (height + 1) = Some c \<longrightarrow>
       block_parent_digest X c \<noteq> block_commitment X (last (b # tail))))"
  using assms
proof (induction hs arbitrary: b rp svc index)
  case Nil
  then show ?case by (intro exI [of _ "[]"]) auto
next
  case (Cons expected hs)
  have lt: "Suc (unat (blk_height b)) < m" and hs: "hs = map of_nat [Suc (Suc (unat (blk_height b))) ..< m]"
    and e: "expected = of_nat (Suc (unat (blk_height b)))"
    using Cons(3) by (auto simp: upt_rec [of "Suc (unat (blk_height b))"] split: if_splits)
  have e': "expected = blk_height b + 1" by (simp add: e add.commute)
  have u: "unat expected = Suc (unat (blk_height b))"
    unfolding e using lt Cons(4) by (intro unat_of_nat_u64) simp
  show ?case
  proof (cases "\<exists>c. bt_get recovered expected = Some c \<and> block_parent_digest X c = block_commitment X b")
    case False
    then have "height = blk_height b \<and> svc' = svc \<and> replayed = rp"
      using Cons(2) by (auto split: option.splits if_splits)
    then show ?thesis using False Cons(6) e' by (intro exI [of _ "[]"]) auto
  next
    case True
    then obtain c where c: "bt_get recovered expected = Some c" "block_parent_digest X c = block_commitment X b" by blast
    note f = filed_get [OF Cons(5) c(1)]
    obtain svc1 index1 where r: "replay_finalized_block X E provider c (svc, index) = Some (Inr (svc1, index1))"
      and t: "replay_tail X E provider recovered hs (blk_height c, block_commitment X c, True) (svc1, index1) =
        Some (Inr (svc', index', height, replayed))"
      using Cons(2) c by (auto split: option.splits sum.splits)
    note s = replay_finalized_block_spec [OF r Cons(6)]
    have "hs = map of_nat [Suc (unat (blk_height c)) ..< m]" using hs f u by simp
    from Cons(1) [OF t this Cons(4,5) s(1)] f obtain tail where tail:
      "set tail \<subseteq> snd ` set recovered" "successive X (c # tail)" "height = blk_height (last (c # tail))" "replayed"
      "roots_linked X U (lv_snapshots (svc_view svc'))" "extends (svc_view svc1) (svc_view svc')"
      "\<forall>c \<in> set tail. ss_get (lv_snapshots (svc_view svc')) (block_commitment X c) \<noteq> None"
      "grows (svc_view svc1) (svc_view svc')"
      "inj_on (block_commitment X) (snd ` set recovered) \<longrightarrow>
         (\<forall>c \<in> set tail. ss_get (lv_snapshots (svc_view svc1)) (block_commitment X c) = None \<longrightarrow>
            reexecuted X E provider (svc_view svc') c)"
      "Suc (unat height) < m \<longrightarrow> (\<forall>d. bt_get recovered (height + 1) = Some d \<longrightarrow>
         block_parent_digest X d \<noteq> block_commitment X (last (c # tail)))"
      by auto
    have g: "grows (svc_view svc) (svc_view svc')" using s(4) f tail(8) grows_trans by blast
    have ree: "reexecuted X E provider (svc_view svc') b'"
      if "inj_on (block_commitment X) (snd ` set recovered)" "b' \<in> set (c # tail)"
        "ss_get (lv_snapshots (svc_view svc)) (block_commitment X b') = None" for b'
      using reexecuted_step [OF r Cons(6) _ tail(8,9) that(1) _ that(2,3)] f tail(1) by simp
    have x: "extends (svc_view svc) (svc_view svc')" using s(2) f tail(6) extends_trans by blast
    have "ss_get (lv_snapshots (svc_view svc')) (block_commitment X c) \<noteq> None"
      using s(3) f tail(6) unfolding extends_def by blast
    then show ?thesis using tail x f c e' g ree by (intro exI [of _ "c # tail"]) auto
  qed
qed

section \<open>The restored chain\<close>

lemma filed_checkpoint:
  assumes "filed U recovered" and "(h, checkpoint) \<in> set recovered"
  shows "heights (saturating_add (blk_height checkpoint) 1) (blk_height head) =
    map of_nat [Suc (unat (blk_height checkpoint)) ..< Suc (unat (blk_height head))]"
proof -
  have "blk_height checkpoint \<noteq> - 1" using assms by (auto simp: filed_def)
  then show ?thesis by (simp add: heights_def saturating_Suc unat_Suc_u64)
qed

lemma restored_checkpoint:
  assumes "restore_checkpoint_and_replay_tail X H E provider recovered marker (svc, index) =
      Some (Inr (svc', index', height, replayed))"
    and "read_commit_marker H marker = Some m" and "recovered \<noteq> []" and "filed U recovered"
    and "roots_linked X U (lv_snapshots (svc_view svc))"
  obtains checkpoint tail where "checkpoint \<in> snd ` set recovered" "block_commitment X checkpoint = m"
    "set tail \<subseteq> snd ` set recovered" "successive X (checkpoint # tail)" "height = blk_height (last (checkpoint # tail))"
    "replayed \<longleftrightarrow> tail \<noteq> []" "roots_linked X U (lv_snapshots (svc_view svc'))"
    "extends (restore_persisted_snapshot X checkpoint (svc_view svc)) (svc_view svc')"
    "\<forall>c \<in> set tail. ss_get (lv_snapshots (svc_view svc')) (block_commitment X c) \<noteq> None"
    "grows (restore_persisted_snapshot X checkpoint (svc_view svc)) (svc_view svc')"
    "inj_on (block_commitment X) (snd ` set recovered) \<longrightarrow>
       (\<forall>c \<in> set tail. ss_get (lv_snapshots (restore_persisted_snapshot X checkpoint (svc_view svc))) (block_commitment X c) = None \<longrightarrow>
          reexecuted X E provider (svc_view svc') c)"
    "height < blk_height (snd (last recovered)) \<longrightarrow> (\<forall>b. bt_get recovered (height + 1) = Some b \<longrightarrow>
       block_parent_digest X b \<noteq> block_commitment X (last (checkpoint # tail)))"
proof -
  let ?head = "snd (last recovered)"
  obtain h checkpoint where f: "List.find (\<lambda>(height, block). block_commitment X block = m) recovered = Some (h, checkpoint)"
    using assms(1,2,3) by (cases "List.find (\<lambda>(height, block). block_commitment X block = m) recovered")
      (auto simp: restore_checkpoint_and_replay_tail_def Let_def)
  then have c: "(h, checkpoint) \<in> set recovered" "block_commitment X checkpoint = m"
    by (auto simp: find_Some_iff) (metis nth_mem)
  let ?svc = "svc_on (restore_persisted_snapshot X checkpoint) svc"
  have cU: "checkpoint \<in> U" using c(1) assms(4) by (auto simp: filed_def)
  have t: "replay_tail X E provider recovered (heights (saturating_add (blk_height checkpoint) 1) (blk_height ?head))
      (blk_height checkpoint, block_commitment X checkpoint, False) (?svc, index) = Some (Inr (svc', index', height, replayed))"
    using assms(1-3) f by (simp add: restore_checkpoint_and_replay_tail_def Let_def)
  have l: "roots_linked X U (lv_snapshots (svc_view ?svc))" using restored_snapshot [OF assms(5) cU] by simp
  have "Suc (unat (blk_height ?head)) \<le> 2 ^ 64" using unat_u64_less [of "blk_height ?head"] by simp
  from replay_tail_spec [OF t filed_checkpoint [OF assms(4) c(1)] this assms(4) l] show thesis
  proof (elim exE conjE, goal_cases)
    case (1 tail)
    have "checkpoint \<in> snd ` set recovered" using c(1) by force
    then show ?case using 1 c(2) by (intro that [of checkpoint tail]) (simp_all add: word_less_nat_alt)
  qed
qed

lemma successive_above:
  "successive X (b # tail) \<Longrightarrow> \<forall>c \<in> set (b # tail). blk_height c \<noteq> - 1 \<Longrightarrow> c \<in> set tail \<Longrightarrow> blk_height b < blk_height c"
proof (induction tail arbitrary: b)
  case (Cons d tail)
  then have "blk_height b < blk_height d" by (simp add: word_less_nat_alt unat_Suc_u64)
  moreover have "blk_height d < blk_height c" if "c \<in> set tail"
    using Cons.IH [of d] Cons.prems(1,2) that by simp
  ultimately show ?case using Cons.prems(3) by (auto intro: less_trans)
qed simp

text \<open>
  C13: what a restart restores when the marker names an archived block. That block counts as persisted, and no other
  block that was not before. The blocks above it follow one after the other, each continuing the one before, up to the
  head of the archive, to a missing height or to a block of another parent. Each of them that the ledger did not
  know is executed again: its snapshot is the outcome of executing its transactions on the state of its parent's
  snapshot, and leads to the root the block announces. All are then known with the roots they announce, the
  unpersisted roots stay linked by their changes, and nothing is written to storage. The archived blocks lie below height
  \<open>u64::MAX\<close> and have distinct digests.
\<close>

theorem recovery_restores_chain:
  assumes "restore_checkpoint_and_replay_tail X H E provider recovered marker (svc, index) =
      Some (Inr (svc', index', height, replayed))"
    and "read_commit_marker H marker = Some m" and "recovered \<noteq> []" and "filed U recovered" and "digest_faithful X U"
    and "inj_on (block_commitment X) (snd ` set recovered)"
    and "roots_linked X U (lv_snapshots (svc_view svc))"
  shows "\<exists>checkpoint tail. block_commitment X checkpoint = m \<and> set (checkpoint # tail) \<subseteq> snd ` set recovered \<and>
    successive X (checkpoint # tail) \<and> height = blk_height (last (checkpoint # tail)) \<and> (replayed \<longleftrightarrow> tail \<noteq> []) \<and>
    (\<forall>b. height < blk_height (snd (last recovered)) \<and> bt_get recovered (height + 1) = Some b \<longrightarrow>
       block_parent_digest X b \<noteq> block_commitment X (last (checkpoint # tail))) \<and>
    (\<forall>d. is_snapshot_persisted d (svc_view svc') \<longleftrightarrow> d = m \<or> is_snapshot_persisted d (svc_view svc)) \<and>
    (\<forall>b \<in> set tail. ss_get (lv_snapshots (svc_view svc)) (block_commitment X b) = None \<longrightarrow>
       reexecuted X E provider (svc_view svc') b) \<and>
    (\<forall>b \<in> set (checkpoint # tail). query_state_root (block_commitment X b) (svc_view svc') = Some (blk_state_root b)) \<and>
    roots_linked X U (lv_snapshots (svc_view svc')) \<and> lv_qmdb (svc_view svc') = lv_qmdb (svc_view svc)"
proof -
  obtain checkpoint tail where r: "checkpoint \<in> snd ` set recovered" "block_commitment X checkpoint = m"
    "set tail \<subseteq> snd ` set recovered" "successive X (checkpoint # tail)" "height = blk_height (last (checkpoint # tail))"
    "replayed \<longleftrightarrow> tail \<noteq> []" "roots_linked X U (lv_snapshots (svc_view svc'))"
    "extends (restore_persisted_snapshot X checkpoint (svc_view svc)) (svc_view svc')"
    "\<forall>c \<in> set tail. ss_get (lv_snapshots (svc_view svc')) (block_commitment X c) \<noteq> None"
    "grows (restore_persisted_snapshot X checkpoint (svc_view svc)) (svc_view svc')"
    "inj_on (block_commitment X) (snd ` set recovered) \<longrightarrow>
       (\<forall>c \<in> set tail. ss_get (lv_snapshots (restore_persisted_snapshot X checkpoint (svc_view svc))) (block_commitment X c) = None \<longrightarrow>
          reexecuted X E provider (svc_view svc') c)"
    "height < blk_height (snd (last recovered)) \<longrightarrow> (\<forall>b. bt_get recovered (height + 1) = Some b \<longrightarrow>
       block_parent_digest X b \<noteq> block_commitment X (last (checkpoint # tail)))"
    by (rule restored_checkpoint [OF assms(1-4,7)])
  let ?v = "restore_persisted_snapshot X checkpoint (svc_view svc)"
  have x: "is_snapshot_persisted m ?v" "ss_get (lv_snapshots ?v) m \<noteq> None"
    using r(2) by (auto simp: is_snapshot_persisted_def restore_persisted_snapshot_def Let_def is_persisted_def)
  have "query_state_root (block_commitment X b) (svc_view svc') = Some (blk_state_root b)" if "b \<in> set (checkpoint # tail)" for b
  proof -
    have "b \<in> U" using that r(1,3) assms(4) by (fastforce simp: filed_def)
    moreover have "ss_get (lv_snapshots (svc_view svc')) (block_commitment X b) \<noteq> None"
      using that r(2,8,9) x(2) unfolding extends_def by auto
    ultimately show ?thesis using block_snapshot_root [OF r(7) assms(5)] by (auto simp: query_state_root_def)
  qed
  moreover have "is_snapshot_persisted d (svc_view svc') \<longleftrightarrow> d = m \<or> is_snapshot_persisted d (svc_view svc)"
    "lv_qmdb (svc_view svc') = lv_qmdb (svc_view svc)" for d
    using r(2,10)
    by (auto simp: grows_def is_snapshot_persisted_def restore_persisted_snapshot_def Let_def is_persisted_def)
  moreover have "reexecuted X E provider (svc_view svc') b"
    if "b \<in> set tail" "ss_get (lv_snapshots (svc_view svc)) (block_commitment X b) = None" for b
  proof -
    have "checkpoint \<notin> set tail" using successive_above [OF r(4)] r(1,3) assms(4) by (fastforce simp: filed_def)
    then have "block_commitment X b \<noteq> block_commitment X checkpoint" using that(1) r(1,3) assms(6) by (auto dest: inj_onD)
    then have "ss_get (lv_snapshots ?v) (block_commitment X b) = None"
      using that(2) by (simp add: restore_persisted_snapshot_def Let_def)
    then show ?thesis using r(11) assms(6) that(1) by blast
  qed
  ultimately show ?thesis using r by (intro exI [of _ checkpoint] exI [of _ tail]) simp
qed

text \<open>A node that committed the first block and restarts with two archived blocks.\<close>

definition sample_grandchild :: Block where
  "sample_grandchild = block_new 1 2 0 0 sample_root []"

definition sample_blocks :: "Block set" where
  "sample_blocks = {sample_genesis, sample_child, sample_grandchild}"

lemma sample_grandchild_simps [simp]:
  "blk_height sample_grandchild = 2" "blk_state_root sample_grandchild = sample_root" "blk_txs sample_grandchild = []"
  "block_commitment height_externs sample_grandchild = 2" "block_parent_digest height_externs sample_grandchild = 1"
proof -
  have "(from_be_bytes (to_be_bytes 8 (2 :: u64)) :: b256) = 2"
    by (simp add: from_be_bytes_def to_be_bytes_def upt_rec)
  then show "block_commitment height_externs sample_grandchild = 2"
    by (simp add: sample_grandchild_def height_commitment)
  show "block_parent_digest height_externs sample_grandchild = 1"
    by (simp add: sample_grandchild_def block_parent_digest_def digest_for_block_id_def block_new_def height_externs_def
        from_to_be_bytes)
qed (simp_all add: sample_grandchild_def block_new_def)

lemma sample_blocks_faithful: "digest_faithful height_externs sample_blocks"
  by (auto simp: digest_faithful_def sample_blocks_def)

lemma sample_linked: "roots_linked height_externs sample_blocks (lv_snapshots genesis_view)"
  by (rule init_linked [OF sample_init]) (simp add: genesis_view_def sample_blocks_def sample_genesis_def)

lemma sample_restart:
  assumes "revm_context 30000000 9 index sample_grandchild = Some c"
  shows "\<exists>svc' index'. restore_checkpoint_and_replay_tail height_externs sample_hex sample_executor (revm_context 30000000 9)
      [(1, sample_child), (2, sample_grandchild)] (write_commit_marker sample_hex 1) (service_new genesis_view, index) =
      Some (Inr (svc', index', 2, True)) \<and> \<not> is_persisted (lv_snapshots (svc_view svc')) 2 \<and>
      ss_get (lv_snapshots (svc_view svc')) 2 \<noteq> None"
proof -
  let ?v = "restore_persisted_snapshot height_externs sample_child genesis_view"
  obtain parent where p: "ss_get (lv_snapshots ?v) 1 = Some parent" "sn_state_root parent = sample_root"
    by (simp add: restore_persisted_snapshot_def Let_def snapshot_new_def)
  obtain outcome where out: "sample_executor (overlay_at ?v (sn_state parent)) c [] = Inr (Inr outcome)"
    "eo_changes outcome = changes_new" using sample_executor_empty by blast
  have q: "ss_get (lv_snapshots ?v) 2 = None" "\<not> is_persisted (lv_snapshots ?v) 2"
    by (simp_all add: restore_persisted_snapshot_def Let_def is_persisted_def genesis_persisted [unfolded is_persisted_def])
  have h: "heights (saturating_add 1 1) 2 = [2]" by (simp add: heights_def saturating_add_def upt_rec)
  show ?thesis using p q out assms marker_written(1) [OF sample_hex_ok, of 1]
    by (simp add: restore_checkpoint_and_replay_tail_def Let_def h replay_finalized_block_def query_state_root_def
        parent_snapshot_def block_execution_def compute_root_from_store_def)
      (simp add: insert_snapshot_def is_persisted_def)
qed

theorem recovery_restores_chain_witness:
  "\<exists>svc' index'. restore_checkpoint_and_replay_tail height_externs sample_hex sample_executor (revm_context 30000000 9)
      [(1, sample_child), (2, sample_grandchild)] (write_commit_marker sample_hex 1) (service_new genesis_view, block_index_new) =
      Some (Inr (svc', index', 2, True)) \<and>
     is_snapshot_persisted 1 (svc_view svc') \<and> \<not> is_snapshot_persisted 2 (svc_view svc') \<and>
     lv_qmdb (svc_view svc') = lv_qmdb genesis_view"
proof -
  have "\<exists>c. revm_context 30000000 9 block_index_new sample_grandchild = Some c"
    by (simp add: revm_context_def provider_base_fee_def get_block_by_number_def block_index_new_def)
  then obtain svc' index' where r: "restore_checkpoint_and_replay_tail height_externs sample_hex sample_executor (revm_context 30000000 9)
      [(1, sample_child), (2, sample_grandchild)] (write_commit_marker sample_hex 1) (service_new genesis_view, block_index_new) =
      Some (Inr (svc', index', 2, True))" using sample_restart by blast
  have "filed sample_blocks [(1, sample_child), (2, sample_grandchild)]" by (simp add: filed_def sample_blocks_def)
  note filed = this
  have inj: "inj_on (block_commitment height_externs) (snd ` set [(1 :: u64, sample_child), (2, sample_grandchild)])"
    by (auto simp: inj_on_def)
  have linked: "roots_linked height_externs sample_blocks (lv_snapshots (svc_view (service_new genesis_view)))"
    using sample_linked by simp
  from recovery_restores_chain [OF r marker_written(1) [OF sample_hex_ok] list.distinct(2) filed sample_blocks_faithful inj
      linked]
  obtain persisted: "\<And>d. is_snapshot_persisted d (svc_view svc') \<longleftrightarrow> d = 1 \<or> is_snapshot_persisted d genesis_view"
    and qmdb: "lv_qmdb (svc_view svc') = lv_qmdb genesis_view"
    by (elim exE conjE) simp
  have "\<not> is_snapshot_persisted 2 genesis_view" by (simp add: is_snapshot_persisted_def genesis_persisted)
  then show ?thesis using r persisted qmdb by auto
qed

section \<open>What the marker decides\<close>

text \<open>
  C15: the marker decides what a restart takes the store to contain. The marker that is written when a block is
  persisted is read back as that block; one that names no archived block stops the node. A truncated marker is
  not distinguished from a missing one: the head of the archive then counts as persisted without being executed, and
  the restarted node answers from whatever the store contains.
\<close>

theorem marker_decides_recovery:
  assumes "hex_ok H" and "recovered \<noteq> []" and "k < 64"
  shows "read_commit_marker H (observe_event H False (SnapshotPersisted d) marker) = Some d \<and>
    (d \<notin> block_commitment X ` snd ` set recovered \<longrightarrow>
       restore_checkpoint_and_replay_tail X H E provider recovered (write_commit_marker H d) (svc, index) =
       Some (Inl (UnknownMarker d (blk_height (snd (last recovered)))))) \<and>
    (\<exists>svc'. restore_checkpoint_and_replay_tail X H E provider recovered
         (FileContent (take k (hx_encode H (to_be_bytes 32 d)))) (svc, index) =
         Some (Inr (svc', index, blk_height (snd (last recovered)), False)) \<and>
       is_snapshot_persisted (block_commitment X (snd (last recovered))) (svc_view svc') \<and>
       latest_state (svc_view svc') = overlay_at (svc_view svc) fresh_overlay)"
proof -
  have "List.find (\<lambda>(height, block). block_commitment X block = d) recovered = None"
    if "d \<notin> block_commitment X ` snd ` set recovered" using that by (force simp: find_None_iff)
  then show ?thesis using marker_written [OF assms(1)] assms(2,3)
    by (simp add: restore_checkpoint_and_replay_tail_def Let_def is_snapshot_persisted_def restore_persisted_snapshot_def
        is_persisted_def latest_state_def overlay_at_def) (simp add: snapshot_new_def)
qed

theorem marker_decides_recovery_witness:
  "restore_checkpoint_and_replay_tail height_externs sample_hex sample_executor (revm_context 30000000 9)
     [(1, sample_child)] (write_commit_marker sample_hex 7) (service_new genesis_view, block_index_new) =
     Some (Inl (UnknownMarker 7 1)) \<and>
   (\<exists>svc'. restore_checkpoint_and_replay_tail height_externs sample_hex sample_executor (revm_context 30000000 9)
     [(1, sample_child)] (FileContent (take 10 (hx_encode sample_hex (to_be_bytes 32 (7 :: b256))))) (service_new genesis_view, block_index_new) =
     Some (Inr (svc', block_index_new, 1, False)) \<and> is_snapshot_persisted 1 (svc_view svc'))"
  using marker_decides_recovery [OF sample_hex_ok, of "[(1, sample_child)]" 10 7 MissingFile height_externs sample_executor
      "revm_context 30000000 9" "service_new genesis_view" block_index_new] by auto

section \<open>A restarted node\<close>

lemma restore_seeds_view:
  "restore_seeds X certs hs svc = Inr svc' \<Longrightarrow>
     lv_snapshots (svc_view svc') = lv_snapshots (svc_view svc) \<and> extends (svc_view svc) (svc_view svc')"
  by (induction X certs hs svc rule: restore_seeds.induct)
    (auto simp: set_seed_def service_publish_def lv_set_seed_def extends_def split: sum.splits option.splits)

lemma seed_block_fees_keeps [simp]:
  "ap_ledger (seed_block_fees es app) = ap_ledger app" "ap_gas_limit (seed_block_fees es app) = ap_gas_limit app"
  unfolding seed_block_fees_def by (induction es arbitrary: app) (auto split: prod.splits)

lemma seed_cache_keeps [simp]:
  "ap_ledger (seed_block_fee_cache X index h app) = ap_ledger app"
  "ap_gas_limit (seed_block_fee_cache X index h app) = ap_gas_limit app"
  by (simp_all add: seed_block_fee_cache_def)

text \<open>An archive of blocks of a universe, each under its height.\<close>

definition archive_of :: "Block set \<Rightarrow> Block archive \<Rightarrow> bool" where
  "archive_of U blocks \<longleftrightarrow> (\<forall>h b. ar_get blocks h = Inr (Some b) \<longrightarrow> b \<in> U \<and> blk_height b = h \<and> h \<noteq> - 1)"

lemma set_bt_insert: "set (bt_insert k v m) \<subseteq> insert (k, v) (set m)"
  by (induction k v m rule: bt_insert.induct) (auto split: ordering.splits if_splits)

lemma index_archive_filed:
  "index_archive X provider blocks hs (index, recovered) = Some (Inr (index', recovered')) \<Longrightarrow> archive_of U blocks \<Longrightarrow>
     filed U recovered \<Longrightarrow> filed U recovered'"
proof (induction hs arbitrary: index recovered)
  case (Cons h hs)
  have "filed U (bt_insert h b recovered)" if "ar_get blocks h = Inr (Some b)" for b
    using that Cons(3,4) set_bt_insert [of h b recovered] by (fastforce simp: filed_def archive_of_def)
  then show ?case using Cons by (fastforce split: sum.splits option.splits)
qed simp

lemma restore_linked:
  assumes "restore_checkpoint_and_replay_tail X H E provider recovered marker (svc, index) =
      Some (Inr (svc', index', height, replayed))"
    and "filed U recovered" and "digest_faithful X U" and "roots_linked X U (lv_snapshots (svc_view svc))"
  shows "roots_linked X U (lv_snapshots (svc_view svc'))"
proof (cases "recovered = [] \<or> read_commit_marker H marker = None")
  case True
  have "recovered \<noteq> [] \<Longrightarrow> snd (last recovered) \<in> U"
    using assms(2) last_in_set [of recovered] by (cases "last recovered") (auto simp: filed_def)
  then show ?thesis using True assms(1,4) restored_snapshot [OF assms(4)]
    by (auto simp: restore_checkpoint_and_replay_tail_def Let_def split: if_splits)
next
  case False
  then obtain m where "read_commit_marker H marker = Some m" by auto
  with False show ?thesis by (blast intro: restored_checkpoint [OF assms(1) _ _ assms(2,4)])
qed

lemma prepopulate_linked:
  "archive_of U blocks \<Longrightarrow> roots_linked X U (lv_snapshots (svc_view svc)) \<Longrightarrow>
     roots_linked X U (lv_snapshots (svc_view (prepopulate_snapshot_cache X blocks height cnt svc)))"
proof -
  assume a: "archive_of U blocks"
  have loop: "roots_linked X U (lv_snapshots (svc_view svc)) \<Longrightarrow>
      roots_linked X U (lv_snapshots (svc_view (prepopulate_loop X blocks hs svc)))" for hs and svc :: "('a, 'b, 'c, 'd) LedgerService"
  proof (induction hs arbitrary: svc)
    case (Cons h hs)
    have "roots_linked X U (lv_snapshots (svc_view (svc_on (restore_persisted_snapshot X b) svc)))"
      if "ar_get blocks h = Inr (Some b)" for b
      using that a Cons(2) restored_snapshot by (fastforce simp: archive_of_def)
    then show ?case using Cons by (auto split: sum.splits option.splits)
  qed simp
  assume "roots_linked X U (lv_snapshots (svc_view svc))"
  then show ?thesis using loop by (simp add: prepopulate_snapshot_cache_def Let_def)
qed

lemma start_node_linked:
  assumes "start_node X H E max_txs gas_limit fee_recipient blocks certs marker svc = Some (Inr node)"
    and "archive_of U blocks" and "digest_faithful X U" and "roots_linked X U (lv_snapshots (svc_view svc))"
  shows "roots_linked X U (lv_snapshots (ap_view (st_app node)))"
proof -
  let ?provider = "revm_context gas_limit fee_recipient"
  let ?index = "seed_genesis_block_index X (lv_genesis_block (svc_view svc)) gas_limit block_index_new"
  obtain svc1 index recovered where r: "recover_finalized_state X H E ?provider blocks certs marker (svc, ?index) =
      Some (Inr (svc1, index, recovered))"
    using assms(1) by (auto simp: start_node_def split: option.splits sum.splits)
  then have app: "lv_snapshots (ap_view (st_app node)) = lv_snapshots (svc_view svc1) \<or>
      (\<exists>h. lv_snapshots (ap_view (st_app node)) =
         lv_snapshots (svc_view (prepopulate_snapshot_cache X blocks h SNAPSHOT_PREPOPULATE_COUNT svc1)))"
    using assms(1) by (cases recovered) (auto simp: start_node_def Let_def application_new_def with_recovered_height_def
        split: bool.splits)
  from r obtain svc0 where s: "restore_seeds X certs (archive_heights certs) svc = Inr svc0"
    by (auto simp: recover_finalized_state_def Let_def split: sum.splits)
  with r obtain index' bs where i: "index_archive X ?provider blocks (archive_heights blocks) (?index, []) = Some (Inr (index', bs))"
    by (auto simp: recover_finalized_state_def Let_def split: sum.splits option.splits)
  have f: "filed U bs" using index_archive_filed [OF i assms(2)] by (simp add: filed_def)
  have l: "roots_linked X U (lv_snapshots (svc_view svc0))" using restore_seeds_view [OF s] assms(4) by simp
  have "roots_linked X U (lv_snapshots (svc_view svc1))"
    using r s i restore_linked [OF _ f assms(3) l] l
    by (auto simp: recover_finalized_state_def Let_def split: if_splits sum.splits option.splits)
  then show ?thesis using app prepopulate_linked [OF assms(2)] by metis
qed

end
