(* ===== verification/Recovery_Fees.thy ===== *)
theory Recovery_Fees
  imports Recovery_Properties
begin

text \<open>
  The base fees of a restarted node. The archive does not hold the gas that its blocks used, so recovery indexes
  every block with none, and the fees of the index, of the next block and of the replayed blocks are those of a
  chain without transactions.
\<close>

section \<open>The fees of a chain without transactions\<close>

fun empty_chain_fee :: "u64 \<Rightarrow> nat \<Rightarrow> u64 option" where
  "empty_chain_fee gas_limit 0 = Some INITIAL_BASE_FEE"
| "empty_chain_fee gas_limit (Suc n) =
     (case empty_chain_fee gas_limit n of
        None \<Rightarrow> None
      | Some fee \<Rightarrow> calculate_base_fee fee 0 gas_limit default_base_fee_params)"

lemma empty_chain_fee_total: "2 \<le> gas_limit \<Longrightarrow> \<exists>fee. empty_chain_fee gas_limit n = Some fee"
  by (induction n) (auto simp: calculate_base_fee_total)

section \<open>The index\<close>

text \<open>The blocks up to height \<open>k\<close> are indexed, without gas and with these fees.\<close>

definition fees_upto :: "externs \<Rightarrow> u64 \<Rightarrow> Block list \<Rightarrow> nat \<Rightarrow> BlockIndex \<Rightarrow> bool" where
  "fees_upto X gas_limit bs k index \<longleftrightarrow>
     (\<forall>i \<le> k. \<exists>e. hm_get (bi_blocks_by_number index) (of_nat i) = Some (fst (block_id X (bs ! i))) \<and>
        hm_get (bi_blocks_by_hash index) (fst (block_id X (bs ! i))) = Some e \<and> ib_hash e = fst (block_id X (bs ! i)) \<and>
        ib_gas_used e = 0 \<and> ib_gas_limit e = gas_limit \<and> ib_base_fee_per_gas e = empty_chain_fee gas_limit i)"

lemma fees_upto_get:
  assumes "fees_upto X gas_limit bs k index" and "i \<le> k"
  obtains e where "get_block_by_number index (of_nat i) = Some e" "ib_hash e = fst (block_id X (bs ! i))"
    "ib_gas_used e = 0" "ib_gas_limit e = gas_limit" "ib_base_fee_per_gas e = empty_chain_fee gas_limit i"
  using assms unfolding fees_upto_def get_block_by_number_def by (metis option.simps(5))

lemma u64_of_nat_eq: "i < 2 ^ 64 \<Longrightarrow> j < 2 ^ 64 \<Longrightarrow> (of_nat i :: u64) = of_nat j \<longleftrightarrow> i = j"
  by (metis unat_of_nat_u64)

lemma fees_upto_context:
  assumes "fees_upto X gas_limit bs k index" and "blk_height b = of_nat (Suc k)" and "Suc k < 2 ^ 64" and "2 \<le> gas_limit"
  obtains c where "revm_context gas_limit fee_recipient index b = Some c" "hd_gas_limit (bx_header c) = gas_limit"
    "hd_base_fee_per_gas (bx_header c) = empty_chain_fee gas_limit (Suc k)"
proof -
  obtain e where e: "get_block_by_number index (of_nat k) = Some e" "ib_gas_used e = 0" "ib_gas_limit e = gas_limit"
    "ib_base_fee_per_gas e = empty_chain_fee gas_limit k" by (rule fees_upto_get [OF assms(1) order_refl])
  obtain fee where fee: "empty_chain_fee gas_limit k = Some fee" using empty_chain_fee_total [OF assms(4)] by blast
  obtain fee' where fee': "calculate_base_fee fee 0 gas_limit default_base_fee_params = Some fee'"
    using calculate_base_fee_total [OF assms(4)] by blast
  have "(of_nat (Suc k) :: u64) \<noteq> of_nat 0" using assms(3) u64_of_nat_eq [of "Suc k" 0] by (simp del: of_nat_Suc)
  then have "provider_base_fee index b = Some fee'"
    using e fee fee' assms(2) by (simp add: provider_base_fee_def)
  then show thesis using that fee fee'
    by (simp add: revm_context_def with_recent_block_hashes_def block_context_new_def header_default_def)
qed

lemma fees_upto_insert:
  assumes "fees_upto X gas_limit bs k index" and "distinct (map (block_commitment X) bs)" and "Suc k < length bs"
    and "Suc k < 2 ^ 64" and "blk_height (bs ! Suc k) = of_nat (Suc k)" and "hd_gas_limit (bx_header c) = gas_limit"
    and "hd_base_fee_per_gas (bx_header c) = empty_chain_fee gas_limit (Suc k)"
  shows "fees_upto X gas_limit bs (Suc k) (insert_block (recovered_entry X c 0 (bs ! Suc k)) [] [] index)"
  unfolding fees_upto_def
proof (intro allI impI)
  fix i
  assume i: "i \<le> Suc k"
  let ?index = "insert_block (recovered_entry X c 0 (bs ! Suc k)) [] [] index"
  let ?id = "\<lambda>i. fst (block_id X (bs ! i))"
  show "\<exists>e. hm_get (bi_blocks_by_number ?index) (of_nat i) = Some (?id i) \<and>
      hm_get (bi_blocks_by_hash ?index) (?id i) = Some e \<and> ib_hash e = ?id i \<and>
      ib_gas_used e = 0 \<and> ib_gas_limit e = gas_limit \<and> ib_base_fee_per_gas e = empty_chain_fee gas_limit i"
  proof (cases "i = Suc k")
    case True
    then show ?thesis using assms(5-7) by (simp add: insert_block_def recovered_entry_def Let_def hm.get_put)
  next
    case False
    then have le: "i \<le> k" using i by simp
    have "block_commitment X (bs ! i) \<noteq> block_commitment X (bs ! Suc k)"
      using assms(2,3) le nth_eq_iff_index_eq [of "map (block_commitment X) bs" i "Suc k"] by simp
    then have id: "?id i \<noteq> ?id (Suc k)" by (auto simp: block_commitment_def)
    have "(of_nat i :: u64) \<noteq> of_nat (Suc k)" using u64_of_nat_eq [of i "Suc k"] assms(4) le by simp
    then show ?thesis using assms(1,5) le id
      by (simp add: fees_upto_def insert_block_def recovered_entry_def Let_def hm.get_put)
  qed
qed

text \<open>An archive that holds the chain of blocks above a genesis block.\<close>

definition archived :: "externs \<Rightarrow> Block list \<Rightarrow> Block archive \<Rightarrow> bool" where
  "archived X bs blocks \<longleftrightarrow> 2 \<le> length bs \<and> length bs < 2 ^ 64 \<and>
     archive_heights blocks = map of_nat [1 ..< length bs] \<and> distinct (map (block_commitment X) bs) \<and>
     (\<forall>i. 1 \<le> i \<and> i < length bs \<longrightarrow> ar_get blocks (of_nat i) = Inr (Some (bs ! i)) \<and> blk_height (bs ! i) = of_nat i)"

lemma index_archive_fees:
  assumes "archived X bs blocks" and "2 \<le> gas_limit" and "fees_upto X gas_limit bs k index" and "k < length bs"
  shows "\<exists>index'. fees_upto X gas_limit bs (length bs - 1) index' \<and>
    index_archive X (revm_context gas_limit fee_recipient) blocks (map of_nat [Suc k ..< length bs])
      (index, map (\<lambda>i. (of_nat i, bs ! i)) [1 ..< Suc k]) =
    Some (Inr (index', map (\<lambda>i. (of_nat i, bs ! i)) [1 ..< length bs]))"
  using assms(3,4)
proof (induction "length bs - k" arbitrary: k index)
  case (Suc n)
  show ?case
  proof (cases "Suc k < length bs")
    case False
    then have "length bs = Suc k" using Suc(4) by simp
    then show ?thesis using Suc(3) by (intro exI [of _ index]) (simp del: upt_Suc)
  next
    case True
    let ?b = "bs ! Suc k"
    have b: "ar_get blocks (of_nat (Suc k)) = Inr (Some ?b)" "blk_height ?b = of_nat (Suc k)" and len: "Suc k < 2 ^ 64"
      and dist: "distinct (map (block_commitment X) bs)"
      using assms(1) True by (auto simp: archived_def simp del: of_nat_Suc)
    obtain c where c: "revm_context gas_limit fee_recipient index ?b = Some c" "hd_gas_limit (bx_header c) = gas_limit"
      "hd_base_fee_per_gas (bx_header c) = empty_chain_fee gas_limit (Suc k)"
      by (rule fees_upto_context [OF Suc(3) b(2) len assms(2)])
    let ?index = "insert_block (recovered_entry X c 0 ?b) [] [] index"
    have f: "fees_upto X gas_limit bs (Suc k) ?index" by (rule fees_upto_insert [OF Suc(3) dist True len b(2) c(2,3)])
    have "\<forall>h \<in> fst ` set (map (\<lambda>i. (of_nat i :: u64, bs ! i)) [1 ..< Suc k]). h < of_nat (Suc k)"
      using len by (auto simp: word_less_nat_alt unat_of_nat_u64 simp del: of_nat_Suc)
    from bt_insert_last [OF this, of ?b]
    have ins: "bt_insert (of_nat (Suc k) :: u64) ?b (map (\<lambda>i. (of_nat i, bs ! i)) [1 ..< Suc k]) =
        map (\<lambda>i. (of_nat i, bs ! i)) [1 ..< Suc (Suc k)]"
      by (simp only: upt_Suc [of 1 "Suc k"]) simp
    have "[Suc k ..< length bs] = Suc k # [Suc (Suc k) ..< length bs]" using True by (simp add: upt_conv_Cons)
    then show ?thesis using Suc(1) [OF _ f True] Suc(2) ins b(1) c(1)
      by (simp add: index_recovered_block_def del: upt_Suc of_nat_Suc)
  qed
qed simp

section \<open>The next block\<close>

lemma seed_block_fees_last:
  "hm_get (ap_block_fees (seed_block_fees (es @ [(d, g, f)]) app)) d = Some (g, f)"
  by (simp add: seed_block_fees_def record_block_fees_def hm.get_put)

lemma seed_cache_head:
  assumes "fees_upto X gas_limit bs k index" and "k < 2 ^ 64" and "empty_chain_fee gas_limit k = Some fee"
  shows "hm_get (ap_block_fees (seed_block_fee_cache X index (of_nat k) app)) (block_commitment X (bs ! k)) = Some (0, fee)"
proof -
  obtain e where e: "get_block_by_number index (of_nat k) = Some e" "ib_hash e = fst (block_id X (bs ! k))"
    "ib_gas_used e = 0" "ib_base_fee_per_gas e = empty_chain_fee gas_limit k"
    by (rule fees_upto_get [OF assms(1) order_refl])
  have "unat (saturating_sub (of_nat k) (4 :: u64)) \<le> k"
    using assms(2) by (simp add: unat_saturating_sub unat_of_nat_u64)
  then have "heights (saturating_sub (of_nat k) 4) (of_nat k) =
      map of_nat [unat (saturating_sub (of_nat k) (4 :: u64)) ..< k] @ [of_nat k]"
    using assms(2) by (simp add: heights_def unat_of_nat_u64)
  moreover have "consensus_digest_for_hash X (ib_hash e) = block_commitment X (bs ! k)"
    using e(2) by (simp add: consensus_digest_for_hash_def block_commitment_def digest_for_block_id_def)
  ultimately show ?thesis
    using e assms(3) seed_block_fees_last by (simp add: seed_block_fee_cache_def)
qed

lemma recover_without_tail:
  assumes "archived X bs blocks" and "2 \<le> gas_limit"
    and "fees_upto X gas_limit bs 0 index0"
    and "read_commit_marker H marker \<in> {None, Some (block_commitment X (last bs))}"
    and "recover_finalized_state X H E (revm_context gas_limit fee_recipient) blocks certs marker (svc, index0) =
      Some (Inr (svc', index, recovered))"
  shows "fees_upto X gas_limit bs (length bs - 1) index \<and> recovered = Some (of_nat (length bs - 1), False)"
proof -
  let ?rs = "map (\<lambda>i. (of_nat i :: u64, bs ! i)) [1 ..< length bs]"
  have bs: "2 \<le> length bs" "distinct (map (block_commitment X) bs)" "archive_heights blocks = map of_nat [1 ..< length bs]"
    "blk_height (bs ! (length bs - 1)) = of_nat (length bs - 1)"
    using assms(1) by (auto simp: archived_def simp del: of_nat_diff dest!: spec [of _ "length bs - 1"])
  have ne: "0 < length bs" using bs(1) by auto
  obtain index' where i: "fees_upto X gas_limit bs (length bs - 1) index'"
    "index_archive X (revm_context gas_limit fee_recipient) blocks (archive_heights blocks) (index0, []) = Some (Inr (index', ?rs))"
    using index_archive_fees [OF assms(1-3) ne, of fee_recipient] bs(3) by auto
  have "[1 ..< length bs] \<noteq> []" "last [1 ..< length bs] = length bs - 1" using bs(1) by auto
  then have last: "?rs \<noteq> []" "snd (last ?rs) = last bs" using ne last_map [of "[1 ..< length bs]" "\<lambda>i. (of_nat i :: u64, bs ! i)"]
    by (simp_all add: last_conv_nth [of bs])
  have find: "List.find (\<lambda>(height, block). block_commitment X block = block_commitment X (last bs)) ?rs =
      Some (of_nat (length bs - 1), last bs)"
  proof -
    have "block_commitment X (bs ! i) \<noteq> block_commitment X (last bs)" if "i < length bs - 1" for i
      using that ne bs(2) nth_eq_iff_index_eq [of "map (block_commitment X) bs" i "length bs - 1"]
      by (simp add: last_conv_nth)
    moreover have "Suc (length bs - 2) = length bs - 1" "bs ! (length bs - 1) = last bs"
      using bs(1) ne by (simp_all add: last_conv_nth)
    ultimately show ?thesis using bs(1) by (auto simp: find_Some_iff intro!: exI [of _ "length bs - 2"])
  qed
  have h: "blk_height (last bs) = of_nat (length bs - 1)" using ne bs(4) by (simp add: last_conv_nth)
  have u: "unat (blk_height (last bs)) = length bs - 1" "length bs - 1 < 2 ^ 64 - 1"
    using assms(1) unfolding h by (auto simp: archived_def intro!: unat_of_nat_u64 simp del: of_nat_diff)
  then have "heights (saturating_add (blk_height (last bs)) 1) (blk_height (last bs)) = []"
    by (simp add: heights_def unat_saturating_add)
  then show ?thesis using assms(4,5) i last find h
    by (auto simp: recover_finalized_state_def restore_checkpoint_and_replay_tail_def Let_def split: sum.splits)
qed

lemma genesis_indexed:
  "bs ! 0 = genesis \<Longrightarrow> fees_upto X gas_limit bs 0 (seed_genesis_block_index X genesis gas_limit block_index_new)"
  by (simp add: fees_upto_def seed_genesis_block_index_def insert_block_def Let_def hm.get_put)

text \<open>
  C14: a restart forgets the gas that the chain used. When nothing is replayed, every block of the index has used no gas
  and has the base fee of a chain without transactions, and so has the next block that the restarted node proposes or
  verifies, whatever the archived blocks contain.
\<close>

theorem restart_resets_base_fee:
  assumes "archived X (lv_genesis_block (svc_view svc) # chain) blocks" and "2 \<le> gas_limit"
    and "read_commit_marker H marker \<in> {None, Some (block_commitment X (last chain))}"
    and "start_node X H E max_txs gas_limit fee_recipient blocks certs marker svc = Some (Inr node)"
  shows "compute_base_fee (st_app node) (block_commitment X (last chain)) = empty_chain_fee gas_limit (Suc (length chain)) \<and>
    (\<forall>i \<le> length chain. \<exists>e. get_block_by_number (st_index node) (of_nat i) = Some e \<and> ib_gas_used e = 0 \<and>
       ib_base_fee_per_gas e = empty_chain_fee gas_limit i)"
proof -
  let ?bs = "lv_genesis_block (svc_view svc) # chain"
  have ne: "chain \<noteq> []" and len: "length chain < 2 ^ 64" using assms(1) by (auto simp: archived_def)
  obtain svc1 index recovered where r: "recover_finalized_state X H E (revm_context gas_limit fee_recipient) blocks certs marker
      (svc, seed_genesis_block_index X (lv_genesis_block (svc_view svc)) gas_limit block_index_new) =
      Some (Inr (svc1, index, recovered))"
    using assms(4) by (auto simp: start_node_def split: option.splits sum.splits)
  have f: "fees_upto X gas_limit ?bs (length chain) index" "recovered = Some (of_nat (length chain), False)"
    using recover_without_tail [OF assms(1,2) genesis_indexed _ r] assms(3) ne by auto
  obtain svc2 app where node: "st_index node = index" "st_app node = seed_block_fee_cache X index (of_nat (length chain)) app"
    "ap_gas_limit app = gas_limit"
    using assms(4) r f(2) by (auto simp: start_node_def Let_def with_recovered_height_def application_new_def)
  obtain fee where fee: "empty_chain_fee gas_limit (length chain) = Some fee" using empty_chain_fee_total [OF assms(2)] by blast
  have "?bs ! length chain = last chain" using ne by (simp add: last_conv_nth)
  then have "compute_base_fee (st_app node) (block_commitment X (last chain)) = empty_chain_fee gas_limit (Suc (length chain))"
    using seed_cache_head [OF f(1) len fee, of app] node fee by (simp add: compute_base_fee_def)
  moreover have "\<exists>e. get_block_by_number (st_index node) (of_nat i) = Some e \<and> ib_gas_used e = 0 \<and>
      ib_base_fee_per_gas e = empty_chain_fee gas_limit i" if "i \<le> length chain" for i
    using fees_upto_get [OF f(1) that] node(1) by metis
  ultimately show ?thesis by simp
qed

section \<open>Instances\<close>

text \<open>An archive that holds a list of blocks from height 1 on.\<close>

definition archive_list :: "Block list \<Rightarrow> Block archive" where
  "archive_list chain =
     \<lparr>ar_ranges = [(1, of_nat (length chain))],
      ar_get = (\<lambda>h. Inr (if h = 0 \<or> length chain < unat h then None else Some (chain ! (unat h - 1))))\<rparr>"

definition no_certs :: "certificate archive" where
  "no_certs = \<lparr>ar_ranges = [], ar_get = (\<lambda>h. Inr None)\<rparr>"

lemma archive_list_archived:
  assumes "chain \<noteq> []" and "Suc (length chain) < 2 ^ 64" and "distinct (map (block_commitment X) (genesis # chain))"
    and "\<forall>i < length chain. blk_height (chain ! i) = of_nat (Suc i)"
  shows "archived X (genesis # chain) (archive_list chain)"
proof -
  have "ar_get (archive_list chain) (of_nat i) = Inr (Some ((genesis # chain) ! i)) \<and>
      blk_height ((genesis # chain) ! i) = of_nat i" if i: "1 \<le> i" "i < length (genesis # chain)" for i
  proof -
    obtain j where j: "i = Suc j" using i(1) by (cases i) auto
    have "unat (of_nat i :: u64) = i" using i assms(2) by (simp add: unat_of_nat_u64)
    then show ?thesis using i j assms(4) by (auto simp: archive_list_def simp del: of_nat_Suc)
  qed
  moreover have "archive_heights (archive_list chain) = map of_nat [1 ..< length (genesis # chain)]"
    using assms(2) by (simp add: archive_heights_def archive_list_def heights_def unat_of_nat_u64)
  ultimately show ?thesis using assms(1-3) by (auto simp: archived_def Suc_le_eq)
qed

lemma start_node_unmarked:
  assumes "archived X (lv_genesis_block (svc_view svc) # chain) blocks" and "2 \<le> gas_limit"
    and "read_commit_marker H marker = None"
  shows "\<exists>node. start_node X H E max_txs gas_limit fee_recipient blocks no_certs marker svc = Some (Inr node)"
proof -
  let ?bs = "lv_genesis_block (svc_view svc) # chain"
  let ?rs = "map (\<lambda>i. (of_nat i :: u64, ?bs ! i)) [1 ..< length ?bs]"
  have len: "1 < length ?bs" "archive_heights blocks = map of_nat [1 ..< length ?bs]" using assms(1) by (auto simp: archived_def)
  have g: "fees_upto X gas_limit ?bs 0 (seed_genesis_block_index X (lv_genesis_block (svc_view svc)) gas_limit block_index_new)"
    by (rule genesis_indexed) simp
  obtain index where "index_archive X (revm_context gas_limit fee_recipient) blocks (archive_heights blocks)
      (seed_genesis_block_index X (lv_genesis_block (svc_view svc)) gas_limit block_index_new, []) = Some (Inr (index, ?rs))"
    using index_archive_fees [OF assms(1,2) g, of fee_recipient] len by auto
  moreover have "?rs \<noteq> []" using len(1) by (simp add: Suc_le_eq)
  ultimately show ?thesis using assms(3)
    by (simp add: start_node_def recover_finalized_state_def no_certs_def archive_heights_def [of "\<lparr>ar_ranges = [], ar_get = g\<rparr>" for g]
        restore_checkpoint_and_replay_tail_def Let_def)
qed

text \<open>A block with a transaction.\<close>

definition busy_block :: Block where
  "busy_block = block_new 0 1 0 0 sample_root [tx_new [1, 2, 3]]"

theorem restart_resets_base_fee_witness:
  "\<exists>node. start_node height_externs sample_hex sample_executor 10 30000000 9 (archive_list [busy_block]) no_certs MissingFile
       (service_new genesis_view) = Some (Inr node) \<and>
     compute_base_fee (st_app node) 1 = empty_chain_fee 30000000 2 \<and>
     (\<exists>e. get_block_by_number (st_index node) 1 = Some e \<and> ib_gas_used e = 0)"
proof -
  have d: "distinct (map (block_commitment height_externs) [lv_genesis_block genesis_view, busy_block])"
    "block_commitment height_externs busy_block = 1"
    by (simp_all add: busy_block_def height_commitment be_bytes_small genesis_view_def sample_commitments [unfolded sample_genesis_def])
  have a: "archived height_externs (lv_genesis_block (svc_view (service_new genesis_view)) # [busy_block]) (archive_list [busy_block])"
    using d(1) by (intro archive_list_archived) (simp_all add: busy_block_def block_new_def)
  have m: "read_commit_marker sample_hex MissingFile = None" by (simp add: read_commit_marker_def)
  obtain node where node: "start_node height_externs sample_hex sample_executor 10 30000000 9 (archive_list [busy_block]) no_certs
      MissingFile (service_new genesis_view) = Some (Inr node)"
    using start_node_unmarked [OF a _ m, where gas_limit = 30000000 and E = sample_executor and max_txs = 10 and fee_recipient = 9] by auto
  have two: "(2 :: u64) \<le> 30000000" and two': "Suc (length [busy_block]) = 2" by simp_all
  have "read_commit_marker sample_hex MissingFile \<in> {None, Some (block_commitment height_externs (last [busy_block]))}"
    using m by simp
  note r = restart_resets_base_fee [OF a two this node, unfolded two']
  then have "\<exists>e. get_block_by_number (st_index node) (of_nat 1) = Some e \<and> ib_gas_used e = 0" by fastforce
  then show ?thesis using r node d(2) by auto
qed

section \<open>The restarted node\<close>

text \<open>
  C12: the state roots of a restarted node. Whatever a node verifies, proposes, persists and submits after a start, be
  it fresh or from the archive, the changes it holds for an unpersisted block lead from the state root announced by
  the parent block to the root announced by the block.
\<close>

theorem restarted_roots_linked:
  assumes "init_with_config_and_genesis_options sh X B w config alloc apply_genesis ts = Inr v"
    and "lv_genesis_block v \<in> U" and "digest_faithful X U" and "archive_of U blocks"
    and "start_node X H E max_txs gas_limit fee_recipient blocks certs marker (service_new v) = Some (Inr node)"
    and "(app_step X E B U)\<^sup>*\<^sup>* (st_app node) app"
    and "b \<in> U" and "p \<in> U" and "block_commitment X p = block_parent_digest X b"
    and "ss_get (lv_snapshots (ap_view app)) (block_commitment X b) = Some s"
    and "\<not> is_persisted (lv_snapshots (ap_view app)) (block_commitment X b)"
  shows "sn_state_root s = blk_state_root b \<and> blk_state_root b = root_transition X (blk_state_root p) (sn_changes s)"
proof -
  have "roots_linked X U (lv_snapshots (svc_view (service_new v)))"
    using init_linked [OF assms(1,2)] by simp
  then have "roots_linked X U (lv_snapshots (ap_view (st_app node)))"
    by (rule start_node_linked [OF assms(5,4,3)])
  then have "roots_linked X U (lv_snapshots (ap_view app))" by (rule app_steps_linked [OF assms(6)])
  then show ?thesis by (rule linked_roots) (use assms in auto)
qed

theorem restarted_roots_linked_witness:
  "\<exists>node s. start_node height_externs sample_hex sample_executor 10 30000000 9 (archive_list [sample_child, sample_grandchild])
       no_certs (write_commit_marker sample_hex 1) (service_new genesis_view) = Some (Inr node) \<and>
     ss_get (lv_snapshots (ap_view (st_app node))) 2 = Some s \<and>
     sample_root = root_transition height_externs sample_root (sn_changes s)"
proof -
  let ?chain = "[sample_child, sample_grandchild]" and ?bs = "[sample_genesis, sample_child, sample_grandchild]"
  let ?seeded = "seed_genesis_block_index height_externs sample_genesis 30000000 block_index_new"
  have g: "lv_genesis_block genesis_view = sample_genesis" by (simp add: genesis_view_def sample_genesis_def)
  have a: "archived height_externs ?bs (archive_list ?chain)"
    by (rule archive_list_archived) (auto simp: less_Suc_eq)
  have two: "(2 :: u64) \<le> 30000000" by simp
  have seeded: "fees_upto height_externs 30000000 ?bs 0 ?seeded" by (rule genesis_indexed) simp
  have rs: "map (\<lambda>i. (of_nat i :: u64, ?bs ! i)) [1 ..< length ?bs] = [(1, sample_child), (2, sample_grandchild)]"
    by (simp add: upt_rec)
  obtain index where i: "fees_upto height_externs 30000000 ?bs (length ?bs - 1) index"
    "index_archive height_externs (revm_context 30000000 9) (archive_list ?chain) (archive_heights (archive_list ?chain))
      (?seeded, []) = Some (Inr (index, [(1, sample_child), (2, sample_grandchild)]))"
    using index_archive_fees [OF a two seeded, of 9, unfolded rs] a by (auto simp: archived_def)
  have "fees_upto height_externs 30000000 ?bs 1 index" using i(1) by (simp add: fees_upto_def)
  then obtain c where "revm_context 30000000 9 index sample_grandchild = Some c"
    by (rule fees_upto_context [OF _ _ _ two, of _ _ 1]) auto
  from sample_restart [OF this] obtain svc index' where r:
    "restore_checkpoint_and_replay_tail height_externs sample_hex sample_executor (revm_context 30000000 9)
      [(1, sample_child), (2, sample_grandchild)] (write_commit_marker sample_hex 1) (service_new genesis_view, index) =
      Some (Inr (svc, index', 2, True))" "\<not> is_persisted (lv_snapshots (svc_view svc)) 2"
    "ss_get (lv_snapshots (svc_view svc)) 2 \<noteq> None" by blast
  obtain node where node: "start_node height_externs sample_hex sample_executor 10 30000000 9 (archive_list ?chain) no_certs
      (write_commit_marker sample_hex 1) (service_new genesis_view) = Some (Inr node)"
    "ap_ledger (st_app node) = svc"
    using i(2) r(1) by (simp add: start_node_def recover_finalized_state_def no_certs_def g
        archive_heights_def [of "\<lparr>ar_ranges = [], ar_get = h\<rparr>" for h] with_recovered_height_def application_new_def)
  have "h = 1 \<or> h = 2" if "h \<noteq> 0" "\<not> Suc (Suc 0) < unat h" for h :: u64
  proof -
    have "unat h \<noteq> 0" using that(1) by (simp add: unat_eq_zero)
    then have "unat h = unat (1 :: u64) \<or> unat h = unat (2 :: u64)" using that(2) by auto
    then show ?thesis by (metis unsigned_word_eqI)
  qed
  then have arch: "archive_of sample_blocks (archive_list ?chain)"
    by (fastforce simp: archive_of_def archive_list_def sample_blocks_def)
  obtain s where s: "ss_get (lv_snapshots (svc_view svc)) 2 = Some s" using r(3) by blast
  have U: "lv_genesis_block genesis_view \<in> sample_blocks" "sample_grandchild \<in> sample_blocks" "sample_child \<in> sample_blocks"
    by (simp_all add: g sample_blocks_def)
  from restarted_roots_linked [OF sample_init U(1) sample_blocks_faithful arch node(1) rtranclp.rtrancl_refl U(2,3), where s = s]
  show ?thesis using node s r(2) by auto
qed

end
