(* ===== verification/Gossip.thy ===== *)
theory Gossip
  imports Finalization_Properties Txpool_Validator
begin

text \<open>
  Transaction submission and gossip as \<open>ProductionRunner::run\<close> in \<open>crates/node/runner/src/runner.rs\<close> wires
  them: the callback behind the RPC server, the task that broadcasts accepted transactions to the peers and the task
  that receives theirs. The three share one set of hashes they have seen.
\<close>

section \<open>Seen transactions\<close>

definition TX_GOSSIP_SEEN_SET_CAPACITY :: nat where
  "TX_GOSSIP_SEEN_SET_CAPACITY = 65536"

definition TX_GOSSIP_OUTBOUND_BUFFER :: nat where
  "TX_GOSSIP_OUTBOUND_BUFFER = 4096"

text \<open>\<open>mark_seen\<close>: the set afterwards and whether the hash is new.\<close>

definition mark_seen :: "b256 list \<Rightarrow> b256 \<Rightarrow> b256 list \<times> bool" where
  "mark_seen seen h =
     (let seen1 = (if TX_GOSSIP_SEEN_SET_CAPACITY \<le> length seen then [] else seen)
      in (List.insert h seen1, h \<notin> set seen1))"

section \<open>The tasks\<close>

text \<open>
  The ledger, the seen set, the channel to the broadcasting task and the transactions broadcast so far. A rejection keeps
  the error whose text the RPC error carries.
\<close>

record ('w, 'ad, 'sd, 'cd) gossip_node =
  gn_ledger :: "('w, 'ad, 'sd, 'cd) LedgerService"
  gn_seen :: "b256 list"
  gn_channel :: "bytes list"
  gn_sent :: "bytes list"

datatype submit_error = ValidatorRejected TxPoolError | MempoolRejected

definition check_tx :: "(u64 \<Rightarrow> string) \<Rightarrow> externs \<Rightarrow> ('w, 'ad, 'am, 'sd, 'sm, 'cd, 'cm) backend_dbs \<Rightarrow> u64 \<Rightarrow> Tx \<Rightarrow>
    ('w, 'ad, 'sd, 'cd) LedgerService \<Rightarrow> TxPoolError + ValidatedTransaction" where
  "check_tx show_u64 X B chain_id tx svc =
     validate X (overlay_db (ledger_db show_u64 X B))
       (with_pool (lv_mempool (svc_view svc)) (validator_new chain_id (latest_state (svc_view svc)) pool_config_new)) tx"

definition tx_submit :: "(u64 \<Rightarrow> string) \<Rightarrow> externs \<Rightarrow> ('w, 'ad, 'am, 'sd, 'sm, 'cd, 'cm) backend_dbs \<Rightarrow> u64 \<Rightarrow> bool \<Rightarrow>
    u64 \<Rightarrow> bytes \<Rightarrow> ('w, 'ad, 'sd, 'cd) gossip_node \<Rightarrow> ('w, 'ad, 'sd, 'cd) gossip_node \<times> (submit_error + unit)" where
  "tx_submit show_u64 X B chain_id gossip now data node =
     (let tx = tx_new data
      in case check_tx show_u64 X B chain_id tx (gn_ledger node) of
           Inl err \<Rightarrow> (node, Inl (ValidatorRejected err))
         | Inr _ \<Rightarrow>
             (case submit_tx X now tx (gn_ledger node) of
                (svc, True) \<Rightarrow>
                  (if gossip
                   then node\<lparr>gn_ledger := svc, gn_seen := fst (mark_seen (gn_seen node) (ex_keccak256 X data)),
                          gn_channel := (if length (gn_channel node) < TX_GOSSIP_OUTBOUND_BUFFER
                                         then gn_channel node @ [data] else gn_channel node)\<rparr>
                   else node\<lparr>gn_ledger := svc\<rparr>, Inr ())
              | (svc, False) \<Rightarrow> (node\<lparr>gn_ledger := svc\<rparr>, Inl MempoolRejected)))"

definition gossip_out :: "externs \<Rightarrow> ('w, 'ad, 'sd, 'cd) gossip_node \<Rightarrow> ('w, 'ad, 'sd, 'cd) gossip_node" where
  "gossip_out X node =
     (case gn_channel node of
        [] \<Rightarrow> node
      | raw # rest \<Rightarrow>
          (case mark_seen (gn_seen node) (ex_keccak256 X raw) of
             (seen, new) \<Rightarrow>
               (let node1 = node\<lparr>gn_channel := rest, gn_seen := seen\<rparr>
                in if new then node1\<lparr>gn_sent := gn_sent node @ [raw]\<rparr> else node1)))"

definition gossip_in :: "(u64 \<Rightarrow> string) \<Rightarrow> externs \<Rightarrow> ('w, 'ad, 'am, 'sd, 'sm, 'cd, 'cm) backend_dbs \<Rightarrow> u64 \<Rightarrow> u64 \<Rightarrow> bytes \<Rightarrow>
    ('w, 'ad, 'sd, 'cd) gossip_node \<Rightarrow> ('w, 'ad, 'sd, 'cd) gossip_node" where
  "gossip_in show_u64 X B chain_id now raw node =
     (case mark_seen (gn_seen node) (ex_keccak256 X raw) of
        (seen, new) \<Rightarrow>
          (let node1 = node\<lparr>gn_seen := seen\<rparr>; tx = tx_new raw
           in if \<not> new then node1
              else case check_tx show_u64 X B chain_id tx (gn_ledger node1) of
                     Inl _ \<Rightarrow> node1
                   | Inr _ \<Rightarrow> node1\<lparr>gn_ledger := fst (submit_tx X now tx (gn_ledger node1))\<rparr>))"

section \<open>Interleavings\<close>

text \<open>The tasks run in any order; between them other parts of the node change the ledger.\<close>

datatype ('w, 'ad, 'sd, 'cd) gossip_event =
    Submit u64 bytes
  | Broadcast
  | Receive u64 bytes
  | LedgerChange "('w, 'ad, 'sd, 'cd) LedgerService \<Rightarrow> ('w, 'ad, 'sd, 'cd) LedgerService"

fun gossip_step :: "(u64 \<Rightarrow> string) \<Rightarrow> externs \<Rightarrow> ('w, 'ad, 'am, 'sd, 'sm, 'cd, 'cm) backend_dbs \<Rightarrow> u64 \<Rightarrow>
    ('w, 'ad, 'sd, 'cd) gossip_event \<Rightarrow> ('w, 'ad, 'sd, 'cd) gossip_node \<Rightarrow> ('w, 'ad, 'sd, 'cd) gossip_node" where
  "gossip_step sh X B chain_id (Submit now data) node = fst (tx_submit sh X B chain_id True now data node)"
| "gossip_step sh X B chain_id Broadcast node = gossip_out X node"
| "gossip_step sh X B chain_id (Receive now raw) node = gossip_in sh X B chain_id now raw node"
| "gossip_step sh X B chain_id (LedgerChange f) node = node\<lparr>gn_ledger := f (gn_ledger node)\<rparr>"

text \<open>Every transaction in the channel has been seen: the callback marks it before it sends it there.\<close>

definition all_seen :: "externs \<Rightarrow> nat \<Rightarrow> ('w, 'ad, 'sd, 'cd) gossip_node \<Rightarrow> bool" where
  "all_seen X n node \<longleftrightarrow> ex_keccak256 X ` set (gn_channel node) \<subseteq> set (gn_seen node) \<and> length (gn_seen node) \<le> n"

lemma mark_seen_below:
  assumes "length seen < TX_GOSSIP_SEEN_SET_CAPACITY"
  shows "mark_seen seen h = (List.insert h seen, h \<notin> set seen)" and "length (List.insert h seen) \<le> Suc (length seen)"
  using assms by (auto simp: mark_seen_def List.insert_def)

lemma gossip_step_seen:
  assumes "all_seen X n node" and "n < TX_GOSSIP_SEEN_SET_CAPACITY"
  shows "all_seen X (Suc n) (gossip_step sh X B chain_id event node) \<and>
    gn_sent (gossip_step sh X B chain_id event node) = gn_sent node"
proof -
  have "length (gn_seen node) < TX_GOSSIP_SEEN_SET_CAPACITY" using assms by (simp add: all_seen_def)
  note m = mark_seen_below [OF this]
  have len: "length (List.insert h (gn_seen node)) \<le> Suc n" for h
    using m(2) [of h] assms(1) by (simp add: all_seen_def)
  show ?thesis
  proof (cases event)
    case (Submit now data)
    then show ?thesis using assms(1) len
      by (auto simp: tx_submit_def m(1) all_seen_def Let_def split: sum.split prod.split bool.split)
  next
    case Broadcast
    then show ?thesis using assms(1) len by (cases "gn_channel node") (auto simp: gossip_out_def m(1) all_seen_def Let_def)
  next
    case (Receive now raw)
    then show ?thesis using assms(1) len by (auto simp: gossip_in_def m(1) all_seen_def Let_def split: sum.split)
  next
    case (LedgerChange f)
    then show ?thesis using assms(1) by (simp add: all_seen_def)
  qed
qed



end
