(* ===== verification/Dkg_Message.thy ===== *)
theory Dkg_Message
  imports Externs
begin

text \<open>
  Sessions and messages of the distributed key generation, \<open>crates/node/dkg/src/protocol.rs\<close>, and
  the envelopes of \<open>network.rs\<close>: the identifier that binds messages to a ceremony, the message
  kinds, and their encodings. The cryptographic library (\<open>commonware_cryptography\<close>) is the
  record \<open>dkg_lib\<close>; the type \<open>'v\<close> holds its values (commitments, shares, acknowledgements, logs, keys).
\<close>

section \<open>The cryptographic library\<close>

type_synonym u32 = "32 word"

text \<open>An ed25519 public key is its 32 bytes.\<close>

type_synonym PublicKey = b256

record 'v dkg_lib =
  dl_read_u8 :: "u8 reader"
  dl_write_u32 :: "u32 \<Rightarrow> bytes"
  dl_read_u32 :: "u32 reader"
  dl_write_pk :: "PublicKey \<Rightarrow> bytes"
  dl_read_pk :: "PublicKey reader"
  dl_write_pub :: "'v \<Rightarrow> bytes"
  dl_read_pub :: "u32 \<Rightarrow> 'v reader"
  dl_write_priv :: "'v \<Rightarrow> bytes"
  dl_read_priv :: "'v reader"
  dl_write_ack :: "'v \<Rightarrow> bytes"
  dl_read_ack :: "'v reader"
  dl_write_log :: "'v \<Rightarrow> bytes"
  dl_read_log :: "u32 \<Rightarrow> 'v reader"
  dl_public_key :: "'v \<Rightarrow> PublicKey"
  dl_quorum :: "nat \<Rightarrow> u32"
  dl_info :: "u64 \<Rightarrow> PublicKey list \<Rightarrow> string + 'v"
  dl_player_new :: "'v \<Rightarrow> 'v \<Rightarrow> string + 'v"
  dl_dealer_start :: "nat \<Rightarrow> 'v \<Rightarrow> 'v \<Rightarrow> string + 'v \<times> 'v \<times> (PublicKey \<times> 'v) list"
  dl_dealer_message :: "'v \<Rightarrow> PublicKey \<Rightarrow> 'v \<Rightarrow> 'v \<Rightarrow> 'v \<times> 'v option"
  dl_receive_player_ack :: "'v \<Rightarrow> PublicKey \<Rightarrow> 'v \<Rightarrow> 'v"
  dl_dealer_finalize :: "'v \<Rightarrow> 'v"
  dl_check :: "'v \<Rightarrow> 'v \<Rightarrow> (PublicKey \<times> 'v) option"
  dl_player_finalize :: "nat \<Rightarrow> 'v \<Rightarrow> 'v \<Rightarrow> (PublicKey \<times> 'v) list \<Rightarrow> string + 'v \<times> 'v"
  dl_group_key :: "'v \<Rightarrow> bytes"
  dl_polynomial :: "'v \<Rightarrow> bytes"
  dl_share_bytes :: "'v \<Rightarrow> bytes"
  dl_share_index :: "'v \<Rightarrow> u32"

text \<open>What the codecs of the library document: what they write they read back.\<close>

definition dkg_codec_ok :: "'v dkg_lib \<Rightarrow> u32 \<Rightarrow> (PublicKey \<Rightarrow> bool) \<Rightarrow> ('v \<Rightarrow> bool) \<Rightarrow> ('v \<Rightarrow> bool) \<Rightarrow> ('v \<Rightarrow> bool) \<Rightarrow>
    ('v \<Rightarrow> bool) \<Rightarrow> bool" where
  "dkg_codec_ok L d vpk vpub vpriv vack vlog \<longleftrightarrow>
     (\<forall>b rest. dl_read_u8 L (b # rest) = Inr (b, rest)) \<and>
     codec (dl_write_u32 L) (dl_read_u32 L) (\<lambda>_. True) \<and>
     codec (dl_write_pk L) (dl_read_pk L) vpk \<and>
     codec (dl_write_pub L) (dl_read_pub L d) vpub \<and>
     codec (dl_write_priv L) (dl_read_priv L) vpriv \<and>
     codec (dl_write_ack L) (dl_read_ack L) vack \<and>
     codec (dl_write_log L) (dl_read_log L d) vlog"

section \<open>Little-endian integers\<close>

definition to_le_bytes :: "nat \<Rightarrow> 'a::len word \<Rightarrow> bytes" where
  "to_le_bytes n w = rev (to_be_bytes n w)"

definition from_le_bytes :: "bytes \<Rightarrow> 'a::len word" where
  "from_le_bytes bs = from_be_bytes (rev bs)"

lemma length_to_le_bytes [simp]: "length (to_le_bytes n w) = n"
  by (simp add: to_le_bytes_def)

lemma from_to_le_bytes: "8 * n = LENGTH('a) \<Longrightarrow> from_le_bytes (to_le_bytes n w) = w" for w :: "'a::len word"
  by (simp add: from_le_bytes_def to_le_bytes_def from_to_be_bytes)

lemma to_le_bytes_inj: "8 * n = LENGTH('a) \<Longrightarrow> to_le_bytes n v = to_le_bytes n w \<longleftrightarrow> v = w" for v w :: "'a::len word"
  by (metis from_to_le_bytes)

section \<open>Sessions\<close>

record CeremonySession =
  cs_ceremony_id :: b256
  cs_chain_id :: u64
  cs_round :: u32

text \<open>The bytes hashed into the identifier; keys are sorted by their bytes.\<close>

definition ceremony_preimage :: "u64 \<Rightarrow> PublicKey list \<Rightarrow> u64 \<Rightarrow> bytes" where
  "ceremony_preimage chain_id participants timestamp_nanos =
     ascii ''kora-dkg-ceremony-v1'' @ to_le_bytes 8 chain_id @ to_le_bytes 8 (of_nat (length participants) :: u64) @
     concat (map (to_be_bytes 32) (sort participants)) @ to_le_bytes 8 timestamp_nanos"

definition session_new :: "externs \<Rightarrow> u64 \<Rightarrow> PublicKey list \<Rightarrow> u64 \<Rightarrow> CeremonySession" where
  "session_new X chain_id participants timestamp_nanos =
     \<lparr>cs_ceremony_id = ex_sha256 X (ceremony_preimage chain_id participants timestamp_nanos),
      cs_chain_id = chain_id, cs_round = 0\<rparr>"

definition session_to_bytes :: "CeremonySession \<Rightarrow> bytes" where
  "session_to_bytes s =
     to_be_bytes 32 (cs_ceremony_id s) @ to_le_bytes 8 (cs_chain_id s) @ to_le_bytes 4 (cs_round s)"

definition session_from_bytes :: "bytes \<Rightarrow> codec_error + CeremonySession" where
  "session_from_bytes bytes =
     (if length bytes < 44 then Inl EndOfBuffer
      else Inr \<lparr>cs_ceremony_id = from_be_bytes (take 32 bytes),
                cs_chain_id = from_le_bytes (take 8 (drop 32 bytes)),
                cs_round = from_le_bytes (take 4 (drop 40 bytes))\<rparr>)"

lemma session_roundtrip: "session_from_bytes (session_to_bytes s @ rest) = Inr s"
  by (cases s) (simp add: session_from_bytes_def session_to_bytes_def from_to_be_bytes from_to_le_bytes)

lemma to_be_bytes_inj: "8 * n = LENGTH('a) \<Longrightarrow> to_be_bytes n v = to_be_bytes n w \<longleftrightarrow> v = w" for v w :: "'a::len word"
  by (metis from_to_be_bytes)

lemma concat_keys_cancel:
  fixes ps qs :: "PublicKey list"
  assumes "length ps = length qs"
    and "concat (map (to_be_bytes 32) ps) @ r = concat (map (to_be_bytes 32) qs) @ s"
  shows "ps = qs \<and> r = s"
  using assms
proof (induction ps qs rule: list_induct2)
  case (Cons p ps q qs)
  then have "to_be_bytes 32 p = to_be_bytes 32 q"
    "concat (map (to_be_bytes 32) ps) @ r = concat (map (to_be_bytes 32) qs) @ s"
    by simp_all
  moreover from this(1) have "p = q" by (simp add: to_be_bytes_inj)
  ultimately show ?case using Cons.IH by simp
qed simp

lemma ceremony_preimage_inj:
  assumes "length ps < 2 ^ 64" and "length qs < 2 ^ 64" and "ceremony_preimage c ps t = ceremony_preimage c' qs t'"
  shows "c = c' \<and> mset ps = mset qs \<and> t = t'"
proof -
  have bytes: "to_le_bytes 8 c = to_le_bytes 8 c'"
    "to_le_bytes 8 (of_nat (length ps) :: u64) = to_le_bytes 8 (of_nat (length qs) :: u64)"
    and rest: "concat (map (to_be_bytes 32) (sort ps)) @ to_le_bytes 8 t = concat (map (to_be_bytes 32) (sort qs)) @ to_le_bytes 8 t'"
    using assms(3) by (simp_all add: ceremony_preimage_def del: append_eq_append_conv2)
  have eq: "c = c'" "(of_nat (length ps) :: u64) = of_nat (length qs)"
    using bytes by (simp_all add: to_le_bytes_inj)
  have "unat (of_nat (length ps) :: u64) = length ps" "unat (of_nat (length qs) :: u64) = length qs"
    using assms(1,2) by (simp_all add: unat_of_nat)
  then have "length (sort ps) = length (sort qs)" unfolding length_sort using eq(2) by metis
  note keys = concat_keys_cancel [OF this rest]
  then have "t = t'" by (simp add: to_le_bytes_inj)
  moreover have "mset ps = mset qs" using keys by (metis mset_sort)
  ultimately show ?thesis using eq(1) by simp
qed

text \<open>
  C38: the identifier of a ceremony binds its messages to it. It does not depend on the order in which the
  participants are listed; two ceremonies with the same identifier have the same chain, the same participants and the
  same timestamp, or the two inputs that were hashed are different and collide under SHA-256.
\<close>

theorem ceremony_id_binding:
  assumes "length ps < 2 ^ 64" and "length qs < 2 ^ 64"
  shows "(mset ps = mset qs \<longrightarrow> session_new X c ps t = session_new X c qs t) \<and>
    (cs_ceremony_id (session_new X c ps t) = cs_ceremony_id (session_new X c' qs t') \<longrightarrow>
       c = c' \<and> mset ps = mset qs \<and> t = t' \<or>
       ceremony_preimage c ps t \<noteq> ceremony_preimage c' qs t' \<and>
       ex_sha256 X (ceremony_preimage c ps t) = ex_sha256 X (ceremony_preimage c' qs t'))"
proof -
  have "mset ps = mset qs \<Longrightarrow> sort ps = sort qs" by (metis sorted_list_of_multiset_mset)
  moreover have "mset ps = mset qs \<Longrightarrow> length ps = length qs" by (rule mset_eq_length)
  ultimately have "mset ps = mset qs \<longrightarrow> session_new X c ps t = session_new X c qs t"
    by (auto simp: session_new_def ceremony_preimage_def)
  then show ?thesis using ceremony_preimage_inj [OF assms, of c t c' t'] by (auto simp: session_new_def)
qed

theorem ceremony_id_binding_witness:
  "session_new sample_externs 7 [3, 1, 2] 9 = session_new sample_externs 7 [1, 2, 3] 9 \<and>
   cs_ceremony_id (session_new (sample_externs\<lparr>ex_sha256 := \<lambda>_. 0\<rparr>) 7 [3, 1, 2] 9) =
     cs_ceremony_id (session_new (sample_externs\<lparr>ex_sha256 := \<lambda>_. 0\<rparr>) 8 [1, 2, 3] 9) \<and>
   ceremony_preimage 7 [3, 1, 2] 9 \<noteq> ceremony_preimage 8 [1, 2, 3] 9"
proof -
  have len: "length [3, 1, 2 :: PublicKey] < 2 ^ 64" "length [1, 2, 3 :: PublicKey] < 2 ^ 64" by simp_all
  have "cs_ceremony_id (session_new (sample_externs\<lparr>ex_sha256 := \<lambda>_. 0\<rparr>) 7 [3, 1, 2] 9) =
      cs_ceremony_id (session_new (sample_externs\<lparr>ex_sha256 := \<lambda>_. 0\<rparr>) 8 [1, 2, 3] 9)"
    by (simp add: session_new_def)
  with ceremony_id_binding [OF len, of "sample_externs\<lparr>ex_sha256 := \<lambda>_. 0\<rparr>" 7 9 8 9]
    ceremony_id_binding [OF len, of sample_externs 7 9 7 9]
  show ?thesis by simp
qed

section \<open>Messages\<close>

datatype 'v ProtocolMessageKind =
    DealerPublic PublicKey 'v
  | DealerPrivate PublicKey 'v
  | PlayerAck PublicKey PublicKey 'v
  | DealerLog 'v
  | RequestLogs
  | AllLogs "(PublicKey \<times> 'v) list"
  | Ready PublicKey

record 'v ProtocolMessage =
  pm_session_id :: "b256 option"
  pm_kind :: "'v ProtocolMessageKind"

definition message_new :: "b256 \<Rightarrow> 'v ProtocolMessageKind \<Rightarrow> 'v ProtocolMessage" where
  "message_new session_id kind = \<lparr>pm_session_id = Some session_id, pm_kind = kind\<rparr>"

definition message_legacy :: "'v ProtocolMessageKind \<Rightarrow> 'v ProtocolMessage" where
  "message_legacy kind = \<lparr>pm_session_id = None, pm_kind = kind\<rparr>"

definition write_entry :: "'v dkg_lib \<Rightarrow> PublicKey \<times> 'v \<Rightarrow> bytes" where
  "write_entry L = (\<lambda>(pk, log). dl_write_pk L pk @ dl_write_log L log)"

fun kind_to_bytes :: "'v dkg_lib \<Rightarrow> 'v ProtocolMessageKind \<Rightarrow> bytes" where
  "kind_to_bytes L (DealerPublic dealer msg) = 0 # dl_write_pk L dealer @ dl_write_pub L msg"
| "kind_to_bytes L (DealerPrivate dealer msg) = 1 # dl_write_pk L dealer @ dl_write_priv L msg"
| "kind_to_bytes L (PlayerAck player dealer ack) = 2 # dl_write_pk L player @ dl_write_pk L dealer @ dl_write_ack L ack"
| "kind_to_bytes L (DealerLog log) = 3 # dl_write_log L log"
| "kind_to_bytes L RequestLogs = [4]"
| "kind_to_bytes L (AllLogs logs) = 5 # dl_write_u32 L (of_nat (length logs)) @ concat (map (write_entry L) logs)"
| "kind_to_bytes L (Ready player) = 6 # dl_write_pk L player"

definition message_to_bytes :: "'v dkg_lib \<Rightarrow> 'v ProtocolMessage \<Rightarrow> bytes" where
  "message_to_bytes L m =
     (case pm_session_id m of None \<Rightarrow> [] | Some session_id \<Rightarrow> 0xFF # 2 # to_be_bytes 32 session_id) @
     kind_to_bytes L (pm_kind m)"

definition read_entry :: "'v dkg_lib \<Rightarrow> u32 \<Rightarrow> (PublicKey \<times> 'v) reader" where
  "read_entry L max_degree =
     bind_read (dl_read_pk L) (\<lambda>pk. bind_read (dl_read_log L max_degree) (\<lambda>log. return_read (pk, log)))"

definition read_kind :: "'v dkg_lib \<Rightarrow> u32 \<Rightarrow> u8 \<Rightarrow> 'v ProtocolMessageKind reader" where
  "read_kind L max_degree tag =
     (if tag = 0 then
        bind_read (dl_read_pk L) (\<lambda>dealer. bind_read (dl_read_pub L max_degree) (\<lambda>msg.
          return_read (DealerPublic dealer msg)))
      else if tag = 1 then
        bind_read (dl_read_pk L) (\<lambda>dealer. bind_read (dl_read_priv L) (\<lambda>msg. return_read (DealerPrivate dealer msg)))
      else if tag = 2 then
        bind_read (dl_read_pk L) (\<lambda>player. bind_read (dl_read_pk L) (\<lambda>dealer. bind_read (dl_read_ack L) (\<lambda>ack.
          return_read (PlayerAck player dealer ack))))
      else if tag = 3 then bind_read (dl_read_log L max_degree) (\<lambda>log. return_read (DealerLog log))
      else if tag = 4 then return_read RequestLogs
      else if tag = 5 then
        bind_read (dl_read_u32 L) (\<lambda>count. bind_read (read_n (read_entry L max_degree) (unat count)) (\<lambda>logs.
          return_read (AllLogs logs)))
      else if tag = 6 then bind_read (dl_read_pk L) (\<lambda>player. return_read (Ready player))
      else (\<lambda>_. Inl (InvalidEnum tag)))"

text \<open>The session header and the tag behind it; a first byte below \<open>0xFF\<close> is the tag of a legacy message.\<close>

definition read_header :: "'v dkg_lib \<Rightarrow> (b256 option \<times> u8) reader" where
  "read_header L =
     bind_read (dl_read_u8 L) (\<lambda>first_byte.
       if first_byte = 0xFF then
         bind_read (dl_read_u8 L) (\<lambda>version.
           if version \<noteq> 2 then (\<lambda>_. Inl (InvalidEnum version))
           else bind_read (read_fixed 32) (\<lambda>session_id. bind_read (dl_read_u8 L) (\<lambda>tag. return_read (Some session_id, tag))))
       else return_read (None, first_byte))"

definition message_from_bytes :: "'v dkg_lib \<Rightarrow> bytes \<Rightarrow> u32 \<Rightarrow> codec_error + 'v ProtocolMessage" where
  "message_from_bytes L bytes max_degree =
     (case read_header L bytes of
        Inl e \<Rightarrow> Inl e
      | Inr ((session_id, tag), reader) \<Rightarrow>
          if max_degree = 0 then Inl (InvalidLength 0)
          else case read_kind L max_degree tag reader of
                 Inl e \<Rightarrow> Inl e
               | Inr (kind, _) \<Rightarrow> Inr \<lparr>pm_session_id = session_id, pm_kind = kind\<rparr>)"

section \<open>Round trips\<close>

fun kind_valid :: "(PublicKey \<Rightarrow> bool) \<Rightarrow> ('v \<Rightarrow> bool) \<Rightarrow> ('v \<Rightarrow> bool) \<Rightarrow> ('v \<Rightarrow> bool) \<Rightarrow> ('v \<Rightarrow> bool) \<Rightarrow>
    'v ProtocolMessageKind \<Rightarrow> bool" where
  "kind_valid vpk vpub vpriv vack vlog (DealerPublic dealer msg) = (vpk dealer \<and> vpub msg)"
| "kind_valid vpk vpub vpriv vack vlog (DealerPrivate dealer msg) = (vpk dealer \<and> vpriv msg)"
| "kind_valid vpk vpub vpriv vack vlog (PlayerAck player dealer ack) = (vpk player \<and> vpk dealer \<and> vack ack)"
| "kind_valid vpk vpub vpriv vack vlog (DealerLog log) = vlog log"
| "kind_valid vpk vpub vpriv vack vlog RequestLogs = True"
| "kind_valid vpk vpub vpriv vack vlog (AllLogs logs) = (length logs < 2 ^ 32 \<and> list_all (\<lambda>(pk, log). vpk pk \<and> vlog log) logs)"
| "kind_valid vpk vpub vpriv vack vlog (Ready player) = vpk player"

lemma codec_entry:
  assumes "codec (dl_write_pk L) (dl_read_pk L) vpk" and "codec (dl_write_log L) (dl_read_log L d) vlog"
  shows "codec (write_entry L) (read_entry L d) (\<lambda>(pk, log). vpk pk \<and> vlog log)"
  by unfold_locales
    (auto simp: write_entry_def read_entry_def bind_read_write [OF assms(1)] bind_read_write [OF assms(2)] return_read_def)

lemma read_kind_write:
  assumes ok: "dkg_codec_ok L d vpk vpub vpriv vack vlog" and valid: "kind_valid vpk vpub vpriv vack vlog kind"
  shows "\<exists>tag body. kind_to_bytes L kind = tag # body \<and> tag \<noteq> 0xFF \<and> read_kind L d tag (body @ rest) = Inr (kind, rest)"
proof -
  note c = ok [unfolded dkg_codec_ok_def]
  note w = bind_read_write [of "dl_write_u32 L" "dl_read_u32 L" "\<lambda>_. True"] bind_read_write [of "dl_write_pk L" "dl_read_pk L" vpk]
    bind_read_write [of "dl_write_pub L" "dl_read_pub L d" vpub] bind_read_write [of "dl_write_priv L" "dl_read_priv L" vpriv]
    bind_read_write [of "dl_write_ack L" "dl_read_ack L" vack] bind_read_write [of "dl_write_log L" "dl_read_log L d" vlog]
  show ?thesis
  proof (cases kind)
    case (AllLogs logs)
    have "\<forall>e \<in> set logs. (\<lambda>(pk, log). vpk pk \<and> vlog log) e" using valid AllLogs by (auto simp: list_all_iff)
    moreover have "unat (of_nat (length logs) :: u32) = length logs" using valid AllLogs by (simp add: unat_of_nat)
    moreover have "codec (write_entry L) (read_entry L d) (\<lambda>(pk, log). vpk pk \<and> vlog log)" using c by (intro codec_entry) simp_all
    note entries = read_n_write [OF this]
    ultimately show ?thesis using AllLogs c by (simp add: read_kind_def w(1) entries return_read_apply)
  qed (use valid c in \<open>simp_all add: read_kind_def w return_read_apply\<close>)
qed

text \<open>
  Messages round-trip. Decoding the bytes of a message gives the message back with its session, also
  when other bytes follow, which are ignored.
\<close>

theorem message_roundtrip:
  assumes "dkg_codec_ok L d vpk vpub vpriv vack vlog" and "d \<noteq> 0" and "kind_valid vpk vpub vpriv vack vlog (pm_kind m)"
  shows "message_from_bytes L (message_to_bytes L m @ rest) d = Inr m"
proof -
  obtain tag body where k: "kind_to_bytes L (pm_kind m) = tag # body" "tag \<noteq> 0xFF"
    "read_kind L d tag (body @ rest) = Inr (pm_kind m, rest)"
    using read_kind_write [OF assms(1,3)] by blast
  have u8: "dl_read_u8 L (b # r) = Inr (b, r)" for b r using assms(1) by (simp add: dkg_codec_ok_def)
  have "read_header L (message_to_bytes L m @ rest) = Inr ((pm_session_id m, tag), body @ rest)"
    using k(1,2) bind_read_write [OF codec_fixed [where 'a = 256, of 32]]
    by (cases "pm_session_id m") (simp_all add: message_to_bytes_def read_header_def bind_read_def u8 return_read_def read_fixed_def
        from_to_be_bytes)
  then show ?thesis using k(3) assms(2) by (simp add: message_from_bytes_def)
qed

text \<open>
  An instance for a ceremony of the single participant 5, over values that are words: the key is its own
  public key, and the signed log of a dealer is its key.
\<close>

fun sample_read_u8 :: "u8 reader" where
  "sample_read_u8 [] = Inl EndOfBuffer"
| "sample_read_u8 (b # rest) = Inr (b, rest)"

definition sample_dkg :: "256 word dkg_lib" where
  "sample_dkg =
     \<lparr>dl_read_u8 = sample_read_u8, dl_write_u32 = to_be_bytes 4, dl_read_u32 = read_fixed 4,
      dl_write_pk = to_be_bytes 32, dl_read_pk = read_fixed 32, dl_write_pub = to_be_bytes 32,
      dl_read_pub = (\<lambda>_. read_fixed 32), dl_write_priv = to_be_bytes 32, dl_read_priv = read_fixed 32,
      dl_write_ack = to_be_bytes 32, dl_read_ack = read_fixed 32, dl_write_log = to_be_bytes 32,
      dl_read_log = (\<lambda>_. read_fixed 32), dl_public_key = (\<lambda>k. k), dl_quorum = (\<lambda>n. of_nat (n - (n - 1) div 3)),
      dl_info = (\<lambda>chain ps. if ps = [5] then Inr 0 else Inl ''participants''), dl_player_new = (\<lambda>_ _. Inr 0),
      dl_dealer_start = (\<lambda>seed info key. Inr (key, 0, [(key, 0)])),
      dl_dealer_message = (\<lambda>player dealer pub priv. (player, Some 0)), dl_receive_player_ack = (\<lambda>dealer _ _. dealer),
      dl_dealer_finalize = (\<lambda>dealer. dealer), dl_check = (\<lambda>log info. if log = 5 then Some (5, 0) else None),
      dl_player_finalize = (\<lambda>_ _ _ _. Inr (0, 0)), dl_group_key = (\<lambda>_. []), dl_polynomial = (\<lambda>_. []),
      dl_share_bytes = (\<lambda>_. []), dl_share_index = (\<lambda>_. 0)\<rparr>"

lemma sample_dkg_codec_ok: "dkg_codec_ok sample_dkg d (\<lambda>_. True) (\<lambda>_. True) (\<lambda>_. True) (\<lambda>_. True) (\<lambda>_. True)"
  by (simp add: dkg_codec_ok_def sample_dkg_def codec_fixed)

theorem message_roundtrip_witness:
  "message_from_bytes sample_dkg (message_to_bytes sample_dkg (message_new 7 (AllLogs [(5, 9)])) @ [1, 2]) 1 =
     Inr (message_new 7 (AllLogs [(5, 9)]))"
  by (rule message_roundtrip [OF sample_dkg_codec_ok]) (simp_all add: message_new_def)

section \<open>Envelopes\<close>

text \<open>
  What \<open>send_to\<close> writes to a connection and \<open>poll_incoming\<close> reads from one; \<open>None\<close> drops the
  connection.
\<close>

definition write_envelope :: "'v dkg_lib \<Rightarrow> PublicKey \<Rightarrow> bytes \<Rightarrow> bytes" where
  "write_envelope L my_public_key payload =
     dl_write_pk L my_public_key @ to_le_bytes 4 (of_nat (length payload) :: u32) @ payload"

definition read_envelope :: "'v dkg_lib \<Rightarrow> bytes \<Rightarrow> (PublicKey \<times> bytes) option" where
  "read_envelope L stream =
     (if length stream < 32 then None
      else case dl_read_pk L (take 32 stream) of
             Inl _ \<Rightarrow> None
           | Inr (sender, _) \<Rightarrow>
               (let stream1 = drop 32 stream
                in if length stream1 < 4 then None
                   else let len = unat (from_le_bytes (take 4 stream1) :: u32); stream2 = drop 4 stream1
                        in if len > 1024 * 1024 then None
                           else if length stream2 < len then None else Some (sender, take len stream2)))"

lemma envelope_roundtrip:
  assumes "codec (dl_write_pk L) (dl_read_pk L) vpk" and "vpk pk" and "length (dl_write_pk L pk) = 32"
    and "length payload \<le> 1024 * 1024"
  shows "read_envelope L (write_envelope L pk payload @ rest) = Some (pk, payload)"
proof -
  have "unat (of_nat (length payload) :: u32) = length payload" using assms(4) by (simp add: unat_of_nat)
  then show ?thesis
    using assms codec.decode_encode_exact [OF assms(1,2)]
    by (simp add: read_envelope_def write_envelope_def Let_def from_to_le_bytes)
qed

end
