(* ===== verification/Dkg_State.thy ===== *)
theory Dkg_State
  imports Dkg_Message Hex "HOL-Library.List_Lexorder" "HOL-Library.Char_ord"
begin

text \<open>
  Errors, configuration, persisted state and output of the key generation: \<open>error.rs\<close>, \<open>config.rs\<close>,
  \<open>state.rs\<close> and \<open>output.rs\<close> of \<open>crates/node/dkg/src\<close>. Files hold the value that \<open>serde_json\<close> reads
  back from their text.
\<close>

section \<open>Errors and configuration\<close>

text \<open>Where the sources format a key, an identifier or a codec error into the message, the model keeps the value.\<close>

datatype DkgError =
    CeremonyFailed string
  | InvalidParticipantCount nat nat
  | InvalidThreshold u32 nat
  | Network string
  | Crypto string
  | Serialization string
  | Io string
  | DkgTimeout
  | MissingShare
  | InvalidDealerLog PublicKey
  | UnknownSender PublicKey
  | SenderMismatch PublicKey PublicKey
  | UnauthorizedSender
  | DuplicateDealer PublicKey
  | TooManyDealers nat nat
  | SessionMismatch b256 b256
  | InvalidMessage codec_error

text \<open>Addresses, directory and timeout of the configuration belong to the I/O around the ceremony.\<close>

record 'v DkgConfig =
  dc_identity_key :: 'v
  dc_validator_index :: nat
  dc_participants :: "PublicKey list"
  dc_chain_id :: u64

definition dc_n :: "'v DkgConfig \<Rightarrow> nat" where
  "dc_n config = length (dc_participants config)"

definition dc_t :: "'v dkg_lib \<Rightarrow> 'v DkgConfig \<Rightarrow> u32" where
  "dc_t L config = dl_quorum L (length (dc_participants config))"

definition my_public_key :: "'v dkg_lib \<Rightarrow> 'v DkgConfig \<Rightarrow> PublicKey" where
  "my_public_key L config = dl_public_key L (dc_identity_key config)"

section \<open>Persisted state\<close>

datatype DkgPhase =
  AwaitingStart | DealerStarted | CollectingMessages | DealerFinalized | CollectingLogs | PhaseCompleted | PhaseFailed

record SerializedSession =
  sr_ceremony_id :: string
  sr_chain_id :: u64
  sr_round :: u32

definition serialize_session :: "hex_lib \<Rightarrow> CeremonySession \<Rightarrow> SerializedSession" where
  "serialize_session H s =
     \<lparr>sr_ceremony_id = hx_encode H (to_be_bytes 32 (cs_ceremony_id s)), sr_chain_id = cs_chain_id s, sr_round = cs_round s\<rparr>"

definition deserialize_session :: "hex_lib \<Rightarrow> SerializedSession \<Rightarrow> DkgError + CeremonySession" where
  "deserialize_session H s =
     (case hx_decode H (sr_ceremony_id s) of
        Inl e \<Rightarrow> Inl (Serialization e)
      | Inr ceremony_id_bytes \<Rightarrow>
          if length ceremony_id_bytes \<noteq> 32 then Inl (Serialization ''Invalid ceremony_id length'')
          else Inr \<lparr>cs_ceremony_id = from_be_bytes ceremony_id_bytes, cs_chain_id = sr_chain_id s, cs_round = sr_round s\<rparr>)"

record PersistedDkgState =
  pd_phase :: DkgPhase
  pd_session :: SerializedSession
  pd_dealer_started :: bool
  pd_dealer_finalized :: bool
  pd_our_signed_log :: "string option"
  pd_received_logs :: "(string, string) btree_map"
  pd_timestamp :: u64

definition persisted_new :: "hex_lib \<Rightarrow> CeremonySession \<Rightarrow> u64 \<Rightarrow> PersistedDkgState" where
  "persisted_new H session timestamp =
     \<lparr>pd_phase = AwaitingStart, pd_session = serialize_session H session, pd_dealer_started = False,
      pd_dealer_finalized = False, pd_our_signed_log = None, pd_received_logs = [], pd_timestamp = timestamp\<rparr>"

definition persisted_session :: "hex_lib \<Rightarrow> PersistedDkgState \<Rightarrow> DkgError + CeremonySession" where
  "persisted_session H state = deserialize_session H (pd_session state)"

definition set_session :: "hex_lib \<Rightarrow> CeremonySession \<Rightarrow> PersistedDkgState \<Rightarrow> PersistedDkgState" where
  "set_session H session state = state\<lparr>pd_session := serialize_session H session\<rparr>"

definition set_our_signed_log :: "hex_lib \<Rightarrow> bytes \<Rightarrow> PersistedDkgState \<Rightarrow> PersistedDkgState" where
  "set_our_signed_log H log_bytes state = state\<lparr>pd_our_signed_log := Some (hx_encode H log_bytes)\<rparr>"

definition get_our_signed_log :: "hex_lib \<Rightarrow> PersistedDkgState \<Rightarrow> bytes option" where
  "get_our_signed_log H state =
     (case pd_our_signed_log state of
        None \<Rightarrow> None
      | Some s \<Rightarrow> (case hx_decode H s of Inl _ \<Rightarrow> None | Inr bytes \<Rightarrow> Some bytes))"

definition add_received_log :: "hex_lib \<Rightarrow> string \<Rightarrow> bytes \<Rightarrow> PersistedDkgState \<Rightarrow> PersistedDkgState" where
  "add_received_log H pk_hex log_bytes state =
     state\<lparr>pd_received_logs := bt_insert pk_hex (hx_encode H log_bytes) (pd_received_logs state)\<rparr>"

definition get_received_logs :: "hex_lib \<Rightarrow> PersistedDkgState \<Rightarrow> (string, bytes) btree_map" where
  "get_received_logs H state =
     concat (map (\<lambda>(k, v). case hx_decode H v of Inl _ \<Rightarrow> [] | Inr bytes \<Rightarrow> [(k, bytes)]) (pd_received_logs state))"

section \<open>Files\<close>

text \<open>A file is absent, holds text that does not parse (with the parser's error), or holds a value.\<close>

datatype 'a stored = Absent | Garbled string | Holds 'a

record OutputJson =
  oj_group_public_key :: string
  oj_public_polynomial :: string
  oj_threshold :: u32
  oj_participants :: nat
  oj_participant_keys :: "string list"

record ShareJson =
  sj_index :: u32
  sj_secret :: string

text \<open>The data directory; \<open>dd_fault\<close> is the error of every access while it lasts.\<close>

record dkg_disk =
  dd_state :: "PersistedDkgState stored"
  dd_output :: "OutputJson stored"
  dd_share :: "ShareJson stored"
  dd_fault :: "string option"

fun file_exists :: "'a stored \<Rightarrow> bool" where
  "file_exists Absent = False"
| "file_exists (Garbled e) = True"
| "file_exists (Holds v) = True"

definition read_file :: "dkg_disk \<Rightarrow> 'a stored \<Rightarrow> DkgError + 'a" where
  "read_file disk f =
     (case dd_fault disk of
        Some e \<Rightarrow> Inl (Io e)
      | None \<Rightarrow> (case f of Absent \<Rightarrow> Inl (Io ''not found'') | Garbled e \<Rightarrow> Inl (Serialization e) | Holds v \<Rightarrow> Inr v))"

definition write_files :: "(dkg_disk \<Rightarrow> dkg_disk) \<Rightarrow> dkg_disk \<Rightarrow> DkgError + dkg_disk" where
  "write_files f disk = (case dd_fault disk of Some e \<Rightarrow> Inl (Io e) | None \<Rightarrow> Inr (f disk))"

definition state_save :: "PersistedDkgState \<Rightarrow> dkg_disk \<Rightarrow> DkgError + dkg_disk" where
  "state_save state = write_files (\<lambda>disk. disk\<lparr>dd_state := Holds state\<rparr>)"

definition state_load :: "dkg_disk \<Rightarrow> DkgError + PersistedDkgState" where
  "state_load disk = read_file disk (dd_state disk)"

definition state_exists :: "dkg_disk \<Rightarrow> bool" where
  "state_exists disk = file_exists (dd_state disk)"

definition state_clear :: "dkg_disk \<Rightarrow> DkgError + dkg_disk" where
  "state_clear disk =
     (if file_exists (dd_state disk) then write_files (\<lambda>disk. disk\<lparr>dd_state := Absent\<rparr>) disk else Inr disk)"

section \<open>Output\<close>

record DkgOutput =
  do_group_public_key :: bytes
  do_public_polynomial :: bytes
  do_threshold :: u32
  do_participants :: nat
  do_share_index :: u32
  do_share_secret :: bytes
  do_participant_keys :: "bytes list"

definition output_save :: "hex_lib \<Rightarrow> DkgOutput \<Rightarrow> dkg_disk \<Rightarrow> DkgError + dkg_disk" where
  "output_save H out =
     write_files (\<lambda>disk. disk
       \<lparr>dd_output := Holds \<lparr>oj_group_public_key = hx_encode H (do_group_public_key out),
           oj_public_polynomial = hx_encode H (do_public_polynomial out), oj_threshold = do_threshold out,
           oj_participants = do_participants out, oj_participant_keys = map (hx_encode H) (do_participant_keys out)\<rparr>,
        dd_share := Holds \<lparr>sj_index = do_share_index out, sj_secret = hx_encode H (do_share_secret out)\<rparr>\<rparr>)"

definition hex_field :: "hex_lib \<Rightarrow> string \<Rightarrow> DkgError + bytes" where
  "hex_field H s = (case hx_decode H s of Inl e \<Rightarrow> Inl (Serialization e) | Inr bytes \<Rightarrow> Inr bytes)"

text \<open>\<open>collect\<close> into a \<open>Result\<close>: the first error, or all values.\<close>

fun collect_results :: "('e + 'a) list \<Rightarrow> 'e + 'a list" where
  "collect_results [] = Inr []"
| "collect_results (Inl e # rs) = Inl e"
| "collect_results (Inr x # rs) = (case collect_results rs of Inl e \<Rightarrow> Inl e | Inr xs \<Rightarrow> Inr (x # xs))"

definition output_load :: "'v dkg_lib \<Rightarrow> hex_lib \<Rightarrow> dkg_disk \<Rightarrow> DkgError + DkgOutput" where
  "output_load L H disk =
     (case read_file disk (dd_output disk) of
        Inl e \<Rightarrow> Inl e
      | Inr out \<Rightarrow>
     (case read_file disk (dd_share disk) of
        Inl e \<Rightarrow> Inl e
      | Inr share \<Rightarrow>
     (case collect_results (map (hex_field H) (oj_participant_keys out)) of
        Inl e \<Rightarrow> Inl e
      | Inr participant_keys \<Rightarrow>
     (case hex_field H (oj_group_public_key out) of
        Inl e \<Rightarrow> Inl e
      | Inr group_public_key \<Rightarrow>
     (case hex_field H (oj_public_polynomial out) of
        Inl e \<Rightarrow> Inl e
      | Inr public_polynomial \<Rightarrow>
     (case hex_field H (sj_secret share) of
        Inl e \<Rightarrow> Inl e
      | Inr share_secret \<Rightarrow>
          Inr \<lparr>do_group_public_key = group_public_key, do_public_polynomial = public_polynomial,
               do_threshold = dl_quorum L (oj_participants out), do_participants = oj_participants out,
               do_share_index = sj_index share, do_share_secret = share_secret,
               do_participant_keys = participant_keys\<rparr>))))))"

definition output_exists :: "dkg_disk \<Rightarrow> bool" where
  "output_exists disk \<longleftrightarrow> file_exists (dd_output disk) \<and> file_exists (dd_share disk)"

section \<open>Round trips\<close>

lemma session_state_roundtrip: "hex_ok H \<Longrightarrow> deserialize_session H (serialize_session H s) = Inr s"
  by (cases s) (simp add: serialize_session_def deserialize_session_def hex_okD from_to_be_bytes)

lemma collect_results_Inr: "collect_results (map Inr xs) = Inr xs"
  by (induction xs) auto

lemma output_saved_loads:
  assumes "hex_ok H" and "dd_fault disk = None"
  obtains disk' where "output_save H out disk = Inr disk'" "output_exists disk'" "dd_state disk' = dd_state disk"
    "output_load L H disk' = Inr (out\<lparr>do_threshold := dl_quorum L (do_participants out)\<rparr>)"
proof -
  have field: "hex_field H (hx_encode H bs) = Inr bs" for bs by (simp add: hex_field_def hex_okD [OF assms(1)])
  then have "collect_results (map (hex_field H) (map (hx_encode H) keys)) = Inr keys" for keys
    using collect_results_Inr [of keys] by (simp add: comp_def)
  then show ?thesis using that assms(2) field
    by (simp add: output_save_def output_load_def write_files_def read_file_def output_exists_def)
qed

end
