(* ===== verification/Dkg.thy ===== *)
theory Dkg
  imports Dkg_State
begin

text \<open>
  The participant of the key generation, \<open>DkgParticipant\<close> in \<open>crates/node/dkg/src/protocol.rs\<close>: it deals
  shares, checks and acknowledges the shares of the others, collects the signed logs of all dealers
  and combines them. A hash set is a list without repetitions.
\<close>

section \<open>State\<close>

record 'v DkgParticipant =
  dp_config :: "'v DkgConfig"
  dp_info :: 'v
  dp_player :: "'v option"
  dp_dealer :: "'v option"
  dp_session :: CeremonySession
  dp_seen_messages :: "b256 list"
  dp_outgoing :: "(PublicKey option \<times> 'v ProtocolMessage) list"
  dp_dealer_pub_msgs :: "(PublicKey, 'v) btree_map"
  dp_dealer_priv_msgs :: "(PublicKey, 'v) btree_map"
  dp_dealer_logs :: "(PublicKey, 'v) btree_map"
  dp_signed_logs :: "(PublicKey, 'v) btree_map"
  dp_our_signed_log :: "'v option"
  dp_finalized :: bool
  dp_acks_sent :: "PublicKey list"
  dp_ready_players :: "PublicKey list"
  dp_sent_ready :: bool
  dp_current_phase :: DkgPhase
  dp_timestamp_nanos :: u64

text \<open>Collecting the participants into a set fails on a duplicate.\<close>

definition participant_new :: "externs \<Rightarrow> 'v dkg_lib \<Rightarrow> 'v DkgConfig \<Rightarrow> u64 \<Rightarrow> DkgError + 'v DkgParticipant" where
  "participant_new X L config timestamp_nanos =
     (if \<not> distinct (dc_participants config) then Inl (CeremonyFailed ''duplicate participants'')
      else case dl_info L (dc_chain_id config) (dc_participants config) of
             Inl e \<Rightarrow> Inl (Crypto (''Failed to create DKG info: '' @ e))
           | Inr info \<Rightarrow>
               (case dl_player_new L info (dc_identity_key config) of
                  Inl e \<Rightarrow> Inl (Crypto (''Failed to create player: '' @ e))
                | Inr player \<Rightarrow>
                    Inr \<lparr>dp_config = config, dp_info = info, dp_player = Some player, dp_dealer = None,
                         dp_session = session_new X (dc_chain_id config) (dc_participants config) timestamp_nanos,
                         dp_seen_messages = [], dp_outgoing = [], dp_dealer_pub_msgs = [], dp_dealer_priv_msgs = [],
                         dp_dealer_logs = [], dp_signed_logs = [], dp_our_signed_log = None, dp_finalized = False,
                         dp_acks_sent = [], dp_ready_players = [], dp_sent_ready = False,
                         dp_current_phase = AwaitingStart, dp_timestamp_nanos = timestamp_nanos\<rparr>))"

definition ceremony_id :: "'v DkgParticipant \<Rightarrow> b256" where
  "ceremony_id p = cs_ceremony_id (dp_session p)"

definition is_participant :: "'v DkgParticipant \<Rightarrow> PublicKey \<Rightarrow> bool" where
  "is_participant p pk \<longleftrightarrow> pk \<in> set (dc_participants (dp_config p))"

definition dkg_leader :: "'v DkgParticipant \<Rightarrow> PublicKey" where
  "dkg_leader p = hd (dc_participants (dp_config p))"

definition required_dealer_logs :: "'v DkgParticipant \<Rightarrow> nat" where
  "required_dealer_logs p = dc_n (dp_config p)"

definition push_out :: "PublicKey option \<Rightarrow> 'v ProtocolMessageKind \<Rightarrow> 'v DkgParticipant \<Rightarrow> 'v DkgParticipant" where
  "push_out target kind p = p\<lparr>dp_outgoing := dp_outgoing p @ [(target, message_new (ceremony_id p) kind)]\<rparr>"

section \<open>Dealing\<close>

text \<open>Once both messages of a dealer are there, the player checks them and acknowledges.\<close>

definition try_process_dealer_messages :: "'v dkg_lib \<Rightarrow> PublicKey \<Rightarrow> 'v DkgParticipant \<Rightarrow> 'v DkgParticipant" where
  "try_process_dealer_messages L dealer p =
     (case (bt_get (dp_dealer_pub_msgs p) dealer, bt_get (dp_dealer_priv_msgs p) dealer) of
        (Some pub_msg, Some priv_msg) \<Rightarrow>
          (case dp_player p of
             None \<Rightarrow> p
           | Some player \<Rightarrow>
               (case dl_dealer_message L player dealer pub_msg priv_msg of
                  (player', Some ack) \<Rightarrow>
                    (let p1 = push_out (Some dealer) (PlayerAck (my_public_key L (dp_config p)) dealer ack)
                                (p\<lparr>dp_player := Some player'\<rparr>)
                     in p1\<lparr>dp_acks_sent := List.insert dealer (dp_acks_sent p1)\<rparr>)
                | (player', None) \<Rightarrow> p\<lparr>dp_player := Some player'\<rparr>))
      | _ \<Rightarrow> p)"

definition deal_share :: "'v dkg_lib \<Rightarrow> PublicKey \<times> 'v \<Rightarrow> 'v DkgParticipant \<Rightarrow> 'v DkgParticipant" where
  "deal_share L = (\<lambda>(player_pk, priv_msg) p.
     let my_pk = my_public_key L (dp_config p)
     in if player_pk = my_pk then p\<lparr>dp_dealer_priv_msgs := bt_insert my_pk priv_msg (dp_dealer_priv_msgs p)\<rparr>
        else push_out (Some player_pk) (DealerPrivate my_pk priv_msg) p)"

text \<open>\<open>seed\<close> stands for what the operating system's generator returns.\<close>

definition start_dealer :: "'v dkg_lib \<Rightarrow> nat \<Rightarrow> 'v DkgParticipant \<Rightarrow> 'v DkgParticipant \<times> (DkgError + unit)" where
  "start_dealer L seed p =
     (case dl_dealer_start L seed (dp_info p) (dc_identity_key (dp_config p)) of
        Inl e \<Rightarrow> (p, Inl (Crypto (''Failed to start dealer: '' @ e)))
      | Inr (dealer, pub_msg, priv_msgs) \<Rightarrow>
          (let my_pk = my_public_key L (dp_config p);
               p1 = fold (deal_share L) priv_msgs (push_out None (DealerPublic my_pk pub_msg) p);
               p2 = p1\<lparr>dp_dealer_pub_msgs := bt_insert my_pk pub_msg (dp_dealer_pub_msgs p1), dp_dealer := Some dealer\<rparr>
           in (try_process_dealer_messages L my_pk p2, Inr ())))"

section \<open>Messages\<close>

text \<open>The common checks of the two messages of a dealer.\<close>

definition dealer_error :: "nat \<Rightarrow> PublicKey \<Rightarrow> PublicKey \<Rightarrow> (PublicKey, 'v) btree_map \<Rightarrow> DkgError option" where
  "dealer_error max_entries sender dealer msgs =
     (if sender \<noteq> dealer then Some (SenderMismatch dealer sender)
      else if length msgs \<ge> max_entries then Some (TooManyDealers (length msgs + 1) max_entries)
      else if bt_get msgs dealer \<noteq> None then Some (DuplicateDealer dealer)
      else None)"

definition record_log :: "PublicKey \<Rightarrow> 'v \<Rightarrow> 'v \<Rightarrow> 'v DkgParticipant \<Rightarrow> 'v DkgParticipant" where
  "record_log dealer_pk dealer_log signed_log p =
     p\<lparr>dp_dealer_logs := bt_insert dealer_pk dealer_log (dp_dealer_logs p),
       dp_signed_logs := bt_insert dealer_pk signed_log (dp_signed_logs p)\<rparr>"

definition handle_dealer_log :: "'v dkg_lib \<Rightarrow> PublicKey \<Rightarrow> 'v \<Rightarrow> 'v DkgParticipant \<Rightarrow> 'v DkgParticipant \<times> (DkgError + unit)" where
  "handle_dealer_log L sender log p =
     (let max_entries = dc_n (dp_config p)
      in case dl_check L log (dp_info p) of
           None \<Rightarrow> (p, Inl (InvalidDealerLog sender))
         | Some (dealer_pk, dealer_log) \<Rightarrow>
             if \<not> is_participant p dealer_pk then (p, Inl (UnknownSender dealer_pk))
             else if length (dp_dealer_logs p) \<ge> max_entries
             then (p, Inl (TooManyDealers (length (dp_dealer_logs p) + 1) max_entries))
             else if bt_get (dp_dealer_logs p) dealer_pk \<noteq> None then (p, Inl (DuplicateDealer dealer_pk))
             else (record_log dealer_pk dealer_log log p, Inr ()))"

text \<open>The loop over the leader's logs skips invalid, foreign and known ones and stops when all are there.\<close>

fun merge_logs :: "'v dkg_lib \<Rightarrow> (PublicKey \<times> 'v) list \<Rightarrow> 'v DkgParticipant \<Rightarrow> 'v DkgParticipant" where
  "merge_logs L [] p = p"
| "merge_logs L ((pk, log) # logs) p =
     (case dl_check L log (dp_info p) of
        None \<Rightarrow> merge_logs L logs p
      | Some (dealer_pk, dealer_log) \<Rightarrow>
          if \<not> is_participant p dealer_pk then merge_logs L logs p
          else if length (dp_dealer_logs p) \<ge> dc_n (dp_config p) then p
          else if bt_get (dp_dealer_logs p) dealer_pk \<noteq> None then merge_logs L logs p
          else merge_logs L logs (record_log dealer_pk dealer_log log p))"

fun handle_kind :: "'v dkg_lib \<Rightarrow> PublicKey \<Rightarrow> 'v ProtocolMessageKind \<Rightarrow> 'v DkgParticipant \<Rightarrow>
    'v DkgParticipant \<times> (DkgError + unit)" where
  "handle_kind L sender (DealerPublic dealer msg) p =
     (case dealer_error (dc_n (dp_config p)) sender dealer (dp_dealer_pub_msgs p) of
        Some e \<Rightarrow> (p, Inl e)
      | None \<Rightarrow>
          (try_process_dealer_messages L dealer
             (p\<lparr>dp_dealer_pub_msgs := bt_insert dealer msg (dp_dealer_pub_msgs p)\<rparr>), Inr ()))"
| "handle_kind L sender (DealerPrivate dealer msg) p =
     (case dealer_error (dc_n (dp_config p)) sender dealer (dp_dealer_priv_msgs p) of
        Some e \<Rightarrow> (p, Inl e)
      | None \<Rightarrow>
          (try_process_dealer_messages L dealer
             (p\<lparr>dp_dealer_priv_msgs := bt_insert dealer msg (dp_dealer_priv_msgs p)\<rparr>), Inr ()))"
| "handle_kind L sender (PlayerAck player dealer ack) p =
     (if sender \<noteq> player then (p, Inl (SenderMismatch player sender))
      else case dp_dealer p of
             None \<Rightarrow> (p, Inr ())
           | Some our_dealer \<Rightarrow>
               if dealer = my_public_key L (dp_config p)
               then (p\<lparr>dp_dealer := Some (dl_receive_player_ack L our_dealer player ack)\<rparr>, Inr ())
               else (p, Inr ()))"
| "handle_kind L sender (DealerLog log) p = handle_dealer_log L sender log p"
| "handle_kind L sender RequestLogs p = (push_out (Some sender) (AllLogs (dp_signed_logs p)) p, Inr ())"
| "handle_kind L sender (AllLogs logs) p =
     (if sender \<noteq> dkg_leader p then (p, Inl UnauthorizedSender) else (merge_logs L logs p, Inr ()))"
| "handle_kind L sender (Ready player) p =
     (if sender \<noteq> player then (p, Inl (SenderMismatch player sender))
      else (p\<lparr>dp_ready_players := List.insert player (dp_ready_players p)\<rparr>, Inr ()))"

definition handle_message :: "'v dkg_lib \<Rightarrow> PublicKey \<Rightarrow> 'v ProtocolMessage \<Rightarrow> 'v DkgParticipant \<Rightarrow>
    'v DkgParticipant \<times> (DkgError + unit)" where
  "handle_message L sender msg p =
     (if \<not> is_participant p sender then (p, Inl (UnknownSender sender)) else handle_kind L sender (pm_kind msg) p)"

text \<open>A message is recorded as seen once its session has been accepted, whatever its handler answers.\<close>

definition handle_message_bytes :: "externs \<Rightarrow> 'v dkg_lib \<Rightarrow> PublicKey \<Rightarrow> bytes \<Rightarrow> 'v DkgParticipant \<Rightarrow>
    'v DkgParticipant \<times> (DkgError + unit)" where
  "handle_message_bytes X L sender bytes p =
     (let message_hash = ex_sha256 X bytes
      in if message_hash \<in> set (dp_seen_messages p) then (p, Inr ())
         else case message_from_bytes L bytes (of_nat (dc_n (dp_config p))) of
                Inl e \<Rightarrow> (p, Inl (InvalidMessage e))
              | Inr msg \<Rightarrow>
                  (case pm_session_id msg of
                     Some session_id \<Rightarrow>
                       if session_id \<noteq> ceremony_id p then (p, Inl (SessionMismatch (ceremony_id p) session_id))
                       else handle_message L sender msg (p\<lparr>dp_seen_messages := List.insert message_hash (dp_seen_messages p)\<rparr>)
                   | None \<Rightarrow>
                       handle_message L sender msg (p\<lparr>dp_seen_messages := List.insert message_hash (dp_seen_messages p)\<rparr>)))"

section \<open>Logs and output\<close>

definition finalize_dealer :: "'v dkg_lib \<Rightarrow> 'v DkgParticipant \<Rightarrow> 'v DkgParticipant \<times> (DkgError + unit)" where
  "finalize_dealer L p =
     (case dp_dealer p of
        None \<Rightarrow> (p, Inr ())
      | Some dealer \<Rightarrow>
          (let signed_log = dl_dealer_finalize L dealer; p1 = p\<lparr>dp_dealer := None\<rparr>
           in case dl_check L signed_log (dp_info p1) of
                None \<Rightarrow> (p1, Inl (CeremonyFailed ''Our own dealer log is invalid''))
              | Some (dealer_pk, dealer_log) \<Rightarrow>
                  (push_out None (DealerLog signed_log)
                     ((record_log dealer_pk dealer_log signed_log p1)\<lparr>dp_our_signed_log := Some signed_log\<rparr>), Inr ())))"

definition broadcast_ready :: "'v dkg_lib \<Rightarrow> 'v DkgParticipant \<Rightarrow> 'v DkgParticipant" where
  "broadcast_ready L p =
     (if dp_sent_ready p then p
      else let my_pk = my_public_key L (dp_config p); p1 = push_out None (Ready my_pk) p
           in p1\<lparr>dp_ready_players := List.insert my_pk (dp_ready_players p1), dp_sent_ready := True\<rparr>)"

definition ready_count :: "'v DkgParticipant \<Rightarrow> nat" where
  "ready_count p = length (dp_ready_players p)"

definition all_ready :: "'v DkgParticipant \<Rightarrow> bool" where
  "all_ready p \<longleftrightarrow> ready_count p \<ge> dc_n (dp_config p)"

definition can_finalize :: "'v DkgParticipant \<Rightarrow> bool" where
  "can_finalize p \<longleftrightarrow> length (dp_dealer_logs p) \<ge> required_dealer_logs p"

definition received_dealer_count :: "'v DkgParticipant \<Rightarrow> nat" where
  "received_dealer_count p =
     length (filter (\<lambda>k. bt_get (dp_dealer_priv_msgs p) k \<noteq> None) (map fst (dp_dealer_pub_msgs p)))"

definition acks_sent_count :: "'v DkgParticipant \<Rightarrow> nat" where
  "acks_sent_count p = length (dp_acks_sent p)"

definition received_all_dealer_messages :: "'v DkgParticipant \<Rightarrow> bool" where
  "received_all_dealer_messages p \<longleftrightarrow> received_dealer_count p \<ge> dc_n (dp_config p)"

definition take_outgoing :: "'v DkgParticipant \<Rightarrow> 'v DkgParticipant \<times> (PublicKey option \<times> 'v ProtocolMessage) list" where
  "take_outgoing p = (p\<lparr>dp_outgoing := []\<rparr>, dp_outgoing p)"

definition set_phase :: "DkgPhase \<Rightarrow> 'v DkgParticipant \<Rightarrow> 'v DkgParticipant" where
  "set_phase phase p = p\<lparr>dp_current_phase := phase\<rparr>"

text \<open>The player is consumed before the logs are combined; a failure leaves the participant without one.\<close>

definition dkg_finalize :: "'v dkg_lib \<Rightarrow> nat \<Rightarrow> 'v DkgParticipant \<Rightarrow> 'v DkgParticipant \<times> (DkgError + DkgOutput)" where
  "dkg_finalize L seed p =
     (if dp_finalized p then (p, Inl (CeremonyFailed ''Already finalized''))
      else if \<not> can_finalize p then (p, Inl (CeremonyFailed ''Not enough dealer logs''))
      else case dp_player p of
             None \<Rightarrow> (p, Inl (CeremonyFailed ''Player already consumed''))
           | Some player \<Rightarrow>
               (let p1 = p\<lparr>dp_player := None\<rparr>
                in case dl_player_finalize L seed player (dp_info p) (dp_dealer_logs p) of
                     Inl e \<Rightarrow> (p1, Inl (Crypto (''Failed to finalize: '' @ e)))
                   | Inr (out, share) \<Rightarrow>
                       (p1\<lparr>dp_finalized := True\<rparr>,
                        Inr \<lparr>do_group_public_key = dl_group_key L out, do_public_polynomial = dl_polynomial L out,
                             do_threshold = dc_t L (dp_config p), do_participants = dc_n (dp_config p),
                             do_share_index = dl_share_index L share, do_share_secret = dl_share_bytes L share,
                             do_participant_keys = map (dl_write_pk L) (dc_participants (dp_config p))\<rparr>)))"

section \<open>Crash recovery\<close>

definition persisted_of :: "'v dkg_lib \<Rightarrow> hex_lib \<Rightarrow> 'v DkgParticipant \<Rightarrow> PersistedDkgState" where
  "persisted_of L H p =
     (let state = (persisted_new H (dp_session p) (dp_timestamp_nanos p))
            \<lparr>pd_phase := dp_current_phase p,
             pd_dealer_started := (dp_dealer p \<noteq> None \<or> dp_our_signed_log p \<noteq> None),
             pd_dealer_finalized := (dp_our_signed_log p \<noteq> None)\<rparr>;
          state1 = (case dp_our_signed_log p of
                      None \<Rightarrow> state
                    | Some log \<Rightarrow> set_our_signed_log H (dl_write_log L log) state)
      in fold (\<lambda>(pk, log). add_received_log H (hx_encode H (to_be_bytes 32 pk)) (dl_write_log L log)) (dp_signed_logs p) state1)"

definition save_state :: "'v dkg_lib \<Rightarrow> hex_lib \<Rightarrow> 'v DkgParticipant \<Rightarrow> dkg_disk \<Rightarrow> DkgError + dkg_disk" where
  "save_state L H p disk = state_save (persisted_of L H p) disk"

text \<open>
  Reading a stored log back: \<open>None\<close> when it does not decode or does not verify, both of which are only
  logged.
\<close>

definition restore_log :: "'v dkg_lib \<Rightarrow> bytes \<Rightarrow> 'v DkgParticipant \<Rightarrow> (PublicKey \<times> 'v \<times> 'v) option" where
  "restore_log L log_bytes p =
     (case dl_read_log L (dc_t L (dp_config p)) log_bytes of
        Inl _ \<Rightarrow> None
      | Inr (log, _) \<Rightarrow>
          (case dl_check L log (dp_info p) of None \<Rightarrow> None | Some (dealer_pk, dealer_log) \<Rightarrow> Some (dealer_pk, dealer_log, log)))"

definition restore_own :: "'v dkg_lib \<Rightarrow> hex_lib \<Rightarrow> PersistedDkgState \<Rightarrow> 'v DkgParticipant \<Rightarrow> 'v DkgParticipant" where
  "restore_own L H state p =
     (if pd_dealer_finalized state
      then case get_our_signed_log H state of
             None \<Rightarrow> p
           | Some log_bytes \<Rightarrow>
               (case restore_log L log_bytes p of
                  None \<Rightarrow> p
                | Some (dealer_pk, dealer_log, log) \<Rightarrow> (record_log dealer_pk dealer_log log p)\<lparr>dp_our_signed_log := Some log\<rparr>)
      else p)"

definition restore_received :: "'v dkg_lib \<Rightarrow> hex_lib \<Rightarrow> PersistedDkgState \<Rightarrow> 'v DkgParticipant \<Rightarrow> 'v DkgParticipant" where
  "restore_received L H state p =
     fold (\<lambda>(pk_hex, log_bytes) p.
         case restore_log L log_bytes p of
           None \<Rightarrow> p
         | Some (dealer_pk, dealer_log, log) \<Rightarrow> record_log dealer_pk dealer_log log p)
       (get_received_logs H state) p"

text \<open>
  \<open>try_restore\<close>; the outer \<open>None\<close> is the panic on a zero degree, which needs a stored log. A state of
  another session is removed from the disk.
\<close>

definition reads_log :: "hex_lib \<Rightarrow> PersistedDkgState \<Rightarrow> bool" where
  "reads_log H state \<longleftrightarrow>
     pd_dealer_finalized state \<and> get_our_signed_log H state \<noteq> None \<or> get_received_logs H state \<noteq> []"

definition try_restore :: "externs \<Rightarrow> 'v dkg_lib \<Rightarrow> hex_lib \<Rightarrow> 'v DkgConfig \<Rightarrow> u64 \<Rightarrow> dkg_disk \<Rightarrow>
    (DkgError + dkg_disk \<times> 'v DkgParticipant option) option" where
  "try_restore X L H config timestamp_nanos disk =
     (if \<not> state_exists disk then Some (Inr (disk, None))
      else case state_load disk of
             Inl e \<Rightarrow> Some (Inl e)
           | Inr state \<Rightarrow>
               (case persisted_session H state of
                  Inl e \<Rightarrow> Some (Inl e)
                | Inr session \<Rightarrow>
                    if cs_ceremony_id session \<noteq>
                         cs_ceremony_id (session_new X (dc_chain_id config) (dc_participants config) timestamp_nanos)
                    then case state_clear disk of
                           Inl e \<Rightarrow> Some (Inl e)
                         | Inr disk1 \<Rightarrow> Some (Inr (disk1, None))
                    else case participant_new X L config timestamp_nanos of
                           Inl e \<Rightarrow> Some (Inl e)
                         | Inr p \<Rightarrow>
                             if reads_log H state \<and> dc_t L config = 0 then None
                             else Some (Inr (disk, Some (restore_received L H state
                                    (restore_own L H state (p\<lparr>dp_current_phase := pd_phase state\<rparr>)))))))"

end
