(* ===== verification/Dkg_Ceremony.thy ===== *)
theory Dkg_Ceremony
  imports Dkg
begin

text \<open>
  The ceremony runner of \<open>crates/node/dkg/src/ceremony.rs\<close>. The network is what it delivers: every turn of a
  waiting loop polls a batch of envelopes, and the deadline passes when the batches of the loop are used
  up. Messages handed to the network are collected; a failed send is only logged by the sources.
\<close>

section \<open>Backoff\<close>

definition INITIAL_BACKOFF_MS :: u64 where "INITIAL_BACKOFF_MS = 100"

definition MAX_BACKOFF_MS :: u64 where "MAX_BACKOFF_MS = 5000"

text \<open>The delay and the next state of \<open>ExponentialBackoff\<close>.\<close>

definition next_delay :: "u64 \<Rightarrow> u64 \<times> u64" where
  "next_delay current_ms = (current_ms, min (current_ms * 2) MAX_BACKOFF_MS)"

lemma backoff_bounded: "fst (next_delay (((\<lambda>c. snd (next_delay c)) ^^ n) INITIAL_BACKOFF_MS)) \<le> MAX_BACKOFF_MS"
proof -
  have "((\<lambda>c. snd (next_delay c)) ^^ n) INITIAL_BACKOFF_MS \<le> MAX_BACKOFF_MS"
    by (cases n) (simp_all add: next_delay_def INITIAL_BACKOFF_MS_def MAX_BACKOFF_MS_def)
  then show ?thesis by (simp add: next_delay_def)
qed

section \<open>Network\<close>

type_synonym envelope = "PublicKey \<times> bytes"

type_synonym 'v sends = "(PublicKey \<times> 'v ProtocolMessage) list"

text \<open>The state of a running ceremony: disk, participant and messages sent.\<close>

type_synonym 'v running = "dkg_disk \<times> 'v DkgParticipant \<times> 'v sends"

definition address_message :: "'v dkg_lib \<Rightarrow> 'v DkgConfig \<Rightarrow> PublicKey option \<times> 'v ProtocolMessage \<Rightarrow> 'v sends" where
  "address_message L config = (\<lambda>(target, msg).
     case target of
       Some pk \<Rightarrow> [(pk, msg)]
     | None \<Rightarrow> map (\<lambda>pk. (pk, msg)) (filter (\<lambda>pk. pk \<noteq> my_public_key L config) (dc_participants config)))"

definition send_outgoing :: "'v dkg_lib \<Rightarrow> 'v running \<Rightarrow> 'v running" where
  "send_outgoing L = (\<lambda>(disk, p, sent).
     case take_outgoing p of (p1, out) \<Rightarrow> (disk, p1, sent @ concat (map (address_message L (dp_config p1)) out)))"

definition receive_and_process :: "externs \<Rightarrow> 'v dkg_lib \<Rightarrow> envelope list \<Rightarrow> 'v DkgParticipant \<Rightarrow> 'v DkgParticipant" where
  "receive_and_process X L batch p = fold (\<lambda>(sender, payload) p. fst (handle_message_bytes X L sender payload p)) batch p"

definition poll_turn :: "externs \<Rightarrow> 'v dkg_lib \<Rightarrow> envelope list \<Rightarrow> 'v running \<Rightarrow> 'v running" where
  "poll_turn X L batch = (\<lambda>(disk, p, sent). send_outgoing L (disk, receive_and_process X L batch p, sent))"

section \<open>Phases\<close>

text \<open>Sequencing of steps that may end the ceremony with an error.\<close>

definition then_run :: "'s \<times> (DkgError + unit) \<Rightarrow> ('s \<Rightarrow> 's \<times> (DkgError + 'a)) \<Rightarrow> 's \<times> (DkgError + 'a)" where
  "then_run r k = (case r of (s, Inl e) \<Rightarrow> (s, Inl e) | (s, Inr _) \<Rightarrow> k s)"

definition save_running :: "'v dkg_lib \<Rightarrow> hex_lib \<Rightarrow> 'v running \<Rightarrow> 'v running \<times> (DkgError + unit)" where
  "save_running L H = (\<lambda>(disk, p, sent).
     case save_state L H p disk of Inl e \<Rightarrow> ((disk, p, sent), Inl e) | Inr disk1 \<Rightarrow> ((disk1, p, sent), Inr ()))"

definition enter_phase :: "'v dkg_lib \<Rightarrow> hex_lib \<Rightarrow> DkgPhase \<Rightarrow> 'v running \<Rightarrow> 'v running \<times> (DkgError + unit)" where
  "enter_phase L H phase = (\<lambda>(disk, p, sent). save_running L H (disk, set_phase phase p, sent))"

definition run_phase1 :: "'v dkg_lib \<Rightarrow> hex_lib \<Rightarrow> nat \<Rightarrow> 'v running \<Rightarrow> 'v running \<times> (DkgError + unit)" where
  "run_phase1 L H seed = (\<lambda>(disk, p, sent).
     case start_dealer L seed p of
       (p1, Inl e) \<Rightarrow> ((disk, p1, sent), Inl e)
     | (p1, Inr _) \<Rightarrow> then_run (enter_phase L H DealerStarted (disk, p1, sent)) (\<lambda>s. (send_outgoing L s, Inr ())))"

fun run_phase2 :: "externs \<Rightarrow> 'v dkg_lib \<Rightarrow> envelope list list \<Rightarrow> 'v running \<Rightarrow> 'v running \<times> (DkgError + unit)" where
  "run_phase2 X L [] s = (s, Inl DkgTimeout)"
| "run_phase2 X L (batch # batches) s =
     (let s1 = poll_turn X L batch s; p = fst (snd s1); required = required_dealer_logs p
      in if received_dealer_count p \<ge> required \<and> acks_sent_count p \<ge> required then (s1, Inr ())
         else run_phase2 X L batches s1)"

fun wait_ready :: "externs \<Rightarrow> 'v dkg_lib \<Rightarrow> envelope list list \<Rightarrow> 'v running \<Rightarrow> 'v running \<times> (DkgError + unit)" where
  "wait_ready X L [] s = (s, Inl (CeremonyFailed ''Phase 2.5 timeout''))"
| "wait_ready X L (batch # batches) s =
     (let s1 = poll_turn X L batch s in if all_ready (fst (snd s1)) then (s1, Inr ()) else wait_ready X L batches s1)"

definition run_phase2_ready :: "externs \<Rightarrow> 'v dkg_lib \<Rightarrow> envelope list list \<Rightarrow> 'v running \<Rightarrow>
    'v running \<times> (DkgError + unit)" where
  "run_phase2_ready X L batches = (\<lambda>(disk, p, sent).
     wait_ready X L batches (send_outgoing L (disk, broadcast_ready L p, sent)))"

definition run_phase3 :: "'v dkg_lib \<Rightarrow> 'v running \<Rightarrow> 'v running \<times> (DkgError + unit)" where
  "run_phase3 L = (\<lambda>(disk, p, sent).
     case finalize_dealer L p of
       (p1, Inl e) \<Rightarrow> ((disk, p1, sent), Inl e)
     | (p1, Inr _) \<Rightarrow> (send_outgoing L (disk, p1, sent), Inr ()))"

definition ceremony_is_leader :: "'v DkgConfig \<Rightarrow> bool" where
  "ceremony_is_leader config \<longleftrightarrow> dc_validator_index config = 0"

text \<open>A turn of phase 4 also tells whether five seconds have passed since the last request.\<close>

definition request_logs :: "bool \<Rightarrow> 'v running \<Rightarrow> 'v running" where
  "request_logs due = (\<lambda>(disk, p, sent).
     if \<not> ceremony_is_leader (dp_config p) \<and> length (dp_dealer_logs p) < required_dealer_logs p \<and> due
     then case dc_participants (dp_config p) of
            [] \<Rightarrow> (disk, p, sent)
          | leader_pk # _ \<Rightarrow> (disk, p, sent @ [(leader_pk, message_new (ceremony_id p) RequestLogs)])
     else (disk, p, sent))"

fun run_phase4 :: "externs \<Rightarrow> 'v dkg_lib \<Rightarrow> (envelope list \<times> bool) list \<Rightarrow> 'v running \<Rightarrow>
    'v running \<times> (DkgError + unit)" where
  "run_phase4 X L [] s = (s, Inl (CeremonyFailed ''Phase 4 timeout''))"
| "run_phase4 X L ((batch, due) # turns) s =
     (let s1 = poll_turn X L batch s
      in if can_finalize (fst (snd s1)) then (s1, Inr ()) else run_phase4 X L turns (request_logs due s1))"

definition run_phase5 :: "'v dkg_lib \<Rightarrow> hex_lib \<Rightarrow> nat \<Rightarrow> 'v running \<Rightarrow> 'v running \<times> (DkgError + DkgOutput)" where
  "run_phase5 L H seed = (\<lambda>(disk, p, sent).
     case dkg_finalize L seed p of
       (p1, Inl e) \<Rightarrow> then_run (enter_phase L H PhaseFailed (disk, p1, sent)) (\<lambda>s. (s, Inl e))
     | (p1, Inr out) \<Rightarrow>
         (case state_clear disk of
            Inl e \<Rightarrow> ((disk, set_phase PhaseCompleted p1, sent), Inl e)
          | Inr disk1 \<Rightarrow>
              (case output_save H out disk1 of
                 Inl e \<Rightarrow> ((disk1, set_phase PhaseCompleted p1, sent), Inl e)
               | Inr disk2 \<Rightarrow> ((disk2, set_phase PhaseCompleted p1, sent), Inr out))))"

section \<open>The ceremony\<close>

text \<open>What the ceremony meets: the clock, the listening socket, the random generator and the deliveries.\<close>

record ceremony_env =
  ce_now :: u64
  ce_bind :: "string option"
  ce_deal_seed :: nat
  ce_final_seed :: nat
  ce_phase2 :: "envelope list list"
  ce_ready :: "envelope list list"
  ce_phase4 :: "(envelope list \<times> bool) list"

definition round_timestamp :: "u64 \<Rightarrow> u64" where
  "round_timestamp now = (let interval = 5 * 60 * 1000000000 in (now div interval) * interval)"

definition skip_phase1 :: "DkgPhase option \<Rightarrow> bool" where
  "skip_phase1 restored_phase \<longleftrightarrow>
     restored_phase \<in> {Some DealerStarted, Some CollectingMessages, Some DealerFinalized, Some CollectingLogs}"

definition skip_phase3 :: "DkgPhase option \<Rightarrow> bool" where
  "skip_phase3 restored_phase \<longleftrightarrow> restored_phase \<in> {Some DealerFinalized, Some CollectingLogs}"

definition run_phases :: "externs \<Rightarrow> 'v dkg_lib \<Rightarrow> hex_lib \<Rightarrow> ceremony_env \<Rightarrow> DkgPhase option \<Rightarrow> 'v running \<Rightarrow>
    'v running \<times> (DkgError + DkgOutput)" where
  "run_phases X L H env restored_phase s =
     then_run (if skip_phase1 restored_phase then (s, Inr ()) else run_phase1 L H (ce_deal_seed env) s) (\<lambda>s.
     then_run (enter_phase L H CollectingMessages s) (\<lambda>s.
     then_run (run_phase2 X L (ce_phase2 env) s) (\<lambda>s.
     then_run (if skip_phase3 restored_phase then (s, Inr ()) else run_phase2_ready X L (ce_ready env) s) (\<lambda>s.
     then_run (if skip_phase3 restored_phase then (s, Inr ())
               else then_run (run_phase3 L s) (enter_phase L H DealerFinalized)) (\<lambda>s.
     then_run (enter_phase L H CollectingLogs s) (\<lambda>s.
     then_run (run_phase4 X L (ce_phase4 env) s) (\<lambda>s.
     then_run (save_running L H s) (run_phase5 L H (ce_final_seed env)))))))))"

text \<open>The participant the ceremony starts with, and the phase it was restored in; \<open>None\<close> is a panic.\<close>

definition ceremony_participant :: "externs \<Rightarrow> 'v dkg_lib \<Rightarrow> hex_lib \<Rightarrow> 'v DkgConfig \<Rightarrow> u64 \<Rightarrow> dkg_disk \<Rightarrow>
    (DkgError + dkg_disk \<times> 'v DkgParticipant \<times> DkgPhase option) option" where
  "ceremony_participant X L H config timestamp_nanos disk =
     (case try_restore X L H config timestamp_nanos disk of
        None \<Rightarrow> None
      | Some (Inl e) \<Rightarrow> Some (Inl e)
      | Some (Inr (disk1, Some p)) \<Rightarrow> Some (Inr (disk1, p, Some (dp_current_phase p)))
      | Some (Inr (disk1, None)) \<Rightarrow>
          (case participant_new X L config timestamp_nanos of
             Inl e \<Rightarrow> Some (Inl e)
           | Inr p \<Rightarrow> Some (Inr (disk1, p, None))))"

text \<open>\<open>DkgCeremony::run\<close>: the disk afterwards, the messages sent, and the result.\<close>

definition ceremony_run :: "externs \<Rightarrow> 'v dkg_lib \<Rightarrow> hex_lib \<Rightarrow> ceremony_env \<Rightarrow> bool \<Rightarrow> 'v DkgConfig \<Rightarrow> dkg_disk \<Rightarrow>
    (dkg_disk \<times> 'v sends \<times> (DkgError + DkgOutput)) option" where
  "ceremony_run X L H env force_restart config disk =
     (if output_exists disk then Some (disk, [], output_load L H disk)
      else case (if force_restart \<and> state_exists disk then state_clear disk else Inr disk) of
             Inl e \<Rightarrow> Some (disk, [], Inl e)
           | Inr disk1 \<Rightarrow>
               (case ce_bind env of
                  Some e \<Rightarrow> Some (disk1, [], Inl (Network (''Failed to bind: '' @ e)))
                | None \<Rightarrow>
                    (case ceremony_participant X L H config (round_timestamp (ce_now env)) disk1 of
                       None \<Rightarrow> None
                     | Some (Inl e) \<Rightarrow> Some (disk1, [], Inl e)
                     | Some (Inr (disk2, p, restored_phase)) \<Rightarrow>
                         (case run_phases X L H env restored_phase (disk2, p, []) of
                            ((disk3, p1, sent), result) \<Rightarrow> Some (disk3, sent, result)))))"

end
