(* ===== verification/Dkg_Properties.thy ===== *)
theory Dkg_Properties
  imports Dkg_Ceremony
begin

text \<open>
  Properties of the key generation: the invariant of a participant over every sequence of operations and
  messages, what a successful ceremony rests on, what survives a restart, and that a ceremony restored
  after its dealer had started cannot finish.
\<close>

section \<open>The invariant of a participant\<close>

text \<open>What the library documents: a log that passes the check belongs to a dealer of the ceremony.\<close>

definition dkg_check_ok :: "'v dkg_lib \<Rightarrow> bool" where
  "dkg_check_ok L \<longleftrightarrow>
     (\<forall>chain ps info log pk dl. dl_info L chain ps = Inr info \<longrightarrow> dl_check L log info = Some (pk, dl) \<longrightarrow> pk \<in> set ps)"

definition members :: "'v DkgParticipant \<Rightarrow> PublicKey set" where
  "members p = set (dc_participants (dp_config p))"

definition bound_ok :: "externs \<Rightarrow> 'v dkg_lib \<Rightarrow> 'v DkgParticipant \<Rightarrow> bool" where
  "bound_ok X L p \<longleftrightarrow>
     distinct (dc_participants (dp_config p)) \<and>
     dl_info L (dc_chain_id (dp_config p)) (dc_participants (dp_config p)) = Inr (dp_info p) \<and>
     dp_session p = session_new X (dc_chain_id (dp_config p)) (dc_participants (dp_config p)) (dp_timestamp_nanos p) \<and>
     (\<forall>(target, msg) \<in> set (dp_outgoing p). pm_session_id msg = Some (ceremony_id p))"

definition dealt_ok :: "'v DkgParticipant \<Rightarrow> bool" where
  "dealt_ok p \<longleftrightarrow>
     bt_wf (dp_dealer_pub_msgs p) \<and> fst ` set (dp_dealer_pub_msgs p) \<subseteq> members p \<and>
     bt_wf (dp_dealer_priv_msgs p) \<and> fst ` set (dp_dealer_priv_msgs p) \<subseteq> members p \<and>
     distinct (dp_acks_sent p) \<and>
     set (dp_acks_sent p) \<subseteq> fst ` set (dp_dealer_pub_msgs p) \<inter> fst ` set (dp_dealer_priv_msgs p) \<and>
     distinct (dp_ready_players p) \<and> set (dp_ready_players p) \<subseteq> members p"

definition logs_ok :: "'v dkg_lib \<Rightarrow> 'v DkgParticipant \<Rightarrow> bool" where
  "logs_ok L p \<longleftrightarrow>
     bt_wf (dp_dealer_logs p) \<and> bt_wf (dp_signed_logs p) \<and> fst ` set (dp_dealer_logs p) \<subseteq> members p \<and>
     (\<forall>pk. bt_get (dp_signed_logs p) pk = None \<longrightarrow> bt_get (dp_dealer_logs p) pk = None) \<and>
     (\<forall>pk log. bt_get (dp_signed_logs p) pk = Some log \<longrightarrow>
        (\<exists>dealer_log. bt_get (dp_dealer_logs p) pk = Some dealer_log \<and> dl_check L log (dp_info p) = Some (pk, dealer_log)))"

definition dkg_inv :: "externs \<Rightarrow> 'v dkg_lib \<Rightarrow> 'v DkgParticipant \<Rightarrow> bool" where
  "dkg_inv X L p \<longleftrightarrow> bound_ok X L p \<and> dealt_ok p \<and> logs_ok L p"

text \<open>Steps that leave a part of the state alone keep its part of the invariant.\<close>

lemma bound_ok_cong:
  "dp_config q = dp_config p \<Longrightarrow> dp_info q = dp_info p \<Longrightarrow> dp_session q = dp_session p \<Longrightarrow>
     dp_timestamp_nanos q = dp_timestamp_nanos p \<Longrightarrow> dp_outgoing q = dp_outgoing p \<Longrightarrow> bound_ok X L q = bound_ok X L p"
  by (simp add: bound_ok_def ceremony_id_def)

lemma bound_ok_push [simp]: "bound_ok X L (push_out t k p) = bound_ok X L p"
  by (auto simp: bound_ok_def push_out_def message_new_def ceremony_id_def)

lemma dealt_ok_cong:
  "dp_config q = dp_config p \<Longrightarrow> dp_dealer_pub_msgs q = dp_dealer_pub_msgs p \<Longrightarrow>
     dp_dealer_priv_msgs q = dp_dealer_priv_msgs p \<Longrightarrow> dp_acks_sent q = dp_acks_sent p \<Longrightarrow>
     dp_ready_players q = dp_ready_players p \<Longrightarrow> dealt_ok q = dealt_ok p"
  by (simp add: dealt_ok_def members_def)

lemma logs_ok_cong:
  "dp_config q = dp_config p \<Longrightarrow> dp_info q = dp_info p \<Longrightarrow> dp_dealer_logs q = dp_dealer_logs p \<Longrightarrow>
     dp_signed_logs q = dp_signed_logs p \<Longrightarrow> logs_ok L q = logs_ok L p"
  by (simp add: logs_ok_def members_def)

lemma push_out_simps [simp]:
  "dp_config (push_out t k p) = dp_config p" "dp_info (push_out t k p) = dp_info p"
  "dp_session (push_out t k p) = dp_session p" "dp_timestamp_nanos (push_out t k p) = dp_timestamp_nanos p"
  "dp_dealer_pub_msgs (push_out t k p) = dp_dealer_pub_msgs p" "dp_dealer_priv_msgs (push_out t k p) = dp_dealer_priv_msgs p"
  "dp_acks_sent (push_out t k p) = dp_acks_sent p" "dp_ready_players (push_out t k p) = dp_ready_players p"
  "dp_dealer_logs (push_out t k p) = dp_dealer_logs p" "dp_signed_logs (push_out t k p) = dp_signed_logs p"
  "dp_player (push_out t k p) = dp_player p" "dp_our_signed_log (push_out t k p) = dp_our_signed_log p"
  "dp_current_phase (push_out t k p) = dp_current_phase p"
  by (simp_all add: push_out_def)

lemma dkg_inv_push [simp]: "dkg_inv X L (push_out t k p) = dkg_inv X L p"
  by (simp add: dkg_inv_def cong: dealt_ok_cong logs_ok_cong)

text \<open>Recording a verified log of a member.\<close>

lemma record_log_inv:
  assumes "dkg_inv X L p" and "dl_check L log (dp_info p) = Some (pk, dealer_log)" and "pk \<in> members p"
  shows "dkg_inv X L (record_log pk dealer_log log p)"
proof -
  have "logs_ok L (record_log pk dealer_log log p)"
    using assms by (auto simp: dkg_inv_def logs_ok_def record_log_def members_def)
  then show ?thesis using assms(1)
    by (auto simp: dkg_inv_def record_log_def bound_ok_def dealt_ok_def members_def ceremony_id_def)
qed

lemma check_member:
  "dkg_check_ok L \<Longrightarrow> dkg_inv X L p \<Longrightarrow> dl_check L log (dp_info p) = Some (pk, dl) \<Longrightarrow> pk \<in> members p"
  unfolding dkg_check_ok_def dkg_inv_def bound_ok_def members_def by blast

lemma try_process_inv:
  assumes "dkg_inv X L p"
  shows "dkg_inv X L (try_process_dealer_messages L dealer p)"
proof (cases "bt_get (dp_dealer_pub_msgs p) dealer \<noteq> None \<and> bt_get (dp_dealer_priv_msgs p) dealer \<noteq> None \<and> dp_player p \<noteq> None")
  case True
  then have "dealer \<in> fst ` set (dp_dealer_pub_msgs p)" "dealer \<in> fst ` set (dp_dealer_priv_msgs p)"
    by (auto simp: map_of_eq_None_iff)
  then show ?thesis using assms True
    by (auto simp: try_process_dealer_messages_def dkg_inv_def bound_ok_def dealt_ok_def logs_ok_def members_def push_out_def
        message_new_def ceremony_id_def Let_def split: prod.splits option.splits)
qed (use assms in \<open>auto simp: try_process_dealer_messages_def split: option.splits\<close>)

lemma dealer_error_None:
  "dealer_error n sender dealer msgs = None \<longleftrightarrow> sender = dealer \<and> length msgs < n \<and> bt_get msgs dealer = None"
  by (auto simp: dealer_error_def)

lemma merge_logs_inv: "dkg_inv X L p \<Longrightarrow> dkg_inv X L (merge_logs L logs p)"
proof (induction logs arbitrary: p)
  case (Cons e logs)
  obtain pk log where e: "e = (pk, log)" by (cases e)
  show ?case
  proof (cases "dl_check L log (dp_info p)")
    case (Some c)
    obtain d dealer_log where c: "c = (d, dealer_log)" by (cases c)
    have "d \<in> members p \<Longrightarrow> dkg_inv X L (merge_logs L logs (record_log d dealer_log log p))"
      using Cons(1) record_log_inv [OF Cons(2)] Some c by blast
    then show ?thesis using Cons e Some c by (simp add: is_participant_def members_def)
  qed (use Cons e in simp)
qed simp

lemma store_pub_inv:
  "dkg_inv X L p \<Longrightarrow> dealer \<in> members p \<Longrightarrow>
     dkg_inv X L (p\<lparr>dp_dealer_pub_msgs := bt_insert dealer msg (dp_dealer_pub_msgs p)\<rparr>)"
  by (auto simp: dkg_inv_def bound_ok_def dealt_ok_def logs_ok_def members_def ceremony_id_def)

lemma store_priv_inv:
  "dkg_inv X L p \<Longrightarrow> dealer \<in> members p \<Longrightarrow>
     dkg_inv X L (p\<lparr>dp_dealer_priv_msgs := bt_insert dealer msg (dp_dealer_priv_msgs p)\<rparr>)"
  by (auto simp: dkg_inv_def bound_ok_def dealt_ok_def logs_ok_def members_def ceremony_id_def)

lemma handle_kind_inv:
  assumes "dkg_inv X L p" and "is_participant p sender"
  shows "dkg_inv X L (fst (handle_kind L sender kind p))"
proof (cases kind)
  case (DealerPublic dealer msg)
  then show ?thesis using assms try_process_inv [OF store_pub_inv [OF assms(1), of dealer msg]]
    by (auto simp: dealer_error_None is_participant_def members_def split: option.splits)
next
  case (DealerPrivate dealer msg)
  then show ?thesis using assms try_process_inv [OF store_priv_inv [OF assms(1), of dealer msg]]
    by (auto simp: dealer_error_None is_participant_def members_def split: option.splits)
next
  case (PlayerAck player dealer ack)
  then show ?thesis using assms
    by (auto simp: dkg_inv_def bound_ok_def dealt_ok_def logs_ok_def members_def ceremony_id_def split: option.splits)
next
  case (DealerLog log)
  then show ?thesis using assms record_log_inv [OF assms(1)]
    by (auto simp: handle_dealer_log_def Let_def is_participant_def members_def split: option.splits)
next
  case (AllLogs logs)
  then show ?thesis using assms merge_logs_inv [OF assms(1)] by auto
next
  case (Ready player)
  then show ?thesis using assms
    by (auto simp: dkg_inv_def bound_ok_def dealt_ok_def logs_ok_def members_def ceremony_id_def is_participant_def)
qed (use assms in simp)

lemma handle_message_bytes_inv:
  assumes "dkg_inv X L p"
  shows "dkg_inv X L (fst (handle_message_bytes X L sender bytes p))"
proof -
  have seen: "dkg_inv X L (p\<lparr>dp_seen_messages := seen\<rparr>)" for seen
    using assms by (auto simp: dkg_inv_def bound_ok_def dealt_ok_def logs_ok_def members_def ceremony_id_def)
  show ?thesis
    using assms seen handle_kind_inv [OF seen]
    by (auto simp: handle_message_bytes_def handle_message_def Let_def is_participant_def split: sum.splits option.splits)
qed

lemma deal_share_inv:
  assumes "dkg_inv X L p" and "my_public_key L (dp_config p) \<in> members p"
  shows "dkg_inv X L (deal_share L share p) \<and> dp_config (deal_share L share p) = dp_config p"
  using assms store_priv_inv by (cases share) (auto simp: deal_share_def Let_def)

lemma deal_shares_inv:
  assumes "dkg_inv X L p" and "my_public_key L (dp_config p) \<in> members p"
  shows "dkg_inv X L (fold (deal_share L) shares p) \<and> dp_config (fold (deal_share L) shares p) = dp_config p"
  using assms
proof (induction shares arbitrary: p)
  case (Cons share shares)
  from deal_share_inv [OF Cons(2,3), of share] Cons(3) Cons(1) [of "deal_share L share p"] show ?case
    by (simp add: members_def)
qed simp

lemma dealer_stored_inv: "dkg_inv X L p \<Longrightarrow> dkg_inv X L (p\<lparr>dp_dealer := d\<rparr>)"
  by (auto simp: dkg_inv_def bound_ok_def dealt_ok_def logs_ok_def members_def ceremony_id_def)

lemma start_dealer_inv:
  assumes "dkg_inv X L p" and "my_public_key L (dp_config p) \<in> members p"
  shows "dkg_inv X L (fst (start_dealer L seed p))"
proof (cases "dl_dealer_start L seed (dp_info p) (dc_identity_key (dp_config p))")
  case (Inr r)
  obtain dealer pub_msg priv_msgs where r: "r = (dealer, pub_msg, priv_msgs)" by (cases r)
  let ?me = "my_public_key L (dp_config p)"
  let ?p1 = "fold (deal_share L) priv_msgs (push_out None (DealerPublic ?me pub_msg) p)"
  have p1: "dkg_inv X L ?p1" "dp_config ?p1 = dp_config p"
    using deal_shares_inv [of X L "push_out None (DealerPublic ?me pub_msg) p" priv_msgs] assms by (simp_all add: members_def)
  have "dkg_inv X L (?p1\<lparr>dp_dealer_pub_msgs := bt_insert ?me pub_msg (dp_dealer_pub_msgs ?p1)\<rparr>)"
    using store_pub_inv [OF p1(1), of ?me pub_msg] assms(2) p1(2) by (simp add: members_def)
  from try_process_inv [OF dealer_stored_inv [OF this, of "Some dealer"], of ?me] show ?thesis
    using Inr r by (simp add: start_dealer_def Let_def)
qed (use assms in \<open>simp add: start_dealer_def\<close>)

lemma finalize_dealer_inv:
  assumes "dkg_inv X L p" and "dkg_check_ok L"
  shows "dkg_inv X L (fst (finalize_dealer L p))"
proof (cases "dp_dealer p")
  case (Some dealer)
  have p1: "dkg_inv X L (p\<lparr>dp_dealer := None\<rparr>)" by (rule dealer_stored_inv [OF assms(1)])
  have own: "dkg_inv X L (q\<lparr>dp_our_signed_log := l\<rparr>) = dkg_inv X L q" for q l
    by (simp add: dkg_inv_def bound_ok_def dealt_ok_def logs_ok_def members_def ceremony_id_def)
  show ?thesis
    using Some p1 record_log_inv [OF p1] check_member [OF assms(2) p1]
    by (auto simp: finalize_dealer_def Let_def own split: option.splits)
qed (use assms in \<open>simp add: finalize_dealer_def\<close>)

lemma broadcast_ready_inv:
  assumes "dkg_inv X L p" and "my_public_key L (dp_config p) \<in> members p"
  shows "dkg_inv X L (broadcast_ready L p)"
  using assms
  by (auto simp: broadcast_ready_def Let_def dkg_inv_def bound_ok_def dealt_ok_def logs_ok_def members_def push_out_def
      message_new_def ceremony_id_def)

lemma dkg_finalize_inv: "dkg_inv X L p \<Longrightarrow> dkg_inv X L (fst (dkg_finalize L seed p))"
  by (auto simp: dkg_finalize_def Let_def dkg_inv_def bound_ok_def dealt_ok_def logs_ok_def members_def ceremony_id_def
      split: option.splits sum.splits)

section \<open>Every run of a participant\<close>

datatype dkg_event =
    StartDealer nat
  | Receive PublicKey bytes
  | FinalizeDealer
  | BroadcastReady
  | FinalizeOutput nat
  | TakeOutgoing
  | SetPhase DkgPhase

fun dkg_apply :: "externs \<Rightarrow> 'v dkg_lib \<Rightarrow> dkg_event \<Rightarrow> 'v DkgParticipant \<Rightarrow> 'v DkgParticipant" where
  "dkg_apply X L (StartDealer seed) p = fst (start_dealer L seed p)"
| "dkg_apply X L (Receive sender bytes) p = fst (handle_message_bytes X L sender bytes p)"
| "dkg_apply X L FinalizeDealer p = fst (finalize_dealer L p)"
| "dkg_apply X L BroadcastReady p = broadcast_ready L p"
| "dkg_apply X L (FinalizeOutput seed) p = fst (dkg_finalize L seed p)"
| "dkg_apply X L TakeOutgoing p = fst (take_outgoing p)"
| "dkg_apply X L (SetPhase phase) p = set_phase phase p"

text \<open>The configuration never changes, and neither does the checked information on the ceremony.\<close>

lemma try_process_simps [simp]:
  "dp_config (try_process_dealer_messages L d p) = dp_config p"
  "dp_dealer_pub_msgs (try_process_dealer_messages L d p) = dp_dealer_pub_msgs p"
  by (auto simp: try_process_dealer_messages_def Let_def split: option.splits prod.splits)

lemma record_log_simps [simp]:
  "dp_config (record_log pk dl log p) = dp_config p" "dp_info (record_log pk dl log p) = dp_info p"
  "dp_dealer_pub_msgs (record_log pk dl log p) = dp_dealer_pub_msgs p"
  by (simp_all add: record_log_def)

lemma merge_logs_simps [simp]:
  "dp_config (merge_logs L logs p) = dp_config p" "dp_dealer_pub_msgs (merge_logs L logs p) = dp_dealer_pub_msgs p"
proof (induction logs arbitrary: p)
  case (Cons e logs)
  { case 1 show ?case using Cons by (cases e) (auto split: option.splits) }
  { case 2 show ?case using Cons by (cases e) (auto split: option.splits) }
qed simp_all

lemma handle_kind_config [simp]: "dp_config (fst (handle_kind L sender kind p)) = dp_config p"
  by (cases kind) (auto simp: handle_dealer_log_def Let_def split: option.splits)

lemma handle_message_bytes_config [simp]: "dp_config (fst (handle_message_bytes X L sender bytes p)) = dp_config p"
  by (auto simp: handle_message_bytes_def handle_message_def Let_def split: sum.splits option.splits)

lemma deal_shares_config [simp]: "dp_config (fold (deal_share L) shares p) = dp_config p"
  by (induction shares arbitrary: p) (auto simp: deal_share_def Let_def)

lemma dkg_apply_config [simp]: "dp_config (dkg_apply X L e p) = dp_config p"
  by (cases e)
    (auto simp: start_dealer_def finalize_dealer_def broadcast_ready_def dkg_finalize_def take_outgoing_def set_phase_def
      Let_def split: sum.splits option.splits prod.splits)

lemma dkg_apply_inv:
  assumes "dkg_inv X L p" and "dkg_check_ok L" and "my_public_key L (dp_config p) \<in> members p"
  shows "dkg_inv X L (dkg_apply X L e p)"
proof (cases e)
  case TakeOutgoing
  then show ?thesis using assms(1)
    by (auto simp: take_outgoing_def dkg_inv_def bound_ok_def dealt_ok_def logs_ok_def members_def ceremony_id_def)
next
  case (SetPhase phase)
  then show ?thesis using assms(1)
    by (auto simp: set_phase_def dkg_inv_def bound_ok_def dealt_ok_def logs_ok_def members_def ceremony_id_def)
qed (use assms in \<open>auto intro: start_dealer_inv handle_message_bytes_inv finalize_dealer_inv broadcast_ready_inv dkg_finalize_inv\<close>)

lemma dkg_run_inv:
  assumes "dkg_inv X L p" and "dkg_check_ok L" and "my_public_key L (dp_config p) \<in> members p"
  shows "dkg_inv X L (fold (dkg_apply X L) events p) \<and> dp_config (fold (dkg_apply X L) events p) = dp_config p"
  using assms
proof (induction events arbitrary: p)
  case (Cons e events)
  have "dkg_inv X L (dkg_apply X L e p)" by (rule dkg_apply_inv [OF Cons(2,3,4)])
  from Cons(1) [OF this Cons(3)] Cons(4) show ?case by (simp add: members_def)
qed simp

lemma participant_new_inv:
  "participant_new X L config ts = Inr p \<Longrightarrow> dkg_inv X L p \<and> dp_config p = config"
  by (auto simp: participant_new_def dkg_inv_def bound_ok_def dealt_ok_def logs_ok_def split: if_splits sum.splits)

lemma restore_log_inv:
  assumes "dkg_inv X L p" and "dkg_check_ok L" and "restore_log L bytes p = Some (pk, dl, log)"
  shows "dkg_inv X L (record_log pk dl log p)"
  using assms record_log_inv [OF assms(1)] check_member [OF assms(2,1)]
  by (auto simp: restore_log_def split: sum.splits option.splits)

lemma restore_own_inv:
  assumes "dkg_inv X L p" and "dkg_check_ok L"
  shows "dkg_inv X L (restore_own L H state p) \<and> dp_config (restore_own L H state p) = dp_config p"
proof -
  have own: "dkg_inv X L (q\<lparr>dp_our_signed_log := l\<rparr>) = dkg_inv X L q" for q l
    by (simp add: dkg_inv_def bound_ok_def dealt_ok_def logs_ok_def members_def ceremony_id_def)
  show ?thesis
    using assms restore_log_inv [OF assms] by (auto simp: restore_own_def own split: option.splits)
qed

lemma restore_received_inv:
  assumes "dkg_inv X L p" and "dkg_check_ok L"
  shows "dkg_inv X L (restore_received L H state p) \<and> dp_config (restore_received L H state p) = dp_config p"
proof -
  have "dkg_inv X L (fold (\<lambda>(pk_hex, log_bytes) p. case restore_log L log_bytes p of None \<Rightarrow> p
      | Some (dealer_pk, dealer_log, log) \<Rightarrow> record_log dealer_pk dealer_log log p) ls p) \<and>
    dp_config (fold (\<lambda>(pk_hex, log_bytes) p. case restore_log L log_bytes p of None \<Rightarrow> p
      | Some (dealer_pk, dealer_log, log) \<Rightarrow> record_log dealer_pk dealer_log log p) ls p) = dp_config p" for ls
    using assms(1)
  proof (induction ls arbitrary: p)
    case (Cons e ls)
    then show ?case using restore_log_inv [OF Cons(2) assms(2)] by (cases e) (auto split: option.splits)
  qed simp
  then show ?thesis unfolding restore_received_def .
qed

lemma try_restoreE:
  assumes "try_restore X L H config ts disk = Some (Inr (disk', Some p))"
  obtains state p0 where "disk' = disk" "state_load disk = Inr state" "participant_new X L config ts = Inr p0"
    "p = restore_received L H state (restore_own L H state (p0\<lparr>dp_current_phase := pd_phase state\<rparr>))"
  using assms by (auto simp: try_restore_def split: if_splits sum.splits option.splits)

lemma try_restore_inv:
  assumes "try_restore X L H config ts disk = Some (Inr (disk', Some p))" and "dkg_check_ok L"
  shows "dkg_inv X L p \<and> dp_config p = config"
proof -
  obtain state p0 where p0: "participant_new X L config ts = Inr p0"
    and p: "p = restore_received L H state (restore_own L H state (p0\<lparr>dp_current_phase := pd_phase state\<rparr>))"
    using assms(1) by (rule try_restoreE)
  have "dkg_inv X L (p0\<lparr>dp_current_phase := pd_phase state\<rparr>)" "dp_config p0 = config"
    using participant_new_inv [OF p0] by (auto simp: dkg_inv_def bound_ok_def dealt_ok_def logs_ok_def members_def ceremony_id_def)
  then show ?thesis
    using p restore_own_inv [OF _ assms(2)] restore_received_inv [OF _ assms(2)] by (metis DkgParticipant.select_convs(1)
        DkgParticipant.surjective DkgParticipant.update_convs(17))
qed

text \<open>Counting up to the number of members means having all of them.\<close>

lemma count_all:
  assumes "distinct xs" and "set xs \<subseteq> set ys" and "distinct ys"
  shows "length ys \<le> length xs \<longleftrightarrow> set xs = set ys"
  by (metis assms card_subset_eq distinct_card finite_set card_mono le_antisym nle_le)

lemma dkg_inv_counts:
  assumes "dkg_inv X L p"
  shows "can_finalize p \<longleftrightarrow> fst ` set (dp_dealer_logs p) = members p"
    and "all_ready p \<longleftrightarrow> set (dp_ready_players p) = members p"
    and "received_all_dealer_messages p \<longleftrightarrow>
      fst ` set (dp_dealer_pub_msgs p) \<inter> fst ` set (dp_dealer_priv_msgs p) = members p"
    and "length (dp_dealer_logs p) \<le> dc_n (dp_config p)" and "acks_sent_count p \<le> received_dealer_count p"
proof -
  have d: "distinct (dc_participants (dp_config p))" using assms by (simp add: dkg_inv_def bound_ok_def)
  have logs: "distinct (map fst (dp_dealer_logs p))" "set (map fst (dp_dealer_logs p)) \<subseteq> set (dc_participants (dp_config p))"
    using assms by (simp_all add: dkg_inv_def logs_ok_def bt_wf_distinct members_def)
  show "can_finalize p \<longleftrightarrow> fst ` set (dp_dealer_logs p) = members p"
    using count_all [OF logs d] by (simp add: can_finalize_def required_dealer_logs_def dc_n_def members_def)
  show "length (dp_dealer_logs p) \<le> dc_n (dp_config p)"
    using card_mono [OF finite_set logs(2)] distinct_card [OF logs(1)] distinct_card [OF d] by (simp add: dc_n_def)
  show "all_ready p \<longleftrightarrow> set (dp_ready_players p) = members p"
    using assms count_all [of "dp_ready_players p" "dc_participants (dp_config p)"] d
    by (simp add: all_ready_def ready_count_def dc_n_def dkg_inv_def dealt_ok_def members_def)
  let ?both = "filter (\<lambda>k. bt_get (dp_dealer_priv_msgs p) k \<noteq> None) (map fst (dp_dealer_pub_msgs p))"
  have both: "distinct ?both" "set ?both = fst ` set (dp_dealer_pub_msgs p) \<inter> fst ` set (dp_dealer_priv_msgs p)"
    using assms by (auto simp: dkg_inv_def dealt_ok_def bt_wf_distinct map_of_eq_None_iff)
  have sub: "set ?both \<subseteq> set (dc_participants (dp_config p))"
    using both(2) assms by (auto simp: dkg_inv_def dealt_ok_def members_def)
  show "received_all_dealer_messages p \<longleftrightarrow> fst ` set (dp_dealer_pub_msgs p) \<inter> fst ` set (dp_dealer_priv_msgs p) = members p"
    using count_all [OF both(1) sub d] both(2)
    by (simp add: received_all_dealer_messages_def received_dealer_count_def dc_n_def members_def)
  have "distinct (dp_acks_sent p)" "set (dp_acks_sent p) \<subseteq> set ?both"
    using assms both(2) by (simp_all add: dkg_inv_def dealt_ok_def)
  then have "card (set (dp_acks_sent p)) \<le> card (set ?both)" by (intro card_mono finite_set)
  then show "acks_sent_count p \<le> received_dealer_count p"
    unfolding acks_sent_count_def received_dealer_count_def distinct_card [OF \<open>distinct (dp_acks_sent p)\<close>] distinct_card [OF both(1)] .
qed

text \<open>
  C17: whatever operations a participant runs and whatever bytes it receives from whom, its state is well
  typed. Every stored message, acknowledgement, readiness signal and log belongs to a member of the
  ceremony, acknowledgements are of dealers whose two messages are both there, every stored log is a signed
  log that verifies, and outgoing messages carry the session. The counts the phases wait for therefore mean
  that all members have answered.
\<close>

theorem dkg_participant_invariant:
  assumes "participant_new X L config ts = Inr p0 \<or> try_restore X L H config ts disk = Some (Inr (disk', Some p0))"
    and "dkg_check_ok L" and "my_public_key L config \<in> set (dc_participants config)"
    and "p = fold (dkg_apply X L) events p0"
  shows "dkg_inv X L p \<and> dp_config p = config \<and> length (dp_dealer_logs p) \<le> dc_n config \<and>
    (can_finalize p \<longleftrightarrow> fst ` set (dp_dealer_logs p) = set (dc_participants config)) \<and>
    (all_ready p \<longleftrightarrow> set (dp_ready_players p) = set (dc_participants config)) \<and>
    (received_all_dealer_messages p \<longleftrightarrow>
       fst ` set (dp_dealer_pub_msgs p) \<inter> fst ` set (dp_dealer_priv_msgs p) = set (dc_participants config))"
proof -
  have p0: "dkg_inv X L p0" "dp_config p0 = config"
    using assms(1,2) participant_new_inv try_restore_inv by blast+
  then have p: "dkg_inv X L p" "dp_config p = config"
    using dkg_run_inv [OF p0(1) assms(2), of events] assms(3,4) by (simp_all add: members_def)
  show ?thesis using dkg_inv_counts [OF p(1)] p by (simp add: members_def)
qed

section \<open>Success\<close>

lemma receive_and_process_inv:
  "dkg_inv X L p \<Longrightarrow> dkg_inv X L (receive_and_process X L batch p) \<and> dp_config (receive_and_process X L batch p) = dp_config p"
proof (induction batch arbitrary: p)
  case (Cons e batch)
  obtain sender payload where e: "e = (sender, payload)" by (cases e)
  have "dkg_inv X L (fst (handle_message_bytes X L sender payload p))" by (rule handle_message_bytes_inv [OF Cons(2)])
  from Cons(1) [OF this] show ?case by (simp add: receive_and_process_def e)
qed (simp add: receive_and_process_def)

text \<open>A running ceremony whose participant keeps the invariant and the configuration.\<close>

definition running_ok :: "externs \<Rightarrow> 'v dkg_lib \<Rightarrow> 'v DkgConfig \<Rightarrow> 'v running \<Rightarrow> bool" where
  "running_ok X L config s \<longleftrightarrow> dkg_inv X L (fst (snd s)) \<and> dp_config (fst (snd s)) = config"

lemma outgoing_inv: "dkg_inv X L p \<Longrightarrow> dkg_inv X L (p\<lparr>dp_outgoing := []\<rparr>)"
  by (auto simp: dkg_inv_def bound_ok_def dealt_ok_def logs_ok_def members_def ceremony_id_def)

lemma send_outgoing_ok: "running_ok X L config s \<Longrightarrow> running_ok X L config (send_outgoing L s)"
  by (cases s) (auto simp: running_ok_def send_outgoing_def take_outgoing_def outgoing_inv)

lemma poll_turn_ok: "running_ok X L config s \<Longrightarrow> running_ok X L config (poll_turn X L batch s)"
proof -
  assume s: "running_ok X L config s"
  obtain disk p sent where [simp]: "s = (disk, p, sent)" by (cases s)
  have "running_ok X L config (disk, receive_and_process X L batch p, sent)"
    using s receive_and_process_inv [of X L p batch] by (simp add: running_ok_def)
  from send_outgoing_ok [OF this] show ?thesis by (simp add: poll_turn_def)
qed

lemma run_phase2_ok: "running_ok X L config s \<Longrightarrow> running_ok X L config (fst (run_phase2 X L batches s))"
  by (induction batches arbitrary: s) (auto simp: Let_def poll_turn_ok)

lemma wait_ready_ok: "running_ok X L config s \<Longrightarrow> running_ok X L config (fst (wait_ready X L batches s))"
  by (induction batches arbitrary: s) (auto simp: Let_def poll_turn_ok)

lemma request_logs_ok: "running_ok X L config s \<Longrightarrow> running_ok X L config (request_logs due s)"
  by (cases s) (auto simp: running_ok_def request_logs_def split: list.splits)

lemma run_phase4_ok:
  "running_ok X L config s \<Longrightarrow> running_ok X L config (fst (run_phase4 X L turns s)) \<and>
     (snd (run_phase4 X L turns s) = Inr () \<longrightarrow> can_finalize (fst (snd (fst (run_phase4 X L turns s)))))"
  by (induction X L turns s rule: run_phase4.induct) (auto simp: Let_def poll_turn_ok request_logs_ok)

lemma save_running_ok: "running_ok X L config s \<Longrightarrow> running_ok X L config (fst (save_running L H s))"
  by (cases s) (auto simp: running_ok_def save_running_def split: sum.splits)

lemma save_running_participant: "fst (snd (fst (save_running L H s))) = fst (snd s)"
  by (cases s) (auto simp: save_running_def split: sum.splits)

lemma enter_phase_ok: "running_ok X L config s \<Longrightarrow> running_ok X L config (fst (enter_phase L H phase s))"
proof -
  assume s: "running_ok X L config s"
  obtain disk p sent where [simp]: "s = (disk, p, sent)" by (cases s)
  have "running_ok X L config (disk, set_phase phase p, sent)"
    using s by (auto simp: running_ok_def set_phase_def dkg_inv_def bound_ok_def dealt_ok_def logs_ok_def members_def ceremony_id_def)
  from save_running_ok [OF this] show ?thesis by (simp add: enter_phase_def)
qed

text \<open>Sequencing: a run that succeeds has run its parts successfully.\<close>

lemma then_run_Inr:
  "then_run r k = (s', Inr x) \<longleftrightarrow> (\<exists>s. r = (s, Inr ()) \<and> k s = (s', Inr x))"
  by (auto simp: then_run_def split: prod.splits sum.splits)

lemma then_run_ok:
  assumes "running_ok X L config (fst r)" and "\<And>s. r = (s, Inr ()) \<Longrightarrow> running_ok X L config s \<Longrightarrow> running_ok X L config (fst (k s))"
  shows "running_ok X L config (fst (then_run r k))"
  using assms by (cases r) (auto simp: then_run_def split: sum.splits)

lemma run_phase1_ok:
  assumes "running_ok X L config s" and "my_public_key L config \<in> set (dc_participants config)"
  shows "running_ok X L config (fst (run_phase1 L H seed s))"
proof -
  obtain disk p sent where [simp]: "s = (disk, p, sent)" by (cases s)
  obtain p1 r where d: "start_dealer L seed p = (p1, r)" by fastforce
  have "dkg_inv X L p1 \<and> dp_config p1 = config"
    using start_dealer_inv [of X L p seed] dkg_apply_config [of X L "StartDealer seed" p] assms d
    by (simp add: running_ok_def members_def)
  then have ok: "running_ok X L config (disk, p1, sent)" by (simp add: running_ok_def)
  have "running_ok X L config (fst (then_run (enter_phase L H DealerStarted (disk, p1, sent)) (\<lambda>s. (send_outgoing L s, Inr ()))))"
    by (rule then_run_ok [OF enter_phase_ok [OF ok]]) (simp add: send_outgoing_ok)
  then show ?thesis using ok d by (auto simp: run_phase1_def split: sum.splits)
qed

lemma run_phase3_ok:
  assumes "running_ok X L config s" and "dkg_check_ok L"
  shows "running_ok X L config (fst (run_phase3 L s))"
proof -
  obtain disk p sent where [simp]: "s = (disk, p, sent)" by (cases s)
  obtain p1 r where d: "finalize_dealer L p = (p1, r)" by fastforce
  have "dkg_inv X L p1 \<and> dp_config p1 = config"
    using finalize_dealer_inv [of X L p] dkg_apply_config [of X L FinalizeDealer p] assms d by (simp add: running_ok_def)
  then have ok: "running_ok X L config (disk, p1, sent)" by (simp add: running_ok_def)
  show ?thesis using ok d send_outgoing_ok by (auto simp: run_phase3_def split: sum.splits)
qed

lemma run_phase2_ready_ok:
  assumes "running_ok X L config s" and "my_public_key L config \<in> set (dc_participants config)"
  shows "running_ok X L config (fst (run_phase2_ready X L batches s))"
proof -
  obtain disk p sent where [simp]: "s = (disk, p, sent)" by (cases s)
  have "running_ok X L config (disk, broadcast_ready L p, sent)"
    using assms broadcast_ready_inv [of X L p] dkg_apply_config [of X L BroadcastReady p]
    by (simp add: running_ok_def members_def)
  then show ?thesis by (simp add: run_phase2_ready_def wait_ready_ok send_outgoing_ok)
qed

lemma ceremony_participant_ok:
  assumes "ceremony_participant X L H config ts disk = Some (Inr (disk1, p, restored))" and "dkg_check_ok L"
  shows "running_ok X L config (disk1, p, [])"
proof -
  have "try_restore X L H config ts disk = Some (Inr (disk1, Some p)) \<or> participant_new X L config ts = Inr p"
    using assms(1) by (auto simp: ceremony_participant_def split: option.splits sum.splits)
  then show ?thesis by (auto simp: running_ok_def dest: participant_new_inv try_restore_inv [OF _ assms(2)])
qed

lemma run_phases_finalizes:
  assumes "run_phases X L H env restored s = (s', Inr out)" and "running_ok X L config s"
    and "dkg_check_ok L" and "my_public_key L config \<in> set (dc_participants config)"
  shows "\<exists>s1. running_ok X L config s1 \<and> can_finalize (fst (snd s1)) \<and> run_phase5 L H (ce_final_seed env) s1 = (s', Inr out)"
proof -
  obtain a b c d e f g h where
    a: "(if skip_phase1 restored then (s, Inr ()) else run_phase1 L H (ce_deal_seed env) s) = (a, Inr ())" and
    b: "enter_phase L H CollectingMessages a = (b, Inr ())" and
    c: "run_phase2 X L (ce_phase2 env) b = (c, Inr ())" and
    d: "(if skip_phase3 restored then (c, Inr ()) else run_phase2_ready X L (ce_ready env) c) = (d, Inr ())" and
    e: "(if skip_phase3 restored then (d, Inr ()) else then_run (run_phase3 L d) (enter_phase L H DealerFinalized)) = (e, Inr ())" and
    f: "enter_phase L H CollectingLogs e = (f, Inr ())" and
    g: "run_phase4 X L (ce_phase4 env) f = (g, Inr ())" and
    h: "save_running L H g = (h, Inr ())" and
    r: "run_phase5 L H (ce_final_seed env) h = (s', Inr out)"
    using assms(1) unfolding run_phases_def then_run_Inr by (elim exE conjE)
  have "running_ok X L config a"
    using a assms(2) run_phase1_ok [OF assms(2,4), of H "ce_deal_seed env"] by (auto split: if_splits)
  then have "running_ok X L config b" using enter_phase_ok b by (metis fst_conv)
  then have "running_ok X L config c" using run_phase2_ok c by (metis fst_conv)
  then have d': "running_ok X L config d"
    using d run_phase2_ready_ok [OF _ assms(4), of X c "ce_ready env"] by (auto split: if_splits)
  have "running_ok X L config e"
  proof (cases "skip_phase3 restored")
    case False
    have "running_ok X L config (fst (then_run (run_phase3 L d) (enter_phase L H DealerFinalized)))"
      by (rule then_run_ok [OF run_phase3_ok [OF d' assms(3)]]) (rule enter_phase_ok)
    then show ?thesis using e False by simp
  qed (use d' e in simp)
  then have "running_ok X L config f" using enter_phase_ok f by (metis fst_conv)
  then have g': "running_ok X L config g" "can_finalize (fst (snd g))"
    using run_phase4_ok [of X L config f "ce_phase4 env"] g by auto
  then show ?thesis
    using save_running_ok [OF g'(1), of H] save_running_participant [of L H g] h r by (intro exI [of _ h]) auto
qed

text \<open>
  C18: a ceremony that succeeds, on a disk without an earlier output (which would only be loaded), has combined the
  verified logs of all participants: the output is what the player computes from one checked log per member. Afterwards the disk holds the output, which loads as
  it was returned, and no intermediate state.
\<close>

theorem ceremony_output_complete:
  assumes "ceremony_run X L H env force config disk = Some (disk', sent, Inr out)" and "\<not> output_exists disk"
    and "dkg_check_ok L" and "my_public_key L config \<in> set (dc_participants config)" and "hex_ok H"
  shows "(\<exists>p player combined share. dkg_inv X L p \<and> dp_config p = config \<and>
      fst ` set (dp_dealer_logs p) = set (dc_participants config) \<and>
      dl_player_finalize L (ce_final_seed env) player (dp_info p) (dp_dealer_logs p) = Inr (combined, share) \<and>
      do_group_public_key out = dl_group_key L combined \<and> do_share_secret out = dl_share_bytes L share) \<and>
    do_participants out = dc_n config \<and> output_load L H disk' = Inr out \<and> \<not> state_exists disk'"
proof -
  obtain disk1 disk2 p restored s' where cp: "ceremony_participant X L H config (round_timestamp (ce_now env)) disk1 =
      Some (Inr (disk2, p, restored))"
    and run: "run_phases X L H env restored (disk2, p, []) = (s', Inr out)" "fst s' = disk'"
    using assms(1,2)
    by (auto simp: ceremony_run_def split: if_splits sum.splits option.splits prod.splits)
  obtain s1 where s1: "running_ok X L config s1" "can_finalize (fst (snd s1))"
    "run_phase5 L H (ce_final_seed env) s1 = (s', Inr out)"
    using run_phases_finalizes [OF run(1) ceremony_participant_ok [OF cp assms(3)] assms(3,4)] by blast
  obtain d q sent' where q: "s1 = (d, q, sent')" by (cases s1)
  obtain q1 d1 where fin: "dkg_finalize L (ce_final_seed env) q = (q1, Inr out)"
    and clear: "state_clear d = Inr d1" and save: "output_save H out d1 = Inr disk'"
    using s1(3) run(2) q by (auto simp: run_phase5_def then_run_def split: prod.splits sum.splits)
  obtain player combined share where pl: "dl_player_finalize L (ce_final_seed env) player (dp_info q) (dp_dealer_logs q) = Inr (combined, share)"
    and out: "out = \<lparr>do_group_public_key = dl_group_key L combined, do_public_polynomial = dl_polynomial L combined,
      do_threshold = dc_t L (dp_config q), do_participants = dc_n (dp_config q), do_share_index = dl_share_index L share,
      do_share_secret = dl_share_bytes L share, do_participant_keys = map (dl_write_pk L) (dc_participants (dp_config q))\<rparr>"
    using fin by (auto simp: dkg_finalize_def Let_def split: if_splits option.splits sum.splits prod.splits)
  have q': "dkg_inv X L q" "dp_config q = config" using s1(1) q by (simp_all add: running_ok_def)
  have all: "fst ` set (dp_dealer_logs q) = set (dc_participants config)"
    using dkg_inv_counts(1) [OF q'(1)] s1(2) q q'(2) by (simp add: members_def)
  have ok: "dd_fault d1 = None" using save by (auto simp: output_save_def write_files_def split: option.splits)
  obtain d2 where d2: "output_save H out d1 = Inr d2" "dd_state d2 = dd_state d1"
    "output_load L H d2 = Inr (out\<lparr>do_threshold := dl_quorum L (do_participants out)\<rparr>)"
    using output_saved_loads [OF assms(5) ok] by metis
  have "\<not> state_exists d1"
    using clear by (auto simp: state_clear_def state_exists_def write_files_def split: if_splits option.splits)
  moreover have "out\<lparr>do_threshold := dl_quorum L (do_participants out)\<rparr> = out" using out by (simp add: dc_t_def dc_n_def)
  ultimately show ?thesis using d2 save pl q' all out by (auto simp: state_exists_def)
qed

section \<open>Restarts\<close>

lemma restore_frame [simp]:
  "dp_dealer_pub_msgs (restore_own L H state p) = dp_dealer_pub_msgs p"
  "dp_current_phase (restore_own L H state p) = dp_current_phase p"
  "dp_info (restore_own L H state p) = dp_info p" "dp_config (restore_own L H state p) = dp_config p"
  "dp_session (restore_own L H state p) = dp_session p" "dp_dealer (restore_own L H state p) = dp_dealer p"
  "dp_acks_sent (restore_own L H state p) = dp_acks_sent p"
  by (auto simp: restore_own_def record_log_def split: option.splits)

lemma restore_received_frame [simp]:
  "dp_dealer_pub_msgs (restore_received L H state p) = dp_dealer_pub_msgs p"
  "dp_current_phase (restore_received L H state p) = dp_current_phase p"
  "dp_session (restore_received L H state p) = dp_session p" "dp_dealer (restore_received L H state p) = dp_dealer p"
  "dp_acks_sent (restore_received L H state p) = dp_acks_sent p"
  "dp_our_signed_log (restore_received L H state p) = dp_our_signed_log p"
proof -
  let ?f = "\<lambda>(pk_hex, log_bytes) p. case restore_log L log_bytes p of None \<Rightarrow> p
      | Some (dealer_pk, dealer_log, log) \<Rightarrow> record_log dealer_pk dealer_log log p"
  have "dp_dealer_pub_msgs (fold ?f ls p) = dp_dealer_pub_msgs p \<and> dp_current_phase (fold ?f ls p) = dp_current_phase p \<and>
      dp_session (fold ?f ls p) = dp_session p \<and> dp_dealer (fold ?f ls p) = dp_dealer p \<and>
      dp_acks_sent (fold ?f ls p) = dp_acks_sent p \<and> dp_our_signed_log (fold ?f ls p) = dp_our_signed_log p" for ls
    by (induction ls arbitrary: p) (auto simp: record_log_def split: option.splits)
  note frame = this [of "get_received_logs H state", folded restore_received_def]
  show "dp_dealer_pub_msgs (restore_received L H state p) = dp_dealer_pub_msgs p"
    "dp_current_phase (restore_received L H state p) = dp_current_phase p"
    "dp_session (restore_received L H state p) = dp_session p" "dp_dealer (restore_received L H state p) = dp_dealer p"
    "dp_acks_sent (restore_received L H state p) = dp_acks_sent p"
    "dp_our_signed_log (restore_received L H state p) = dp_our_signed_log p"
    using frame by blast+
qed

text \<open>The own public message never comes from another participant.\<close>

lemma handle_message_bytes_own:
  assumes "sender \<noteq> me" and "bt_get (dp_dealer_pub_msgs p) me = None"
  shows "bt_get (dp_dealer_pub_msgs (fst (handle_message_bytes X L sender bytes p))) me = None"
proof -
  have kind: "bt_get (dp_dealer_pub_msgs (fst (handle_kind L sender kind q))) me = None"
    if "bt_get (dp_dealer_pub_msgs q) me = None" for kind q
    using that assms(1)
  proof (cases kind)
    case (DealerPrivate dealer msg)
    then show ?thesis using that by (auto split: option.splits)
  qed (auto simp: handle_dealer_log_def Let_def dealer_error_None split: option.splits)
  show ?thesis
    using assms(2) kind by (auto simp: handle_message_bytes_def handle_message_def Let_def split: sum.splits option.splits)
qed

definition foreign :: "PublicKey \<Rightarrow> envelope list list \<Rightarrow> bool" where
  "foreign me batches \<longleftrightarrow> list_all (list_all (\<lambda>(sender, payload). sender \<noteq> me)) batches"

lemma receive_and_process_own:
  assumes "list_all (\<lambda>(sender, payload). sender \<noteq> me) batch" and "bt_get (dp_dealer_pub_msgs p) me = None"
  shows "bt_get (dp_dealer_pub_msgs (receive_and_process X L batch p)) me = None"
  using assms
proof (induction batch arbitrary: p)
  case (Cons e batch)
  obtain sender payload where e: "e = (sender, payload)" by (cases e)
  have "bt_get (dp_dealer_pub_msgs (fst (handle_message_bytes X L sender payload p))) me = None"
    using Cons(2,3) e by (intro handle_message_bytes_own) auto
  then show ?case using Cons(1) [of "fst (handle_message_bytes X L sender payload p)"] Cons(2) e
    by (simp add: receive_and_process_def)
qed (simp add: receive_and_process_def)

lemma run_phase2_stuck:
  assumes "foreign me batches" and "running_ok X L config s" and "me \<in> set (dc_participants config)"
    and "bt_get (dp_dealer_pub_msgs (fst (snd s))) me = None"
  shows "snd (run_phase2 X L batches s) = Inl DkgTimeout"
  using assms
proof (induction batches arbitrary: s)
  case (Cons batch batches)
  let ?s = "poll_turn X L batch s"
  obtain disk p sent where s: "s = (disk, p, sent)" by (cases s)
  have ok: "running_ok X L config ?s" by (rule poll_turn_ok [OF Cons(3)])
  have own: "bt_get (dp_dealer_pub_msgs (fst (snd ?s))) me = None"
    using receive_and_process_own [of me batch p X L] Cons(2,5) s
    by (simp add: foreign_def poll_turn_def send_outgoing_def take_outgoing_def)
  then have "me \<notin> fst ` set (dp_dealer_pub_msgs (fst (snd ?s)))" by (auto simp: map_of_eq_None_iff)
  then have "\<not> received_all_dealer_messages (fst (snd ?s))"
    using dkg_inv_counts(3) [of X L "fst (snd ?s)"] ok Cons(4) by (auto simp: running_ok_def members_def)
  then have "\<not> required_dealer_logs (fst (snd ?s)) \<le> received_dealer_count (fst (snd ?s))"
    by (simp add: received_all_dealer_messages_def required_dealer_logs_def)
  then show ?case using Cons(1) [OF _ ok Cons(4) own] Cons(2) by (simp add: Let_def foreign_def)
qed simp

text \<open>
  C19: a ceremony that is restored after its dealer had started never finishes. The dealer's own messages are
  not part of the saved state and are only made in the first phase, which is skipped, while the second phase waits for
  the messages of every participant, its own included: it times out whatever the others send.
\<close>

theorem restored_ceremony_times_out:
  assumes "try_restore X L H config (round_timestamp (ce_now env)) disk = Some (Inr (disk', Some p))"
    and "skip_phase1 (Some (dp_current_phase p))" and "\<not> output_exists disk" and "ce_bind env = None"
    and "foreign (my_public_key L config) (ce_phase2 env)" and "my_public_key L config \<in> set (dc_participants config)"
    and "dkg_check_ok L"
  shows "\<exists>disk'' sent. ceremony_run X L H env False config disk = Some (disk'', sent, Inl DkgTimeout)"
proof -
  let ?s = "(disk', p, [])"
  have ok: "running_ok X L config ?s" using try_restore_inv [OF assms(1,7)] by (simp add: running_ok_def)
  obtain state p0 where r: "disk' = disk" "state_load disk = Inr state"
    "participant_new X L config (round_timestamp (ce_now env)) = Inr p0"
    "p = restore_received L H state (restore_own L H state (p0\<lparr>dp_current_phase := pd_phase state\<rparr>))"
    using assms(1) by (rule try_restoreE)
  have pub: "dp_dealer_pub_msgs p = []"
    using r(3,4) by (auto simp: participant_new_def split: if_splits sum.splits)
  have fault: "dd_fault disk' = None"
    using r(1,2) by (auto simp: state_load_def read_file_def split: option.splits)
  obtain b where b: "enter_phase L H CollectingMessages ?s = (b, Inr ())" "dp_dealer_pub_msgs (fst (snd b)) = []"
    using fault pub by (simp add: enter_phase_def save_running_def save_state_def state_save_def write_files_def set_phase_def)
  have "running_ok X L config b" using enter_phase_ok [OF ok, of H CollectingMessages] b(1) by simp
  then have "snd (run_phase2 X L (ce_phase2 env) b) = Inl DkgTimeout"
    by (intro run_phase2_stuck [OF assms(5) _ assms(6)]) (simp_all add: b(2))
  then obtain c where c: "run_phase2 X L (ce_phase2 env) b = (c, Inl DkgTimeout)" by (metis prod.collapse)
  have "run_phases X L H env (Some (dp_current_phase p)) ?s = (c, Inl DkgTimeout)"
    unfolding run_phases_def using assms(2) by (simp add: then_run_def b(1) c)
  then show ?thesis
    using assms(1,3,4) by (cases c) (simp add: ceremony_run_def ceremony_participant_def)
qed

section \<open>What a restart keeps\<close>

lemma fold_add_received:
  "fold (\<lambda>(pk, log). add_received_log H (h pk) (w log)) es st =
     st\<lparr>pd_received_logs := fold (\<lambda>(k, v). bt_insert k v) (map (\<lambda>(pk, log). (h pk, hx_encode H (w log))) es) (pd_received_logs st)\<rparr>"
  by (induction es arbitrary: st) (auto simp: add_received_log_def)

lemma persisted_of_simps:
  "pd_phase (persisted_of L H p) = dp_current_phase p"
  "pd_session (persisted_of L H p) = serialize_session H (dp_session p)"
  "pd_dealer_finalized (persisted_of L H p) \<longleftrightarrow> dp_our_signed_log p \<noteq> None"
  "pd_our_signed_log (persisted_of L H p) = map_option (\<lambda>log. hx_encode H (dl_write_log L log)) (dp_our_signed_log p)"
  "pd_received_logs (persisted_of L H p) = fold (\<lambda>(k, v). bt_insert k v)
     (map (\<lambda>(pk, log). (hx_encode H (to_be_bytes 32 pk), hx_encode H (dl_write_log L log))) (dp_signed_logs p)) []"
  by (auto simp: persisted_of_def Let_def fold_add_received persisted_new_def set_our_signed_log_def split: option.splits)

lemma received_roundtrip:
  assumes "hex_ok H" and "distinct (map fst (dp_signed_logs p))"
  shows "set (get_received_logs H (persisted_of L H p)) =
    (\<lambda>(pk, log). (hx_encode H (to_be_bytes 32 pk), dl_write_log L log)) ` set (dp_signed_logs p)"
proof -
  let ?es = "map (\<lambda>(pk, log). (hx_encode H (to_be_bytes 32 pk), hx_encode H (dl_write_log L log))) (dp_signed_logs p)"
  let ?m = "fold (\<lambda>(k, v). bt_insert k v) ?es []"
  have "map fst ?es = map (\<lambda>pk. hx_encode H (to_be_bytes 32 pk)) (map fst (dp_signed_logs p))" by (auto simp: case_prod_unfold)
  moreover have "inj (\<lambda>pk :: PublicKey. hx_encode H (to_be_bytes 32 pk))"
    by (intro injI) (simp add: hex_encode_inj [OF assms(1)] to_be_bytes_inj)
  ultimately have d: "distinct (map fst ?es)" using assms(2) by (metis distinct_map inj_on_subset subset_UNIV)
  have "map_of ?m = map_of ?es" by (rule ext) (simp add: map_of_fold_bt_insert [OF d] split: option.splits)
  moreover have "distinct (map fst ?m)" using bt_wf_fold_insert [of "[]" ?es] by (intro bt_wf_distinct) simp
  ultimately have m: "set ?m = set ?es" using d map_of_inject_set by blast
  have "set (get_received_logs H (persisted_of L H p)) =
      (\<Union>(k, v) \<in> set ?m. set (case hx_decode H v of Inl _ \<Rightarrow> [] | Inr bytes \<Rightarrow> [(k, bytes)]))"
    unfolding get_received_logs_def persisted_of_simps set_concat set_map [where xs = ?m] image_image
    by (simp only: case_prod_unfold)
  also have "\<dots> = (\<Union>(k, v) \<in> set ?es. set (case hx_decode H v of Inl _ \<Rightarrow> [] | Inr bytes \<Rightarrow> [(k, bytes)]))" unfolding m ..
  also have "\<dots> = (\<lambda>(pk, log). (hx_encode H (to_be_bytes 32 pk), dl_write_log L log)) ` set (dp_signed_logs p)"
    by (auto simp: hex_okD [OF assms(1)])
  finally show ?thesis .
qed

text \<open>Restoring from a list of encoded entries of a map \<open>S\<close> of signed logs with the checked logs \<open>D\<close>.\<close>

lemma restore_fold:
  assumes "set ls \<subseteq> (\<lambda>(pk, log). (h pk, dl_write_log L log)) ` set S" and "distinct (map fst S)" and "inj h"
    and "\<And>pk log r. (pk, log) \<in> set S \<Longrightarrow> dp_info r = info \<Longrightarrow> dp_config r = config \<Longrightarrow>
      \<exists>dl. bt_get D pk = Some dl \<and> restore_log L (dl_write_log L log) r = (if K log then Some (pk, dl, log) else None)"
    and "dp_info p = info" "dp_config p = config"
  shows "let q = fold (\<lambda>(pk_hex, log_bytes) p. case restore_log L log_bytes p of None \<Rightarrow> p
        | Some (dealer_pk, dealer_log, log) \<Rightarrow> record_log dealer_pk dealer_log log p) ls p
    in \<forall>pk. bt_get (dp_signed_logs q) pk =
          (if h pk \<in> fst ` set ls \<and> (\<exists>log. bt_get S pk = Some log \<and> K log) then bt_get S pk else bt_get (dp_signed_logs p) pk) \<and>
        bt_get (dp_dealer_logs q) pk =
          (if h pk \<in> fst ` set ls \<and> (\<exists>log. bt_get S pk = Some log \<and> K log) then bt_get D pk else bt_get (dp_dealer_logs p) pk)"
  using assms(1,5,6)
proof (induction ls arbitrary: p)
  case (Cons e ls)
  obtain pk log where e: "e = (h pk, dl_write_log L log)" "(pk, log) \<in> set S" using Cons(2) by auto
  obtain dl where dl: "bt_get D pk = Some dl" "restore_log L (dl_write_log L log) p = (if K log then Some (pk, dl, log) else None)"
    using assms(4) [OF e(2) Cons(3,4)] by blast
  have s: "bt_get S pk = Some log" using e(2) assms(2) by simp
  have hh: "h a = h b \<longleftrightarrow> a = b" for a b using assms(3) by (auto dest: injD)
  show ?case
  proof (cases "K log")
    case True
    from Cons(1) [of "record_log pk dl log p"] Cons(2,3,4) True show ?thesis
      by (auto simp: e(1) dl Let_def s record_log_def hh)
  next
    case False
    from Cons(1) [of p] Cons(2,3,4) False show ?thesis by (auto simp: e(1) dl Let_def s hh)
  qed
qed simp

lemma restored_wf:
  assumes "bt_wf (dp_signed_logs p)" and "bt_wf (dp_dealer_logs p)"
  shows "bt_wf (dp_signed_logs (restore_own L H state p)) \<and> bt_wf (dp_dealer_logs (restore_own L H state p))"
    and "bt_wf (dp_signed_logs (restore_received L H state p)) \<and> bt_wf (dp_dealer_logs (restore_received L H state p))"
proof -
  show "bt_wf (dp_signed_logs (restore_own L H state p)) \<and> bt_wf (dp_dealer_logs (restore_own L H state p))"
    using assms by (auto simp: restore_own_def record_log_def split: option.splits)
  let ?f = "\<lambda>(pk_hex, log_bytes) p. case restore_log L log_bytes p of None \<Rightarrow> p
      | Some (dealer_pk, dealer_log, log) \<Rightarrow> record_log dealer_pk dealer_log log p"
  have "bt_wf (dp_signed_logs (fold ?f ls p)) \<and> bt_wf (dp_dealer_logs (fold ?f ls p))" for ls
    using assms
  proof (induction ls arbitrary: p)
    case (Cons e ls)
    have "bt_wf (dp_signed_logs (?f e p)) \<and> bt_wf (dp_dealer_logs (?f e p))"
      using Cons(2,3) by (cases e) (simp add: record_log_def bt_wf_insert split: option.splits)
    with Cons(1) [of "?f e p"] show ?case by simp
  qed simp
  then show "bt_wf (dp_signed_logs (restore_received L H state p)) \<and> bt_wf (dp_dealer_logs (restore_received L H state p))"
    unfolding restore_received_def .
qed

text \<open>
  Live messages are decoded with the number of participants as bound, stored logs with the quorum. A log survives
  when it decodes at the smaller bound; the codec returns an encoded log as it was or an error.
\<close>

definition log_kept :: "'v dkg_lib \<Rightarrow> 'v DkgConfig \<Rightarrow> 'v \<Rightarrow> bool" where
  "log_kept L config log \<longleftrightarrow> (\<exists>rest. dl_read_log L (dc_t L config) (dl_write_log L log) = Inr (log, rest))"

definition log_codec_ok :: "'v dkg_lib \<Rightarrow> 'v DkgConfig \<Rightarrow> bool" where
  "log_codec_ok L config \<longleftrightarrow>
     (\<forall>log. case dl_read_log L (dc_t L config) (dl_write_log L log) of Inl _ \<Rightarrow> True | Inr (log', _) \<Rightarrow> log' = log)"

definition kept_logs :: "'v dkg_lib \<Rightarrow> 'v DkgParticipant \<Rightarrow> (PublicKey, 'v) btree_map" where
  "kept_logs L p = filter (\<lambda>(pk, log). log_kept L (dp_config p) log) (dp_signed_logs p)"

definition kept_dealer_logs :: "'v dkg_lib \<Rightarrow> 'v DkgParticipant \<Rightarrow> (PublicKey, 'v) btree_map" where
  "kept_dealer_logs L p = filter (\<lambda>(pk, dl). pk \<in> fst ` set (kept_logs L p)) (dp_dealer_logs p)"

lemma bt_wf_filter: "bt_wf m \<Longrightarrow> bt_wf (filter P m)"
  by (simp add: sorted_wrt_map sorted_wrt_filter)

lemma map_of_filter: "distinct (map fst m) \<Longrightarrow>
    map_of (filter (\<lambda>(k, v). P k v) m) k = (case map_of m k of None \<Rightarrow> None | Some v \<Rightarrow> if P k v then Some v else None)"
  by (induction m) (auto split: option.splits simp: map_of_eq_None_iff dest: map_of_SomeD intro: rev_image_eqI)

lemma kept_logs_get:
  assumes "dkg_inv X L p"
  shows "bt_wf (kept_logs L p)" and "bt_wf (kept_dealer_logs L p)"
    and "bt_get (kept_logs L p) pk =
      (case bt_get (dp_signed_logs p) pk of None \<Rightarrow> None | Some log \<Rightarrow> if log_kept L (dp_config p) log then Some log else None)"
    and "bt_get (kept_dealer_logs L p) pk = (if bt_get (kept_logs L p) pk = None then None else bt_get (dp_dealer_logs p) pk)"
proof -
  have wf: "bt_wf (dp_signed_logs p)" "bt_wf (dp_dealer_logs p)" using assms by (simp_all add: dkg_inv_def logs_ok_def)
  show "bt_wf (kept_logs L p)" "bt_wf (kept_dealer_logs L p)"
    using wf by (simp_all add: kept_logs_def kept_dealer_logs_def bt_wf_filter)
  show "bt_get (kept_logs L p) pk =
      (case bt_get (dp_signed_logs p) pk of None \<Rightarrow> None | Some log \<Rightarrow> if log_kept L (dp_config p) log then Some log else None)"
    unfolding kept_logs_def by (rule map_of_filter [OF bt_wf_distinct [OF wf(1)]])
  show "bt_get (kept_dealer_logs L p) pk = (if bt_get (kept_logs L p) pk = None then None else bt_get (dp_dealer_logs p) pk)"
    unfolding kept_dealer_logs_def map_of_filter [OF bt_wf_distinct [OF wf(2)]] map_of_eq_None_iff
    by (simp split: option.split)
qed

lemma signed_log_restores:
  assumes "dkg_inv X L p" and "log_codec_ok L (dp_config p)" and "(pk, log) \<in> set (dp_signed_logs p)"
    and "dp_info r = dp_info p" and "dp_config r = dp_config p"
  shows "\<exists>dl. bt_get (dp_dealer_logs p) pk = Some dl \<and>
    restore_log L (dl_write_log L log) r = (if log_kept L (dp_config p) log then Some (pk, dl, log) else None)"
proof -
  have "bt_get (dp_signed_logs p) pk = Some log" using assms(1,3) by (simp add: dkg_inv_def logs_ok_def bt_wf_distinct)
  then obtain dl where "bt_get (dp_dealer_logs p) pk = Some dl" "dl_check L log (dp_info p) = Some (pk, dl)"
    using assms(1) unfolding dkg_inv_def logs_ok_def by blast
  moreover have "case dl_read_log L (dc_t L (dp_config p)) (dl_write_log L log) of Inl _ \<Rightarrow> True | Inr (log', _) \<Rightarrow> log' = log"
    using assms(2) by (simp add: log_codec_ok_def)
  ultimately show ?thesis using assms(4,5) by (auto simp: restore_log_def log_kept_def split: sum.splits)
qed

text \<open>The own log of a participant is one of those it has collected.\<close>

definition own_log_ok :: "'v DkgParticipant \<Rightarrow> bool" where
  "own_log_ok p \<longleftrightarrow>
     (\<forall>pk. bt_get (dp_dealer_logs p) pk = None \<longrightarrow> bt_get (dp_signed_logs p) pk = None) \<and>
     (\<forall>log. dp_our_signed_log p = Some log \<longrightarrow> (\<exists>pk. bt_get (dp_signed_logs p) pk = Some log))"

lemma own_log_cong:
  "dp_dealer_logs q = dp_dealer_logs p \<Longrightarrow> dp_signed_logs q = dp_signed_logs p \<Longrightarrow>
     dp_our_signed_log q = dp_our_signed_log p \<Longrightarrow> own_log_ok q = own_log_ok p"
  by (simp add: own_log_ok_def)

lemma own_log_record: "own_log_ok p \<Longrightarrow> bt_get (dp_dealer_logs p) pk = None \<Longrightarrow> own_log_ok (record_log pk dl log p)"
  by (auto simp: own_log_ok_def record_log_def) (metis option.distinct(1))

lemma own_log_merge: "own_log_ok p \<Longrightarrow> own_log_ok (merge_logs L logs p)"
  by (induction L logs p rule: merge_logs.induct) (auto simp: own_log_record split: option.splits)

lemma own_log_try [simp]: "own_log_ok (try_process_dealer_messages L d p) = own_log_ok p"
  by (rule own_log_cong) (auto simp: try_process_dealer_messages_def Let_def split: option.splits prod.splits)

lemma own_log_update [simp]:
  "own_log_ok (push_out t k p) = own_log_ok p" "own_log_ok (p\<lparr>dp_dealer_pub_msgs := m\<rparr>) = own_log_ok p"
  "own_log_ok (p\<lparr>dp_dealer_priv_msgs := m\<rparr>) = own_log_ok p" "own_log_ok (p\<lparr>dp_dealer := d\<rparr>) = own_log_ok p"
  "own_log_ok (p\<lparr>dp_ready_players := rs\<rparr>) = own_log_ok p" "own_log_ok (p\<lparr>dp_seen_messages := ms\<rparr>) = own_log_ok p"
  "own_log_ok (p\<lparr>dp_sent_ready := b\<rparr>) = own_log_ok p" "own_log_ok (p\<lparr>dp_player := l\<rparr>) = own_log_ok p"
  "own_log_ok (p\<lparr>dp_finalized := b\<rparr>) = own_log_ok p" "own_log_ok (p\<lparr>dp_outgoing := ms'\<rparr>) = own_log_ok p"
  "own_log_ok (p\<lparr>dp_current_phase := ph\<rparr>) = own_log_ok p"
  by (simp_all add: own_log_ok_def)

lemma own_log_deal_share [simp]: "own_log_ok (deal_share L e p) = own_log_ok p"
  by (cases e) (simp add: deal_share_def Let_def)

lemma own_log_deal [simp]: "own_log_ok (fold (deal_share L) shares p) = own_log_ok p"
  by (induction shares arbitrary: p) simp_all

lemma own_log_kind: "own_log_ok p \<Longrightarrow> own_log_ok (fst (handle_kind L sender kind p))"
  by (cases kind) (auto simp: handle_dealer_log_def Let_def own_log_record own_log_merge split: option.splits)

lemma own_log_finalize: "own_log_ok p \<Longrightarrow> own_log_ok (fst (finalize_dealer L p))"
  by (auto simp: finalize_dealer_def Let_def split: option.splits) (auto simp: own_log_ok_def record_log_def)

lemma own_log_apply: "own_log_ok p \<Longrightarrow> own_log_ok (dkg_apply X L e p)"
  by (cases e)
    (auto simp: start_dealer_def handle_message_bytes_def handle_message_def broadcast_ready_def dkg_finalize_def take_outgoing_def
      set_phase_def Let_def own_log_kind own_log_finalize split: sum.splits option.splits prod.splits)

lemma own_log_run:
  assumes "participant_new X L config ts = Inr p0"
  shows "own_log_ok (fold (dkg_apply X L) events p0)"
proof -
  have "own_log_ok p0" using assms by (auto simp: participant_new_def own_log_ok_def split: if_splits sum.splits)
  then show ?thesis by (induction events arbitrary: p0) (simp_all add: own_log_apply)
qed

definition kept_own :: "'v dkg_lib \<Rightarrow> 'v DkgParticipant \<Rightarrow> 'v option" where
  "kept_own L p =
     (case dp_our_signed_log p of None \<Rightarrow> None | Some log \<Rightarrow> if log_kept L (dp_config p) log then Some log else None)"

lemma restore_own_agrees:
  assumes "dkg_inv X L p" and "log_codec_ok L (dp_config p)" and "own_log_ok p" and "hex_ok H"
    and "dp_info r = dp_info p" and "dp_config r = dp_config p"
    and "dp_signed_logs r = []" and "dp_dealer_logs r = []" and "dp_our_signed_log r = None"
  shows "dp_our_signed_log (restore_own L H (persisted_of L H p) r) = kept_own L p \<and>
    map_of (dp_signed_logs (restore_own L H (persisted_of L H p) r)) \<subseteq>\<^sub>m map_of (kept_logs L p) \<and>
    map_of (dp_dealer_logs (restore_own L H (persisted_of L H p) r)) \<subseteq>\<^sub>m map_of (kept_dealer_logs L p)"
proof (cases "dp_our_signed_log p")
  case (Some log)
  then obtain pk where pk: "bt_get (dp_signed_logs p) pk = Some log" using assms(3) by (auto simp: own_log_ok_def)
  obtain dl where dl: "bt_get (dp_dealer_logs p) pk = Some dl"
    "restore_log L (dl_write_log L log) r = (if log_kept L (dp_config p) log then Some (pk, dl, log) else None)"
    using signed_log_restores [OF assms(1,2) map_of_SomeD [OF pk] assms(5,6)] by blast
  then have own: "restore_own L H (persisted_of L H p) r =
      (if log_kept L (dp_config p) log then (record_log pk dl log r)\<lparr>dp_our_signed_log := Some log\<rparr> else r)"
    by (simp add: restore_own_def persisted_of_simps get_our_signed_log_def Some hex_okD [OF assms(4)])
  show ?thesis
  proof (cases "log_kept L (dp_config p) log")
    case True
    then have "bt_get (kept_logs L p) pk = Some log" "bt_get (kept_dealer_logs L p) pk = Some dl"
      using pk dl(1) by (simp_all add: kept_logs_get(3,4) [OF assms(1)])
    then show ?thesis using True Some assms(7,8) by (simp add: own record_log_def map_le_def kept_own_def)
  qed (use Some assms(7-9) in \<open>simp add: own kept_own_def\<close>)
qed (simp add: restore_own_def persisted_of_simps assms kept_own_def)

lemma restore_received_agrees:
  assumes "dkg_inv X L p" and "log_codec_ok L (dp_config p)" and "hex_ok H"
    and "dp_info r = dp_info p" and "dp_config r = dp_config p"
    and "map_of (dp_signed_logs r) \<subseteq>\<^sub>m map_of (kept_logs L p)" and "map_of (dp_dealer_logs r) \<subseteq>\<^sub>m map_of (kept_dealer_logs L p)"
    and "bt_wf (dp_signed_logs r)" and "bt_wf (dp_dealer_logs r)"
  shows "dp_signed_logs (restore_received L H (persisted_of L H p) r) = kept_logs L p \<and>
    dp_dealer_logs (restore_received L H (persisted_of L H p) r) = kept_dealer_logs L p"
proof -
  let ?h = "\<lambda>pk :: PublicKey. hx_encode H (to_be_bytes 32 pk)" and ?q = "restore_received L H (persisted_of L H p) r"
  let ?K = "log_kept L (dp_config p)"
  have wf: "distinct (map fst (dp_signed_logs p))" using assms(1) by (simp add: dkg_inv_def logs_ok_def bt_wf_distinct)
  have ls: "set (get_received_logs H (persisted_of L H p)) = (\<lambda>(pk, log). (?h pk, dl_write_log L log)) ` set (dp_signed_logs p)"
    by (rule received_roundtrip [OF assms(3) wf])
  have inj: "inj ?h" by (intro injI) (simp add: hex_encode_inj [OF assms(3)] to_be_bytes_inj)
  have got: "?h pk \<in> fst ` set (get_received_logs H (persisted_of L H p)) \<longleftrightarrow> bt_get (dp_signed_logs p) pk \<noteq> None" for pk
  proof -
    have "fst ` set (get_received_logs H (persisted_of L H p)) = ?h ` fst ` set (dp_signed_logs p)"
      unfolding ls image_image by (simp add: case_prod_unfold)
    then show ?thesis by (simp only: inj_image_mem_iff [OF inj] map_of_eq_None_iff not_not)
  qed
  have absent: "f k = None" if "f \<subseteq>\<^sub>m g" "g k = None" for f g :: "PublicKey \<Rightarrow> 'a option" and k
    using that by (metis domIff map_le_def)
  have fold: "bt_get (dp_signed_logs ?q) pk =
        (if ?h pk \<in> fst ` set (get_received_logs H (persisted_of L H p)) \<and> (\<exists>log. bt_get (dp_signed_logs p) pk = Some log \<and> ?K log)
         then bt_get (dp_signed_logs p) pk else bt_get (dp_signed_logs r) pk) \<and>
      bt_get (dp_dealer_logs ?q) pk =
        (if ?h pk \<in> fst ` set (get_received_logs H (persisted_of L H p)) \<and> (\<exists>log. bt_get (dp_signed_logs p) pk = Some log \<and> ?K log)
         then bt_get (dp_dealer_logs p) pk else bt_get (dp_dealer_logs r) pk)" for pk
    unfolding restore_received_def
    by (rule restore_fold [OF equalityD1 [OF ls] wf inj signed_log_restores [OF assms(1,2)] assms(4,5), unfolded Let_def, rule_format])
  note get = kept_logs_get(3,4) [OF assms(1)]
  have "bt_get (dp_signed_logs ?q) pk = bt_get (kept_logs L p) pk \<and> bt_get (dp_dealer_logs ?q) pk = bt_get (kept_dealer_logs L p) pk" for pk
  proof (cases "\<exists>log. bt_get (dp_signed_logs p) pk = Some log \<and> ?K log")
    case True
    then obtain log where "bt_get (dp_signed_logs p) pk = Some log" "?K log" by blast
    then show ?thesis using fold [of pk] got [of pk] get [of pk] by simp
  next
    case False
    then have "bt_get (kept_logs L p) pk = None" using get(1) [of pk] by (auto split: option.splits)
    then show ?thesis using fold [of pk] False get(2) [of pk] absent [OF assms(6), of pk] absent [OF assms(7), of pk] by simp
  qed
  then have "map_of (dp_signed_logs ?q) = map_of (kept_logs L p)" "map_of (dp_dealer_logs ?q) = map_of (kept_dealer_logs L p)"
    by (simp_all add: fun_eq_iff)
  then show ?thesis using bt_wf_ext restored_wf(2) [OF assms(8,9)] kept_logs_get(1,2) [OF assms(1)] by metis
qed

text \<open>
  C20: what a restart keeps. A participant that started fresh, ran any operations and saved its state
  is restored with its session and phase, and with exactly those of its own and its collected logs that still decode. The
  logs were accepted with the number of participants as decoding bound; the restart decodes them with the
  quorum as bound, so one that needs the larger bound is dropped. The dealer, the messages of the other dealers
  and the acknowledgements are gone.
\<close>

theorem state_survives_restart:
  assumes "participant_new X L config ts = Inr p0" and "p = fold (dkg_apply X L) events p0" and "dkg_check_ok L"
    and "my_public_key L config \<in> set (dc_participants config)" and "hex_ok H" and "log_codec_ok L config"
    and "save_state L H p disk = Inr disk'" and "dc_t L config \<noteq> 0"
  shows "\<exists>q. try_restore X L H config (dp_timestamp_nanos p) disk' = Some (Inr (disk', Some q)) \<and>
    dp_session q = dp_session p \<and> dp_current_phase q = dp_current_phase p \<and>
    dp_our_signed_log q = kept_own L p \<and> dp_signed_logs q = kept_logs L p \<and> dp_dealer_logs q = kept_dealer_logs L p \<and>
    dp_dealer q = None \<and> dp_dealer_pub_msgs q = [] \<and> dp_acks_sent q = []"
proof -
  let ?st = "persisted_of L H p" and ?ts = "dp_timestamp_nanos p"
  have inv: "dkg_inv X L p" "dp_config p = config"
    using participant_new_inv [OF assms(1)] dkg_run_inv [OF _ assms(3), of X p0 events] assms(2,4)
    by (simp_all add: members_def)
  have own_ok: "own_log_ok p" unfolding assms(2) by (rule own_log_run [OF assms(1)])
  have codec: "log_codec_ok L (dp_config p)" using assms(6) inv(2) by simp
  have b: "distinct (dc_participants config)" "dl_info L (dc_chain_id config) (dc_participants config) = Inr (dp_info p)"
    "dp_session p = session_new X (dc_chain_id config) (dc_participants config) ?ts"
    using inv by (auto simp: dkg_inv_def bound_ok_def)
  obtain player where "dl_player_new L (dp_info p) (dc_identity_key config) = Inr player"
    using assms(1) b(2) by (auto simp: participant_new_def split: if_splits sum.splits)
  then obtain p1 where p1: "participant_new X L config ?ts = Inr p1" "dp_info p1 = dp_info p" "dp_config p1 = config"
    "dp_session p1 = dp_session p" "dp_signed_logs p1 = []" "dp_dealer_logs p1 = []" "dp_our_signed_log p1 = None"
    "dp_dealer p1 = None" "dp_dealer_pub_msgs p1 = []" "dp_acks_sent p1 = []"
    using b by (simp add: participant_new_def)
  let ?r = "p1\<lparr>dp_current_phase := dp_current_phase p\<rparr>"
  let ?q = "restore_received L H ?st (restore_own L H ?st ?r)"
  have disk': "dd_fault disk' = None" "dd_state disk' = Holds ?st"
    using assms(7) by (auto simp: save_state_def state_save_def write_files_def split: option.splits)
  have res: "try_restore X L H config ?ts disk' = Some (Inr (disk', Some ?q))"
    using disk' p1(1) b(3) assms(8) session_state_roundtrip [OF assms(5)]
    by (simp add: try_restore_def state_exists_def state_load_def read_file_def persisted_session_def persisted_of_simps)
  note own = restore_own_agrees [OF inv(1) codec own_ok assms(5), of ?r]
  have "dp_signed_logs ?q = kept_logs L p \<and> dp_dealer_logs ?q = kept_dealer_logs L p"
    using own restored_wf(1) [of ?r L H ?st] p1 inv(2) by (intro restore_received_agrees [OF inv(1) codec assms(5)]) simp_all
  then show ?thesis using res own p1 inv(2) by simp
qed

section \<open>Instances\<close>

definition sample_dkg_config :: "256 word DkgConfig" where
  "sample_dkg_config = \<lparr>dc_identity_key = 5, dc_validator_index = 0, dc_participants = [5], dc_chain_id = 1\<rparr>"

definition blank_disk :: dkg_disk where
  "blank_disk = \<lparr>dd_state = Absent, dd_output = Absent, dd_share = Absent, dd_fault = None\<rparr>"

definition sample_ceremony_env :: ceremony_env where
  "sample_ceremony_env =
     \<lparr>ce_now = 0, ce_bind = None, ce_deal_seed = 0, ce_final_seed = 0, ce_phase2 = [[]], ce_ready = [[]], ce_phase4 = [([], False)]\<rparr>"

definition sample_participant :: "u64 \<Rightarrow> 256 word DkgParticipant" where
  "sample_participant ts =
     \<lparr>dp_config = sample_dkg_config, dp_info = 0, dp_player = Some 0, dp_dealer = None,
      dp_session = session_new sample_externs 1 [5] ts, dp_seen_messages = [], dp_outgoing = [], dp_dealer_pub_msgs = [],
      dp_dealer_priv_msgs = [], dp_dealer_logs = [], dp_signed_logs = [], dp_our_signed_log = None, dp_finalized = False,
      dp_acks_sent = [], dp_ready_players = [], dp_sent_ready = False, dp_current_phase = AwaitingStart, dp_timestamp_nanos = ts\<rparr>"

lemma sample_participant_new: "participant_new sample_externs sample_dkg sample_dkg_config ts = Inr (sample_participant ts)"
  by (simp add: participant_new_def sample_dkg_def sample_dkg_config_def sample_participant_def)

lemma sample_check_ok: "dkg_check_ok sample_dkg"
  by (auto simp: dkg_check_ok_def sample_dkg_def split: if_splits)

lemma sample_key: "my_public_key sample_dkg sample_dkg_config \<in> set (dc_participants sample_dkg_config)"
  by (simp add: my_public_key_def sample_dkg_def sample_dkg_config_def)

theorem dkg_participant_invariant_witness:
  "dkg_inv sample_externs sample_dkg (fold (dkg_apply sample_externs sample_dkg) [StartDealer 0, BroadcastReady, FinalizeDealer] (sample_participant 0))"
  using dkg_participant_invariant [OF disjI1 [OF sample_participant_new] sample_check_ok sample_key refl] by blast

lemma sample_ceremony:
  "\<exists>disk' sent out. ceremony_run sample_externs sample_dkg sample_hex sample_ceremony_env False sample_dkg_config blank_disk =
     Some (disk', sent, Inr out)"
  by (simp add: ceremony_run_def output_exists_def blank_disk_def sample_ceremony_env_def ceremony_participant_def try_restore_def
      state_exists_def sample_participant_new run_phases_def skip_phase1_def skip_phase3_def)
    (simp add: sample_participant_def then_run_def run_phase1_def start_dealer_def sample_dkg_def sample_dkg_config_def Let_def
      deal_share_def push_out_def my_public_key_def try_process_dealer_messages_def enter_phase_def save_running_def save_state_def
      state_save_def write_files_def set_phase_def send_outgoing_def take_outgoing_def address_message_def poll_turn_def
      receive_and_process_def received_dealer_count_def required_dealer_logs_def acks_sent_count_def dc_n_def run_phase2_ready_def
      broadcast_ready_def all_ready_def ready_count_def run_phase3_def finalize_dealer_def record_log_def can_finalize_def
      run_phase5_def dkg_finalize_def state_clear_def output_save_def)

theorem ceremony_output_complete_witness:
  "\<exists>disk' sent out. ceremony_run sample_externs sample_dkg sample_hex sample_ceremony_env False sample_dkg_config blank_disk =
     Some (disk', sent, Inr out) \<and> do_participants out = 1 \<and> output_load sample_dkg sample_hex disk' = Inr out"
proof -
  obtain disk' sent out where run: "ceremony_run sample_externs sample_dkg sample_hex sample_ceremony_env False sample_dkg_config
      blank_disk = Some (disk', sent, Inr out)" using sample_ceremony by blast
  have "\<not> output_exists blank_disk" by (simp add: output_exists_def blank_disk_def)
  from ceremony_output_complete [OF run this sample_check_ok sample_key sample_hex_ok] run show ?thesis
    by (auto simp: dc_n_def sample_dkg_config_def)
qed

text \<open>The participant after its first phase, with its state on disk.\<close>

definition started_disk :: dkg_disk where
  "started_disk = blank_disk\<lparr>dd_state := Holds (persisted_of sample_dkg sample_hex (set_phase DealerStarted (sample_participant 0)))\<rparr>"

lemma started_restore:
  "\<exists>p. try_restore sample_externs sample_dkg sample_hex sample_dkg_config 0 started_disk = Some (Inr (started_disk, Some p)) \<and>
     dp_current_phase p = DealerStarted"
proof -
  have "persisted_session sample_hex (persisted_of sample_dkg sample_hex (set_phase DealerStarted (sample_participant 0))) =
      Inr (session_new sample_externs 1 [5] 0)"
    by (simp add: persisted_session_def persisted_of_simps session_state_roundtrip [OF sample_hex_ok] set_phase_def sample_participant_def)
  then show ?thesis
    by (simp add: try_restore_def started_disk_def blank_disk_def state_exists_def state_load_def read_file_def sample_participant_new
        reads_log_def persisted_of_simps set_phase_def get_received_logs_def sample_participant_def)
      (simp add: sample_dkg_config_def)
qed

theorem restored_ceremony_times_out_witness:
  "\<exists>disk'' sent. ceremony_run sample_externs sample_dkg sample_hex sample_ceremony_env False sample_dkg_config started_disk =
     Some (disk'', sent, Inl DkgTimeout)"
proof -
  obtain p where p: "try_restore sample_externs sample_dkg sample_hex sample_dkg_config (round_timestamp (ce_now sample_ceremony_env))
      started_disk = Some (Inr (started_disk, Some p))" "dp_current_phase p = DealerStarted"
    using started_restore by (auto simp: round_timestamp_def sample_ceremony_env_def)
  show ?thesis
    by (rule restored_ceremony_times_out [OF p(1) _ _ _ _ sample_key sample_check_ok])
      (simp_all add: p(2) skip_phase1_def output_exists_def started_disk_def blank_disk_def sample_ceremony_env_def foreign_def)
qed

theorem state_survives_restart_witness:
  "let p = fold (dkg_apply sample_externs sample_dkg) [StartDealer 0, FinalizeDealer, SetPhase DealerFinalized] (sample_participant 0);
       disk = blank_disk\<lparr>dd_state := Holds (persisted_of sample_dkg sample_hex p)\<rparr>
   in \<exists>q. try_restore sample_externs sample_dkg sample_hex sample_dkg_config (dp_timestamp_nanos p) disk = Some (Inr (disk, Some q)) \<and>
     dp_current_phase q = DealerFinalized \<and> dp_our_signed_log q = Some 5 \<and> dp_signed_logs q = [(5, 5)] \<and> dp_dealer_logs q = [(5, 0)]"
proof -
  let ?p = "fold (dkg_apply sample_externs sample_dkg) [StartDealer 0, FinalizeDealer, SetPhase DealerFinalized] (sample_participant 0)"
  let ?disk = "blank_disk\<lparr>dd_state := Holds (persisted_of sample_dkg sample_hex ?p)\<rparr>"
  have save: "save_state sample_dkg sample_hex ?p blank_disk = Inr ?disk"
    by (simp add: save_state_def state_save_def write_files_def blank_disk_def)
  have codec: "log_codec_ok sample_dkg sample_dkg_config" "log_kept sample_dkg sample_dkg_config 5"
    by (simp_all add: log_codec_ok_def log_kept_def sample_dkg_def read_fixed_def from_to_be_bytes)
  have p: "dp_signed_logs ?p = [(5, 5)]" "dp_dealer_logs ?p = [(5, 0)]" "dp_our_signed_log ?p = Some 5"
    "dp_current_phase ?p = DealerFinalized" "dp_config ?p = sample_dkg_config"
    by (simp_all add: sample_participant_def start_dealer_def sample_dkg_def sample_dkg_config_def Let_def deal_share_def push_out_def
        my_public_key_def try_process_dealer_messages_def finalize_dealer_def record_log_def set_phase_def)
  have t: "dc_t sample_dkg sample_dkg_config \<noteq> 0" by (simp add: dc_t_def sample_dkg_def sample_dkg_config_def)
  from state_survives_restart [OF sample_participant_new refl sample_check_ok sample_key sample_hex_ok codec(1) save t]
  show ?thesis unfolding Let_def kept_own_def kept_logs_def kept_dealer_logs_def p using codec(2) by auto
qed

end
