(* ===== verification/Spec2Isabelle.thy ===== *)
theory Spec2Isabelle
  imports Kora_Prelude Codec Externs Domain Domain_Events Mempool_Interface Txpool_Ordering Txpool_Types Txpool_Pool Txpool_Invariant Txpool_Operations Txpool_Mempool Txpool_Prune Txpool_Build Txpool_Properties Txpool_Validator Qmdb_Properties Snapshot_Store Ledger_Properties Executor_Properties Finalization_Properties Recovery_Fees Gossip Dkg_Properties
begin
end
